(* ===== verification/GoPrelude.thy ===== *)
theory GoPrelude
  imports Main "HOL-Library.Sublist"
begin

text \<open>
  The prelude of the development: what the modelled code uses of Go's language and standard
  library, with the lemmas every component shares.

  \<^item> Go strings are byte strings, and so is HOL's \<open>string\<close>: a \<open>char\<close> is one byte. The
    functions of package \<open>strings\<close> that the code calls are written over it.
  \<^item> An \<open>error\<close> return is the left summand of a sum, the value the right one.
  \<^item> \<open>int\<close> is unbounded unless the width matters; where it does, \<open>wrap64\<close> is Go's
    wrap-around of a signed 64-bit value.
\<close>

named_theorems go_simps \<open>equations of the string library\<close>
named_theorems go_defs \<open>definitions a component proof unfolds together\<close>

subsection \<open>Errors as values\<close>

text \<open>\<open>x, err := f(); if err != nil { return err }\<close>: the first error is returned.\<close>

fun try_bind :: "'e + 'a \<Rightarrow> ('a \<Rightarrow> 'e + 'b) \<Rightarrow> 'e + 'b" where
  "try_bind (Inl e) f = Inl e"
| "try_bind (Inr x) f = f x"

fun is_ok :: "'e + 'a \<Rightarrow> bool" where
  "is_ok (Inl e) = False"
| "is_ok (Inr x) = True"

lemma try_bind_Inr_iff:
  "try_bind r f = Inr y \<longleftrightarrow> (\<exists>x. r = Inr x \<and> f x = Inr y)"
  by (cases r) auto

lemma try_bind_Inl_iff:
  "try_bind r f = Inl e \<longleftrightarrow> r = Inl e \<or> (\<exists>x. r = Inr x \<and> f x = Inl e)"
  by (cases r) auto

text \<open>The same for a result taken apart in place: what a value in the end says of the checks before it.\<close>

lemma case_Inr_iff:
  "(case r of Inl e \<Rightarrow> Inl (h e) | Inr x \<Rightarrow> f x) = Inr y \<longleftrightarrow> (\<exists>x. r = Inr x \<and> f x = Inr y)"
  by (cases r) auto

lemma case_None_iff:
  "(case c of None \<Rightarrow> f | Some e \<Rightarrow> Inl (h e)) = Inr y \<longleftrightarrow> c = None \<and> f = Inr y"
  by (cases c) auto

lemma if_Inr_iff: "(if b then Inl e else f) = Inr y \<longleftrightarrow> \<not> b \<and> f = Inr y"
  by auto

lemmas result_iffs = try_bind_Inr_iff case_Inr_iff case_None_iff if_Inr_iff

lemma is_ok_iff: "is_ok r \<longleftrightarrow> (\<exists>x. r = Inr x)"
  by (cases r) auto

lemma is_ok_try_bind [simp]:
  "is_ok (try_bind r f) \<longleftrightarrow> (\<exists>x. r = Inr x \<and> is_ok (f x))"
  by (cases r) auto

subsection \<open>Signed 64-bit wrap-around\<close>

definition wrap64 :: "int \<Rightarrow> int" where
  "wrap64 x = (x + 2 ^ 63) mod 2 ^ 64 - 2 ^ 63"

lemma wrap64_id: "- (2 ^ 63) \<le> x \<Longrightarrow> x < 2 ^ 63 \<Longrightarrow> wrap64 x = x"
  by (simp add: wrap64_def)

lemma wrap64_range: "- (2 ^ 63) \<le> wrap64 x \<and> wrap64 x < 2 ^ 63"
proof -
  have "0 \<le> (x + 2 ^ 63) mod 2 ^ 64" "(x + 2 ^ 63) mod 2 ^ 64 < 2 ^ 64"
    by simp_all
  then show ?thesis by (simp add: wrap64_def)
qed

subsection \<open>Prefixes and searching\<close>

text \<open>\<open>strings.HasPrefix\<close>, \<open>strings.TrimPrefix\<close> and \<open>strings.TrimSuffix\<close>.\<close>

fun has_prefix :: "string \<Rightarrow> string \<Rightarrow> bool" where
  "has_prefix s [] = True"
| "has_prefix [] (c # p) = False"
| "has_prefix (d # s) (c # p) = (d = c \<and> has_prefix s p)"

definition trim_prefix :: "string \<Rightarrow> string \<Rightarrow> string" where
  "trim_prefix s p = (if has_prefix s p then drop (length p) s else s)"

definition has_suffix :: "string \<Rightarrow> string \<Rightarrow> bool" where
  "has_suffix s p = has_prefix (rev s) (rev p)"

definition trim_suffix :: "string \<Rightarrow> string \<Rightarrow> string" where
  "trim_suffix s p = (if has_suffix s p then take (length s - length p) s else s)"

lemma has_prefix_iff: "has_prefix s p \<longleftrightarrow> (\<exists>r. s = p @ r)"
  by (induction s p rule: has_prefix.induct) auto

lemma has_prefix_append [simp]: "has_prefix (p @ r) p"
  by (auto simp: has_prefix_iff)

lemma trim_prefix_append [simp]: "trim_prefix (p @ r) p = r"
  by (simp add: trim_prefix_def)

lemma has_suffix_iff: "has_suffix s p \<longleftrightarrow> (\<exists>r. s = r @ p)"
proof -
  have "has_suffix s p \<longleftrightarrow> (\<exists>r. rev s = rev p @ r)"
    by (simp add: has_suffix_def has_prefix_iff)
  also have "\<dots> \<longleftrightarrow> (\<exists>r. s = r @ p)"
    by (metis rev_append rev_rev_ident)
  finally show ?thesis .
qed

lemma trim_suffix_append [simp]: "trim_suffix (r @ p) p = r"
  by (auto simp: trim_suffix_def has_suffix_iff)

lemma has_suffix_single:
  "has_suffix s [c] \<longleftrightarrow> s \<noteq> [] \<and> last s = c"
  by (auto simp: has_suffix_iff) (metis append_butlast_last_id)

text \<open>\<open>strings.Index\<close> (\<open>None\<close> for -1), \<open>strings.IndexByte\<close> and \<open>strings.Contains\<close>.\<close>

fun str_index :: "string \<Rightarrow> string \<Rightarrow> nat option" where
  "str_index s p =
     (if has_prefix s p then Some 0
      else case s of [] \<Rightarrow> None | c # r \<Rightarrow> map_option Suc (str_index r p))"

declare str_index.simps [simp del]

definition str_contains :: "string \<Rightarrow> string \<Rightarrow> bool" where
  "str_contains s p \<longleftrightarrow> str_index s p \<noteq> None"

lemma str_index_Some:
  "str_index s p = Some i \<Longrightarrow> i + length p \<le> length s \<and> has_prefix (drop i s) p"
proof (induction s arbitrary: i)
  case Nil
  then show ?case
    by (subst (asm) str_index.simps) (auto simp: has_prefix_iff split: if_splits)
next
  case (Cons c s)
  show ?case
  proof (cases "has_prefix (c # s) p")
    case True
    with Cons.prems have "i = 0" by (simp add: str_index.simps [of "c # s" p])
    moreover from True obtain r where "c # s = p @ r" by (auto simp: has_prefix_iff)
    then have "length (c # s) = length p + length r" by simp
    ultimately show ?thesis using True by simp
  next
    case False
    with Cons.prems obtain j where "str_index s p = Some j" "i = Suc j"
      by (auto simp: str_index.simps [of "c # s" p])
    with Cons.IH [of j] show ?thesis by simp
  qed
qed

text \<open>The position of the first element with a property: the scans \<open>for i, x := range xs\<close>.\<close>

fun find_index :: "('a \<Rightarrow> bool) \<Rightarrow> 'a list \<Rightarrow> nat option" where
  "find_index P [] = None"
| "find_index P (x # xs) = (if P x then Some 0 else map_option Suc (find_index P xs))"

lemma find_index_SomeD:
  "find_index P xs = Some i \<Longrightarrow> i < length xs \<and> P (xs ! i) \<and> (\<forall>j<i. \<not> P (xs ! j))"
proof (induction xs arbitrary: i)
  case Nil
  then show ?case by simp
next
  case (Cons x xs)
  then show ?case
    by (auto split: if_splits simp: less_Suc_eq_0_disj nth_Cons' dest: Cons.IH)
qed

lemma find_index_None: "find_index P xs = None \<longleftrightarrow> (\<forall>x\<in>set xs. \<not> P x)"
  by (induction xs) auto

subsection \<open>White space\<close>

text \<open>
  \<open>strings.TrimSpace\<close> removes the Unicode white space at both ends of a byte string. Its
  runes are listed by their UTF-8 encodings: the six ASCII ones, U+0085, U+00A0, U+1680,
  U+2000 to U+200A, U+2028, U+2029, U+202F, U+205F and U+3000.
\<close>

definition space_runes :: "string list" where
  "space_runes =
     [[CHR 0x20], [CHR 0x09], [CHR 0x0A], [CHR 0x0B], [CHR 0x0C], [CHR 0x0D],
      [CHR 0xC2, CHR 0x85], [CHR 0xC2, CHR 0xA0], [CHR 0xE1, CHR 0x9A, CHR 0x80],
      [CHR 0xE2, CHR 0x80, CHR 0x80], [CHR 0xE2, CHR 0x80, CHR 0x81],
      [CHR 0xE2, CHR 0x80, CHR 0x82], [CHR 0xE2, CHR 0x80, CHR 0x83],
      [CHR 0xE2, CHR 0x80, CHR 0x84], [CHR 0xE2, CHR 0x80, CHR 0x85],
      [CHR 0xE2, CHR 0x80, CHR 0x86], [CHR 0xE2, CHR 0x80, CHR 0x87],
      [CHR 0xE2, CHR 0x80, CHR 0x88], [CHR 0xE2, CHR 0x80, CHR 0x89],
      [CHR 0xE2, CHR 0x80, CHR 0x8A], [CHR 0xE2, CHR 0x80, CHR 0xA8],
      [CHR 0xE2, CHR 0x80, CHR 0xA9], [CHR 0xE2, CHR 0x80, CHR 0xAF],
      [CHR 0xE2, CHR 0x81, CHR 0x9F], [CHR 0xE3, CHR 0x80, CHR 0x80]]"

text \<open>Strips the listed words from the front of a string while one of them is there.\<close>

function strip_front :: "string list \<Rightarrow> string \<Rightarrow> string" where
  "strip_front ws s =
     (case find (\<lambda>w. w \<noteq> [] \<and> has_prefix s w) ws of
        None \<Rightarrow> s
      | Some w \<Rightarrow> strip_front ws (drop (length w) s))"
  by pat_completeness auto
termination
  by (relation "measure (\<lambda>(ws, s). length s)")
    (auto simp: find_Some_iff has_prefix_iff)

declare strip_front.simps [simp del]

definition trim_left_space :: "string \<Rightarrow> string" where
  "trim_left_space s = strip_front space_runes s"

definition trim_right_space :: "string \<Rightarrow> string" where
  "trim_right_space s = rev (strip_front (map rev space_runes) (rev s))"

definition trim_space :: "string \<Rightarrow> string" where
  "trim_space s = trim_right_space (trim_left_space s)"

text \<open>\<open>strings.TrimRight(s, "c")\<close> for a one-byte cut set.\<close>

definition trim_right_char :: "char \<Rightarrow> string \<Rightarrow> string" where
  "trim_right_char c s = rev (dropWhile (\<lambda>d. d = c) (rev s))"

lemma strip_front_None:
  "find (\<lambda>w. w \<noteq> [] \<and> has_prefix s w) ws = None \<Longrightarrow> strip_front ws s = s"
  by (simp add: strip_front.simps [of ws s])

lemma strip_front_Some:
  "find (\<lambda>w. w \<noteq> [] \<and> has_prefix s w) ws = Some w \<Longrightarrow>
   strip_front ws s = strip_front ws (drop (length w) s)"
  by (simp add: strip_front.simps [of ws s])

lemma strip_front_suffix: "\<exists>r. s = r @ strip_front ws s"
proof (induction ws s rule: strip_front.induct)
  case (1 ws s)
  show ?case
  proof (cases "find (\<lambda>w. w \<noteq> [] \<and> has_prefix s w) ws")
    case None
    then show ?thesis by (simp add: strip_front_None)
  next
    case (Some w)
    then obtain r where "drop (length w) s = r @ strip_front ws (drop (length w) s)"
      using 1 by blast
    then have "s = (take (length w) s @ r) @ strip_front ws (drop (length w) s)"
      by (metis append_assoc append_take_drop_id)
    then show ?thesis
      unfolding strip_front_Some [OF Some] by (rule exI)
  qed
qed

lemma trim_left_space_suffix: "\<exists>r. s = r @ trim_left_space s"
  by (simp add: trim_left_space_def strip_front_suffix)

lemma trim_right_space_prefix: "\<exists>r. s = trim_right_space s @ r"
proof -
  obtain r where "rev s = r @ strip_front (map rev space_runes) (rev s)"
    using strip_front_suffix by blast
  then have "s = rev (strip_front (map rev space_runes) (rev s)) @ rev r"
    by (metis rev_append rev_rev_ident)
  then show ?thesis by (auto simp: trim_right_space_def)
qed

lemma trim_space_sublist: "\<exists>a b. s = a @ trim_space s @ b"
  by (metis trim_left_space_suffix trim_right_space_prefix trim_space_def)

lemma strip_front_idem [simp]: "strip_front ws (strip_front ws s) = strip_front ws s"
proof (induction ws s rule: strip_front.induct)
  case (1 ws s)
  show ?case
  proof (cases "find (\<lambda>w. w \<noteq> [] \<and> has_prefix s w) ws")
    case None
    then show ?thesis by (simp only: strip_front_None)
  next
    case (Some w)
    with 1 show ?thesis by (simp only: strip_front_Some)
  qed
qed

lemma trim_space_Nil [simp]: "trim_space [] = []"
  by (metis append_is_Nil_conv trim_space_sublist)

text \<open>A string that neither starts nor ends with one of the runes is left alone.\<close>

lemma strip_front_id:
  assumes "\<And>w. w \<in> set ws \<Longrightarrow> w \<noteq> [] \<Longrightarrow> \<not> has_prefix s w"
  shows "strip_front ws s = s"
proof -
  have "find (\<lambda>w. w \<noteq> [] \<and> has_prefix s w) ws = None"
    using assms by (auto simp: find_None_iff)
  then show ?thesis by (simp add: strip_front.simps [of ws s])
qed

subsection \<open>Trimming lines that start with a mark\<close>

lemma strip_front_snoc:
  assumes "\<And>w. w \<in> set ws \<Longrightarrow> c \<notin> set w"
  shows "strip_front ws (x @ [c]) = strip_front ws x @ [c]"
  using assms
proof (induction ws x rule: strip_front.induct)
  case (1 ws x)
  have eq: "w \<noteq> [] \<and> has_prefix (x @ [c]) w \<longleftrightarrow> w \<noteq> [] \<and> has_prefix x w" if "w \<in> set ws" for w
  proof
    assume a: "w \<noteq> [] \<and> has_prefix (x @ [c]) w"
    then obtain r where r: "x @ [c] = w @ r" by (auto simp: has_prefix_iff)
    show "w \<noteq> [] \<and> has_prefix x w"
    proof (cases r rule: rev_cases)
      case Nil
      with r have "c \<in> set w" by (metis append_Nil2 in_set_conv_decomp)
      with 1(2) that show ?thesis by blast
    next
      case (snoc r' d)
      with r a show ?thesis by (auto simp: has_prefix_iff)
    qed
  qed (auto simp: has_prefix_iff)
  then have f: "find (\<lambda>w. w \<noteq> [] \<and> has_prefix (x @ [c]) w) ws = find (\<lambda>w. w \<noteq> [] \<and> has_prefix x w) ws"
    by (intro find_cong) auto
  show ?case
  proof (cases "find (\<lambda>w. w \<noteq> [] \<and> has_prefix x w) ws")
    case None
    with f show ?thesis by (simp add: strip_front_None)
  next
    case (Some w)
    then have "length w \<le> length x" by (auto simp: find_Some_iff has_prefix_iff)
    with 1(1) [OF Some 1(2)] f Some show ?thesis
      by (simp add: strip_front_Some)
  qed
qed

lemma strip_front_length: "length (strip_front ws s) \<le> length s"
  using strip_front_suffix [of s ws] by (metis le_add2 length_append)

definition plain :: "char \<Rightarrow> bool" where
  "plain c \<longleftrightarrow> list_all (\<lambda>w. c \<notin> set w) space_runes"

lemma trim_left_plain: "plain c \<Longrightarrow> trim_left_space (c # s) = c # s"
  unfolding trim_left_space_def
  by (rule strip_front_id) (auto simp: plain_def list_all_iff has_prefix_iff neq_Nil_conv)

lemma trim_space_plain: "plain c \<Longrightarrow> \<exists>t. trim_space (c # s) = c # t"
proof -
  assume p: "plain c"
  have "strip_front (map rev space_runes) (rev s @ [c]) = strip_front (map rev space_runes) (rev s) @ [c]"
    using p by (intro strip_front_snoc) (auto simp: plain_def list_all_iff)
  with p show ?thesis by (simp add: trim_space_def trim_left_plain trim_right_space_def)
qed

lemma plain_marks: "plain (CHR ''+'')" "plain (CHR ''-'')" "plain (CHR ''@'')" "plain (CHR ''*'')"
  by (simp_all add: plain_def space_runes_def)

lemma trim_space_blank: "trim_space (CHR '' '' # s) = trim_space s"
proof -
  have "find (\<lambda>w. w \<noteq> [] \<and> has_prefix (CHR '' '' # s) w) space_runes = Some [CHR '' '']"
    by (simp add: space_runes_def)
  from strip_front_Some [OF this] show ?thesis by (simp add: trim_space_def trim_left_space_def)
qed

text \<open>A trimmed string stays trimmed behind a word that starts plain and ends with a blank.\<close>

lemma trimmed_no_rune:
  assumes "trim_space p = p" "w \<in> set space_runes"
  shows "\<not> has_prefix (rev p) (rev w)"
proof
  assume h: "has_prefix (rev p) (rev w)"
  have ne: "w \<noteq> []" using assms(2) by (auto simp: space_runes_def)
  have "find (\<lambda>w. w \<noteq> [] \<and> has_prefix (rev p) w) (map rev space_runes) \<noteq> None"
    using h ne assms(2) by (auto simp: find_None_iff)
  then obtain v where v: "find (\<lambda>w. w \<noteq> [] \<and> has_prefix (rev p) w) (map rev space_runes) = Some v"
    by blast
  then have vp: "v \<noteq> []" "has_prefix (rev p) v" by (auto simp: find_Some_iff)
  have "length (strip_front (map rev space_runes) (drop (length v) (rev p))) \<le> length p - length v"
    using strip_front_length [of "map rev space_runes" "drop (length v) (rev p)"] by simp
  moreover have "0 < length v" "length v \<le> length p"
    using vp by (auto simp: has_prefix_iff dest!: arg_cong [where f = length])
  ultimately have "length (strip_front (map rev space_runes) (rev p)) < length p"
    unfolding strip_front_Some [OF v] by linarith
  moreover have "trim_left_space p = p"
  proof -
    obtain a b where ab: "p = a @ trim_left_space p" "trim_left_space p = trim_space p @ b"
      using trim_left_space_suffix trim_right_space_prefix trim_space_def by metis
    with assms(1) have "length p = length a + (length p + length b)"
      by (metis length_append)
    with ab show ?thesis by simp
  qed
  ultimately show False
    using assms(1) by (metis length_rev less_irrefl trim_right_space_def trim_space_def)
qed

lemma trimmed_snoc:
  assumes "trim_space p = p" "p \<noteq> ''''" "plain c"
  shows "trim_space (c # m @ '' '' @ p) = c # m @ '' '' @ p"
proof -
  have "strip_front (map rev space_runes) (rev (c # m @ '' '' @ p)) = rev (c # m @ '' '' @ p)"
  proof (rule strip_front_id)
    fix w assume w: "w \<in> set (map rev space_runes)" "w \<noteq> []"
    then obtain v where v: "v \<in> set space_runes" "w = rev v" by auto
    show "\<not> has_prefix (rev (c # m @ '' '' @ p)) w"
    proof
      assume "has_prefix (rev (c # m @ '' '' @ p)) w"
      then obtain r where r: "rev p @ CHR '' '' # (rev m @ [c]) = rev v @ r"
        using v by (auto simp: has_prefix_iff)
      show False
      proof (cases "length v \<le> length p")
        case True
        with r have "has_prefix (rev p) (rev v)"
          unfolding has_prefix_iff by (metis append_eq_append_conv_if length_rev append_take_drop_id)
        with trimmed_no_rune [OF assms(1) v(1)] show False by simp
      next
        case False
        with r have "(rev p @ CHR '' '' # (rev m @ [c])) ! length p = rev v ! length p"
          by (simp add: nth_append)
        with False have "CHR '' '' \<in> set (rev v)"
          by (metis length_rev not_le nth_append_length nth_mem)
        with v have "v = '' ''" by (auto simp: space_runes_def)
        with False assms(2) show False by (cases p) simp_all
      qed
    qed
  qed
  with assms(3) show ?thesis by (simp add: trim_space_def trim_left_plain trim_right_space_def)
qed

subsection \<open>Splitting and joining\<close>

text \<open>\<open>strings.Split(s, "c")\<close> for a one-byte separator, and \<open>strings.Join\<close>.\<close>

fun split_on :: "char \<Rightarrow> string \<Rightarrow> string list" where
  "split_on c [] = [[]]"
| "split_on c (d # s) =
     (if d = c then [] # split_on c s
      else case split_on c s of [] \<Rightarrow> [[d]] | w # ws \<Rightarrow> (d # w) # ws)"

fun str_join :: "string \<Rightarrow> string list \<Rightarrow> string" where
  "str_join sep [] = []"
| "str_join sep [w] = w"
| "str_join sep (w # v # ws) = w @ sep @ str_join sep (v # ws)"

lemma split_on_not_Nil [simp]: "split_on c s \<noteq> []"
  by (induction s) (auto split: list.splits)

lemma str_join_Cons:
  "str_join sep (w # ws) = (if ws = [] then w else w @ sep @ str_join sep ws)"
  by (cases ws) auto

lemma str_join_split [go_simps]: "str_join [c] (split_on c s) = s"
  by (induction s) (auto simp: str_join_Cons split: list.splits)

lemma split_on_word: "c \<notin> set w \<Longrightarrow> split_on c w = [w]"
  by (induction w) auto

lemma split_on_append:
  "c \<notin> set w \<Longrightarrow> split_on c (w @ c # s) = w # split_on c s"
  by (induction w) auto

lemma split_on_join [go_simps]:
  "ws \<noteq> [] \<Longrightarrow> (\<forall>w\<in>set ws. c \<notin> set w) \<Longrightarrow> split_on c (str_join [c] ws) = ws"
  by (induction ws rule: induct_list012) (auto simp: split_on_word split_on_append)

lemma split_on_words: "w \<in> set (split_on c s) \<Longrightarrow> c \<notin> set w"
  by (induction s arbitrary: w) (auto split: if_splits list.splits)

subsection \<open>Decimal numbers\<close>

definition digit_char :: "nat \<Rightarrow> char" where
  "digit_char d = char_of (48 + d)"

fun dec_nat :: "nat \<Rightarrow> string" where
  "dec_nat n = (if n < 10 then [digit_char n] else dec_nat (n div 10) @ [digit_char (n mod 10)])"

declare dec_nat.simps [simp del]

definition is_digit :: "char \<Rightarrow> bool" where
  "is_digit c \<longleftrightarrow> 48 \<le> (of_char c :: nat) \<and> (of_char c :: nat) \<le> 57"

definition digit_val :: "char \<Rightarrow> nat" where
  "digit_val c = of_char c - 48"

text \<open>The value of a string of digits; \<open>None\<close> when it is empty or holds another byte.\<close>

definition digits_val :: "string \<Rightarrow> nat option" where
  "digits_val s =
     (if s \<noteq> [] \<and> list_all is_digit s
      then Some (foldl (\<lambda>n c. 10 * n + digit_val c) 0 s) else None)"

text \<open>
  \<open>strconv.Atoi\<close>: an optional sign and digits, within the signed 64-bit range. (A value
  out of range is an error in Go too.)
\<close>

definition atoi :: "string \<Rightarrow> int option" where
  "atoi s =
     (let (neg, body) =
        (case s of [] \<Rightarrow> (False, [])
         | c # r \<Rightarrow> (if c = CHR ''-'' then (True, r) else if c = CHR ''+'' then (False, r)
                     else (False, s)))
      in case digits_val body of
           None \<Rightarrow> None
         | Some n \<Rightarrow>
             (let v = (if neg then - int n else int n)
              in if - (2 ^ 63) \<le> v \<and> v < 2 ^ 63 then Some v else None))"

subsection \<open>Histories of calls\<close>

text \<open>
  A component seen from outside is a state and the calls made to it, one after another. What
  every call keeps, every history keeps.
\<close>

definition run_calls :: "('c \<Rightarrow> 's \<Rightarrow> 's) \<Rightarrow> 'c list \<Rightarrow> 's \<Rightarrow> 's" where
  "run_calls step cs s = fold step cs s"

lemma run_calls_simps [simp]:
  "run_calls step [] s = s"
  "run_calls step (c # cs) s = run_calls step cs (step c s)"
  by (simp_all add: run_calls_def)

lemma run_calls_append [simp]: "run_calls step (cs @ ds) s = run_calls step ds (run_calls step cs s)"
  by (simp add: run_calls_def)

locale call_system =
  fixes step :: "'c \<Rightarrow> 's \<Rightarrow> 's" and inv :: "'s \<Rightarrow> bool"
  assumes step_keeps: "inv s \<Longrightarrow> inv (step c s)"
begin

lemma history_keeps: "inv s \<Longrightarrow> inv (run_calls step cs s)"
  by (induction cs arbitrary: s) (simp_all add: step_keeps)

text \<open>What each call can only increase, every history can only increase.\<close>

lemma history_mono:
  assumes "\<And>c s. inv s \<Longrightarrow> (m s :: 'b::preorder) \<le> m (step c s)" and "inv s"
  shows "m s \<le> m (run_calls step cs s)"
  using assms(2) by (induction cs arbitrary: s) (auto intro: order_trans assms(1) step_keeps)

end

end
