(* ===== verification/NetGuard.thy ===== *)
theory NetGuard
  imports GoPrelude "HOL-Library.Word"
begin

unbundle bit_operations_syntax

text \<open>
  The SSRF guard, \<open>src/internal/foundation/netguard/netguard.go\<close>: the classification of IP
  addresses, the resolution that validates them, the pinned dial, the redirect policy and the
  proxy refusal.

  An address is the byte slice \<open>net.IP\<close> is: a list of 8-bit words, four or sixteen long (any
  other length is possible and is classified too). The predicates of package \<open>net\<close> that the
  guard calls are written out first. What the process environment supplies (the resolver, the
  literal parser, the dialer, the TLS handshake, the configured proxy) is a record of
  functions, an argument of every definition that uses it, so each theorem holds for any
  behaviour of it, a resolver that changes its answer between two calls included.
\<close>

type_synonym ip = "8 word list"

subsection \<open>Package \<open>net\<close>\<close>

definition v4_in_v6_prefix :: ip where
  "v4_in_v6_prefix = [0, 0, 0, 0, 0, 0, 0, 0, 0, 0, 0xff, 0xff]"

definition ip_To4 :: "ip \<Rightarrow> ip option" where
  "ip_To4 ip =
     (if length ip = 4 then Some ip
      else if length ip = 16 \<and> take 12 ip = v4_in_v6_prefix then Some (drop 12 ip)
      else None)"

definition ip_Equal :: "ip \<Rightarrow> ip \<Rightarrow> bool" where
  "ip_Equal ip x =
     (if length ip = length x then ip = x
      else if length ip = 4 \<and> length x = 16 then take 12 x = v4_in_v6_prefix \<and> ip = drop 12 x
      else if length ip = 16 \<and> length x = 4 then take 12 ip = v4_in_v6_prefix \<and> drop 12 ip = x
      else False)"

definition IPv4zero :: ip where
  "IPv4zero = v4_in_v6_prefix @ [0, 0, 0, 0]"

definition IPv6unspecified :: ip where
  "IPv6unspecified = replicate 16 0"

definition IPv6loopback :: ip where
  "IPv6loopback = replicate 15 0 @ [1]"

definition ip_IsUnspecified :: "ip \<Rightarrow> bool" where
  "ip_IsUnspecified ip \<longleftrightarrow> ip_Equal ip IPv4zero \<or> ip_Equal ip IPv6unspecified"

definition ip_IsLoopback :: "ip \<Rightarrow> bool" where
  "ip_IsLoopback ip =
     (case ip_To4 ip of Some v4 \<Rightarrow> v4 ! 0 = 127 | None \<Rightarrow> ip_Equal ip IPv6loopback)"

definition ip_IsPrivate :: "ip \<Rightarrow> bool" where
  "ip_IsPrivate ip =
     (case ip_To4 ip of
        Some v4 \<Rightarrow> v4 ! 0 = 10 \<or> (v4 ! 0 = 172 \<and> v4 ! 1 AND 0xf0 = 16)
                  \<or> (v4 ! 0 = 192 \<and> v4 ! 1 = 168)
      | None \<Rightarrow> length ip = 16 \<and> ip ! 0 AND 0xfe = 0xfc)"

definition ip_IsMulticast :: "ip \<Rightarrow> bool" where
  "ip_IsMulticast ip =
     (case ip_To4 ip of
        Some v4 \<Rightarrow> v4 ! 0 AND 0xf0 = 0xe0
      | None \<Rightarrow> length ip = 16 \<and> ip ! 0 = 0xff)"

definition ip_IsLinkLocalMulticast :: "ip \<Rightarrow> bool" where
  "ip_IsLinkLocalMulticast ip =
     (case ip_To4 ip of
        Some v4 \<Rightarrow> v4 ! 0 = 224 \<and> v4 ! 1 = 0 \<and> v4 ! 2 = 0
      | None \<Rightarrow> length ip = 16 \<and> ip ! 0 = 0xff \<and> ip ! 1 AND 0x0f = 0x02)"

definition ip_IsLinkLocalUnicast :: "ip \<Rightarrow> bool" where
  "ip_IsLinkLocalUnicast ip =
     (case ip_To4 ip of
        Some v4 \<Rightarrow> v4 ! 0 = 169 \<and> v4 ! 1 = 254
      | None \<Rightarrow> length ip = 16 \<and> ip ! 0 = 0xfe \<and> ip ! 1 AND 0xc0 = 0x80)"

subsection \<open>The address classifier\<close>

definition blockedKind :: "ip \<Rightarrow> bool" where
  "blockedKind ip \<longleftrightarrow>
     ip_IsLoopback ip \<or> ip_IsPrivate ip \<or>
     ip_IsLinkLocalUnicast ip \<or> ip_IsLinkLocalMulticast ip \<or>
     ip_IsMulticast ip \<or> ip_IsUnspecified ip"

definition blockedV6 :: "ip \<Rightarrow> bool" where
  "blockedV6 ip =
     (if length ip \<noteq> 16 then False
      else if ip ! 0 = 0x20 \<and> ip ! 1 = 0x01 \<and> ip ! 2 = 0x0d \<and> ip ! 3 = 0xb8 then True
      else if ip ! 0 = 0x3f \<and> ip ! 1 = 0xff \<and> ip ! 2 AND 0xf0 = 0 then True
      else if ip ! 0 = 0x20 \<and> ip ! 1 = 0x01 \<and> ip ! 2 = 0 \<and> ip ! 3 = 0 then True
      else if ip ! 0 = 0x00 \<and> ip ! 1 = 0x64 \<and> ip ! 2 = 0xff \<and> ip ! 3 = 0x9b \<and>
              ip ! 4 = 0x00 \<and> ip ! 5 = 0x01 then True
      else False)"

definition blockedV4 :: "ip \<Rightarrow> bool" where
  "blockedV4 v4 =
     (if length v4 \<noteq> 4 then False
      else if v4 ! 0 = 0 then True
      else if v4 ! 0 = 100 \<and> v4 ! 1 \<ge> 64 \<and> v4 ! 1 \<le> 127 then True
      else if v4 ! 0 AND 0xf0 = 0xe0 then True
      else if v4 ! 0 \<ge> 240 then True
      else if v4 ! 0 = 192 \<and> v4 ! 1 = 0 \<and> v4 ! 2 = 0 then True
      else if v4 ! 0 = 192 \<and> v4 ! 1 = 0 \<and> v4 ! 2 = 2 then True
      else if v4 ! 0 = 192 \<and> v4 ! 1 = 88 \<and> v4 ! 2 = 99 then True
      else if v4 ! 0 = 198 \<and> (v4 ! 1 = 18 \<or> v4 ! 1 = 19) then True
      else if v4 ! 0 = 198 \<and> v4 ! 1 = 51 \<and> v4 ! 2 = 100 then True
      else if v4 ! 0 = 203 \<and> v4 ! 1 = 0 \<and> v4 ! 2 = 113 then True
      else False)"

definition embeddedV4 :: "ip \<Rightarrow> ip option" where
  "embeddedV4 ip =
     (if length ip \<noteq> 16 then None
      else if ip ! 0 = 0x20 \<and> ip ! 1 = 0x02 then Some (take 4 (drop 2 ip))
      else if take 4 ip \<noteq> [0x00, 0x64, 0xff, 0x9b] then None
      else if \<not> list_all (\<lambda>b. b = 0) (take 8 (drop 4 ip)) then None
      else Some (drop 12 ip))"

definition BlockedIP :: "ip \<Rightarrow> bool" where
  "BlockedIP ip =
     (if blockedKind ip then True
      else if blockedV6 ip then True
      else case ip_To4 ip of
             Some v4 \<Rightarrow> blockedV4 v4
           | None \<Rightarrow> (case embeddedV4 ip of
                        Some v4 \<Rightarrow> blockedKind v4 \<or> blockedV4 v4
                      | None \<Rightarrow> False))"

subsection \<open>Options and the environment\<close>

datatype guard_error =
    ProxyResolution string string
  | EnvProxyFailed string
  | ProxyPinned string string
  | PrivateLiteral string string
  | ResolveFailed string string
  | NoAddresses string string
  | ResolvesPrivate string string ip
  | ParseDialAddress string string
  | GateRefused string
  | DialFailed string "ip list"
  | NoReachable string
  | HandshakeFailed string string
  | TooManyRedirects string nat
  | NonHttpRedirect string string

text \<open>
  \<open>Gate\<close> and \<open>AllowPrivate\<close> are optional functions of the request's context; a gate answers
  the error it refuses the host with, or nothing.
\<close>

record 'c guard_options =
  opt_Label :: string
  opt_Gate :: "('c \<Rightarrow> string \<Rightarrow> guard_error option) option"
  opt_AllowPrivate :: "('c \<Rightarrow> bool) option"
  opt_Timeout :: int
  opt_MaxRedirects :: int

text \<open>
  What the guard reads from its surroundings: \<open>net.ParseIP\<close>, the resolver behind
  \<open>LookupHost\<close> (per context, so that two calls may differ), one dial attempt, one TLS
  handshake, and \<open>EnvProxy\<close>.
\<close>

record ('c, 'conn) guard_env =
  env_ParseIP :: "string \<Rightarrow> ip option"
  env_LookupHost :: "'c \<Rightarrow> string \<Rightarrow> unit + ip list"
  env_Dial :: "'c \<Rightarrow> string \<Rightarrow> ip \<Rightarrow> string \<Rightarrow> 'conn option"
  env_Handshake :: "'c \<Rightarrow> string \<Rightarrow> 'conn \<Rightarrow> bool"
  env_Proxy :: "string \<Rightarrow> unit + string option"

definition defaultTimeout :: int where "defaultTimeout = 30"
definition defaultMaxRedirects :: int where "defaultMaxRedirects = 10"

definition client_label :: "'c guard_options \<Rightarrow> string" where
  "client_label o' = (if opt_Label o' = '''' then ''netguard'' else opt_Label o')"

definition client_timeout :: "'c guard_options \<Rightarrow> int" where
  "client_timeout o' = (if opt_Timeout o' \<le> 0 then defaultTimeout else opt_Timeout o')"

definition client_maxRedirects :: "'c guard_options \<Rightarrow> int" where
  "client_maxRedirects o' =
     (if opt_MaxRedirects o' \<le> 0 then defaultMaxRedirects else opt_MaxRedirects o')"

text \<open>\<open>allowPrivate != nil && allowPrivate(ctx)\<close>.\<close>

definition allows_private :: "'c guard_options \<Rightarrow> 'c \<Rightarrow> bool" where
  "allows_private o' ctx = (case opt_AllowPrivate o' of None \<Rightarrow> False | Some f \<Rightarrow> f ctx)"

definition run_gate :: "'c guard_options \<Rightarrow> 'c \<Rightarrow> string \<Rightarrow> guard_error option" where
  "run_gate o' ctx host = (case opt_Gate o' of None \<Rightarrow> None | Some g \<Rightarrow> g ctx host)"

subsection \<open>Resolution and the pinned dial\<close>

text \<open>\<open>for _, ip := range ips { if BlockedIP(ip) \<dots> }\<close>: the first blocked address.\<close>

definition first_blocked :: "ip list \<Rightarrow> ip option" where
  "first_blocked ips = find BlockedIP ips"

definition ResolvePublic ::
  "('c, 'conn) guard_env \<Rightarrow> 'c \<Rightarrow> string \<Rightarrow> string \<Rightarrow> guard_error option" where
  "ResolvePublic e ctx label host =
     (case env_ParseIP e host of
        Some ip \<Rightarrow> (if BlockedIP ip then Some (PrivateLiteral label host) else None)
      | None \<Rightarrow>
          (case env_LookupHost e ctx host of
             Inl _ \<Rightarrow> Some (ResolveFailed label host)
           | Inr ips \<Rightarrow>
               (case first_blocked ips of
                  Some ip \<Rightarrow> Some (ResolvesPrivate label host ip)
                | None \<Rightarrow> None)))"

definition validatedAddresses ::
  "('c, 'conn) guard_env \<Rightarrow> 'c \<Rightarrow> string \<Rightarrow> string \<Rightarrow> bool \<Rightarrow> guard_error + ip list" where
  "validatedAddresses e ctx label host allowPrivate =
     (case env_ParseIP e host of
        Some ip \<Rightarrow>
          (if \<not> allowPrivate \<and> BlockedIP ip then Inl (PrivateLiteral label host)
           else Inr [ip])
      | None \<Rightarrow>
          (case env_LookupHost e ctx host of
             Inl _ \<Rightarrow> Inl (ResolveFailed label host)
           | Inr ips \<Rightarrow>
               (if ips = [] then Inl (NoAddresses label host)
                else if \<not> allowPrivate then
                  (case first_blocked ips of
                     Some ip \<Rightarrow> Inl (ResolvesPrivate label host ip)
                   | None \<Rightarrow> Inr ips)
                else Inr ips)))"

text \<open>
  \<open>dialIPs\<close> tries the addresses in order. The model returns, beside the result, the
  addresses it opened a connection to: the effect the guard is there to bound.
\<close>

fun dial_loop ::
  "('c, 'conn) guard_env \<Rightarrow> 'c \<Rightarrow> string \<Rightarrow> ip list \<Rightarrow> string \<Rightarrow> ip list \<times> 'conn option" where
  "dial_loop e ctx network [] port = ([], None)"
| "dial_loop e ctx network (ip # ips) port =
     (case env_Dial e ctx network ip port of
        Some conn \<Rightarrow> ([ip], Some conn)
      | None \<Rightarrow> (let (tried, r) = dial_loop e ctx network ips port in (ip # tried, r)))"

definition dialIPs ::
  "('c, 'conn) guard_env \<Rightarrow> 'c \<Rightarrow> string \<Rightarrow> string \<Rightarrow> ip list \<Rightarrow> string
   \<Rightarrow> ip list \<times> (guard_error + 'conn)" where
  "dialIPs e ctx label network ips port =
     (case dial_loop e ctx network ips port of
        (tried, Some conn) \<Rightarrow> (tried, Inr conn)
      | (tried, None) \<Rightarrow>
          (tried, Inl (if tried \<noteq> [] then DialFailed label ips else NoReachable label)))"

text \<open>\<open>net.SplitHostPort\<close>: the port after the last colon, an IPv6 host in brackets.\<close>

definition last_index_char :: "char \<Rightarrow> string \<Rightarrow> nat option" where
  "last_index_char c s =
     (case find_index (\<lambda>d. d = c) (rev s) of None \<Rightarrow> None | Some k \<Rightarrow> Some (length s - 1 - k))"

definition SplitHostPort :: "string \<Rightarrow> (string \<times> string) option" where
  "SplitHostPort hp =
     (case last_index_char (CHR '':'') hp of
        None \<Rightarrow> None
      | Some i \<Rightarrow>
          (let parts =
             (if hp ! 0 = CHR ''['' then
                (case find_index (\<lambda>d. d = CHR '']'') hp of
                   None \<Rightarrow> None
                 | Some en \<Rightarrow>
                     (if en + 1 = i then Some (take (en - 1) (drop 1 hp), 1, en + 1) else None))
              else
                (if CHR '':'' \<in> set (take i hp) then None else Some (take i hp, 0, 0)))
           in case parts of
                None \<Rightarrow> None
              | Some (host, j, k) \<Rightarrow>
                  (if CHR ''['' \<in> set (drop j hp) then None
                   else if CHR '']'' \<in> set (drop k hp) then None
                   else Some (host, drop (i + 1) hp))))"

definition pinnedDial ::
  "('c, 'conn) guard_env \<Rightarrow> 'c guard_options \<Rightarrow> 'c \<Rightarrow> string \<Rightarrow> string
   \<Rightarrow> ip list \<times> (guard_error + 'conn)" where
  "pinnedDial e o' ctx network addr =
     (let label = client_label o' in
      case SplitHostPort addr of
        None \<Rightarrow> ([], Inl (ParseDialAddress label addr))
      | Some (host, port) \<Rightarrow>
          (case run_gate o' ctx host of
             Some err \<Rightarrow> ([], Inl err)
           | None \<Rightarrow>
               (case validatedAddresses e ctx label host (allows_private o' ctx) of
                  Inl err \<Rightarrow> ([], Inl err)
                | Inr ips \<Rightarrow> dialIPs e ctx label network ips port)))"

text \<open>
  \<open>pinnedTLSDial\<close>: the same connection, then the handshake, whose \<open>ServerName\<close> is always the
  dialed host whatever the injected base configuration says.
\<close>

record 'b tls_config =
  tls_base :: "'b option"
  tls_ServerName :: string

definition tls_config_for :: "'b option \<Rightarrow> string \<Rightarrow> 'b tls_config" where
  "tls_config_for base host = \<lparr>tls_base = base, tls_ServerName = host\<rparr>"

definition pinnedTLSDial ::
  "('c, 'conn) guard_env \<Rightarrow> 'c guard_options \<Rightarrow> 'b option \<Rightarrow> 'c \<Rightarrow> string \<Rightarrow> string
   \<Rightarrow> ip list \<times> (guard_error + ('conn \<times> 'b tls_config))" where
  "pinnedTLSDial e o' base ctx network addr =
     (let label = client_label o' in
      case SplitHostPort addr of
        None \<Rightarrow> ([], Inl (ParseDialAddress label addr))
      | Some (host, port) \<Rightarrow>
          (case run_gate o' ctx host of
             Some err \<Rightarrow> ([], Inl err)
           | None \<Rightarrow>
               (case validatedAddresses e ctx label host (allows_private o' ctx) of
                  Inl err \<Rightarrow> ([], Inl err)
                | Inr ips \<Rightarrow>
                    (case dialIPs e ctx label network ips port of
                       (tried, Inl err) \<Rightarrow> (tried, Inl err)
                     | (tried, Inr conn) \<Rightarrow>
                         (let cfg = tls_config_for base host in
                          if env_Handshake e ctx (tls_ServerName cfg) conn
                          then (tried, Inr (conn, cfg))
                          else (tried, Inl (HandshakeFailed label host)))))))"

subsection \<open>Proxy and redirects\<close>

definition RefuseProxy ::
  "('c, 'conn) guard_env \<Rightarrow> string \<Rightarrow> string \<Rightarrow> bool \<Rightarrow> guard_error option" where
  "RefuseProxy e label rawURL allowPrivate =
     (if allowPrivate then None
      else case env_Proxy e rawURL of
             Inl _ \<Rightarrow> Some (ProxyResolution label rawURL)
           | Inr (Some proxy) \<Rightarrow> Some (ProxyPinned label proxy)
           | Inr None \<Rightarrow> None)"

text \<open>The transport's \<open>Proxy\<close> function: refuse first, then resolve the proxy to use.\<close>

definition transport_Proxy ::
  "('c, 'conn) guard_env \<Rightarrow> 'c guard_options \<Rightarrow> 'c \<Rightarrow> string \<Rightarrow> guard_error + string option" where
  "transport_Proxy e o' ctx rawURL =
     (case RefuseProxy e (client_label o') rawURL (allows_private o' ctx) of
        Some err \<Rightarrow> Inl err
      | None \<Rightarrow>
          (case env_Proxy e rawURL of
             Inl _ \<Rightarrow> Inl (EnvProxyFailed rawURL)
           | Inr p \<Rightarrow> Inr p))"

record hop =
  hop_Scheme :: string
  hop_Hostname :: string
  hop_URL :: string

definition CheckRedirect ::
  "'c guard_options \<Rightarrow> 'c \<Rightarrow> hop \<Rightarrow> nat \<Rightarrow> guard_error option" where
  "CheckRedirect o' ctx req n_via =
     (if int n_via \<ge> client_maxRedirects o'
      then Some (TooManyRedirects (client_label o') (nat (client_maxRedirects o')))
      else if hop_Scheme req \<noteq> ''http'' \<and> hop_Scheme req \<noteq> ''https''
      then Some (NonHttpRedirect (client_label o') (hop_URL req))
      else run_gate o' ctx (hop_Hostname req))"

text \<open>
  How \<open>http.Client\<close> uses the policy: the hops of a redirect chain are checked one by one,
  with the number of requests already made, and the first refusal ends the request.
\<close>

fun follow_redirects ::
  "'c guard_options \<Rightarrow> 'c \<Rightarrow> nat \<Rightarrow> hop list \<Rightarrow> hop list \<times> guard_error option" where
  "follow_redirects o' ctx n [] = ([], None)"
| "follow_redirects o' ctx n (h # hs) =
     (case CheckRedirect o' ctx h n of
        Some err \<Rightarrow> ([], Some err)
      | None \<Rightarrow> (let (done', r) = follow_redirects o' ctx (Suc n) hs in (h # done', r)))"

subsection \<open>The reference: prefix lists\<close>

text \<open>
  The abstract specification of the classifier: two lists of CIDR blocks and the rule that an
  encoding is as blocked as the address it carries.
\<close>

text \<open>\<open>cidr base n x\<close>: \<open>x\<close> is as long as \<open>base\<close> and agrees with it on the first \<open>n\<close> bits.\<close>

fun cidr :: "ip \<Rightarrow> nat \<Rightarrow> ip \<Rightarrow> bool" where
  "cidr [] n xs = (xs = [])"
| "cidr (b # bs) n [] = False"
| "cidr (b # bs) n (x # xs) =
     (drop_bit (8 - n) x = drop_bit (8 - n) b \<and> cidr bs (n - 8) xs)"

text \<open>The IPv4 blocks the guard refuses, as the registries write them.\<close>

definition special_v4 :: "(ip \<times> nat) list" where
  "special_v4 =
     [([0, 0, 0, 0], 8), ([10, 0, 0, 0], 8), ([100, 64, 0, 0], 10), ([127, 0, 0, 0], 8),
      ([169, 254, 0, 0], 16), ([172, 16, 0, 0], 12), ([192, 0, 0, 0], 24),
      ([192, 0, 2, 0], 24), ([192, 88, 99, 0], 24), ([192, 168, 0, 0], 16),
      ([198, 18, 0, 0], 15), ([198, 51, 100, 0], 24), ([203, 0, 113, 0], 24),
      ([224, 0, 0, 0], 4), ([240, 0, 0, 0], 4)]"

text \<open>The IPv6 blocks.\<close>

definition special_v6 :: "(ip \<times> nat) list" where
  "special_v6 =
     [(replicate 16 0, 128), (replicate 15 0 @ [1], 128),
      ([0xfc, 0] @ replicate 14 0, 7), ([0xfe, 0x80] @ replicate 14 0, 10),
      ([0xff, 0] @ replicate 14 0, 8),
      ([0x20, 0x01, 0x0d, 0xb8] @ replicate 12 0, 32),
      ([0x20, 0x01, 0, 0] @ replicate 12 0, 32),
      ([0x3f, 0xff, 0, 0] @ replicate 12 0, 20),
      ([0, 0x64, 0xff, 0x9b, 0, 1] @ replicate 10 0, 48)]"

definition in_special :: "(ip \<times> nat) list \<Rightarrow> ip \<Rightarrow> bool" where
  "in_special bs x \<longleftrightarrow> list_ex (\<lambda>(b, n). cidr b n x) bs"

text \<open>
  The IPv4 address an address carries: itself, the IPv4-mapped block \<open>::ffff:0:0/96\<close>, 6to4
  (\<open>2002::/16\<close>) and the NAT64 prefix \<open>64:ff9b::/96\<close>.
\<close>

definition carried_v4 :: "ip \<Rightarrow> ip option" where
  "carried_v4 x =
     (if length x = 4 then Some x
      else if cidr (replicate 10 0 @ [0xff, 0xff, 0, 0, 0, 0]) 96 x then Some (drop 12 x)
      else if cidr ([0x20, 0x02] @ replicate 14 0) 16 x then Some (take 4 (drop 2 x))
      else if cidr ([0, 0x64, 0xff, 0x9b] @ replicate 12 0) 96 x then Some (drop 12 x)
      else None)"

text \<open>An address is refused when its block is listed, or the IPv4 address it carries is.\<close>

definition guard_spec :: "ip \<Rightarrow> bool" where
  "guard_spec x \<longleftrightarrow>
     in_special special_v6 x \<or> (\<exists>v4. carried_v4 x = Some v4 \<and> in_special special_v4 v4)"

subsection \<open>Masks and ranges are prefixes\<close>

lemma high_bits_eq:
  fixes x c m :: "8 word"
  assumes "m = NOT (mask k)" "push_bit k (drop_bit k c) = c"
  shows "x AND m = c \<longleftrightarrow> drop_bit k x = drop_bit k c"
proof -
  have eq: "y AND NOT (mask k) = push_bit k (drop_bit k y)" for y :: "8 word"
    by (rule bit_word_eqI) (auto simp: bit_simps)
  have "drop_bit k (push_bit k (drop_bit k y)) = drop_bit k y" for y :: "8 word"
    by (rule bit_word_eqI) (auto simp: bit_simps dest: bit_imp_le_length)
  then show ?thesis using assms eq by metis
qed

lemma byte_masks:
  fixes x :: "8 word"
  shows "x AND 0xf0 = 16 \<longleftrightarrow> drop_bit 4 x = 1"
    and "x AND 0xf0 = 0xe0 \<longleftrightarrow> drop_bit 4 x = 14"
    and "x AND 0xf0 = 0 \<longleftrightarrow> drop_bit 4 x = 0"
    and "x AND 0xfe = 0xfc \<longleftrightarrow> drop_bit 1 x = 126"
    and "x AND 0xc0 = 0x80 \<longleftrightarrow> drop_bit 6 x = 2"
proof -
  have m: "0xf0 = NOT (mask 4 :: 8 word)" "0xfe = NOT (mask 1 :: 8 word)"
    "0xc0 = NOT (mask 6 :: 8 word)" by code_simp+
  show "x AND 0xf0 = 16 \<longleftrightarrow> drop_bit 4 x = 1" by (subst high_bits_eq [OF m(1)]) simp_all
  show "x AND 0xf0 = 0xe0 \<longleftrightarrow> drop_bit 4 x = 14" by (subst high_bits_eq [OF m(1)]) simp_all
  show "x AND 0xf0 = 0 \<longleftrightarrow> drop_bit 4 x = 0" by (subst high_bits_eq [OF m(1)]) simp_all
  show "x AND 0xfe = 0xfc \<longleftrightarrow> drop_bit 1 x = 126" by (subst high_bits_eq [OF m(2)]) simp_all
  show "x AND 0xc0 = 0x80 \<longleftrightarrow> drop_bit 6 x = 2" by (subst high_bits_eq [OF m(3)]) simp_all
qed

lemma unat_drop_bit_byte: "unat (drop_bit k (x :: 8 word)) = unat x div 2 ^ k"
  unfolding unat_drop_bit_eq by (rule drop_bit_eq_div)

lemma byte_ranges:
  fixes x :: "8 word"
  shows "64 \<le> x \<and> x \<le> 127 \<longleftrightarrow> drop_bit 6 x = 1"
    and "240 \<le> x \<longleftrightarrow> drop_bit 4 x = 15"
    and "x = 18 \<or> x = 19 \<longleftrightarrow> drop_bit (Suc 0) x = 9"
proof -
  have "unat x < 256" using unsigned_less [of x, where 'a = nat] by simp
  then show "64 \<le> x \<and> x \<le> 127 \<longleftrightarrow> drop_bit 6 x = 1"
    and "240 \<le> x \<longleftrightarrow> drop_bit 4 x = 15"
    and "x = 18 \<or> x = 19 \<longleftrightarrow> drop_bit (Suc 0) x = 9"
    by (auto simp: word_le_nat_alt word_unat_eq_iff unat_drop_bit_byte)
qed

subsection \<open>The classifier byte by byte\<close>

abbreviation mapped :: ip where
  "mapped \<equiv> [0, 0, 0, 0, 0, 0, 0, 0, 0, 0, 0xff, 0xff]"

lemma len4: "length x = 4 \<longleftrightarrow> (\<exists>a b c d. x = [a, b, c, d])"
  by (auto simp: length_Suc_conv numeral_eq_Suc)

lemma drop_bit_8 [simp]: "drop_bit 8 (x :: 8 word) = 0"
  by (rule bit_word_eqI) (auto simp: bit_simps dest: bit_imp_le_length)

lemmas ip_class_defs =
  blockedKind_def ip_IsLoopback_def ip_IsPrivate_def ip_IsLinkLocalUnicast_def
  ip_IsLinkLocalMulticast_def ip_IsMulticast_def ip_IsUnspecified_def ip_To4_def ip_Equal_def
  IPv4zero_def IPv6unspecified_def IPv6loopback_def v4_in_v6_prefix_def
  blockedV4_def blockedV6_def embeddedV4_def


lemma replicate_bytes:
  "replicate 4 z = [z, z, z, z]"
  "replicate 10 z = [z, z, z, z, z, z, z, z, z, z]"
  "replicate 12 z = [z, z, z, z, z, z, z, z, z, z, z, z]"
  "replicate 14 z = [z, z, z, z, z, z, z, z, z, z, z, z, z, z]"
  "replicate 15 z = [z, z, z, z, z, z, z, z, z, z, z, z, z, z, z]"
  "replicate 16 z = [z, z, z, z, z, z, z, z, z, z, z, z, z, z, z, z]"
  by (simp_all add: numeral_eq_Suc)


lemma if_True_disj: "(if P then True else Q) \<longleftrightarrow> P \<or> Q"
  by simp

lemma blockedV4_bytes:
  "blockedV4 [a, b, c, d] \<longleftrightarrow>
     a = 0 \<or> (a = 100 \<and> drop_bit 6 b = 1) \<or> drop_bit 4 a = 14 \<or> drop_bit 4 a = 15
     \<or> (a = 192 \<and> b = 0 \<and> c = 0) \<or> (a = 192 \<and> b = 0 \<and> c = 2)
     \<or> (a = 192 \<and> b = 88 \<and> c = 99) \<or> (a = 198 \<and> drop_bit (Suc 0) b = 9)
     \<or> (a = 198 \<and> b = 51 \<and> c = 100) \<or> (a = 203 \<and> b = 0 \<and> c = 113)"
  by (simp add: blockedV4_def if_True_disj byte_masks byte_ranges del: if_split)

lemma blockedKind_bytes:
  "blockedKind [a, b, c, d] \<longleftrightarrow>
     a = 127 \<or> a = 10 \<or> (a = 172 \<and> drop_bit 4 b = 1) \<or> (a = 192 \<and> b = 168)
     \<or> (a = 169 \<and> b = 254) \<or> (a = 224 \<and> b = 0 \<and> c = 0) \<or> drop_bit 4 a = 14
     \<or> (a = 0 \<and> b = 0 \<and> c = 0 \<and> d = 0)"
  by (simp add: ip_class_defs byte_masks replicate_bytes)

lemma in_special_v4_bytes:
  "in_special special_v4 [a, b, c, d] \<longleftrightarrow>
     a = 0 \<or> a = 10 \<or> (a = 100 \<and> drop_bit 6 b = 1) \<or> a = 127 \<or> (a = 169 \<and> b = 254)
     \<or> (a = 172 \<and> drop_bit 4 b = 1) \<or> (a = 192 \<and> b = 0 \<and> c = 0)
     \<or> (a = 192 \<and> b = 0 \<and> c = 2) \<or> (a = 192 \<and> b = 88 \<and> c = 99)
     \<or> (a = 192 \<and> b = 168) \<or> (a = 198 \<and> drop_bit (Suc 0) b = 9)
     \<or> (a = 198 \<and> b = 51 \<and> c = 100) \<or> (a = 203 \<and> b = 0 \<and> c = 113)
     \<or> drop_bit 4 a = 14 \<or> drop_bit 4 a = 15"
  by (simp add: in_special_def special_v4_def)

lemma blocked_v4_bytes:
  "blockedKind [a, b, c, d] \<or> blockedV4 [a, b, c, d] \<longleftrightarrow> in_special special_v4 [a, b, c, d]"
  unfolding blockedV4_bytes blockedKind_bytes in_special_v4_bytes
  by (cases "a = 224") (simp, argo)


lemma ip_To4_bytes:
  "ip_To4 [a, b, c, d] = Some [a, b, c, d]"
  "ip_To4 (mapped @ [a, b, c, d]) = Some [a, b, c, d]"
  by (simp_all add: ip_To4_def v4_in_v6_prefix_def)

lemma BlockedIP_v4: "BlockedIP [a, b, c, d] \<longleftrightarrow> in_special special_v4 [a, b, c, d]"
  by (simp add: BlockedIP_def ip_To4_bytes blockedV6_def flip: blocked_v4_bytes)

lemma blockedKind_mapped: "blockedKind (mapped @ [a, b, c, d]) = blockedKind [a, b, c, d]"
  by (simp add: ip_class_defs replicate_bytes)

lemma BlockedIP_mapped: "BlockedIP (mapped @ [a, b, c, d]) \<longleftrightarrow> in_special special_v4 [a, b, c, d]"
  unfolding BlockedIP_def blockedKind_mapped ip_To4_bytes blocked_v4_bytes [symmetric]
  by (simp add: blockedV6_def)

lemma blockedKind_v6:
  assumes "ip_To4 ip = None" and "ip = [b0, b1, b2, b3, b4, b5, b6, b7, b8, b9, b10, b11, b12, b13, b14, b15]"
  shows "blockedKind ip \<longleftrightarrow>
    ip = IPv6unspecified \<or> ip = IPv6loopback \<or> drop_bit 1 b0 = 126
    \<or> (b0 = 0xfe \<and> drop_bit 6 b1 = 2) \<or> b0 = 0xff"
proof -
  have "ip \<noteq> IPv4zero" using assms(1)
    by (auto simp: IPv4zero_def ip_To4_def v4_in_v6_prefix_def)
  with assms show ?thesis
    by (auto simp: blockedKind_def ip_IsLoopback_def ip_IsPrivate_def ip_IsLinkLocalUnicast_def
        ip_IsLinkLocalMulticast_def ip_IsMulticast_def ip_IsUnspecified_def ip_Equal_def byte_masks
        IPv6unspecified_def IPv6loopback_def IPv4zero_def v4_in_v6_prefix_def)
qed

lemma in_special_v6_bytes:
  "in_special special_v6 [b0, b1, b2, b3, b4, b5, b6, b7, b8, b9, b10, b11, b12, b13, b14, b15] \<longleftrightarrow>
    [b0, b1, b2, b3, b4, b5, b6, b7, b8, b9, b10, b11, b12, b13, b14, b15] = IPv6unspecified
    \<or> [b0, b1, b2, b3, b4, b5, b6, b7, b8, b9, b10, b11, b12, b13, b14, b15] = IPv6loopback
    \<or> drop_bit 1 b0 = 126 \<or> (b0 = 0xfe \<and> drop_bit 6 b1 = 2) \<or> b0 = 0xff
    \<or> (b0 = 0x20 \<and> b1 = 0x01 \<and> b2 = 0x0d \<and> b3 = 0xb8)
    \<or> (b0 = 0x20 \<and> b1 = 0x01 \<and> b2 = 0 \<and> b3 = 0)
    \<or> (b0 = 0x3f \<and> b1 = 0xff \<and> drop_bit 4 b2 = 0)
    \<or> (b0 = 0 \<and> b1 = 0x64 \<and> b2 = 0xff \<and> b3 = 0x9b \<and> b4 = 0 \<and> b5 = 1)"
  by (simp add: in_special_def special_v6_def replicate_bytes IPv6unspecified_def IPv6loopback_def)


lemma blockedV6_bytes:
  "blockedV6 [b0, b1, b2, b3, b4, b5, b6, b7, b8, b9, b10, b11, b12, b13, b14, b15] \<longleftrightarrow>
    (b0 = 0x20 \<and> b1 = 0x01 \<and> b2 = 0x0d \<and> b3 = 0xb8)
    \<or> (b0 = 0x3f \<and> b1 = 0xff \<and> drop_bit 4 b2 = 0)
    \<or> (b0 = 0x20 \<and> b1 = 0x01 \<and> b2 = 0 \<and> b3 = 0)
    \<or> (b0 = 0 \<and> b1 = 0x64 \<and> b2 = 0xff \<and> b3 = 0x9b \<and> b4 = 0 \<and> b5 = 1)"
  by (simp add: blockedV6_def if_True_disj byte_masks del: if_split)

lemma embeddedV4_bytes:
  "embeddedV4 [b0, b1, b2, b3, b4, b5, b6, b7, b8, b9, b10, b11, b12, b13, b14, b15] =
    (if b0 = 0x20 \<and> b1 = 0x02 then Some [b2, b3, b4, b5]
     else if b0 = 0 \<and> b1 = 0x64 \<and> b2 = 0xff \<and> b3 = 0x9b \<and> b4 = 0 \<and> b5 = 0 \<and> b6 = 0 \<and> b7 = 0
             \<and> b8 = 0 \<and> b9 = 0 \<and> b10 = 0 \<and> b11 = 0 then Some [b12, b13, b14, b15]
     else None)"
  by (simp add: embeddedV4_def)

lemma carried_v4_bytes:
  assumes "ip = [b0, b1, b2, b3, b4, b5, b6, b7, b8, b9, b10, b11, b12, b13, b14, b15]"
    and "ip_To4 ip = None"
  shows "carried_v4 ip = embeddedV4 ip"
  using assms(2) unfolding assms(1) embeddedV4_bytes
  by (auto simp: carried_v4_def ip_To4_def v4_in_v6_prefix_def replicate_bytes)

lemma BlockedIP_v6:
  assumes "ip_To4 ip = None" and "length ip = 16"
  shows "BlockedIP ip \<longleftrightarrow> guard_spec ip"
proof -
  obtain b0 b1 b2 b3 b4 b5 b6 b7 b8 b9 b10 b11 b12 b13 b14 b15
    where ip: "ip = [b0, b1, b2, b3, b4, b5, b6, b7, b8, b9, b10, b11, b12, b13, b14, b15]"
    using assms(2) by (auto simp: length_Suc_conv numeral_eq_Suc)
  have special: "in_special special_v6 ip \<longleftrightarrow> blockedKind ip \<or> blockedV6 ip"
    using blockedKind_v6 [OF assms(1) ip] unfolding in_special_v6_bytes ip blockedV6_bytes by argo
  have "v4 = [v4 ! 0, v4 ! 1, v4 ! 2, v4 ! 3]" if "embeddedV4 ip = Some v4" for v4
    using that unfolding ip embeddedV4_bytes by (auto split: if_splits)
  then have v4: "blockedKind v4 \<or> blockedV4 v4 \<longleftrightarrow> in_special special_v4 v4"
    if "embeddedV4 ip = Some v4" for v4
    using that blocked_v4_bytes by metis
  show ?thesis
    unfolding BlockedIP_def guard_spec_def special assms(1) carried_v4_bytes [OF ip assms(1)]
    using v4 by (auto split: option.splits)
qed

lemma mapped_bytes:
  assumes "length ip = 16" and "ip_To4 ip = Some v4"
  obtains a b c d where "ip = mapped @ [a, b, c, d]"
proof -
  from assms have "take 12 ip = mapped" by (auto simp: ip_To4_def v4_in_v6_prefix_def split: if_splits)
  moreover have "length (drop 12 ip) = 4" using assms(1) by simp
  then obtain a b c d where "drop 12 ip = [a, b, c, d]" unfolding len4 by blast
  ultimately have "ip = mapped @ [a, b, c, d]" by (metis append_take_drop_id)
  then show ?thesis by (rule that)
qed

lemma guard_spec_v4: "guard_spec [a, b, c, d] = in_special special_v4 [a, b, c, d]"
  by (simp add: guard_spec_def carried_v4_def in_special_def special_v6_def replicate_bytes)

lemma guard_spec_mapped: "guard_spec (mapped @ [a, b, c, d]) = in_special special_v4 [a, b, c, d]"
  by (simp add: guard_spec_def carried_v4_def in_special_v6_bytes replicate_bytes
      IPv6unspecified_def IPv6loopback_def)

subsection \<open>Resolution, dial and redirects\<close>

text \<open>
  The interface between the resolution and the dial: a validator that answers only harmless
  addresses and a dialer that opens connections to addresses it was given.
\<close>

locale validated_dial =
  fixes validate :: "'h \<Rightarrow> 'e + 'a list"
    and bad :: "'a \<Rightarrow> bool"
    and attempt :: "'h \<Rightarrow> 'a list \<Rightarrow> 'a list \<times> 'r"
  assumes validate_ok: "validate h = Inr as \<Longrightarrow> a \<in> set as \<Longrightarrow> \<not> bad a"
    and attempt_within: "\<exists>rest. as = fst (attempt h as) @ rest"
begin

lemma reached_harmless:
  assumes "validate h = Inr as" and "a \<in> set (fst (attempt h as))"
  shows "\<not> bad a"
proof -
  obtain rest where "as = fst (attempt h as) @ rest" using attempt_within by blast
  with assms(2) have "a \<in> set as" by (metis UnCI set_append)
  with assms(1) show ?thesis by (rule validate_ok)
qed

end

lemma first_blocked_None: "first_blocked ips = None \<longleftrightarrow> (\<forall>ip\<in>set ips. \<not> BlockedIP ip)"
  by (auto simp: first_blocked_def find_None_iff)

lemma validatedAddresses_harmless:
  "validatedAddresses e ctx label host False = Inr ips \<Longrightarrow> ip \<in> set ips \<Longrightarrow> \<not> BlockedIP ip"
  by (auto simp: validatedAddresses_def first_blocked_None split: option.splits sum.splits if_splits)

lemma validatedAddresses_nonempty:
  "validatedAddresses e ctx label host ap = Inr ips \<Longrightarrow> ips \<noteq> []"
  by (auto simp: validatedAddresses_def split: option.splits sum.splits if_splits)

lemma dial_loop_prefix: "\<exists>rest. ips = fst (dial_loop e ctx network ips port) @ rest"
  by (induction ips) (auto split: option.splits prod.splits)

lemma dialIPs_prefix: "\<exists>rest. ips = fst (dialIPs e ctx label network ips port) @ rest"
  using dial_loop_prefix [of ips e ctx network port]
  by (auto simp: dialIPs_def split: option.splits prod.splits)

interpretation guarded: validated_dial
  "\<lambda>(e, ctx, label, network, host, port). validatedAddresses e ctx label host False"
  BlockedIP
  "\<lambda>(e, ctx, label, network, host, port) ips. dialIPs e ctx label network ips port"
  by unfold_locales (auto simp: dialIPs_prefix dest: validatedAddresses_harmless)

lemma guarded_dial_harmless:
  assumes "validatedAddresses e ctx label host False = Inr ips"
    and "ip \<in> set (fst (dialIPs e ctx label network ips port))"
  shows "\<not> BlockedIP ip"
  using guarded.reached_harmless [of "(e, ctx, label, network, host, port)" ips ip] assms by simp

lemma pinnedDial_reached:
  assumes "ip \<in> set (fst (pinnedDial e o' ctx network addr))"
  obtains host port ips where "SplitHostPort addr = Some (host, port)"
    and "run_gate o' ctx host = None"
    and "validatedAddresses e ctx (client_label o') host (allows_private o' ctx) = Inr ips"
    and "ip \<in> set (fst (dialIPs e ctx (client_label o') network ips port))"
  using assms by (auto simp: pinnedDial_def Let_def split: option.splits prod.splits sum.splits)

lemma pinnedTLSDial_reached:
  "fst (pinnedTLSDial e o' base ctx network addr) = fst (pinnedDial e o' ctx network addr)"
  by (auto simp: pinnedDial_def pinnedTLSDial_def Let_def
      split: option.splits prod.splits sum.splits)

subsection \<open>Properties\<close>

text \<open>
  C1: For every IPv4 and IPv6 address, the classifier \<open>BlockedIP\<close> (a cascade of byte tests,
  masks and comparisons) answers exactly what the two lists of CIDR blocks say, taking an
  IPv4-mapped, 6to4 or NAT64 address by the IPv4 address it carries.
\<close>

theorem BlockedIP_reference:
  assumes "length ip = 4 \<or> length ip = 16"
  shows "BlockedIP ip \<longleftrightarrow> guard_spec ip"
proof (cases "length ip = 4")
  case True
  then show ?thesis unfolding len4 by (auto simp: BlockedIP_v4 guard_spec_v4)
next
  case False
  with assms have len: "length ip = 16" by simp
  show ?thesis
  proof (cases "ip_To4 ip")
    case None
    then show ?thesis using len by (rule BlockedIP_v6)
  next
    case (Some v4)
    with len obtain a b c d where "ip = mapped @ [a, b, c, d]" by (rule mapped_bytes)
    then show ?thesis by (simp only: BlockedIP_mapped guard_spec_mapped)
  qed
qed

theorem BlockedIP_reference_witness:
  "BlockedIP [100, 127, 0, 1] \<and> \<not> BlockedIP [100, 128, 0, 1]
   \<and> BlockedIP ([0x20, 0x02, 10, 0, 0, 1] @ replicate 10 7)"
  using BlockedIP_reference [of "[100, 127, 0, 1]"] BlockedIP_reference [of "[100, 128, 0, 1]"]
    BlockedIP_reference [of "[0x20, 0x02, 10, 0, 0, 1] @ replicate 10 7"]
  by (simp add: guard_spec_def carried_v4_def in_special_def special_v4_def special_v6_def
      replicate_bytes)

text \<open>
  A private IPv4 target cannot be spelled past the guard: in its IPv4-mapped, 6to4 and
  NAT64 encodings an address is refused exactly when its dotted form is, for every address.
\<close>

theorem BlockedIP_spellings:
  "BlockedIP (mapped @ [a, b, c, d]) = BlockedIP [a, b, c, d] \<and>
   BlockedIP ([0x20, 0x02] @ [a, b, c, d] @ [e0, e1, e2, e3, e4, e5, e6, e7, e8, e9]) = BlockedIP [a, b, c, d] \<and>
   BlockedIP ([0x00, 0x64, 0xff, 0x9b, 0, 0, 0, 0, 0, 0, 0, 0] @ [a, b, c, d]) = BlockedIP [a, b, c, d]"
proof -
  have "BlockedIP ([0x20, 0x02] @ [a, b, c, d] @ [e0, e1, e2, e3, e4, e5, e6, e7, e8, e9])
    = in_special special_v4 [a, b, c, d]"
    by (subst BlockedIP_v6)
      (simp_all add: ip_To4_def v4_in_v6_prefix_def guard_spec_def in_special_v6_bytes
        carried_v4_def replicate_bytes IPv6unspecified_def IPv6loopback_def)
  moreover have "BlockedIP ([0x00, 0x64, 0xff, 0x9b, 0, 0, 0, 0, 0, 0, 0, 0] @ [a, b, c, d])
    = in_special special_v4 [a, b, c, d]"
    by (subst BlockedIP_v6)
      (simp_all add: ip_To4_def v4_in_v6_prefix_def guard_spec_def in_special_v6_bytes
        carried_v4_def replicate_bytes IPv6unspecified_def IPv6loopback_def)
  ultimately show ?thesis by (simp add: BlockedIP_mapped BlockedIP_v4 del: append.simps)
qed

text \<open>
  C2: While private destinations are not allowed, neither the plain nor the TLS dial opens a
  connection to a blocked address, whatever the resolver answers and however often it changes
  its answer (the addresses dialed are those of the one resolution that was validated).
\<close>

theorem pinned_dial_never_blocked:
  assumes "\<not> allows_private o' ctx"
  shows "(\<forall>ip \<in> set (fst (pinnedDial e o' ctx network addr)). \<not> BlockedIP ip) \<and>
    (\<forall>ip \<in> set (fst (pinnedTLSDial e o' base ctx network addr)). \<not> BlockedIP ip)"
proof -
  have "\<not> BlockedIP ip" if "ip \<in> set (fst (pinnedDial e o' ctx network addr))" for ip
    using that assms by (auto elim!: pinnedDial_reached dest: guarded_dial_harmless)
  then show ?thesis by (simp add: pinnedTLSDial_reached)
qed

text \<open>A resolver that answers the public address first and a loopback one afterwards.\<close>

definition rebinding_env :: "(nat, ip) guard_env" where
  "rebinding_env =
     \<lparr>env_ParseIP = (\<lambda>_. None),
      env_LookupHost = (\<lambda>call _. Inr (if call = 0 then [[93, 184, 216, 34]]
                                     else [[93, 184, 216, 34], [127, 0, 0, 1]])),
      env_Dial = (\<lambda>_ _ ip _. Some ip),
      env_Handshake = (\<lambda>_ _ _. True),
      env_Proxy = (\<lambda>_. Inr (Some ''http://proxy''))\<rparr>"

definition strict_options :: "nat guard_options" where
  "strict_options =
     \<lparr>opt_Label = ''web_fetch'', opt_Gate = None, opt_AllowPrivate = None,
      opt_Timeout = 0, opt_MaxRedirects = 0\<rparr>"

theorem pinned_dial_never_blocked_witness:
  "pinnedDial rebinding_env strict_options 0 ''tcp'' ''h:80''
     = ([[93, 184, 216, 34]], Inr [93, 184, 216, 34])
   \<and> \<not> BlockedIP [93, 184, 216, 34]
   \<and> pinnedDial rebinding_env strict_options 1 ''tcp'' ''h:80''
     = ([], Inl (ResolvesPrivate ''web_fetch'' ''h'' [127, 0, 0, 1]))"
proof -
  have b: "BlockedIP [127, 0, 0, 1]"
    by (simp add: BlockedIP_v4 in_special_v4_bytes)
  have n: "\<not> BlockedIP [93, 184, 216, 34]"
    by (simp add: BlockedIP_v4 in_special_v4_bytes)
  have d: "pinnedDial rebinding_env strict_options 0 ''tcp'' ''h:80''
     = ([[93, 184, 216, 34]], Inr [93, 184, 216, 34])"
    using n
    by (simp add: pinnedDial_def SplitHostPort_def last_index_char_def strict_options_def
        rebinding_env_def run_gate_def allows_private_def client_label_def validatedAddresses_def
        first_blocked_def dialIPs_def Let_def)
  have r: "pinnedDial rebinding_env strict_options 1 ''tcp'' ''h:80''
     = ([], Inl (ResolvesPrivate ''web_fetch'' ''h'' [127, 0, 0, 1]))"
    using n b
    by (simp add: pinnedDial_def SplitHostPort_def last_index_char_def strict_options_def
        rebinding_env_def run_gate_def allows_private_def client_label_def validatedAddresses_def
        first_blocked_def Let_def)
  have "\<not> allows_private strict_options 0"
    by (simp add: allows_private_def strict_options_def)
  from pinned_dial_never_blocked [OF this, of rebinding_env "''tcp''" "''h:80''" "None :: unit option"] d r
  show ?thesis by simp
qed

text \<open>
  What a successful TLS dial guarantees: the address parsed, the gate passed the dialed
  host, the addresses tried are an initial segment of exactly the ones validated for that
  host, and the handshake named that host whatever base configuration was injected.
\<close>

theorem pinned_tls_dial_success:
  assumes "pinnedTLSDial e o' base ctx network addr = (tried, Inr (conn, cfg))"
  shows "\<exists>host port ips rest.
    SplitHostPort addr = Some (host, port) \<and> run_gate o' ctx host = None
    \<and> validatedAddresses e ctx (client_label o') host (allows_private o' ctx) = Inr ips
    \<and> ips = tried @ rest \<and> tls_ServerName cfg = host \<and> env_Handshake e ctx host conn"
proof -
  from assms obtain host port ips where
    "SplitHostPort addr = Some (host, port)" "run_gate o' ctx host = None"
    "validatedAddresses e ctx (client_label o') host (allows_private o' ctx) = Inr ips"
    "dialIPs e ctx (client_label o') network ips port = (tried, Inr conn)"
    "cfg = tls_config_for base host" "env_Handshake e ctx host conn"
    by (auto simp: pinnedTLSDial_def Let_def tls_config_for_def
        split: option.splits prod.splits sum.splits if_splits)
  moreover obtain rest where "ips = tried @ rest"
    using dialIPs_prefix [of ips e ctx "client_label o'" network port] calculation(4) by auto
  ultimately show ?thesis by (auto simp: tls_config_for_def)
qed

theorem pinned_tls_dial_success_witness:
  "\<exists>host port ips rest.
    SplitHostPort ''h:80'' = Some (host, port) \<and> run_gate strict_options 0 host = None
    \<and> validatedAddresses rebinding_env 0 ''web_fetch'' host False = Inr ips
    \<and> ips = [[93, 184, 216, 34]] @ rest \<and> ''h'' = host"
proof -
  have n: "\<not> BlockedIP [93, 184, 216, 34]"
    by (simp add: BlockedIP_v4 in_special_v4_bytes)
  have d: "pinnedTLSDial rebinding_env strict_options (None :: unit option) 0 ''tcp'' ''h:80''
     = ([[93, 184, 216, 34]], Inr ([93, 184, 216, 34], tls_config_for None ''h''))"
    using n
    by (simp add: pinnedTLSDial_def SplitHostPort_def last_index_char_def strict_options_def
        rebinding_env_def run_gate_def allows_private_def client_label_def validatedAddresses_def
        first_blocked_def dialIPs_def Let_def)
  from pinned_tls_dial_success [OF this] show ?thesis
    by (simp add: allows_private_def client_label_def strict_options_def tls_config_for_def) blast
qed

lemma CheckRedirect_None:
  "CheckRedirect o' ctx h n = None \<longleftrightarrow>
     int n < client_maxRedirects o' \<and> (hop_Scheme h = ''http'' \<or> hop_Scheme h = ''https'')
     \<and> run_gate o' ctx (hop_Hostname h) = None"
  by (auto simp: CheckRedirect_def)

lemma follow_redirects_fst:
  "fst (follow_redirects o' ctx n (h # hs)) =
     (if CheckRedirect o' ctx h n = None then h # fst (follow_redirects o' ctx (Suc n) hs) else [])"
  by (auto split: option.splits prod.splits)

lemma follow_redirects_hops:
  "h \<in> set (fst (follow_redirects o' ctx n hs)) \<Longrightarrow>
     (hop_Scheme h = ''http'' \<or> hop_Scheme h = ''https'') \<and> run_gate o' ctx (hop_Hostname h) = None"
  by (induction hs arbitrary: n)
    (auto simp: follow_redirects_fst CheckRedirect_None simp del: follow_redirects.simps(2)
      split: if_splits)

lemma follow_redirects_length:
  "fst (follow_redirects o' ctx n hs) \<noteq> [] \<Longrightarrow>
     int (n + length (fst (follow_redirects o' ctx n hs))) \<le> client_maxRedirects o'"
proof (induction hs arbitrary: n)
  case Nil
  then show ?case by simp
next
  case (Cons h hs)
  then show ?case
    by (cases "fst (follow_redirects o' ctx (Suc n) hs) = []")
      (fastforce simp: follow_redirects_fst CheckRedirect_None simp del: follow_redirects.simps(2)
        split: if_splits)+
qed

text \<open>
  C0: The redirect policy: of any chain of redirects a server sends, the hops the client
  follows after its first request number less than the effective bound (10 unless set), each
  is http or https, and each passed the caller's host gate.
\<close>

theorem redirects_bounded_and_gated:
  "int (length (fst (follow_redirects o' ctx 1 hs))) < client_maxRedirects o' \<and>
   list_all (\<lambda>h. hop_Scheme h \<in> {''http'', ''https''} \<and> run_gate o' ctx (hop_Hostname h) = None)
     (fst (follow_redirects o' ctx 1 hs))"
proof -
  have "0 < client_maxRedirects o'"
    by (simp add: client_maxRedirects_def defaultMaxRedirects_def)
  with follow_redirects_length [of o' ctx 1 hs]
  have "int (length (fst (follow_redirects o' ctx 1 hs))) < client_maxRedirects o'"
    by (cases "fst (follow_redirects o' ctx 1 hs) = []") (simp_all del: One_nat_def)
  then show ?thesis
    using follow_redirects_hops [of _ o' ctx 1 hs] by (auto simp: list_all_iff simp del: One_nat_def)
qed

text \<open>
  C0: The proxy rule fails closed: while private destinations are not allowed the transport
  never uses a proxy, for any proxy configuration; a configured one is an error. When they are
  allowed the configured proxy is kept.
\<close>

theorem proxy_fails_closed:
  "transport_Proxy e o' ctx url =
     (if allows_private o' ctx
      then (case env_Proxy e url of Inl _ \<Rightarrow> Inl (EnvProxyFailed url) | Inr p \<Rightarrow> Inr p)
      else (case env_Proxy e url of
              Inl _ \<Rightarrow> Inl (ProxyResolution (client_label o') url)
            | Inr (Some proxy) \<Rightarrow> Inl (ProxyPinned (client_label o') proxy)
            | Inr None \<Rightarrow> Inr None))"
  by (auto simp: transport_Proxy_def RefuseProxy_def split: sum.splits option.splits)

end
