(* ===== verification/PatchParse.thy ===== *)
theory PatchParse
  imports GoPrelude
begin

text \<open>
  The parsers of the patch engine, \<open>src/internal/foundation/utils/patch/\<close>: the op model and
  the envelope parser of \<open>patch.go\<close>, and the unified-diff reader of \<open>unified.go\<close>.

  The Go code keeps a list of op pointers and a \<open>current\<close> pointer that always points to the
  last op appended, so an update through \<open>current\<close> is \<open>map_last\<close> here. One line is one
  step of a function that fails, returns or goes on; the loop runs it over the lines.
\<close>

subsection \<open>The op model\<close>

datatype opKind = opAdd | opUpdate | opDelete

datatype DiffLineKind = DiffLineContext | DiffLineAdd | DiffLineDelete

record hunkEntry =
  he_kind :: DiffLineKind
  he_text :: string

record hunk =
  h_anchor :: string
  h_removed :: "string list"
  h_added :: "string list"
  h_atLine :: int
  h_entries :: "hunkEntry list"
  h_unified :: bool

record patch_op =
  op_kind :: opKind
  op_path :: string
  op_body :: "string list"
  op_hunks :: "hunk list"

definition new_hunk :: "string \<Rightarrow> hunk" where
  "new_hunk anchor =
     \<lparr>h_anchor = anchor, h_removed = [], h_added = [], h_atLine = 0, h_entries = [],
      h_unified = False\<rparr>"

definition new_op :: "opKind \<Rightarrow> string \<Rightarrow> patch_op" where
  "new_op k p = \<lparr>op_kind = k, op_path = p, op_body = [], op_hunks = []\<rparr>"

datatype patch_error =
    DuplicateBegin | EndWithoutBegin | MissingEnd
  | UpdateNoHunks string | AddNoLines string
  | AddOutside | UpdateOutside | DeleteOutside
  | UnexpectedOutside string | UnexpectedBeforeOp string
  | AddLineNoPlus string string | LineBeforeHunk string string
  | UnknownDirective string string | DeleteBody string string
  | EmptyPath | AbsolutePath string | EscapesWorkspace string
  | RenameUnsupported string | BinaryUnsupported string
  | HunkBeforeFile string | MalformedHeader string | MalformedStart string
  | MalformedLength string | NegativeRange string
  | ContentOutsideHunk string | NoFileHeaders | FileWithoutPath

subsection \<open>Updating the current op\<close>

definition map_last :: "('a \<Rightarrow> 'a) \<Rightarrow> 'a list \<Rightarrow> 'a list" where
  "map_last f xs = (if xs = [] then [] else butlast xs @ [f (last xs)])"

lemma map_last_Nil [simp]: "map_last f [] = []"
  by (simp add: map_last_def)

lemma map_last_snoc [simp]: "map_last f (xs @ [x]) = xs @ [f x]"
  by (simp add: map_last_def)

lemma map_last_eq_Nil [simp]: "map_last f xs = [] \<longleftrightarrow> xs = []"
  by (simp add: map_last_def)

lemma map_map_last: "(\<And>x. g (f x) = f' (g x)) \<Longrightarrow> map g (map_last f xs) = map_last f' (map g xs)"
  by (cases xs rule: rev_cases) simp_all

definition add_body :: "string \<Rightarrow> patch_op \<Rightarrow> patch_op" where
  "add_body l p = p\<lparr>op_body := op_body p @ [l]\<rparr>"

definition add_hunk :: "hunk \<Rightarrow> patch_op \<Rightarrow> patch_op" where
  "add_hunk h p = p\<lparr>op_hunks := op_hunks p @ [h]\<rparr>"

definition on_hunk :: "(hunk \<Rightarrow> hunk) \<Rightarrow> patch_op \<Rightarrow> patch_op" where
  "on_hunk f p = p\<lparr>op_hunks := map_last f (op_hunks p)\<rparr>"

definition hunk_remove :: "string \<Rightarrow> hunk \<Rightarrow> hunk" where
  "hunk_remove l h = h\<lparr>h_removed := h_removed h @ [l]\<rparr>"

definition hunk_add :: "string \<Rightarrow> hunk \<Rightarrow> hunk" where
  "hunk_add l h = h\<lparr>h_added := h_added h @ [l]\<rparr>"

definition hunk_context :: "string \<Rightarrow> hunk \<Rightarrow> hunk" where
  "hunk_context l h = h\<lparr>h_removed := h_removed h @ [l], h_added := h_added h @ [l]\<rparr>"

subsection \<open>Paths\<close>

text \<open>
  \<open>path.Clean\<close>: the components in order, with empty ones and \<open>"."\<close> dropped and \<open>".."\<close>
  taking back the component before it; at the front of a relative path \<open>".."\<close> stays. The
  stack is kept in reverse.
\<close>

definition dotdot :: string where "dotdot = ''..''"

definition clean_step :: "bool \<Rightarrow> string list \<Rightarrow> string \<Rightarrow> string list" where
  "clean_step rooted st c =
     (if c = '''' \<or> c = ''.'' then st
      else if c = dotdot then
        (case st of
           [] \<Rightarrow> (if rooted then [] else [dotdot])
         | x # r \<Rightarrow> (if x = dotdot then dotdot # st else r))
      else c # st)"

definition clean_components :: "bool \<Rightarrow> string \<Rightarrow> string list" where
  "clean_components rooted p = rev (foldl (clean_step rooted) [] (split_on (CHR ''/'') p))"

definition path_IsAbs :: "string \<Rightarrow> bool" where
  "path_IsAbs p = has_prefix p ''/''"

definition path_Clean :: "string \<Rightarrow> string" where
  "path_Clean p =
     (let rooted = path_IsAbs p; cs = clean_components rooted p in
      if rooted then ''/'' @ str_join ''/'' cs
      else if cs = [] then ''.'' else str_join ''/'' cs)"

definition fold_slashes :: "string \<Rightarrow> string" where
  "fold_slashes p = map (\<lambda>c. if c = CHR 0x5C then CHR ''/'' else c) p"

text \<open>
  \<open>validatePath\<close>. \<open>filepath.IsAbs\<close> depends on the platform the program runs on (on Windows
  drive and UNC forms are absolute too): it is the parameter \<open>host_abs\<close>.
\<close>

definition validatePath :: "(string \<Rightarrow> bool) \<Rightarrow> string \<Rightarrow> patch_error option" where
  "validatePath host_abs p =
     (if p = '''' then Some EmptyPath
      else
        (let slashed = fold_slashes p in
         if path_IsAbs slashed \<or> host_abs p then Some (AbsolutePath p)
         else
           (let clean = path_Clean slashed in
            if clean = dotdot \<or> has_prefix clean ''../'' then Some (EscapesWorkspace p)
            else None)))"

subsection \<open>The envelope parser\<close>

record parse_state =
  ps_ops :: "patch_op list"
  ps_in :: bool

datatype parse_outcome =
    Fail patch_error
  | Return "patch_op list"
  | Go parse_state

text \<open>\<open>current\<close>: the last op, or nil.\<close>

definition current_op :: "parse_state \<Rightarrow> patch_op option" where
  "current_op s = (if ps_ops s = [] then None else Some (last (ps_ops s)))"

definition current_lacks_hunks :: "parse_state \<Rightarrow> string option" where
  "current_lacks_hunks s =
     (case current_op s of
        Some c \<Rightarrow> (if op_kind c = opUpdate \<and> op_hunks c = [] then Some (op_path c) else None)
      | None \<Rightarrow> None)"

definition current_lacks_lines :: "parse_state \<Rightarrow> string option" where
  "current_lacks_lines s =
     (case current_op s of
        Some c \<Rightarrow> (if op_kind c = opAdd \<and> op_body c = [] then Some (op_path c) else None)
      | None \<Rightarrow> None)"

definition mark_begin :: string where "mark_begin = ''*** Begin Patch''"
definition mark_end :: string where "mark_end = ''*** End Patch''"
definition mark_add :: string where "mark_add = ''*** Add File: ''"
definition mark_update :: string where "mark_update = ''*** Update File: ''"
definition mark_delete :: string where "mark_delete = ''*** Delete File: ''"

definition directive_path :: "string \<Rightarrow> string \<Rightarrow> string" where
  "directive_path trimmed mark = trim_space (trim_prefix trimmed mark)"

text \<open>\<open>current = &op\{kind, path\}; ops = append(ops, current)\<close> after the path check.\<close>

definition start_op :: "(string \<Rightarrow> bool) \<Rightarrow> opKind \<Rightarrow> string \<Rightarrow> parse_state \<Rightarrow> parse_outcome" where
  "start_op host_abs k p s =
     (case validatePath host_abs p of
        Some err \<Rightarrow> Fail err
      | None \<Rightarrow> Go (s\<lparr>ps_ops := ps_ops s @ [new_op k p]\<rparr>))"

definition upd_current :: "(patch_op \<Rightarrow> patch_op) \<Rightarrow> parse_state \<Rightarrow> parse_outcome" where
  "upd_current f s = Go (s\<lparr>ps_ops := map_last f (ps_ops s)\<rparr>)"

text \<open>A body line of an update op.\<close>

definition update_line :: "string \<Rightarrow> string \<Rightarrow> patch_op \<Rightarrow> parse_state \<Rightarrow> parse_outcome" where
  "update_line line trimmed c s =
     (if has_prefix line ''@@'' then
        upd_current (add_hunk (new_hunk (trim_space (trim_prefix line ''@@'')))) s
      else if op_hunks c = [] then Fail (LineBeforeHunk (op_path c) line)
      else if has_prefix line ''-'' then
        upd_current (on_hunk (hunk_remove (trim_prefix line ''-''))) s
      else if has_prefix line ''+'' then
        upd_current (on_hunk (hunk_add (trim_prefix line ''+''))) s
      else if has_prefix line '' '' then
        upd_current (on_hunk (hunk_context (trim_prefix line '' ''))) s
      else if line = '''' then Go s
      else if has_prefix trimmed ''***'' then Fail (UnknownDirective (op_path c) trimmed)
      else upd_current (on_hunk (hunk_context line)) s)"

definition parse_step :: "(string \<Rightarrow> bool) \<Rightarrow> parse_state \<Rightarrow> string \<Rightarrow> parse_outcome" where
  "parse_step host_abs s raw =
     (let line = trim_right_char (CHR 0x0D) raw; trimmed = trim_space line in
      if trimmed = mark_begin then
        (if ps_in s then Fail DuplicateBegin else Go (s\<lparr>ps_in := True\<rparr>))
      else if trimmed = mark_end then
        (if \<not> ps_in s then Fail EndWithoutBegin
         else case current_lacks_hunks s of
                Some p \<Rightarrow> Fail (UpdateNoHunks p)
              | None \<Rightarrow> Return (ps_ops s))
      else if has_prefix trimmed mark_add then
        (if \<not> ps_in s then Fail AddOutside
         else case current_lacks_lines s of
                Some p \<Rightarrow> Fail (AddNoLines p)
              | None \<Rightarrow> start_op host_abs opAdd (directive_path trimmed mark_add) s)
      else if has_prefix trimmed mark_update then
        (if \<not> ps_in s then Fail UpdateOutside
         else case current_lacks_hunks s of
                Some p \<Rightarrow> Fail (UpdateNoHunks p)
              | None \<Rightarrow> start_op host_abs opUpdate (directive_path trimmed mark_update) s)
      else if has_prefix trimmed mark_delete then
        (if \<not> ps_in s then Fail DeleteOutside
         else case current_lacks_lines s of
                Some p \<Rightarrow> Fail (AddNoLines p)
              | None \<Rightarrow> start_op host_abs opDelete (directive_path trimmed mark_delete) s)
      else if \<not> ps_in s then Fail (UnexpectedOutside line)
      else
        (case current_op s of
           None \<Rightarrow> Fail (UnexpectedBeforeOp line)
         | Some c \<Rightarrow>
             (case op_kind c of
                opAdd \<Rightarrow>
                  (if \<not> has_prefix line ''+'' then Fail (AddLineNoPlus (op_path c) line)
                   else upd_current (add_body (trim_prefix line ''+'')) s)
              | opUpdate \<Rightarrow> update_line line trimmed c s
              | opDelete \<Rightarrow>
                  (if line \<noteq> '''' then Fail (DeleteBody (op_path c) line) else Go s))))"

fun parse_lines ::
  "(string \<Rightarrow> bool) \<Rightarrow> parse_state \<Rightarrow> string list \<Rightarrow> patch_error + patch_op list" where
  "parse_lines host_abs s [] = Inl MissingEnd"
| "parse_lines host_abs s (l # ls) =
     (case parse_step host_abs s l of
        Fail err \<Rightarrow> Inl err
      | Return ops \<Rightarrow> Inr ops
      | Go s' \<Rightarrow> parse_lines host_abs s' ls)"

definition newline :: char where "newline = CHR 0x0A"

definition init_parse :: parse_state where
  "init_parse = \<lparr>ps_ops = [], ps_in = False\<rparr>"

definition Parse :: "(string \<Rightarrow> bool) \<Rightarrow> string \<Rightarrow> patch_error + patch_op list" where
  "Parse host_abs patch = parse_lines host_abs init_parse (split_on newline patch)"

subsection \<open>Which paths are accepted\<close>

text \<open>
  The specification reads the path as a walk from the workspace root: a name goes one level
  down, \<open>".."\<close> one up, and the walk may never be above the root.
\<close>

fun stays_inside :: "nat \<Rightarrow> string list \<Rightarrow> bool" where
  "stays_inside d [] = True"
| "stays_inside d (c # cs) =
     (if c = '''' \<or> c = ''.'' then stays_inside d cs
      else if c = dotdot then (case d of 0 \<Rightarrow> False | Suc d' \<Rightarrow> stays_inside d' cs)
      else stays_inside (Suc d) cs)"

lemma clean_step_escaped:
  assumes "st \<noteq> []" "last st = dotdot"
  shows "clean_step False st c \<noteq> [] \<and> last (clean_step False st c) = dotdot"
  using assms by (cases st) (auto simp: clean_step_def split: list.splits if_splits)

lemma foldl_clean_escaped:
  "st \<noteq> [] \<Longrightarrow> last st = dotdot \<Longrightarrow>
   foldl (clean_step False) st cs \<noteq> [] \<and> last (foldl (clean_step False) st cs) = dotdot"
proof (induction cs arbitrary: st)
  case Nil
  then show ?case by simp
next
  case (Cons c cs)
  from clean_step_escaped [OF Cons.prems, of c] Cons.IH show ?case by simp
qed

lemma foldl_clean_inside:
  "dotdot \<notin> set st \<Longrightarrow>
   (stays_inside (length st) cs \<longleftrightarrow>
    \<not> (foldl (clean_step False) st cs \<noteq> [] \<and> last (foldl (clean_step False) st cs) = dotdot))"
proof (induction cs arbitrary: st)
  case Nil
  then show ?case by (metis foldl_Nil last_in_set stays_inside.simps(1))
next
  case (Cons c cs)
  consider "c = '''' \<or> c = ''.''" | "c = dotdot" "st = []"
    | x r where "c = dotdot" "st = x # r" | "c \<noteq> ''''" "c \<noteq> ''.''" "c \<noteq> dotdot"
    by (cases st) auto
  then show ?case
  proof cases
    case 1
    then show ?thesis using Cons by (simp add: clean_step_def)
  next
    case 2
    then have "clean_step False st c = [dotdot]" by (simp add: clean_step_def dotdot_def)
    then show ?thesis using 2 foldl_clean_escaped [of "[dotdot]" cs] by (simp add: dotdot_def)
  next
    case 3
    then have "clean_step False st c = r" using Cons.prems by (auto simp: clean_step_def dotdot_def)
    then show ?thesis using 3 Cons by (auto simp: dotdot_def)
  next
    case 4
    then show ?thesis using Cons.prems Cons.IH [of "c # st"] by (simp add: clean_step_def)
  qed
qed

lemma clean_step_set: "set (clean_step r st c) \<subseteq> insert dotdot (insert c (set st))"
  by (auto simp: clean_step_def split: list.splits if_splits)

lemma foldl_clean_set: "set (foldl (clean_step r) st cs) \<subseteq> insert dotdot (set cs \<union> set st)"
proof (induction cs arbitrary: st)
  case Nil
  then show ?case by auto
next
  case (Cons c cs)
  show ?case using Cons.IH [of "clean_step r st c"] clean_step_set [of r st c] by auto
qed

lemma clean_components_no_slash: "c \<in> set (clean_components r p) \<Longrightarrow> CHR ''/'' \<notin> set c"
  using foldl_clean_set [of r "[]" "split_on (CHR ''/'') p"]
  by (auto simp: clean_components_def dotdot_def dest!: split_on_words)

text \<open>Joined components start with \<open>".."\<close> exactly when the first of them is \<open>".."\<close>.\<close>

lemma takeWhile_join:
  "(\<And>c. c \<in> set (x # xs) \<Longrightarrow> CHR ''/'' \<notin> set c) \<Longrightarrow>
   takeWhile (\<lambda>c. c \<noteq> CHR ''/'') (str_join ''/'' (x # xs)) = x"
  by (cases xs) (auto simp: takeWhile_append)

lemma dotdot_first:
  assumes "\<And>c. c \<in> set cs \<Longrightarrow> CHR ''/'' \<notin> set c"
  shows "(str_join ''/'' cs = dotdot \<or> has_prefix (str_join ''/'' cs) ''../'') \<longleftrightarrow>
     cs \<noteq> [] \<and> hd cs = dotdot"
proof (cases cs)
  case Nil
  then show ?thesis by (simp add: dotdot_def)
next
  case (Cons x xs)
  have t: "takeWhile (\<lambda>c. c \<noteq> CHR ''/'') (str_join ''/'' cs) = x"
    using takeWhile_join [of x xs] assms Cons by simp
  show ?thesis
  proof
    assume "str_join ''/'' cs = dotdot \<or> has_prefix (str_join ''/'' cs) ''../''"
    then have "takeWhile (\<lambda>c. c \<noteq> CHR ''/'') (str_join ''/'' cs) = dotdot"
      by (auto simp: dotdot_def has_prefix_iff)
    with t Cons show "cs \<noteq> [] \<and> hd cs = dotdot" by simp
  next
    assume "cs \<noteq> [] \<and> hd cs = dotdot"
    with Cons show "str_join ''/'' cs = dotdot \<or> has_prefix (str_join ''/'' cs) ''../''"
      by (cases xs) (auto simp: dotdot_def has_prefix_iff)
  qed
qed

lemma path_Clean_escapes:
  assumes "\<not> path_IsAbs p"
  shows "(path_Clean p = dotdot \<or> has_prefix (path_Clean p) ''../'') \<longleftrightarrow>
     \<not> stays_inside 0 (split_on (CHR ''/'') p)"
proof -
  have "(path_Clean p = dotdot \<or> has_prefix (path_Clean p) ''../'') \<longleftrightarrow>
        (str_join ''/'' (clean_components False p) = dotdot \<or>
         has_prefix (str_join ''/'' (clean_components False p)) ''../'')"
    using assms by (auto simp: path_Clean_def Let_def dotdot_def)
  also have "\<dots> \<longleftrightarrow> clean_components False p \<noteq> [] \<and> hd (clean_components False p) = dotdot"
    by (rule dotdot_first) (rule clean_components_no_slash)
  also have "\<dots> \<longleftrightarrow> \<not> stays_inside 0 (split_on (CHR ''/'') p)"
    using foldl_clean_inside [of "[]" "split_on (CHR ''/'') p"]
    by (auto simp: clean_components_def hd_rev)
  finally show ?thesis .
qed

lemma path_IsAbs_fold: "path_IsAbs (fold_slashes p) \<longleftrightarrow> p \<noteq> '''' \<and> hd p \<in> {CHR ''/'', CHR 0x5C}"
  by (cases p) (auto simp: path_IsAbs_def fold_slashes_def)

text \<open>
  C0: a path is accepted exactly when it is not empty, absolute neither to the host nor by a
  leading slash of either kind, and, read with backslashes as separators, the walk it
  describes never leaves the workspace root.
\<close>

theorem validatePath_safe:
  "validatePath host_abs p = None \<longleftrightarrow>
   p \<noteq> '''' \<and> \<not> host_abs p \<and> hd p \<notin> {CHR ''/'', CHR 0x5C} \<and>
   stays_inside 0 (split_on (CHR ''/'') (fold_slashes p))"
proof (cases "p = '''' \<or> path_IsAbs (fold_slashes p) \<or> host_abs p")
  case True
  then show ?thesis by (auto simp: validatePath_def path_IsAbs_fold)
next
  case False
  then have "validatePath host_abs p = None \<longleftrightarrow>
      \<not> (path_Clean (fold_slashes p) = dotdot \<or> has_prefix (path_Clean (fold_slashes p)) ''../'')"
    by (simp add: validatePath_def Let_def)
  moreover from False path_IsAbs_fold [of p]
  have "p \<noteq> []" "\<not> host_abs p" "hd p \<notin> {CHR ''/'', CHR 0x5C}" "\<not> path_IsAbs (fold_slashes p)"
    by auto
  ultimately show ?thesis using path_Clean_escapes [of "fold_slashes p"] by blast
qed

subsection \<open>Printing a patch and reading it back\<close>

definition print_hunk :: "hunk \<Rightarrow> string list" where
  "print_hunk h =
     (''@@ '' @ h_anchor h) # map ((@) ''-'') (h_removed h) @ map ((@) ''+'') (h_added h)"

definition print_op :: "patch_op \<Rightarrow> string list" where
  "print_op p =
     (case op_kind p of
        opAdd \<Rightarrow> (mark_add @ op_path p) # map ((@) ''+'') (op_body p)
      | opUpdate \<Rightarrow> (mark_update @ op_path p) # concat (map print_hunk (op_hunks p))
      | opDelete \<Rightarrow> [mark_delete @ op_path p])"

definition print_patch :: "patch_op list \<Rightarrow> string" where
  "print_patch ops =
     str_join [newline] (mark_begin # concat (map print_op ops) @ [mark_end])"

text \<open>Lines without a line break, paths and anchors without surrounding space.\<close>

definition wf_line :: "string \<Rightarrow> bool" where
  "wf_line l \<longleftrightarrow> newline \<notin> set l \<and> (l = '''' \<or> last l \<noteq> CHR 0x0D)"

definition wf_hunk :: "hunk \<Rightarrow> bool" where
  "wf_hunk h \<longleftrightarrow>
     newline \<notin> set (h_anchor h) \<and> trim_space (h_anchor h) = h_anchor h \<and>
     list_all wf_line (h_removed h) \<and> list_all wf_line (h_added h) \<and>
     h_atLine h = 0 \<and> h_entries h = [] \<and> \<not> h_unified h"

definition wf_op :: "(string \<Rightarrow> bool) \<Rightarrow> patch_op \<Rightarrow> bool" where
  "wf_op host_abs p \<longleftrightarrow>
     newline \<notin> set (op_path p) \<and> trim_space (op_path p) = op_path p \<and>
     validatePath host_abs (op_path p) = None \<and>
     (case op_kind p of
        opAdd \<Rightarrow> op_body p \<noteq> [] \<and> list_all wf_line (op_body p) \<and> op_hunks p = []
      | opUpdate \<Rightarrow> op_hunks p \<noteq> [] \<and> list_all wf_hunk (op_hunks p) \<and> op_body p = []
      | opDelete \<Rightarrow> op_body p = [] \<and> op_hunks p = [])"

lemma trim_right_char_id: "s = [] \<or> last s \<noteq> c \<Longrightarrow> trim_right_char c s = s"
  by (cases s rule: rev_cases) (auto simp: trim_right_char_def)

lemma wf_line_keep: "wf_line l \<Longrightarrow> c \<noteq> CHR 0x0D \<Longrightarrow> trim_right_char (CHR 0x0D) (c # l) = c # l"
  by (rule trim_right_char_id) (auto simp: wf_line_def)

lemma trimmed_last: "trim_space p = p \<Longrightarrow> p \<noteq> '''' \<Longrightarrow> last p \<noteq> CHR 0x0D"
proof (cases p rule: rev_cases)
  case (snoc q c)
  assume "trim_space p = p"
  from trimmed_no_rune [OF this, of "[CHR 0x0D]"] snoc show ?thesis
    by (simp add: space_runes_def)
qed simp

lemma parse_body_line:
  assumes "trim_right_char (CHR 0x0D) raw = c # l" "plain c" "c \<noteq> CHR ''*''" "ps_in s"
  shows "parse_step host_abs s raw =
     (case current_op s of
        None \<Rightarrow> Fail (UnexpectedBeforeOp (c # l))
      | Some p \<Rightarrow>
          (case op_kind p of
             opAdd \<Rightarrow>
               (if \<not> has_prefix (c # l) ''+'' then Fail (AddLineNoPlus (op_path p) (c # l))
                else upd_current (add_body (trim_prefix (c # l) ''+'')) s)
           | opUpdate \<Rightarrow> update_line (c # l) (trim_space (c # l)) p s
           | opDelete \<Rightarrow> Fail (DeleteBody (op_path p) (c # l))))"
proof -
  obtain t where "trim_space (c # l) = c # t" using trim_space_plain [OF assms(2)] by blast
  with assms show ?thesis
    by (auto simp: parse_step_def mark_begin_def mark_end_def mark_add_def mark_update_def
        mark_delete_def split: opKind.splits option.splits)
qed

lemma parse_add_body:
  assumes "list_all wf_line ls" "op_kind p = opAdd"
  shows "parse_lines host_abs \<lparr>ps_ops = os @ [p], ps_in = True\<rparr> (map ((@) ''+'') ls @ rest) =
     parse_lines host_abs \<lparr>ps_ops = os @ [p\<lparr>op_body := op_body p @ ls\<rparr>], ps_in = True\<rparr> rest"
  using assms
proof (induction ls arbitrary: p)
  case Nil
  then show ?case by simp
next
  case (Cons l ls)
  then have "trim_right_char (CHR 0x0D) (CHR ''+'' # l) = CHR ''+'' # l" by (simp add: wf_line_keep)
  from parse_body_line [OF this] Cons.prems
  have "parse_step host_abs \<lparr>ps_ops = os @ [p], ps_in = True\<rparr> (CHR ''+'' # l) =
      Go \<lparr>ps_ops = os @ [add_body l p], ps_in = True\<rparr>"
    by (simp add: plain_marks current_op_def upd_current_def trim_prefix_def)
  moreover have "op_kind (add_body l p) = opAdd" using Cons.prems by (simp add: add_body_def)
  ultimately show ?case
    using Cons.IH [of "add_body l p"] Cons.prems by (simp add: add_body_def)
qed

text \<open>One line of the current hunk, \<open>f\<close> being what it does to it.\<close>

lemma parse_hunk_lines:
  assumes "list_all wf_line ls" "op_kind p = opUpdate" "op_hunks p = hs @ [h]"
    "c = CHR ''-'' \<and> f = hunk_remove \<or> c = CHR ''+'' \<and> f = hunk_add"
  shows "parse_lines host_abs \<lparr>ps_ops = os @ [p], ps_in = True\<rparr> (map ((@) [c]) ls @ rest) =
     parse_lines host_abs \<lparr>ps_ops = os @ [p\<lparr>op_hunks := hs @ [fold f ls h]\<rparr>], ps_in = True\<rparr> rest"
  using assms(1-3)
proof (induction ls arbitrary: p h)
  case Nil
  then have "p\<lparr>op_hunks := hs @ [h]\<rparr> = p" by (cases p) simp
  then show ?case by simp
next
  case (Cons l ls)
  then have "trim_right_char (CHR 0x0D) (c # l) = c # l" using assms(4) by (auto simp: wf_line_keep)
  from parse_body_line [OF this] Cons.prems assms(4)
  have "parse_step host_abs \<lparr>ps_ops = os @ [p], ps_in = True\<rparr> (c # l) =
      Go \<lparr>ps_ops = os @ [on_hunk (f l) p], ps_in = True\<rparr>"
    by (auto simp: plain_marks current_op_def upd_current_def trim_prefix_def update_line_def)
  moreover have "op_kind (on_hunk (f l) p) = opUpdate" "op_hunks (on_hunk (f l) p) = hs @ [f l h]"
    using Cons.prems by (simp_all add: on_hunk_def)
  ultimately show ?case
    using Cons.IH [of "on_hunk (f l) p" "f l h"] Cons.prems by (simp add: on_hunk_def)
qed

lemma fold_hunk_remove: "fold hunk_remove ls h = h\<lparr>h_removed := h_removed h @ ls\<rparr>"
  by (induction ls arbitrary: h) (simp_all add: hunk_remove_def)

lemma fold_hunk_add: "fold hunk_add ls h = h\<lparr>h_added := h_added h @ ls\<rparr>"
  by (induction ls arbitrary: h) (simp_all add: hunk_add_def)

lemma parse_print_hunk:
  assumes "wf_hunk h" "op_kind p = opUpdate"
  shows "parse_lines host_abs \<lparr>ps_ops = os @ [p], ps_in = True\<rparr> (print_hunk h @ rest) =
     parse_lines host_abs \<lparr>ps_ops = os @ [add_hunk h p], ps_in = True\<rparr> rest"
proof -
  let ?a = "''@@ '' @ h_anchor h"
  have "trim_right_char (CHR 0x0D) ?a = ?a"
    using assms(1) trimmed_last [of "h_anchor h"]
    by (intro trim_right_char_id) (auto simp: wf_hunk_def)
  from parse_body_line [of _ "CHR ''@''", OF this [simplified]] assms
  have "parse_step host_abs \<lparr>ps_ops = os @ [p], ps_in = True\<rparr> ?a =
      Go \<lparr>ps_ops = os @ [add_hunk (new_hunk (h_anchor h)) p], ps_in = True\<rparr>"
    by (simp add: plain_marks current_op_def upd_current_def trim_prefix_def update_line_def
        trim_space_blank wf_hunk_def)
  moreover
  let ?h1 = "(new_hunk (h_anchor h))\<lparr>h_removed := h_removed h\<rparr>"
  let ?p0 = "add_hunk (new_hunk (h_anchor h)) p"
  have "parse_lines host_abs \<lparr>ps_ops = os @ [?p0], ps_in = True\<rparr>
        (map ((@) ''-'') (h_removed h) @ map ((@) ''+'') (h_added h) @ rest) =
      parse_lines host_abs \<lparr>ps_ops = os @ [?p0\<lparr>op_hunks := op_hunks p @ [?h1]\<rparr>], ps_in = True\<rparr>
        (map ((@) ''+'') (h_added h) @ rest)"
    using assms parse_hunk_lines [of "h_removed h" ?p0 "op_hunks p" "new_hunk (h_anchor h)"
        "CHR ''-''" hunk_remove]
    by (simp add: wf_hunk_def add_hunk_def fold_hunk_remove new_hunk_def)
  moreover
  have "?h1\<lparr>h_added := h_added h\<rparr> = h"
    using assms(1) by (cases h) (simp add: wf_hunk_def new_hunk_def)
  then have "parse_lines host_abs \<lparr>ps_ops = os @ [?p0\<lparr>op_hunks := op_hunks p @ [?h1]\<rparr>], ps_in = True\<rparr>
        (map ((@) ''+'') (h_added h) @ rest) =
      parse_lines host_abs \<lparr>ps_ops = os @ [add_hunk h p], ps_in = True\<rparr> rest"
    using assms parse_hunk_lines [of "h_added h" "?p0\<lparr>op_hunks := op_hunks p @ [?h1]\<rparr>" "op_hunks p" ?h1
        "CHR ''+''" hunk_add]
    by (simp add: wf_hunk_def add_hunk_def fold_hunk_add new_hunk_def)
  ultimately show ?thesis by (simp add: print_hunk_def)
qed

lemma parse_print_hunks:
  assumes "list_all wf_hunk hs" "op_kind p = opUpdate"
  shows "parse_lines host_abs \<lparr>ps_ops = os @ [p], ps_in = True\<rparr> (concat (map print_hunk hs) @ rest) =
     parse_lines host_abs \<lparr>ps_ops = os @ [p\<lparr>op_hunks := op_hunks p @ hs\<rparr>], ps_in = True\<rparr> rest"
  using assms
proof (induction hs arbitrary: p)
  case Nil
  then show ?case by simp
next
  case (Cons h hs)
  then show ?case
    using parse_print_hunk [of h p] Cons.IH [of "add_hunk h p"] by (simp add: add_hunk_def)
qed


definition complete :: "patch_op list \<Rightarrow> bool" where
  "complete os \<longleftrightarrow>
     (\<forall>p\<in>set os. (op_kind p = opAdd \<longrightarrow> op_body p \<noteq> []) \<and> (op_kind p = opUpdate \<longrightarrow> op_hunks p \<noteq> []))"

lemma complete_current:
  "complete (ps_ops s) \<Longrightarrow> current_lacks_hunks s = None \<and> current_lacks_lines s = None"
  by (cases "ps_ops s" rule: rev_cases)
    (auto simp: complete_def current_lacks_hunks_def current_lacks_lines_def current_op_def)

definition kind_mark :: "opKind \<Rightarrow> string" where
  "kind_mark k = (case k of opAdd \<Rightarrow> mark_add | opUpdate \<Rightarrow> mark_update | opDelete \<Rightarrow> mark_delete)"

lemma parse_directive:
  assumes "complete os" "trim_space p = p" "validatePath host_abs p = None"
  shows "parse_step host_abs \<lparr>ps_ops = os, ps_in = True\<rparr> (kind_mark k @ p) =
     Go \<lparr>ps_ops = os @ [new_op k p], ps_in = True\<rparr>"
proof -
  have ne: "p \<noteq> ''''" using assms(3) by (auto simp: validatePath_def)
  have "trim_right_char (CHR 0x0D) (kind_mark k @ p) = kind_mark k @ p"
    using trimmed_last [OF assms(2) ne] ne by (intro trim_right_char_id) simp
  moreover obtain m where m: "kind_mark k = CHR ''*'' # m @ '' ''"
    by (cases k) (auto simp: kind_mark_def mark_add_def mark_update_def mark_delete_def
        intro: that [of "''** Add File:''"] that [of "''** Update File:''"] that [of "''** Delete File:''"])
  then have "trim_space (kind_mark k @ p) = kind_mark k @ p"
    using trimmed_snoc [OF assms(2) ne plain_marks(4), of m] by simp
  ultimately show ?thesis
    using assms complete_current [of "\<lparr>ps_ops = os, ps_in = True\<rparr>"]
    by (cases k) (simp_all add: parse_step_def kind_mark_def mark_begin_def mark_end_def mark_add_def
        mark_update_def mark_delete_def directive_path_def trim_prefix_def start_op_def)
qed

lemma parse_print_op:
  assumes "complete os" "wf_op host_abs p"
  shows "parse_lines host_abs \<lparr>ps_ops = os, ps_in = True\<rparr> (print_op p @ rest) =
     parse_lines host_abs \<lparr>ps_ops = os @ [p], ps_in = True\<rparr> rest"
proof -
  from assms have d: "parse_step host_abs \<lparr>ps_ops = os, ps_in = True\<rparr> (kind_mark (op_kind p) @ op_path p) =
      Go \<lparr>ps_ops = os @ [new_op (op_kind p) (op_path p)], ps_in = True\<rparr>"
    by (intro parse_directive) (simp_all add: wf_op_def)
  show ?thesis
  proof (cases "op_kind p")
    case opAdd
    have eta: "\<lparr>op_kind = opAdd, op_path = op_path p, op_body = op_body p, op_hunks = []\<rparr> = p"
      using opAdd assms(2) by (cases p) (simp add: wf_op_def)
    with d opAdd assms(2) show ?thesis
      using parse_add_body [of "op_body p" "new_op opAdd (op_path p)" host_abs os rest] eta
      by (simp add: print_op_def kind_mark_def wf_op_def new_op_def)
  next
    case opUpdate
    have eta: "\<lparr>op_kind = opUpdate, op_path = op_path p, op_body = [], op_hunks = op_hunks p\<rparr> = p"
      using opUpdate assms(2) by (cases p) (simp add: wf_op_def)
    with d opUpdate assms(2) show ?thesis
      using parse_print_hunks [of "op_hunks p" "new_op opUpdate (op_path p)" host_abs os rest] eta
      by (simp add: print_op_def kind_mark_def wf_op_def new_op_def)
  next
    case opDelete
    have "new_op opDelete (op_path p) = p"
      using assms(2) opDelete by (cases p) (simp add: wf_op_def new_op_def)
    with d opDelete show ?thesis by (simp add: print_op_def kind_mark_def)
  qed
qed

lemma wf_op_complete: "list_all (wf_op host_abs) ops \<Longrightarrow> complete ops"
  by (auto simp: list_all_iff complete_def wf_op_def split: opKind.splits)

lemma parse_print_ops:
  "list_all (wf_op host_abs) (os @ ops) \<Longrightarrow>
   parse_lines host_abs \<lparr>ps_ops = os, ps_in = True\<rparr> (concat (map print_op ops) @ rest) =
   parse_lines host_abs \<lparr>ps_ops = os @ ops, ps_in = True\<rparr> rest"
proof (induction ops arbitrary: os)
  case Nil
  then show ?case by simp
next
  case (Cons p ps)
  then have "complete os" "wf_op host_abs p" by (auto intro: wf_op_complete)
  with Cons.IH [of "os @ [p]"] Cons.prems show ?case by (simp add: parse_print_op)
qed

lemma marks_trim:
  "trim_right_char (CHR 0x0D) mark_begin = mark_begin" "trim_space mark_begin = mark_begin"
  "trim_right_char (CHR 0x0D) mark_end = mark_end" "trim_space mark_end = mark_end"
  by code_simp+

lemma marks_differ: "mark_end \<noteq> mark_begin"
  by (simp add: mark_begin_def mark_end_def)

lemma print_op_lines:
  assumes "wf_op host_abs p" "l \<in> set (print_op p)"
  shows "newline \<notin> set l"
  using assms
  by (cases "op_kind p")
    (auto simp: wf_op_def wf_hunk_def wf_line_def list_all_iff print_op_def print_hunk_def newline_def
      mark_add_def mark_update_def mark_delete_def)

text \<open>
  C4: a patch printed from ops reads back as exactly those ops: any list of well-formed ops
  (paths that \<open>validatePath\<close> accepts, lines without a line break, every Add with a line and
  every Update with a hunk) survives the round trip through \<open>Parse\<close>.
\<close>

theorem Parse_print_patch:
  "list_all (wf_op host_abs) ops \<Longrightarrow> Parse host_abs (print_patch ops) = Inr ops"
proof -
  assume wf: "list_all (wf_op host_abs) ops"
  have "\<forall>w\<in>set (mark_begin # concat (map print_op ops) @ [mark_end]). newline \<notin> set w"
    using wf by (auto simp: list_all_iff mark_begin_def mark_end_def newline_def
        dest: print_op_lines [unfolded newline_def])
  then have "split_on newline (print_patch ops) = mark_begin # concat (map print_op ops) @ [mark_end]"
    unfolding print_patch_def by (intro split_on_join) simp_all
  moreover have "parse_step host_abs init_parse mark_begin = Go \<lparr>ps_ops = [], ps_in = True\<rparr>"
    by (simp add: parse_step_def marks_trim init_parse_def)
  moreover have "parse_step host_abs \<lparr>ps_ops = ops, ps_in = True\<rparr> mark_end = Return ops"
    using complete_current [of "\<lparr>ps_ops = ops, ps_in = True\<rparr>"] wf_op_complete [OF wf]
    by (simp add: parse_step_def marks_trim Let_def marks_differ)
  ultimately show ?thesis
    using parse_print_ops [of host_abs "[]" ops "[mark_end]"] wf by (simp add: Parse_def)
qed

definition sample_ops :: "patch_op list" where
  "sample_ops =
     [(new_op opAdd ''new.txt'')\<lparr>op_body := [''one'', '''']\<rparr>,
      (new_op opUpdate ''dir/old.txt'')
        \<lparr>op_hunks := [(new_hunk ''fn'')\<lparr>h_removed := [''a''], h_added := ['' b'']\<rparr>]\<rparr>,
      new_op opDelete ''gone'']"

theorem Parse_print_patch_witness:
  "Parse (\<lambda>p. False) (print_patch sample_ops) = Inr sample_ops"
proof -
  have "list_all (wf_op (\<lambda>p. False)) sample_ops" by code_simp
  then show ?thesis by (rule Parse_print_patch)
qed

end
