(* ===== verification/PatchUnified.thy ===== *)
theory PatchUnified
  imports PatchParse
begin

text \<open>
  The unified-diff reader, \<open>src/internal/foundation/utils/patch/unified.go\<close>, and the choice
  between the two formats (\<open>ParseAny\<close>). The hunk being read is held apart from the op until
  \<open>flushHunk\<close> appends it, as the Go closure does.
\<close>

subsection \<open>Recognising the format\<close>

fun looks_unified_lines :: "string list \<Rightarrow> bool" where
  "looks_unified_lines [] = False"
| "looks_unified_lines (raw # rest) =
     (let line = trim_right_char (CHR 0x0D) raw in
      if has_prefix line ''diff --git '' then True
      else if has_prefix line ''--- '' \<and> rest \<noteq> [] \<and>
              has_prefix (trim_right_char (CHR 0x0D) (hd rest)) ''+++ '' then True
      else looks_unified_lines rest)"

definition LooksLikeUnifiedDiff :: "string \<Rightarrow> bool" where
  "LooksLikeUnifiedDiff text = looks_unified_lines (split_on newline text)"

subsection \<open>Paths and ranges of the headers\<close>

definition devnull :: string where "devnull = ''/dev/null''"

definition cleanDiffPath :: "string \<Rightarrow> string" where
  "cleanDiffPath path =
     (let p1 = trim_space path;
          p2 = (case find_index (\<lambda>c. c = CHR 0x09) p1 of Some tab \<Rightarrow> take tab p1 | None \<Rightarrow> p1);
          p3 = trim_space p2
      in if p3 = devnull then p3
         else trim_space (if has_prefix p3 ''a/'' \<or> has_prefix p3 ''b/'' then drop 2 p3 else p3))"

definition parseDiffGitPaths :: "string \<Rightarrow> string \<times> string" where
  "parseDiffGitPaths line =
     (let rest = filter (\<lambda>c. c \<noteq> CHR 0x22) (trim_prefix line ''diff --git '')
      in case str_index rest '' b/'' of
           None \<Rightarrow> (cleanDiffPath rest, '''')
         | Some idx \<Rightarrow> (cleanDiffPath (take idx rest), cleanDiffPath (drop (idx + 1) rest)))"

text \<open>
  \<open>strings.Fields\<close> splits at runs of white space; only its first word is used, so that is
  what is modelled: leading space dropped, then everything up to the next space rune.
\<close>

definition starts_space :: "string \<Rightarrow> bool" where
  "starts_space s \<longleftrightarrow> find (\<lambda>w. has_prefix s w) space_runes \<noteq> None"

fun until_space :: "string \<Rightarrow> string" where
  "until_space [] = []"
| "until_space (c # s) = (if starts_space (c # s) then [] else c # until_space s)"

definition first_field :: "string \<Rightarrow> string option" where
  "first_field s = (let t = trim_left_space s in if t = [] then None else Some (until_space t))"

definition parseHunkRange :: "string \<Rightarrow> patch_error + (int \<times> int)" where
  "parseHunkRange line =
     (let rest = trim_prefix line ''@@'' in
      case str_index rest ''@@'' of
        None \<Rightarrow> Inl (MalformedHeader line)
      | Some en \<Rightarrow>
          (case first_field (take en rest) of
             None \<Rightarrow> Inl (MalformedHeader line)
           | Some field \<Rightarrow>
               (if \<not> has_prefix field ''-'' then Inl (MalformedHeader line)
                else
                  (let rangeText = trim_prefix field ''-'';
                       (startText, countText) =
                         (case find_index (\<lambda>c. c = CHR '','') rangeText of
                            Some comma \<Rightarrow> (take comma rangeText, drop (comma + 1) rangeText)
                          | None \<Rightarrow> (rangeText, ''1''))
                   in case atoi (trim_space startText) of
                        None \<Rightarrow> Inl (MalformedStart line)
                      | Some start \<Rightarrow>
                          (case atoi (trim_space countText) of
                             None \<Rightarrow> Inl (MalformedLength line)
                           | Some count' \<Rightarrow>
                               (if start < 0 \<or> count' < 0 then Inl (NegativeRange line)
                                else Inr (start, count')))))))"

subsection \<open>The reader\<close>

record unified_state =
  us_ops :: "patch_op list"
  us_hunk :: "hunk option"
  us_saw :: bool
  us_old :: string
  us_new :: string

definition init_unified :: unified_state where
  "init_unified = \<lparr>us_ops = [], us_hunk = None, us_saw = False, us_old = '''', us_new = ''''\<rparr>"

definition flushHunk :: "unified_state \<Rightarrow> unified_state" where
  "flushHunk s =
     s\<lparr>us_ops := (case us_hunk s of
                    Some h \<Rightarrow> (if us_ops s \<noteq> [] \<and> us_saw s then map_last (add_hunk h) (us_ops s)
                               else us_ops s)
                  | None \<Rightarrow> us_ops s),
       us_hunk := None, us_saw := False\<rparr>"

definition set_kind :: "opKind \<Rightarrow> unified_state \<Rightarrow> unified_state" where
  "set_kind k s = s\<lparr>us_ops := map_last (\<lambda>p. p\<lparr>op_kind := k\<rparr>) (us_ops s)\<rparr>"

definition set_kind_path :: "opKind \<Rightarrow> string \<Rightarrow> unified_state \<Rightarrow> unified_state" where
  "set_kind_path k path s =
     s\<lparr>us_ops := map_last (\<lambda>p. p\<lparr>op_kind := k, op_path := path\<rparr>) (us_ops s)\<rparr>"

definition ensure_current :: "string \<Rightarrow> unified_state \<Rightarrow> unified_state" where
  "ensure_current path s = (if us_ops s = [] then s\<lparr>us_ops := [new_op opUpdate path]\<rparr> else s)"

text \<open>One content line: the hunk's projections, its entry, and \<open>sawHunkContent\<close>.\<close>

definition unified_entry :: "DiffLineKind \<Rightarrow> string \<Rightarrow> hunk \<Rightarrow> hunk" where
  "unified_entry k l h =
     h\<lparr>h_removed := (if k = DiffLineAdd then h_removed h else h_removed h @ [l]),
       h_added := (if k = DiffLineDelete then h_added h else h_added h @ [l]),
       h_entries := h_entries h @ [\<lparr>he_kind = k, he_text = l\<rparr>]\<rparr>"

definition unified_content ::
  "DiffLineKind \<Rightarrow> string \<Rightarrow> unified_state \<Rightarrow> patch_error + unified_state" where
  "unified_content k raw s =
     (case us_hunk s of
        None \<Rightarrow> Inl (ContentOutsideHunk raw)
      | Some h \<Rightarrow> Inr (s\<lparr>us_hunk := Some (unified_entry k (drop 1 raw) h), us_saw := True\<rparr>))"

definition unified_step :: "unified_state \<Rightarrow> string \<Rightarrow> patch_error + unified_state" where
  "unified_step s l =
     (let raw = trim_right_char (CHR 0x0D) l in
      if has_prefix raw ''diff --git '' then
        (let s1 = flushHunk s; (oldp, newp) = parseDiffGitPaths raw in
         Inr (s1\<lparr>us_old := oldp, us_new := newp,
                us_ops := us_ops s1 @ [new_op opUpdate (if newp = '''' then oldp else newp)]\<rparr>))
      else if has_prefix raw ''--- '' then
        (let s1 = flushHunk s; oldp = cleanDiffPath (trim_prefix raw ''--- '') in
         Inr (ensure_current oldp (s1\<lparr>us_old := oldp\<rparr>)))
      else if has_prefix raw ''+++ '' then
        (let newp = cleanDiffPath (trim_prefix raw ''+++ '');
             s1 = ensure_current newp (s\<lparr>us_new := newp\<rparr>) in
         Inr (if us_old s1 = devnull then set_kind_path opAdd newp s1
              else if newp = devnull then set_kind_path opDelete (us_old s1) s1
              else set_kind_path opUpdate newp s1))
      else if has_prefix raw ''new file mode'' then Inr (set_kind opAdd s)
      else if has_prefix raw ''deleted file mode'' then Inr (set_kind opDelete s)
      else if has_prefix raw ''rename from '' \<or> has_prefix raw ''rename to '' \<or>
              has_prefix raw ''copy from '' \<or> has_prefix raw ''copy to '' then
        Inl (RenameUnsupported raw)
      else if has_prefix raw ''Binary files '' then Inl (BinaryUnsupported raw)
      else if has_prefix raw ''@@'' then
        (let s1 = flushHunk s in
         if us_ops s1 = [] then Inl (HunkBeforeFile raw)
         else
           (case parseHunkRange raw of
              Inl err \<Rightarrow> Inl err
            | Inr (start, count') \<Rightarrow>
                Inr (s1\<lparr>us_hunk := Some ((new_hunk '''')
                          \<lparr>h_unified := True, h_atLine := (if count' = 0 then start else 0)\<rparr>)\<rparr>)))
      else if us_ops s = [] then Inr s
      else if has_prefix raw '' '' then unified_content DiffLineContext raw s
      else if has_prefix raw ''-'' then unified_content DiffLineDelete raw s
      else if has_prefix raw ''+'' then unified_content DiffLineAdd raw s
      else Inr s)"

fun unified_lines :: "unified_state \<Rightarrow> string list \<Rightarrow> patch_error + unified_state" where
  "unified_lines s [] = Inr s"
| "unified_lines s (l # ls) =
     (case unified_step s l of Inl err \<Rightarrow> Inl err | Inr s' \<Rightarrow> unified_lines s' ls)"

fun check_unified_ops :: "(string \<Rightarrow> bool) \<Rightarrow> patch_op list \<Rightarrow> patch_error option" where
  "check_unified_ops host_abs [] = None"
| "check_unified_ops host_abs (p # ps) =
     (if op_path p = '''' \<or> op_path p = devnull then Some FileWithoutPath
      else case validatePath host_abs (op_path p) of
             Some err \<Rightarrow> Some err
           | None \<Rightarrow>
               (if op_kind p = opAdd \<and> op_body p = [] \<and> op_hunks p = []
                then Some (AddNoLines (op_path p))
                else check_unified_ops host_abs ps))"

definition collect_add_body :: "patch_op \<Rightarrow> patch_op" where
  "collect_add_body p =
     (if op_kind p \<noteq> opAdd then p
      else p\<lparr>op_body := op_body p @ concat (map h_added (op_hunks p)), op_hunks := []\<rparr>)"

definition parseUnifiedDiffOps ::
  "(string \<Rightarrow> bool) \<Rightarrow> string \<Rightarrow> patch_error + patch_op list" where
  "parseUnifiedDiffOps host_abs text =
     (case unified_lines init_unified (split_on newline text) of
        Inl err \<Rightarrow> Inl err
      | Inr s \<Rightarrow>
          (let ops = us_ops (flushHunk s) in
           if ops = [] then Inl NoFileHeaders
           else case check_unified_ops host_abs ops of
                  Some err \<Rightarrow> Inl err
                | None \<Rightarrow> Inr (map collect_add_body ops)))"

definition ParseAny :: "(string \<Rightarrow> bool) \<Rightarrow> string \<Rightarrow> patch_error + patch_op list" where
  "ParseAny host_abs patch =
     (if LooksLikeUnifiedDiff patch then parseUnifiedDiffOps host_abs patch
      else Parse host_abs patch)"

subsection \<open>Every op of an accepted patch stays in the workspace\<close>

definition paths_ok :: "(string \<Rightarrow> bool) \<Rightarrow> patch_op list \<Rightarrow> bool" where
  "paths_ok host_abs ops \<longleftrightarrow> list_all (\<lambda>p. validatePath host_abs (op_path p) = None) ops"

lemma paths_ok_simps [simp]:
  "paths_ok host_abs []"
  "paths_ok host_abs (xs @ ys) \<longleftrightarrow> paths_ok host_abs xs \<and> paths_ok host_abs ys"
  "paths_ok host_abs [p] \<longleftrightarrow> validatePath host_abs (op_path p) = None"
  by (simp_all add: paths_ok_def)

lemma paths_ok_map_last:
  "(\<And>p. op_path (f p) = op_path p) \<Longrightarrow> paths_ok host_abs (map_last f ops) = paths_ok host_abs ops"
  by (cases ops rule: rev_cases) simp_all

lemma path_kept [simp]:
  "op_path (add_body l p) = op_path p" "op_path (add_hunk h p) = op_path p"
  "op_path (on_hunk f p) = op_path p"
  by (simp_all add: add_body_def add_hunk_def on_hunk_def)

fun outcome_ok :: "(string \<Rightarrow> bool) \<Rightarrow> parse_outcome \<Rightarrow> bool" where
  "outcome_ok host_abs (Fail e) = True"
| "outcome_ok host_abs (Return ops) = paths_ok host_abs ops"
| "outcome_ok host_abs (Go s) = paths_ok host_abs (ps_ops s)"

lemma outcome_ok_start:
  "paths_ok host_abs (ps_ops s) \<Longrightarrow> outcome_ok host_abs (start_op host_abs k p s)"
  by (simp add: start_op_def new_op_def split: option.split)

lemma outcome_ok_upd:
  "(\<And>p. op_path (f p) = op_path p) \<Longrightarrow> paths_ok host_abs (ps_ops s) \<Longrightarrow>
   outcome_ok host_abs (upd_current f s)"
  by (simp add: upd_current_def paths_ok_map_last)

lemma parse_step_paths:
  "paths_ok host_abs (ps_ops s) \<Longrightarrow> outcome_ok host_abs (parse_step host_abs s raw)"
  by (simp add: parse_step_def Let_def update_line_def outcome_ok_start outcome_ok_upd
      split: option.split opKind.split)

lemma parse_lines_paths:
  "paths_ok host_abs (ps_ops s) \<Longrightarrow> parse_lines host_abs s ls = Inr ops \<Longrightarrow> paths_ok host_abs ops"
proof (induction ls arbitrary: s)
  case Nil
  then show ?case by simp
next
  case (Cons l ls)
  show ?case
    using Cons parse_step_paths [OF Cons.prems(1), of l]
    by (cases "parse_step host_abs s l") simp_all
qed

lemma check_unified_paths: "check_unified_ops host_abs ops = None \<Longrightarrow> paths_ok host_abs ops"
  by (induction ops) (auto simp: paths_ok_def split: if_splits option.splits)

text \<open>
  C3: whatever the text, in whichever of the two formats, an op that \<open>ParseAny\<close> returns has a
  path that \<open>validatePath\<close> accepts, so no op handed to \<open>Apply\<close> names a file outside the
  workspace.
\<close>

theorem ParseAny_paths_safe:
  "case ParseAny host_abs patch of
     Inl err \<Rightarrow> True
   | Inr ops \<Rightarrow> list_all (\<lambda>p. validatePath host_abs (op_path p) = None) ops"
proof (cases "ParseAny host_abs patch")
  case (Inr ops)
  have "paths_ok host_abs ops"
  proof (cases "LooksLikeUnifiedDiff patch")
    case True
    from True Inr obtain s where "check_unified_ops host_abs (us_ops (flushHunk s)) = None"
      "ops = map collect_add_body (us_ops (flushHunk s))"
      by (auto simp: ParseAny_def parseUnifiedDiffOps_def Let_def split: sum.splits if_splits option.splits)
    with check_unified_paths [of host_abs "us_ops (flushHunk s)"] show ?thesis
      by (auto simp: paths_ok_def list_all_iff collect_add_body_def)
  next
    case False
    with Inr show ?thesis
      by (auto simp: ParseAny_def Parse_def init_parse_def intro: parse_lines_paths [rotated])
  qed
  with Inr show ?thesis by (simp add: paths_ok_def)
qed simp

subsection \<open>Where the readers are too lenient\<close>

text \<open>A removed line whose text starts with \<open>"-- "\<close> is read as a file header and lost.\<close>

theorem unified_loses_dash_line:
  "map_sum (\<lambda>_. ()) (map (\<lambda>p. (op_path p, map h_removed (op_hunks p))))
     (parseUnifiedDiffOps (\<lambda>p. False)
        (str_join [newline] [''--- a/f'', ''+++ b/f'', ''@@ -1,2 +1 @@'', '' one'', ''--- two''])) =
   Inr [(''f'', [[''one'']])]"
  by code_simp

text \<open>An added line whose text starts with \<open>"++ "\<close> changes the file the patch is for.\<close>

theorem unified_retargets_plus_line:
  "map_sum (\<lambda>_. ()) (map (\<lambda>p. (op_path p, map h_added (op_hunks p))))
     (parseUnifiedDiffOps (\<lambda>p. False)
        (str_join [newline] [''--- a/f'', ''+++ b/f'', ''@@ -1 +1,2 @@'', '' one'', ''+++ other''])) =
   Inr [(''other'', [[''one'']])]"
  by code_simp

text \<open>An Update without a hunk is refused before another Update or the end, not before a Delete.\<close>

theorem empty_update_accepted:
  "map_sum (\<lambda>_. ()) (map (\<lambda>p. (op_kind p, op_hunks p)))
     (Parse (\<lambda>p. False) (str_join [newline]
        [mark_begin, mark_update @ ''f'', mark_delete @ ''g'', mark_end])) =
   Inr [(opUpdate, []), (opDelete, [])]"
  by code_simp

text \<open>An Add without a line is refused before another Add, not at the end.\<close>

theorem empty_add_accepted:
  "map_sum (\<lambda>_. ()) (map (\<lambda>p. (op_kind p, op_body p)))
     (Parse (\<lambda>p. False) (str_join [newline] [mark_begin, mark_add @ ''f'', mark_end])) =
   Inr [(opAdd, [])]"
  by code_simp

end
