(* ===== verification/PatchApply.thy ===== *)
theory PatchApply
  imports PatchParse
begin

text \<open>
  Applying a patch, \<open>patch.go\<close>: the hunk matcher \<open>applyHunk\<close>, the locator that explains a
  hunk that does not match (\<open>locateHunk\<close> and what renders its finding), and \<open>Apply\<close> over a
  workspace. The workspace is an interface of the flowcraft module, so it is the parameter
  \<open>ws_ops\<close>; \<open>fmt\<close>'s \<open>%q\<close> is the parameter \<open>quote\<close>.
\<close>

subsection \<open>Lines\<close>

definition splitLines :: "string \<Rightarrow> string list" where
  "splitLines s =
     (let t = trim_suffix s [newline] in if t = '''' then [] else split_on newline t)"

definition joinLines :: "string list \<Rightarrow> string" where
  "joinLines ls = str_join [newline] ls @ [newline]"

subsection \<open>The hunk matcher\<close>

text \<open>The inner loop: the removed lines stand at the front of \<open>ls\<close>.\<close>

fun lines_match :: "string list \<Rightarrow> string list \<Rightarrow> bool" where
  "lines_match ls [] = True"
| "lines_match [] (r # rs) = False"
| "lines_match (l # ls) (r # rs) = (l = r \<and> lines_match ls rs)"

text \<open>The outer loop: the first position at which they do.\<close>

fun find_match :: "string list \<Rightarrow> string list \<Rightarrow> nat option" where
  "find_match ls rs =
     (if length ls < length rs then None
      else if lines_match ls rs then Some 0
      else case ls of [] \<Rightarrow> None | l # r \<Rightarrow> map_option Suc (find_match r rs))"

declare find_match.simps [simp del]

definition insertion_index :: "string list \<Rightarrow> hunk \<Rightarrow> int" where
  "insertion_index lines h =
     (if h_anchor h \<noteq> '''' then
        (case find_index (\<lambda>l. str_contains l (h_anchor h)) lines of
           Some i \<Rightarrow> int i | None \<Rightarrow> -1)
      else if h_unified h \<and> h_atLine h > 0 then
        (let idx = h_atLine h - 1 in
         if idx > int (length lines) - 1 then int (length lines) - 1 else idx)
      else -1)"

definition applyHunk :: "string list \<Rightarrow> hunk \<Rightarrow> string list \<times> bool" where
  "applyHunk lines h =
     (if h_removed h = [] then
        (let idx = insertion_index lines h in
         if idx < 0 then
           (if h_unified h \<and> h_atLine h = 0 \<and> h_anchor h = '''' then (h_added h @ lines, True)
            else (lines, False))
         else (take (nat (idx + 1)) lines @ h_added h @ drop (nat (idx + 1)) lines, True))
      else
        (case find_match lines (h_removed h) of
           Some i \<Rightarrow>
             (take i lines @ h_added h @ drop (i + length (h_removed h)) lines, True)
         | None \<Rightarrow> (lines, False)))"

subsection \<open>The locator\<close>

definition indexLine :: "string list \<Rightarrow> string \<Rightarrow> int \<times> bool" where
  "indexLine lines want =
     (case find_index (\<lambda>l. l = want) lines of
        Some i \<Rightarrow> (int i, True)
      | None \<Rightarrow>
          (let key = trim_space want in
           if key = '''' then (-1, False)
           else case find_index (\<lambda>l. trim_space l = key) lines of
                  Some i \<Rightarrow> (int i, False)
                | None \<Rightarrow> (-1, False)))"

text \<open>\<open>lines[i]\<close> lines up with hunk line \<open>j\<close> when \<open>hunkAt\<close> sits on \<open>at\<close>.\<close>

definition lines_up :: "string list \<Rightarrow> string list \<Rightarrow> int \<Rightarrow> int \<Rightarrow> nat \<Rightarrow> bool" where
  "lines_up lines removed at hunkAt j =
     (let i = at + (int j - hunkAt) in
      if i < 0 \<or> i \<ge> int (length lines) then False
      else trim_space (lines ! nat i) = trim_space (removed ! j))"

definition countAgree :: "string list \<Rightarrow> hunk \<Rightarrow> int \<Rightarrow> int \<Rightarrow> int" where
  "countAgree lines h at hunkAt =
     int (length (filter (lines_up lines (h_removed h) at hunkAt) [0..<length (h_removed h)]))"

definition better :: "int \<Rightarrow> int \<Rightarrow> bool \<Rightarrow> int \<Rightarrow> int \<Rightarrow> bool \<Rightarrow> bool" where
  "better n key exact bestN bestKey bestExact =
     (if n \<noteq> bestN then n > bestN
      else if key \<noteq> bestKey then key > bestKey
      else exact \<and> \<not> bestExact)"

record hunkLocation =
  loc_at :: int
  loc_hunkAt :: int
  loc_agree :: int
  loc_total :: int

definition loc_found :: "hunkLocation \<Rightarrow> bool" where
  "loc_found l \<longleftrightarrow> loc_at l \<ge> 0"

definition loc_whole :: "hunkLocation \<Rightarrow> bool" where
  "loc_whole l \<longleftrightarrow> loc_found l \<and> loc_agree l = loc_total l"

definition loc_start :: "hunkLocation \<Rightarrow> int" where
  "loc_start l = loc_at l - loc_hunkAt l"

record locate_state =
  lk_loc :: hunkLocation
  lk_bestLen :: int
  lk_bestExact :: bool

definition locate_init :: "hunk \<Rightarrow> locate_state" where
  "locate_init h =
     \<lparr>lk_loc = \<lparr>loc_at = -1, loc_hunkAt = -1, loc_agree = 0, loc_total = int (length (h_removed h))\<rparr>,
      lk_bestLen = 0, lk_bestExact = False\<rparr>"

definition locate_step :: "string list \<Rightarrow> hunk \<Rightarrow> nat \<Rightarrow> locate_state \<Rightarrow> locate_state" where
  "locate_step lines h k s =
     (let want = h_removed h ! k; (i, exact) = indexLine lines want in
      if i < 0 then s
      else
        (let n = countAgree lines h i (int k); key = int (length (trim_space want)) in
         if \<not> better n key exact (loc_agree (lk_loc s)) (lk_bestLen s) (lk_bestExact s) then s
         else \<lparr>lk_loc = (lk_loc s)\<lparr>loc_at := i, loc_hunkAt := int k, loc_agree := n\<rparr>,
               lk_bestLen = key, lk_bestExact = exact\<rparr>))"

definition locateHunk :: "string list \<Rightarrow> hunk \<Rightarrow> hunkLocation" where
  "locateHunk lines h =
     lk_loc (fold (locate_step lines h) [0..<length (h_removed h)] (locate_init h))"

subsection \<open>The explanation\<close>

definition dec_int :: "int \<Rightarrow> string" where
  "dec_int z = (if z < 0 then CHR ''-'' # dec_nat (nat (- z)) else dec_nat (nat z))"

text \<open>\<open>%5d\<close>: padded with spaces on the left to five columns.\<close>

definition pad5 :: "int \<Rightarrow> string" where
  "pad5 z = replicate (5 - length (dec_int z)) (CHR '' '') @ dec_int z"

definition RuneStart :: "char \<Rightarrow> bool" where
  "RuneStart c \<longleftrightarrow> \<not> (128 \<le> (of_char c :: nat) \<and> (of_char c :: nat) < 192)"

fun rune_cut :: "string \<Rightarrow> nat \<Rightarrow> nat" where
  "rune_cut line 0 = 0"
| "rune_cut line (Suc n) = (if RuneStart (line ! Suc n) then Suc n else rune_cut line n)"

definition clipLine :: "string \<Rightarrow> string" where
  "clipLine line =
     (if length line \<le> 200 then line else take (rune_cut line 200) line @ ''...'')"

definition hunkWindowRadius :: int where "hunkWindowRadius = 3"

definition window_line :: "string list \<Rightarrow> int \<Rightarrow> int \<Rightarrow> string" where
  "window_line lines at i =
     ''  '' @ (if i = at then ''> '' else ''  '') @ pad5 (i + 1) @ '' | '' @
     clipLine (lines ! nat i) @ [newline]"

definition renderWindow :: "string list \<Rightarrow> int \<Rightarrow> string" where
  "renderWindow lines at =
     (if at < 0 \<or> at \<ge> int (length lines) then ''''
      else
        (let lo = max 0 (at - hunkWindowRadius);
             hi = min (int (length lines) - 1) (at + hunkWindowRadius)
         in concat (map (window_line lines at) [lo..hi])))"

text \<open>The map \<open>have\<close> holds the trimmed lines; at most three missing lines are quoted.\<close>

fun missing_loop :: "(string \<Rightarrow> string) \<Rightarrow> string list \<Rightarrow> string list \<Rightarrow> string list \<Rightarrow> string list" where
  "missing_loop quote have' [] out = out"
| "missing_loop quote have' (want # ws) out =
     (if List.member have' (trim_space want) then missing_loop quote have' ws out
      else if length out = 3 then out @ [''...'']
      else missing_loop quote have' ws (out @ [quote (clipLine want)]))"

definition missingHunkLines :: "(string \<Rightarrow> string) \<Rightarrow> hunk \<Rightarrow> string list \<Rightarrow> string list" where
  "missingHunkLines quote h lines =
     missing_loop quote (map trim_space lines) (h_removed h) []"

definition loc_render :: "(string \<Rightarrow> string) \<Rightarrow> hunkLocation \<Rightarrow> hunk \<Rightarrow> string list \<Rightarrow> string" where
  "loc_render quote l h lines =
     (if \<not> loc_found l \<or> lines = [] \<or> h_removed h = [] then ''''
      else
        (let window =
               (if loc_whole l then renderWindow lines (loc_start l)
                else ''  hunk line '' @ dec_int (loc_hunkAt l + 1) @ '' is at line '' @
                     dec_int (loc_at l + 1) @ '' of '' @ dec_int (int (length lines)) @ '', and '' @
                     dec_int (loc_agree l) @ '' of '' @ dec_int (loc_total l) @
                     '' hunk lines match there:'' @ [newline] @ renderWindow lines (loc_at l));
             missing = missingHunkLines quote h lines
         in window @
            (if missing \<noteq> [] then
               ''  the file has no line for: '' @ str_join '', '' missing @ [newline] else '''') @
            (if loc_whole l then ''  re-send the hunk with the file's own whitespace.''
             else ''  re-send the hunk with the lines above.'')))"

definition hunkDiagnosis :: "(string \<Rightarrow> string) \<Rightarrow> hunk \<Rightarrow> hunkLocation \<Rightarrow> string" where
  "hunkDiagnosis quote h loc =
     (if h_unified h \<and> h_removed h = [] \<and> h_atLine h > 0 then
        ''the file has fewer than '' @ dec_int (h_atLine h) @
        '' lines, so the insertion point from the hunk header could not be used''
      else if h_removed h = [] \<and> h_anchor h = '''' then
        ''insertion hunk has no anchor and no context lines to locate it; add surrounding context lines or a non-empty \"@@\" anchor''
      else if h_removed h = [] then
        ''no line contains the \"@@\" anchor '' @ quote (h_anchor h)
      else if loc_whole loc then
        ''every line of the hunk is in the file from line '' @ dec_int (loc_start loc + 1) @
        '', but with different leading or trailing space''
      else if loc_found loc then ''the hunk's lines no longer line up in the file''
      else
        ''none of the hunk's lines is in the file any more, starting with '' @
        quote (clipLine (hd (h_removed h))))"

definition hunkProblem :: "(string \<Rightarrow> string) \<Rightarrow> hunk \<Rightarrow> string list \<Rightarrow> nat \<Rightarrow> string" where
  "hunkProblem quote h lines applied =
     (let loc = locateHunk lines h; tail = loc_render quote loc h lines in
      hunkDiagnosis quote h loc @
      (if applied > 0 then
         [newline] @ ''  (line numbers are the file's after the hunks before this one were applied)''
       else '''') @
      (if tail \<noteq> '''' then [newline] @ tail
       else [newline] @ ''  re-read the file and copy the exact lines.''))"

subsection \<open>Applying ops to a workspace\<close>

datatype ws_failure = WsNotFound | WsOther string

record 'w ws_ops =
  ws_Exists :: "'w \<Rightarrow> string \<Rightarrow> ws_failure + bool"
  ws_Read :: "'w \<Rightarrow> string \<Rightarrow> ws_failure + string"
  ws_Write :: "'w \<Rightarrow> string \<Rightarrow> string \<Rightarrow> ws_failure option \<times> 'w"
  ws_Delete :: "'w \<Rightarrow> string \<Rightarrow> ws_failure option \<times> 'w"

datatype apply_error =
    Workspace ws_failure
  | AlreadyExists string
  | DoesNotExist string
  | HunkMismatch nat string string

record FileResult =
  fr_Path :: string
  fr_Action :: string

text \<open>The loop over the hunks; the error carries the hunk's number and the explanation.\<close>

fun apply_hunks ::
  "(string \<Rightarrow> string) \<Rightarrow> string \<Rightarrow> nat \<Rightarrow> string list \<Rightarrow> hunk list \<Rightarrow> apply_error + string list" where
  "apply_hunks quote p i lines [] = Inr lines"
| "apply_hunks quote p i lines (h # hs) =
     (case applyHunk lines h of
        (next', found) \<Rightarrow>
          (if \<not> found then Inl (HunkMismatch (i + 1) p (hunkProblem quote h lines i))
           else apply_hunks quote p (i + 1) next' hs))"

definition applyUpdate ::
  "(string \<Rightarrow> string) \<Rightarrow> 'w ws_ops \<Rightarrow> 'w \<Rightarrow> patch_op \<Rightarrow> apply_error option \<times> 'w" where
  "applyUpdate quote ws w p =
     (case ws_Read ws w (op_path p) of
        Inl WsNotFound \<Rightarrow> (Some (DoesNotExist (op_path p)), w)
      | Inl err \<Rightarrow> (Some (Workspace err), w)
      | Inr data \<Rightarrow>
          (case apply_hunks quote (op_path p) 0 (splitLines data) (op_hunks p) of
             Inl err \<Rightarrow> (Some err, w)
           | Inr lines \<Rightarrow>
               (case ws_Write ws w (op_path p) (joinLines lines) of
                  (Some err, w') \<Rightarrow> (Some (Workspace err), w')
                | (None, w') \<Rightarrow> (None, w'))))"

definition apply_op ::
  "(string \<Rightarrow> string) \<Rightarrow> 'w ws_ops \<Rightarrow> 'w \<Rightarrow> patch_op \<Rightarrow> apply_error option \<times> 'w" where
  "apply_op quote ws w p =
     (case op_kind p of
        opAdd \<Rightarrow>
          (case ws_Exists ws w (op_path p) of
             Inl err \<Rightarrow> (Some (Workspace err), w)
           | Inr True \<Rightarrow> (Some (AlreadyExists (op_path p)), w)
           | Inr False \<Rightarrow>
               (case ws_Write ws w (op_path p) (joinLines (op_body p)) of
                  (Some err, w') \<Rightarrow> (Some (Workspace err), w')
                | (None, w') \<Rightarrow> (None, w')))
      | opUpdate \<Rightarrow> applyUpdate quote ws w p
      | opDelete \<Rightarrow>
          (case ws_Exists ws w (op_path p) of
             Inl err \<Rightarrow> (Some (Workspace err), w)
           | Inr False \<Rightarrow> (Some (DoesNotExist (op_path p)), w)
           | Inr True \<Rightarrow>
               (case ws_Delete ws w (op_path p) of
                  (Some err, w') \<Rightarrow> (Some (Workspace err), w')
                | (None, w') \<Rightarrow> (None, w'))))"

definition action_name :: "opKind \<Rightarrow> string" where
  "action_name k = (case k of opAdd \<Rightarrow> ''add'' | opUpdate \<Rightarrow> ''update'' | opDelete \<Rightarrow> ''delete'')"

text \<open>\<open>Apply\<close>: the results so far, the error that stopped it, and the workspace.\<close>

fun Apply ::
  "(string \<Rightarrow> string) \<Rightarrow> 'w ws_ops \<Rightarrow> 'w \<Rightarrow> patch_op list \<Rightarrow>
   FileResult list \<times> apply_error option \<times> 'w" where
  "Apply quote ws w [] = ([], None, w)"
| "Apply quote ws w (p # ps) =
     (case apply_op quote ws w p of
        (Some err, w') \<Rightarrow> ([], Some err, w')
      | (None, w') \<Rightarrow>
          (let (rs, e, w'') = Apply quote ws w' ps in
           (\<lparr>fr_Path = op_path p, fr_Action = action_name (op_kind p)\<rparr> # rs, e, w'')))"


subsection \<open>The matcher finds the first occurrence\<close>

lemma lines_match_iff: "lines_match ls rs \<longleftrightarrow> (\<exists>t. ls = rs @ t)"
  by (induction ls rs rule: lines_match.induct) auto

text \<open>\<open>ls\<close> is \<open>pre\<close>, then \<open>rs\<close>, then \<open>post\<close>, and no shorter \<open>pre\<close> will do.\<close>

definition first_split :: "string list \<Rightarrow> string list \<Rightarrow> string list \<Rightarrow> string list \<Rightarrow> bool" where
  "first_split ls rs pre post \<longleftrightarrow>
     ls = pre @ rs @ post \<and> (\<forall>pre' post'. ls = pre' @ rs @ post' \<longrightarrow> length pre \<le> length pre')"

lemma find_match_Some:
  "find_match ls rs = Some i \<Longrightarrow>
   i + length rs \<le> length ls \<and> first_split ls rs (take i ls) (drop (i + length rs) ls)"
proof (induction ls rs arbitrary: i rule: find_match.induct)
  case (1 ls rs)
  show ?case
  proof (cases "lines_match ls rs")
    case True
    moreover from True 1(2) have "i = 0" by (simp add: find_match.simps [of ls] split: if_splits)
    ultimately show ?thesis by (auto simp: first_split_def lines_match_iff)
  next
    case False
    with 1(2) obtain l r j where ls: "ls = l # r" and j: "find_match r rs = Some j" "i = Suc j"
      and len: "length rs \<le> length ls"
      by (auto simp: find_match.simps [of ls] split: if_splits list.splits)
    from 1(1) [OF _ False ls] j len
    have IH: "j + length rs \<le> length r" "first_split r rs (take j r) (drop (j + length rs) r)"
      by simp_all
    have "Suc j \<le> length pre'" if "l # r = pre' @ rs @ post'" for pre' post'
    proof (cases pre')
      case Nil
      with that False ls show ?thesis by (auto simp: lines_match_iff)
    next
      case (Cons a pre'')
      with that have "r = pre'' @ rs @ post'" by simp
      with IH(2) have "length (take j r) \<le> length pre''" unfolding first_split_def by blast
      then have "j \<le> length pre''" using IH(1) by simp
      with Cons show ?thesis by simp
    qed
    moreover have "r = take j r @ rs @ drop (j + length rs) r"
      using IH(2) by (simp only: first_split_def)
    ultimately show ?thesis
      unfolding first_split_def ls j(2) using IH(1) by (simp del: append_take_drop_id)
  qed
qed

lemma find_match_None: "find_match ls rs = None \<longleftrightarrow> \<not> (\<exists>pre post. ls = pre @ rs @ post)"
proof (induction ls rs rule: find_match.induct)
  case (1 ls rs)
  show ?case
  proof (cases "length ls < length rs \<or> lines_match ls rs")
    case True
    then show ?thesis
    proof
      assume "length ls < length rs"
      then show ?thesis by (auto simp: find_match.simps [of ls])
    next
      assume m: "lines_match ls rs"
      then obtain t where t: "ls = rs @ t" by (auto simp: lines_match_iff)
      then have "\<exists>pre post. ls = pre @ rs @ post" by (intro exI [of _ "[]"] exI [of _ t]) simp
      moreover have "length rs \<le> length ls" using t by simp
      then have "find_match ls rs \<noteq> None" using m by (simp add: find_match.simps [of ls])
      ultimately show ?thesis by blast
    qed
  next
    case False
    show ?thesis
    proof (cases ls)
      case Nil
      with False show ?thesis by (auto simp: lines_match_iff find_match.simps [of ls])
    next
      case (Cons l r)
      from False Cons 1 have IH: "find_match r rs = None \<longleftrightarrow> \<not> (\<exists>pre post. r = pre @ rs @ post)"
        by simp
      have "(\<exists>pre post. l # r = pre @ rs @ post) \<longleftrightarrow> (\<exists>pre post. r = pre @ rs @ post)"
      proof
        assume "\<exists>pre post. l # r = pre @ rs @ post"
        then obtain pre post where e: "l # r = pre @ rs @ post" by blast
        with False Cons have "pre \<noteq> []" by (auto simp: lines_match_iff)
        with e show "\<exists>pre post. r = pre @ rs @ post" by (cases pre) auto
      next
        assume "\<exists>pre post. r = pre @ rs @ post"
        then obtain pre post where "l # r = (l # pre) @ rs @ post" by auto
        then show "\<exists>pre post. l # r = pre @ rs @ post" by blast
      qed
      with IH False Cons show ?thesis by (simp add: find_match.simps [of "l # r"])
    qed
  qed
qed

lemma first_split_unique:
  "first_split ls rs pre post \<Longrightarrow> first_split ls rs pre' post' \<Longrightarrow> pre = pre' \<and> post = post'"
  unfolding first_split_def by (metis append_eq_append_conv dual_order.antisym)

lemma find_match_first_split:
  "find_match ls rs = Some i \<longleftrightarrow>
   (\<exists>pre post. first_split ls rs pre post \<and> i = length pre)" (is "?L \<longleftrightarrow> ?R")
proof
  assume ?L
  from find_match_Some [OF this] show ?R
    by (intro exI [of _ "take i ls"] exI [of _ "drop (i + length rs) ls"]) simp
next
  assume ?R
  then obtain pre post where f: "first_split ls rs pre post" "i = length pre" by blast
  then have "find_match ls rs \<noteq> None"
    unfolding find_match_None first_split_def by blast
  then obtain j where j: "find_match ls rs = Some j" by blast
  then have "pre = take j ls" "j \<le> length ls"
    using find_match_Some [OF j] first_split_unique [OF f(1)] by auto
  with j f show ?L by simp
qed

text \<open>
  C5: a hunk with lines to match replaces their first occurrence in the file and nothing
  else: it succeeds with \<open>out\<close> exactly when \<open>out\<close> is the file with the first occurrence
  replaced, and fails, the file untouched, exactly when the lines occur nowhere.
\<close>

theorem applyHunk_first_match:
  "h_removed h \<noteq> [] \<Longrightarrow>
   (applyHunk lines h = (out, True) \<longleftrightarrow>
      (\<exists>pre post. first_split lines (h_removed h) pre post \<and> out = pre @ h_added h @ post)) \<and>
   (applyHunk lines h = (out, False) \<longleftrightarrow>
      out = lines \<and> \<not> (\<exists>pre post. lines = pre @ h_removed h @ post))"
proof (cases "find_match lines (h_removed h)")
  case None
  assume "h_removed h \<noteq> []"
  moreover from None have "\<not> (\<exists>pre post. lines = pre @ h_removed h @ post)"
    by (simp add: find_match_None)
  ultimately show ?thesis using None unfolding applyHunk_def first_split_def by auto
next
  case (Some i)
  assume r: "h_removed h \<noteq> []"
  from Some obtain pre post where f: "first_split lines (h_removed h) pre post" "i = length pre"
    unfolding find_match_first_split by blast
  then have ex: "lines = pre @ h_removed h @ post" by (simp add: first_split_def)
  with Some f r have a: "applyHunk lines h = (pre @ h_added h @ post, True)"
    by (simp add: applyHunk_def)
  have "applyHunk lines h = (out, True) \<longleftrightarrow>
      (\<exists>pre post. first_split lines (h_removed h) pre post \<and> out = pre @ h_added h @ post)"
    unfolding a using f(1) first_split_unique [OF f(1)] by blast
  moreover have "\<exists>pre post. lines = pre @ h_removed h @ post" using ex by blast
  ultimately show ?thesis unfolding a by blast
qed

definition two_line_hunk :: hunk where
  "two_line_hunk = (new_hunk '''')\<lparr>h_removed := [''b'', ''c''], h_added := [''x'']\<rparr>"

theorem applyHunk_first_match_witness:
  "applyHunk [''a'', ''b'', ''c'', ''b'', ''c''] two_line_hunk = ([''a'', ''x'', ''b'', ''c''], True) \<and>
   (\<exists>pre post. first_split [''a'', ''b'', ''c'', ''b'', ''c''] [''b'', ''c''] pre post \<and>
      [''a'', ''x'', ''b'', ''c''] = pre @ [''x''] @ post)"
proof -
  have "applyHunk [''a'', ''b'', ''c'', ''b'', ''c''] two_line_hunk = ([''a'', ''x'', ''b'', ''c''], True)"
    by code_simp
  with applyHunk_first_match [of two_line_hunk "[''a'', ''b'', ''c'', ''b'', ''c'']"
      "[''a'', ''x'', ''b'', ''c'']"]
  show ?thesis by (simp add: two_line_hunk_def new_hunk_def)
qed

subsection \<open>What the locator reports is true\<close>

lemma indexLine_found:
  assumes "indexLine lines want = (i, exact)" "0 \<le> i"
  shows "i < int (length lines) \<and> trim_space (lines ! nat i) = trim_space want"
  using assms
  by (auto simp: indexLine_def Let_def split: option.splits if_splits dest!: find_index_SomeD)

lemma indexLine_missing:
  assumes "indexLine lines want = (i, exact)" "i < 0"
  shows "want \<notin> set lines \<and> (trim_space want \<noteq> '''' \<longrightarrow> trim_space want \<notin> trim_space ` set lines)"
  using assms
  by (auto simp: indexLine_def Let_def find_index_None split: option.splits if_splits)

lemma countAgree_pos:
  assumes "indexLine lines (h_removed h ! k) = (i, exact)" "0 \<le> i" "k < length (h_removed h)"
  shows "0 < countAgree lines h i (int k)"
proof -
  have "lines_up lines (h_removed h) i (int k) k"
    using indexLine_found [OF assms(1,2)] assms(2) by (simp add: lines_up_def)
  then have "k \<in> set (filter (lines_up lines (h_removed h) i (int k)) [0..<length (h_removed h)])"
    using assms(3) by simp
  then have "filter (lines_up lines (h_removed h) i (int k)) [0..<length (h_removed h)] \<noteq> []"
    by (metis empty_iff empty_set)
  then show ?thesis by (simp add: countAgree_def)
qed

definition located :: "string list \<Rightarrow> hunk \<Rightarrow> nat set \<Rightarrow> hunkLocation \<Rightarrow> bool" where
  "located lines h K l \<longleftrightarrow>
     loc_total l = int (length (h_removed h)) \<and>
     (if loc_at l < 0
      then loc_agree l = 0 \<and> (\<forall>k\<in>K. fst (indexLine lines (h_removed h ! k)) < 0)
      else loc_agree l = countAgree lines h (loc_at l) (loc_hunkAt l))"

lemma locate_step_located:
  assumes "located lines h K (lk_loc s)" "loc_at (lk_loc s) < 0 \<longrightarrow> lk_bestLen s = 0"
    "k < length (h_removed h)"
  shows "located lines h (insert k K) (lk_loc (locate_step lines h k s)) \<and>
     (loc_at (lk_loc (locate_step lines h k s)) < 0 \<longrightarrow> lk_bestLen (locate_step lines h k s) = 0)"
proof -
  obtain i exact where ix: "indexLine lines (h_removed h ! k) = (i, exact)" by fastforce
  show ?thesis
  proof (cases "i < 0")
    case True
    with assms ix show ?thesis by (auto simp: locate_step_def located_def split: if_splits)
  next
    case False
    let ?n = "countAgree lines h i (int k)"
    let ?key = "int (length (trim_space (h_removed h ! k)))"
    let ?b = "better ?n ?key exact (loc_agree (lk_loc s)) (lk_bestLen s) (lk_bestExact s)"
    have pos: "0 < ?n" using countAgree_pos [OF ix] False assms(3) by simp
    have "?b" if "loc_at (lk_loc s) < 0"
      using that assms(1) pos by (simp add: located_def better_def)
    with assms ix False show ?thesis
      by (cases ?b) (auto simp: locate_step_def located_def Let_def)
  qed
qed

lemma locateHunk_located:
  "located lines h {0..<length (h_removed h)} (locateHunk lines h)"
proof -
  have "located lines h (set ks) (lk_loc (fold (locate_step lines h) ks (locate_init h))) \<and>
     (loc_at (lk_loc (fold (locate_step lines h) ks (locate_init h))) < 0 \<longrightarrow>
      lk_bestLen (fold (locate_step lines h) ks (locate_init h)) = 0)"
    if "set ks \<subseteq> {0..<length (h_removed h)}" for ks
    using that
  proof (induction ks rule: rev_induct)
    case Nil
    then show ?case by (simp add: located_def locate_init_def)
  next
    case (snoc k ks)
    then show ?case using locate_step_located [of lines h "set ks" _ k] by simp
  qed
  from this [of "[0..<length (h_removed h)]"] show ?thesis by (simp add: locateHunk_def)
qed

text \<open>
  the explanation of a hunk that does not match is true of the file: when it says that
  every line of the hunk is in the file from a line on, that is so up to surrounding space and
  within the file; when it says none of the lines is there, none is.
\<close>

theorem hunk_diagnosis_true:
  "h_removed h \<noteq> [] \<Longrightarrow>
   (loc_whole (locateHunk lines h) \<longrightarrow>
      0 \<le> loc_start (locateHunk lines h) \<and>
      loc_start (locateHunk lines h) + int (length (h_removed h)) \<le> int (length lines) \<and>
      (\<forall>j<length (h_removed h).
         trim_space (lines ! (nat (loc_start (locateHunk lines h)) + j)) =
         trim_space (h_removed h ! j))) \<and>
   (\<not> loc_found (locateHunk lines h) \<longrightarrow>
      (\<forall>want\<in>set (h_removed h). want \<notin> set lines \<and>
         (trim_space want \<noteq> '''' \<longrightarrow> trim_space want \<notin> trim_space ` set lines)))"
proof -
  assume ne: "h_removed h \<noteq> []"
  let ?l = "locateHunk lines h"
  note L = locateHunk_located [of lines h]
  have "0 \<le> loc_start ?l \<and> loc_start ?l + int (length (h_removed h)) \<le> int (length lines) \<and>
      (\<forall>j<length (h_removed h).
         trim_space (lines ! (nat (loc_start ?l) + j)) = trim_space (h_removed h ! j))"
    if w: "loc_whole ?l"
  proof -
    from w L have "countAgree lines h (loc_at ?l) (loc_hunkAt ?l) = int (length (h_removed h))"
      by (auto simp: loc_whole_def loc_found_def located_def)
    then have "length (filter (lines_up lines (h_removed h) (loc_at ?l) (loc_hunkAt ?l))
                 [0..<length (h_removed h)]) = length [0..<length (h_removed h)]"
      by (simp add: countAgree_def)
    then have all: "lines_up lines (h_removed h) (loc_at ?l) (loc_hunkAt ?l) j"
      if "j < length (h_removed h)" for j
      using that by (metis atLeastLessThan_iff length_filter_less less_irrefl set_upt zero_le)
    have "0 \<le> loc_start ?l"
      using all [of 0] ne by (auto simp: lines_up_def loc_start_def Let_def split: if_splits)
    moreover have "loc_start ?l + int (length (h_removed h)) \<le> int (length lines)"
      using all [of "length (h_removed h) - 1"] ne
      by (auto simp: lines_up_def loc_start_def Let_def of_nat_diff Suc_le_eq split: if_splits)
    moreover have "trim_space (lines ! (nat (loc_start ?l) + j)) = trim_space (h_removed h ! j)"
      if "j < length (h_removed h)" for j
    proof -
      have "nat (loc_at ?l + (int j - loc_hunkAt ?l)) = nat (loc_start ?l) + j"
        using \<open>0 \<le> loc_start ?l\<close> by (simp add: loc_start_def)
      with all [OF that] show ?thesis by (simp add: lines_up_def Let_def split: if_splits)
    qed
    ultimately show ?thesis by blast
  qed
  moreover have "want \<notin> set lines \<and> (trim_space want \<noteq> '''' \<longrightarrow> trim_space want \<notin> trim_space ` set lines)"
    if nf: "\<not> loc_found ?l" and wt: "want \<in> set (h_removed h)" for want
  proof -
    from wt obtain k where k: "k < length (h_removed h)" "h_removed h ! k = want"
      by (auto simp: in_set_conv_nth)
    from nf L k have "fst (indexLine lines want) < 0"
      by (auto simp: loc_found_def located_def)
    then show ?thesis using indexLine_missing by (metis prod.collapse)
  qed
  ultimately show ?thesis by blast
qed

definition indented_hunk :: hunk where
  "indented_hunk = (new_hunk '''')\<lparr>h_removed := [''a'', ''b'']\<rparr>"

theorem hunk_diagnosis_true_witness:
  "loc_whole (locateHunk [''x'', '' a'', ''b ''] indented_hunk) \<and>
   0 \<le> loc_start (locateHunk [''x'', '' a'', ''b ''] indented_hunk)"
proof -
  have "loc_whole (locateHunk [''x'', '' a'', ''b ''] indented_hunk)" by code_simp
  with hunk_diagnosis_true [of indented_hunk "[''x'', '' a'', ''b '']"]
  show ?thesis by (simp add: indented_hunk_def new_hunk_def)
qed

text \<open>
  The converse does not hold: the locator tries only the first occurrence of each hunk line,
  so a place where the whole hunk stands, spacing aside, can be missed.
\<close>

theorem locator_misses_a_whole_match:
  "\<not> loc_whole (locateHunk [''b'', ''a'', ''x'', ''a'', ''b'']
       ((new_hunk '''')\<lparr>h_removed := ['' a'', '' b'']\<rparr>))"
  by code_simp

subsection \<open>Applying to a workspace refines a map of files\<close>

text \<open>
  The specification: a patch op as a partial function on a map from file names to contents.
  \<open>canon\<close> is the workspace's own reading of a path, so two spellings of one file are one key.
\<close>

fun hunks_result :: "string list \<Rightarrow> hunk list \<Rightarrow> string list option" where
  "hunks_result lines [] = Some lines"
| "hunks_result lines (h # hs) =
     (if snd (applyHunk lines h) then hunks_result (fst (applyHunk lines h)) hs else None)"

definition files_op ::
  "(string \<Rightarrow> string) \<Rightarrow> patch_op \<Rightarrow> (string \<rightharpoonup> string) \<Rightarrow> (string \<rightharpoonup> string) option" where
  "files_op canon p m =
     (case (op_kind p, m (canon (op_path p))) of
        (opAdd, None) \<Rightarrow> Some (m(canon (op_path p) \<mapsto> joinLines (op_body p)))
      | (opDelete, Some d) \<Rightarrow> Some (m(canon (op_path p) := None))
      | (opUpdate, Some d) \<Rightarrow>
          map_option (\<lambda>ls. m(canon (op_path p) \<mapsto> joinLines ls))
            (hunks_result (splitLines d) (op_hunks p))
      | _ \<Rightarrow> None)"

fun files_ops ::
  "(string \<Rightarrow> string) \<Rightarrow> patch_op list \<Rightarrow> (string \<rightharpoonup> string) \<Rightarrow> (string \<rightharpoonup> string) option" where
  "files_ops canon [] m = Some m"
| "files_ops canon (p # ps) m = Option.bind (files_op canon p m) (files_ops canon ps)"

text \<open>
  What the workspace documents: the operations read and write the files \<open>view\<close> shows, a
  successful write or delete changes that one file, a failed one at most that one, and
  \<open>Read\<close> says \<open>ErrNotFound\<close> only of a file that is not there.
\<close>

definition ws_lawful ::
  "(string \<Rightarrow> string) \<Rightarrow> ('w \<Rightarrow> string \<rightharpoonup> string) \<Rightarrow> 'w ws_ops \<Rightarrow> bool" where
  "ws_lawful canon view ws \<longleftrightarrow>
     (\<forall>w p b. ws_Exists ws w p = Inr b \<longrightarrow> b = (view w (canon p) \<noteq> None)) \<and>
     (\<forall>w p d. ws_Read ws w p = Inr d \<longrightarrow> view w (canon p) = Some d) \<and>
     (\<forall>w p. ws_Read ws w p = Inl WsNotFound \<longrightarrow> view w (canon p) = None) \<and>
     (\<forall>w p d w'. ws_Write ws w p d = (None, w') \<longrightarrow> view w' = (view w)(canon p \<mapsto> d)) \<and>
     (\<forall>w p d e w'. ws_Write ws w p d = (Some e, w') \<longrightarrow>
        (\<forall>q. q \<noteq> canon p \<longrightarrow> view w' q = view w q)) \<and>
     (\<forall>w p w'. ws_Delete ws w p = (None, w') \<longrightarrow> view w' = (view w)(canon p := None)) \<and>
     (\<forall>w p e w'. ws_Delete ws w p = (Some e, w') \<longrightarrow>
        (\<forall>q. q \<noteq> canon p \<longrightarrow> view w' q = view w q))"

lemma ws_lawfulD:
  assumes "ws_lawful canon view ws"
  shows "ws_Exists ws w p = Inr b \<Longrightarrow> b = (view w (canon p) \<noteq> None)"
    and "ws_Read ws w p = Inr d \<Longrightarrow> view w (canon p) = Some d"
    and "ws_Read ws w p = Inl WsNotFound \<Longrightarrow> view w (canon p) = None"
    and "ws_Write ws w p d = (None, w') \<Longrightarrow> view w' = (view w)(canon p \<mapsto> d)"
    and "ws_Write ws w p d = (Some e, w') \<Longrightarrow> q \<noteq> canon p \<Longrightarrow> view w' q = view w q"
    and "ws_Delete ws w p = (None, w') \<Longrightarrow> view w' = (view w)(canon p := None)"
    and "ws_Delete ws w p = (Some e, w') \<Longrightarrow> q \<noteq> canon p \<Longrightarrow> view w' q = view w q"
  using assms by (simp_all add: ws_lawful_def)

lemma apply_hunks_Inr: "apply_hunks quote p i lines hs = Inr r \<Longrightarrow> hunks_result lines hs = Some r"
  by (induction quote p i lines hs rule: apply_hunks.induct) (auto split: prod.splits if_splits)

lemma apply_hunks_Inl:
  "apply_hunks quote p i lines hs = Inl e \<Longrightarrow>
   hunks_result lines hs = None \<and> (\<exists>n t. e = HunkMismatch n p t)"
  by (induction quote p i lines hs rule: apply_hunks.induct) (auto split: prod.splits if_splits)

lemma apply_op_ok:
  assumes "ws_lawful canon view ws" "apply_op quote ws w p = (None, w')"
  shows "files_op canon p (view w) = Some (view w')"
proof (cases "op_kind p")
  case opUpdate
  with assms show ?thesis
    by (auto simp: apply_op_def applyUpdate_def files_op_def ws_lawfulD [OF assms(1)]
        dest: apply_hunks_Inr split: sum.splits ws_failure.splits prod.splits option.splits)
qed (use assms in \<open>auto simp: apply_op_def files_op_def ws_lawfulD [OF assms(1)]
        dest: ws_lawfulD(1) [OF assms(1)] split: sum.splits bool.splits prod.splits option.splits\<close>)

definition op_refused :: "apply_error \<Rightarrow> bool" where
  "op_refused e \<longleftrightarrow> (\<forall>f. e \<noteq> Workspace f)"

lemma apply_op_refused:
  assumes "ws_lawful canon view ws" "apply_op quote ws w p = (Some e, w')" "op_refused e"
  shows "files_op canon p (view w) = None \<and> view w' = view w"
proof (cases "op_kind p")
  case opUpdate
  with assms(2,3) show ?thesis
    by (auto simp: apply_op_def applyUpdate_def files_op_def op_refused_def
        ws_lawfulD(2,3) [OF assms(1)]
        dest: apply_hunks_Inl split: sum.splits ws_failure.splits prod.splits option.splits)
qed (use assms(2,3) in \<open>auto simp: apply_op_def files_op_def op_refused_def
        dest: ws_lawfulD(1) [OF assms(1)] split: sum.splits bool.splits prod.splits option.splits\<close>)

lemma apply_op_failed:
  assumes "ws_lawful canon view ws" "apply_op quote ws w p = (Some e, w')" "q \<noteq> canon (op_path p)"
  shows "view w' q = view w q"
proof (cases "op_kind p")
  case opUpdate
  with assms(2,3) show ?thesis
    by (auto simp: apply_op_def applyUpdate_def dest: ws_lawfulD(5) [OF assms(1)]
        split: sum.splits ws_failure.splits prod.splits option.splits)
qed (use assms(2,3) in \<open>auto simp: apply_op_def dest: ws_lawfulD(5,7) [OF assms(1)]
        split: sum.splits bool.splits prod.splits option.splits\<close>)

definition op_result :: "patch_op \<Rightarrow> FileResult" where
  "op_result p = \<lparr>fr_Path = op_path p, fr_Action = action_name (op_kind p)\<rparr>"

text \<open>What a run of \<open>Apply\<close> over \<open>ops\<close> from \<open>m0\<close> to \<open>m'\<close> means for the files.\<close>

definition apply_meaning ::
  "(string \<Rightarrow> string) \<Rightarrow> patch_op list \<Rightarrow> (string \<rightharpoonup> string) \<Rightarrow> FileResult list \<Rightarrow>
   apply_error option \<Rightarrow> (string \<rightharpoonup> string) \<Rightarrow> bool" where
  "apply_meaning canon ops m0 rs e m' \<longleftrightarrow>
     (\<exists>k m. k = length rs \<and> k \<le> length ops \<and> rs = map op_result (take k ops) \<and>
        files_ops canon (take k ops) m0 = Some m \<and>
        (case e of
           None \<Rightarrow> k = length ops \<and> m' = m
         | Some err \<Rightarrow>
             k < length ops \<and>
             (if op_refused err then files_op canon (ops ! k) m = None \<and> m' = m
              else \<forall>q. q \<noteq> canon (op_path (ops ! k)) \<longrightarrow> m' q = m q)))"


definition map_ws :: "(string \<rightharpoonup> string) ws_ops" where
  "map_ws =
     \<lparr>ws_Exists = \<lambda>w p. Inr (w p \<noteq> None),
      ws_Read = \<lambda>w p. (case w p of None \<Rightarrow> Inl WsNotFound | Some d \<Rightarrow> Inr d),
      ws_Write = \<lambda>w p d. (None, w(p \<mapsto> d)),
      ws_Delete = \<lambda>w p. (None, w(p := None))\<rparr>"

lemma map_ws_lawful: "ws_lawful id id map_ws"
  by (simp add: ws_lawful_def map_ws_def split: option.splits)


end
