(* ===== verification/PatchDiff.thy ===== *)
theory PatchDiff
  imports PatchApply PatchUnified
begin

text \<open>
  The diff renderer, \<open>diff.go\<close>: the second, lenient reader of the envelope (\<open>parsePatch\<close>)
  that keeps the order of hunk lines, the location of a hunk in the file, and the numbered
  lines the transcript shows. \<open>readFile\<close> is a parameter, as in the code.
\<close>

subsection \<open>Ordered ops\<close>

record patchHunk =
  ph_anchor :: string
  ph_lines :: "hunkEntry list"
  ph_atLine :: int

record patchOp =
  po_kind :: opKind
  po_path :: string
  po_body :: "string list"
  po_hunks :: "patchHunk list"

record DiffLine =
  dl_Kind :: DiffLineKind
  dl_OldNum :: int
  dl_NewNum :: int
  dl_Text :: string

record FileDiff =
  fd_Path :: string
  fd_Action :: string
  fd_Added :: int
  fd_Removed :: int
  fd_Lines :: "DiffLine list"

definition opKind_String :: "opKind \<Rightarrow> string" where
  "opKind_String k = (case k of opAdd \<Rightarrow> ''add'' | opDelete \<Rightarrow> ''delete'' | _ \<Rightarrow> ''update'')"

subsection \<open>The lenient reader\<close>

text \<open>
  \<open>current\<close> is nil after a Begin or End marker although ops are there, so the state says
  whether the last op is current.
\<close>

record diff_state =
  ds_ops :: "patchOp list"
  ds_open :: bool

definition new_patchOp :: "opKind \<Rightarrow> string \<Rightarrow> patchOp" where
  "new_patchOp k p = \<lparr>po_kind = k, po_path = p, po_body = [], po_hunks = []\<rparr>"

definition open_op :: "opKind \<Rightarrow> string \<Rightarrow> diff_state \<Rightarrow> diff_state" where
  "open_op k p s = \<lparr>ds_ops = ds_ops s @ [new_patchOp k p], ds_open = True\<rparr>"

definition upd_open :: "(patchOp \<Rightarrow> patchOp) \<Rightarrow> diff_state \<Rightarrow> diff_state" where
  "upd_open f s = s\<lparr>ds_ops := map_last f (ds_ops s)\<rparr>"

definition ph_add :: "DiffLineKind \<Rightarrow> string \<Rightarrow> patchOp \<Rightarrow> patchOp" where
  "ph_add k l p =
     p\<lparr>po_hunks := map_last (\<lambda>h. h\<lparr>ph_lines := ph_lines h @ [\<lparr>he_kind = k, he_text = l\<rparr>]\<rparr>)
         (po_hunks p)\<rparr>"

definition ph_open :: "string \<Rightarrow> patchOp \<Rightarrow> patchOp" where
  "ph_open a p = p\<lparr>po_hunks := po_hunks p @ [\<lparr>ph_anchor = a, ph_lines = [], ph_atLine = 0\<rparr>]\<rparr>"

definition diff_update_line :: "string \<Rightarrow> patchOp \<Rightarrow> diff_state \<Rightarrow> diff_state" where
  "diff_update_line line c s =
     (if has_prefix line ''@@'' then upd_open (ph_open (trim_space (trim_prefix line ''@@''))) s
      else if po_hunks c = [] then s
      else if has_prefix line ''-'' then upd_open (ph_add DiffLineDelete (trim_prefix line ''-'')) s
      else if has_prefix line ''+'' then upd_open (ph_add DiffLineAdd (trim_prefix line ''+'')) s
      else if has_prefix line '' '' then upd_open (ph_add DiffLineContext (trim_prefix line '' '')) s
      else if line = '''' then s
      else if has_prefix (trim_space line) ''***'' then s
      else upd_open (ph_add DiffLineContext line) s)"

definition diff_step :: "diff_state \<Rightarrow> string \<Rightarrow> diff_state" where
  "diff_step s raw =
     (let line = trim_right_char (CHR 0x0D) raw; trimmed = trim_space line in
      if trimmed = mark_begin \<or> trimmed = mark_end then s\<lparr>ds_open := False\<rparr>
      else if has_prefix trimmed mark_add then open_op opAdd (directive_path trimmed mark_add) s
      else if has_prefix trimmed mark_update then
        open_op opUpdate (directive_path trimmed mark_update) s
      else if has_prefix trimmed mark_delete then
        open_op opDelete (directive_path trimmed mark_delete) s
      else if \<not> ds_open s \<or> ds_ops s = [] then s
      else
        (case po_kind (last (ds_ops s)) of
           opAdd \<Rightarrow>
             (if has_prefix line ''+''
              then upd_open (\<lambda>p. p\<lparr>po_body := po_body p @ [trim_prefix line ''+'']\<rparr>) s else s)
         | opUpdate \<Rightarrow> diff_update_line line (last (ds_ops s)) s
         | opDelete \<Rightarrow> s))"

definition parsePatch :: "string \<Rightarrow> patchOp list" where
  "parsePatch patch =
     ds_ops (foldl diff_step \<lparr>ds_ops = [], ds_open = False\<rparr> (split_on newline patch))"

definition render_op :: "patch_op \<Rightarrow> patchOp" where
  "render_op p =
     \<lparr>po_kind = op_kind p, po_path = op_path p, po_body = op_body p,
      po_hunks = map (\<lambda>h. \<lparr>ph_anchor = h_anchor h, ph_lines = h_entries h,
                            ph_atLine = h_atLine h\<rparr>) (op_hunks p)\<rparr>"

definition opsToRenderOps :: "patch_op list \<Rightarrow> string \<Rightarrow> patchOp list" where
  "opsToRenderOps ops patch =
     (if \<not> LooksLikeUnifiedDiff patch then parsePatch patch else map render_op ops)"

subsection \<open>Locating and applying a hunk\<close>

definition ph_removed :: "patchHunk \<Rightarrow> string list" where
  "ph_removed h = map he_text (filter (\<lambda>e. he_kind e \<noteq> DiffLineAdd) (ph_lines h))"

definition ph_added :: "patchHunk \<Rightarrow> string list" where
  "ph_added h = map he_text (filter (\<lambda>e. he_kind e = DiffLineAdd) (ph_lines h))"

definition isInsertionHunk :: "patchHunk \<Rightarrow> bool" where
  "isInsertionHunk h \<longleftrightarrow>
     list_all (\<lambda>e. he_kind e = DiffLineAdd) (ph_lines h) \<and> ph_lines h \<noteq> []"

definition findHunkStart :: "string list \<Rightarrow> patchHunk \<Rightarrow> int" where
  "findHunkStart lines h =
     (if ph_removed h = [] then
        (if ph_anchor h = '''' then
           (if ph_atLine h > 0 then
              (let idx = ph_atLine h - 1 in
               if idx > int (length lines) - 1 then int (length lines) - 1 else idx)
            else -1)
         else (case find_index (\<lambda>l. str_contains l (ph_anchor h)) lines of
                 Some i \<Rightarrow> int i | None \<Rightarrow> -1))
      else (case find_match lines (ph_removed h) of Some i \<Rightarrow> int i | None \<Rightarrow> -1))"

definition applyHunkAt :: "string list \<Rightarrow> int \<Rightarrow> patchHunk \<Rightarrow> string list" where
  "applyHunkAt lines start h =
     take (nat start) lines @ ph_added h @ drop (nat start + length (ph_removed h)) lines"

subsection \<open>Rendering\<close>

text \<open>The numbered lines of one hunk: \<open>old\<close> and \<open>next\<close> are the running line numbers.\<close>

fun number_lines :: "int \<Rightarrow> int \<Rightarrow> hunkEntry list \<Rightarrow> DiffLine list" where
  "number_lines old next' [] = []"
| "number_lines old next' (e # es) =
     (case he_kind e of
        DiffLineContext \<Rightarrow>
          \<lparr>dl_Kind = DiffLineContext, dl_OldNum = old, dl_NewNum = next', dl_Text = he_text e\<rparr>
          # number_lines (old + 1) (next' + 1) es
      | DiffLineDelete \<Rightarrow>
          \<lparr>dl_Kind = DiffLineDelete, dl_OldNum = old, dl_NewNum = 0, dl_Text = he_text e\<rparr>
          # number_lines (old + 1) next' es
      | DiffLineAdd \<Rightarrow>
          \<lparr>dl_Kind = DiffLineAdd, dl_OldNum = 0, dl_NewNum = next', dl_Text = he_text e\<rparr>
          # number_lines old (next' + 1) es)"

fun number_inserted :: "int \<Rightarrow> hunkEntry list \<Rightarrow> DiffLine list" where
  "number_inserted n [] = []"
| "number_inserted n (e # es) =
     \<lparr>dl_Kind = DiffLineAdd, dl_OldNum = 0, dl_NewNum = n, dl_Text = he_text e\<rparr>
     # number_inserted (n + 1) es"

definition count_kind :: "DiffLineKind \<Rightarrow> DiffLine list \<Rightarrow> int" where
  "count_kind k ls = int (length (filter (\<lambda>l. dl_Kind l = k) ls))"

definition push_lines :: "DiffLine list \<Rightarrow> FileDiff \<Rightarrow> FileDiff" where
  "push_lines ls fd =
     fd\<lparr>fd_Lines := fd_Lines fd @ ls,
        fd_Added := fd_Added fd + count_kind DiffLineAdd ls,
        fd_Removed := fd_Removed fd + count_kind DiffLineDelete ls\<rparr>"

definition render_hunk ::
  "bool \<Rightarrow> patchHunk \<Rightarrow> FileDiff \<times> string list \<Rightarrow> FileDiff \<times> string list" where
  "render_hunk haveFile h st =
     (let (fd, lines) = st; start = (if haveFile then findHunkStart lines h else -1) in
      if start \<ge> 0 then
        (if isInsertionHunk h then
           (push_lines (number_inserted (start + 2) (ph_lines h)) fd, applyHunkAt lines start h)
         else
           (push_lines (number_lines (start + 1) (start + 1) (ph_lines h)) fd,
            applyHunkAt lines start h))
      else (push_lines (number_lines 1 1 (ph_lines h)) fd, lines))"

definition renderUpdate :: "FileDiff \<Rightarrow> patchOp \<Rightarrow> string option \<Rightarrow> FileDiff" where
  "renderUpdate fd p data =
     (let haveFile = (data \<noteq> None);
          lines = splitLines (case data of Some cur \<Rightarrow> cur | None \<Rightarrow> '''')
      in fst (fold (render_hunk haveFile) (po_hunks p) (fd, lines)))"

definition diff_op :: "(string \<Rightarrow> string option) \<Rightarrow> patchOp \<Rightarrow> FileDiff" where
  "diff_op readFile p =
     (let fd = \<lparr>fd_Path = po_path p, fd_Action = opKind_String (po_kind p), fd_Added = 0,
                fd_Removed = 0, fd_Lines = []\<rparr>
      in case po_kind p of
           opAdd \<Rightarrow>
             push_lines (map (\<lambda>(i, l). \<lparr>dl_Kind = DiffLineAdd, dl_OldNum = 0,
                 dl_NewNum = int i + 1, dl_Text = l\<rparr>) (enumerate 0 (po_body p))) fd
         | opDelete \<Rightarrow>
             (case readFile (po_path p) of
                None \<Rightarrow> fd
              | Some data \<Rightarrow>
                  push_lines (map (\<lambda>(i, l). \<lparr>dl_Kind = DiffLineDelete, dl_OldNum = int i + 1,
                      dl_NewNum = 0, dl_Text = l\<rparr>) (enumerate 0 (splitLines data))) fd)
         | opUpdate \<Rightarrow> renderUpdate fd p (readFile (po_path p)))"

definition Diff ::
  "(string \<Rightarrow> bool) \<Rightarrow> (string \<Rightarrow> string option) \<Rightarrow> string \<Rightarrow> patch_error + FileDiff list" where
  "Diff host_abs readFile patch =
     (case ParseAny host_abs patch of
        Inl err \<Rightarrow> Inl err
      | Inr parsed \<Rightarrow> Inr (map (diff_op readFile) (opsToRenderOps parsed patch)))"

subsection \<open>The lenient reader agrees with the parser\<close>

text \<open>The apply-side projection of an ordered hunk: what \<open>Parse\<close> keeps of it.\<close>

definition ph_new :: "patchHunk \<Rightarrow> string list" where
  "ph_new h = map he_text (filter (\<lambda>e. he_kind e \<noteq> DiffLineDelete) (ph_lines h))"

definition apply_side_hunk :: "patchHunk \<Rightarrow> hunk" where
  "apply_side_hunk h =
     (new_hunk (ph_anchor h))\<lparr>h_removed := ph_removed h, h_added := ph_new h, h_atLine := ph_atLine h\<rparr>"

definition apply_side :: "patchOp \<Rightarrow> patch_op" where
  "apply_side p =
     \<lparr>op_kind = po_kind p, op_path = po_path p, op_body = po_body p,
      op_hunks = map apply_side_hunk (po_hunks p)\<rparr>"

text \<open>The two readers are in step: same ops so far, and \<open>current\<close> open in both.\<close>

definition in_step :: "parse_state \<Rightarrow> diff_state \<Rightarrow> bool" where
  "in_step s d \<longleftrightarrow>
     map apply_side (ds_ops d) = ps_ops s \<and> (ps_ops s \<noteq> [] \<longrightarrow> ds_open d \<and> ps_in s)"

lemma apply_side_new [simp]: "apply_side (new_patchOp k p) = new_op k p"
  by (simp add: apply_side_def new_patchOp_def new_op_def)

lemma in_step_open:
  "in_step s d \<Longrightarrow> ps_in s \<Longrightarrow> start_op ha k p s = Go s' \<Longrightarrow> in_step s' (open_op k p d)"
  by (auto simp: in_step_def start_op_def open_op_def split: option.splits)

lemma in_step_upd:
  assumes "in_step s d" "ps_ops s \<noteq> []" "upd_current f s = Go s'"
    "\<And>p. apply_side (g p) = f (apply_side p)"
  shows "in_step s' (upd_open g d)"
  using assms(1-3) map_map_last [of apply_side g f, OF assms(4)]
  by (auto simp: in_step_def upd_current_def upd_open_def)

lemma side_body: "apply_side (p\<lparr>po_body := po_body p @ [l]\<rparr>) = add_body l (apply_side p)"
  by (simp add: apply_side_def add_body_def)

lemma side_open: "apply_side (ph_open a p) = add_hunk (new_hunk a) (apply_side p)"
  by (simp add: apply_side_def add_hunk_def ph_open_def apply_side_hunk_def new_hunk_def
      ph_removed_def ph_new_def)

lemma side_add:
  "apply_side (ph_add DiffLineDelete l p) = on_hunk (hunk_remove l) (apply_side p)"
  "apply_side (ph_add DiffLineAdd l p) = on_hunk (hunk_add l) (apply_side p)"
  "apply_side (ph_add DiffLineContext l p) = on_hunk (hunk_context l) (apply_side p)"
  by (simp_all add: apply_side_def on_hunk_def ph_add_def,
      simp_all add: map_map_last [where g = apply_side_hunk] apply_side_hunk_def ph_removed_def ph_new_def
        hunk_remove_def hunk_add_def hunk_context_def new_hunk_def)


lemma in_step_last:
  assumes "in_step s d" "current_op s = Some c"
  shows "ds_ops d \<noteq> [] \<and> ds_open d \<and> c = apply_side (last (ds_ops d))"
  using assms by (auto simp: in_step_def current_op_def split: if_splits) (metis last_map map_is_Nil_conv)

lemmas in_step_upds =
  in_step_upd [where g = "ph_open a" and f = "add_hunk (new_hunk a)" for a, OF _ _ _ side_open]
  in_step_upd [where g = "ph_add DiffLineDelete l" and f = "on_hunk (hunk_remove l)" for l, OF _ _ _ side_add(1)]
  in_step_upd [where g = "ph_add DiffLineAdd l" and f = "on_hunk (hunk_add l)" for l, OF _ _ _ side_add(2)]
  in_step_upd [where g = "ph_add DiffLineContext l" and f = "on_hunk (hunk_context l)" for l, OF _ _ _ side_add(3)]
  in_step_upd [where g = "\<lambda>p. p\<lparr>po_body := po_body p @ [l]\<rparr>" and f = "add_body l" for l, OF _ _ _ side_body]

lemma in_step_update:
  assumes "in_step s d" "current_op s = Some c" "op_kind c = opUpdate"
    "update_line line (trim_space line) c s = Go s'"
  shows "in_step s' (diff_update_line line (last (ds_ops d)) d)"
proof -
  note L = in_step_last [OF assms(1,2)]
  have ne: "ps_ops s \<noteq> []" using assms(2) by (auto simp: current_op_def split: if_splits)
  have hs: "op_hunks c = [] \<longleftrightarrow> po_hunks (last (ds_ops d)) = []"
    using L by (simp add: apply_side_def)
  show ?thesis
    using assms(1,4) hs
    by (auto simp: update_line_def diff_update_line_def
        intro: in_step_upds [OF assms(1) ne] split: if_splits)
qed

lemma in_step_step:
  assumes "in_step s d" "parse_step ha s raw = Go s'"
  shows "in_step s' (diff_step d raw)"
proof -
  define line where "line = trim_right_char (CHR 0x0D) raw"
  define trimmed where "trimmed = trim_space line"
  note defs = line_def [symmetric] trimmed_def [symmetric]
  consider "trimmed = mark_begin" | "trimmed \<noteq> mark_begin" "trimmed = mark_end"
    | k where "trimmed \<noteq> mark_begin" "trimmed \<noteq> mark_end"
        "ps_in s" "start_op ha k (directive_path trimmed (kind_mark k)) s = Go s'"
        "diff_step d raw = open_op k (directive_path trimmed (kind_mark k)) d"
    | "trimmed \<noteq> mark_begin" "trimmed \<noteq> mark_end" "\<not> has_prefix trimmed mark_add"
        "\<not> has_prefix trimmed mark_update" "\<not> has_prefix trimmed mark_delete"
  proof -
    assume c: "trimmed = mark_begin \<Longrightarrow> thesis" "trimmed \<noteq> mark_begin \<Longrightarrow> trimmed = mark_end \<Longrightarrow> thesis"
      "\<And>k. trimmed \<noteq> mark_begin \<Longrightarrow> trimmed \<noteq> mark_end \<Longrightarrow> ps_in s \<Longrightarrow>
         start_op ha k (directive_path trimmed (kind_mark k)) s = Go s' \<Longrightarrow>
         diff_step d raw = open_op k (directive_path trimmed (kind_mark k)) d \<Longrightarrow> thesis"
      "trimmed \<noteq> mark_begin \<Longrightarrow> trimmed \<noteq> mark_end \<Longrightarrow> \<not> has_prefix trimmed mark_add \<Longrightarrow>
         \<not> has_prefix trimmed mark_update \<Longrightarrow> \<not> has_prefix trimmed mark_delete \<Longrightarrow> thesis"
    show thesis
      using assms(2) c(1,2,4) c(3) [of opAdd] c(3) [of opUpdate] c(3) [of opDelete]
      unfolding parse_step_def diff_step_def Let_def defs kind_mark_def
      by (simp split: if_splits option.splits)
  qed
  then show ?thesis
  proof cases
    case 1
    with assms(2) have "\<not> ps_in s" "s' = s\<lparr>ps_in := True\<rparr>"
      unfolding parse_step_def Let_def defs by (simp_all split: if_splits)
    with assms(1) 1 show ?thesis
      unfolding diff_step_def Let_def defs by (simp add: in_step_def)
  next
    case 2
    with assms(2) show ?thesis
      unfolding parse_step_def Let_def defs by (simp split: if_splits option.splits)
  next
    case 3
    with assms(1) show ?thesis by (simp add: in_step_open)
  next
    case 4
    with assms(2) obtain c where c: "current_op s = Some c"
      "(case op_kind c of
          opAdd \<Rightarrow>
            (if \<not> has_prefix line ''+'' then Fail (AddLineNoPlus (op_path c) line)
             else upd_current (add_body (trim_prefix line ''+'')) s)
        | opUpdate \<Rightarrow> update_line line trimmed c s
        | opDelete \<Rightarrow> (if line \<noteq> '''' then Fail (DeleteBody (op_path c) line) else Go s)) = Go s'"
      unfolding parse_step_def Let_def defs by (simp split: if_splits option.splits)
    note L = in_step_last [OF assms(1) c(1)]
    have ne: "ps_ops s \<noteq> []" using c(1) by (auto simp: current_op_def split: if_splits)
    have k: "po_kind (last (ds_ops d)) = op_kind c" using L by (simp add: apply_side_def)
    have step: "diff_step d raw =
        (case op_kind c of
           opAdd \<Rightarrow> (if has_prefix line ''+''
              then upd_open (\<lambda>p. p\<lparr>po_body := po_body p @ [trim_prefix line ''+'']\<rparr>) d else d)
         | opUpdate \<Rightarrow> diff_update_line line (last (ds_ops d)) d
         | opDelete \<Rightarrow> d)"
      using 4 L k unfolding diff_step_def Let_def defs by simp
    show ?thesis
    proof (cases "op_kind c")
      case opAdd
      with c(2) step show ?thesis
        by (auto intro: in_step_upds [OF assms(1) ne] split: if_splits)
    next
      case opUpdate
      with c step in_step_update [OF assms(1) c(1)] show ?thesis by (simp add: trimmed_def)
    next
      case opDelete
      with c(2) step assms(1) show ?thesis by (simp split: if_splits)
    qed
  qed
qed

text \<open>What the parser's list holds is kept by everything the lenient reader does later.\<close>

definition sealed :: "patchOp list \<Rightarrow> diff_state \<Rightarrow> bool" where
  "sealed ops d \<longleftrightarrow>
     take (length ops) (ds_ops d) = ops \<and> (ds_open d \<longrightarrow> length ops < length (ds_ops d))"

lemma sealed_upd: "sealed ops d \<Longrightarrow> ds_open d \<Longrightarrow> sealed ops (upd_open f d)"
  by (cases "ds_ops d" rule: rev_cases) (auto simp: sealed_def upd_open_def)

lemma sealed_length: "sealed ops d \<Longrightarrow> length ops \<le> length (ds_ops d)"
  by (metis length_take min.absorb_iff2 min.commute sealed_def)

lemma sealed_open: "sealed ops d \<Longrightarrow> sealed ops (open_op k p d)"
  using sealed_length [of ops d] by (auto simp: sealed_def open_op_def)

lemma sealed_close: "sealed ops d \<Longrightarrow> sealed ops (d\<lparr>ds_open := False\<rparr>)"
  by (simp add: sealed_def)

lemma sealed_update: "sealed ops d \<Longrightarrow> ds_open d \<Longrightarrow> sealed ops (diff_update_line line c d)"
  by (simp add: diff_update_line_def sealed_upd)

lemma sealed_step: "sealed ops d \<Longrightarrow> sealed ops (diff_step d raw)"
  by (simp add: diff_step_def Let_def sealed_upd sealed_open sealed_close sealed_update
      split: opKind.splits)

lemma sealed_steps: "sealed ops d \<Longrightarrow> sealed ops (foldl diff_step d ls)"
  by (induction ls arbitrary: d) (simp_all add: sealed_step)

lemma parse_lines_in_step:
  assumes "parse_lines ha s ls = Inr ops" "in_step s d"
  shows "take (length ops) (map apply_side (ds_ops (foldl diff_step d ls))) = ops"
  using assms
proof (induction ls arbitrary: s d)
  case Nil
  then show ?case by simp
next
  case (Cons l ls)
  show ?case
  proof (cases "parse_step ha s l")
    case (Fail e)
    with Cons.prems show ?thesis by simp
  next
    case (Go s')
    with Cons in_step_step [OF Cons.prems(2) Go] show ?thesis by simp
  next
    case (Return r)
    with Cons.prems(1) have "r = ops" by simp
    with Return have r: "ps_ops s = ops" and e: "trim_space (trim_right_char (CHR 0x0D) l) = mark_end"
      unfolding parse_step_def Let_def start_op_def update_line_def upd_current_def
      by (auto split: if_splits option.splits opKind.splits)
    then have "sealed (ds_ops d) (diff_step d l)"
      by (simp add: diff_step_def Let_def sealed_def)
    from sealed_steps [OF this, of ls] r Cons.prems(2) show ?thesis
      by (metis (no_types, lifting) foldl_Cons in_step_def length_map sealed_def take_map)
  qed
qed

text \<open>
  what \<open>Parse\<close> accepts, the renderer's second reader reads the same way: its first ops,
  as many as \<open>Parse\<close> returned, have the kind, path, body and, projected to removed and added
  lines, the hunks of the ops \<open>Apply\<close> will carry out.
\<close>

theorem parsePatch_agrees:
  "Parse ha patch = Inr ops \<Longrightarrow>
   take (length ops) (map apply_side (parsePatch patch)) = ops"
  unfolding Parse_def parsePatch_def
  by (erule parse_lines_in_step) (simp add: in_step_def init_parse_def)

theorem parsePatch_agrees_witness:
  "take (length sample_ops) (map apply_side (parsePatch (print_patch sample_ops))) = sample_ops"
proof -
  have "Parse (\<lambda>p. False) (print_patch sample_ops) = Inr sample_ops" by code_simp
  then show ?thesis by (rule parsePatch_agrees)
qed

text \<open>
  The renderer does not stop at the End marker: text after it that \<open>Parse\<close> ignores is shown
  as further file operations.
\<close>

theorem parsePatch_reads_past_end:
  "let text = str_join [newline] [mark_begin, mark_delete @ ''a'', mark_end, mark_delete @ ''b''] in
   map_sum (\<lambda>_. ()) (map op_path) (Parse (\<lambda>p. False) text) = Inr [''a''] \<and>
   map po_path (parsePatch text) = [''a'', ''b'']"
  by code_simp


subsection \<open>The line numbers of a located hunk\<close>

definition numbered :: "string list \<Rightarrow> int \<Rightarrow> int \<Rightarrow> string \<Rightarrow> bool" where
  "numbered xs a n t \<longleftrightarrow> (\<exists>i<length xs. n = a + int i \<and> xs ! i = t)"

lemma numbered_Nil [simp]: "\<not> numbered [] a n t"
  by (simp add: numbered_def)

lemma numbered_Cons [simp]: "numbered (x # xs) a n t \<longleftrightarrow> n = a \<and> x = t \<or> numbered xs (a + 1) n t"
proof
  assume "numbered (x # xs) a n t"
  then obtain i where "i < Suc (length xs)" "n = a + int i" "(x # xs) ! i = t"
    by (auto simp: numbered_def)
  then show "n = a \<and> x = t \<or> numbered xs (a + 1) n t" by (cases i) (auto simp: numbered_def)
next
  assume "n = a \<and> x = t \<or> numbered xs (a + 1) n t"
  then show "numbered (x # xs) a n t"
  proof
    assume "n = a \<and> x = t"
    then show ?thesis unfolding numbered_def by (intro exI [of _ 0]) simp
  next
    assume "numbered xs (a + 1) n t"
    then obtain i where "i < length xs" "n = a + 1 + int i" "xs ! i = t" by (auto simp: numbered_def)
    then show ?thesis unfolding numbered_def by (intro exI [of _ "Suc i"]) simp
  qed
qed

lemma number_lines_true:
  "dl \<in> set (number_lines old next' es) \<Longrightarrow>
   (dl_Kind dl \<noteq> DiffLineAdd \<longrightarrow>
      numbered (map he_text (filter (\<lambda>e. he_kind e \<noteq> DiffLineAdd) es)) old (dl_OldNum dl) (dl_Text dl)) \<and>
   (dl_Kind dl \<noteq> DiffLineDelete \<longrightarrow>
      numbered (map he_text (filter (\<lambda>e. he_kind e \<noteq> DiffLineDelete) es)) next' (dl_NewNum dl) (dl_Text dl))"
proof (induction old next' es arbitrary: dl rule: number_lines.induct)
  case (2 old next' e es)
  then show ?case by (cases "he_kind e") auto
qed simp

text \<open>A number \<open>n\<close> names the line \<open>t\<close> of a file: lines are counted from one.\<close>

definition names_line :: "string list \<Rightarrow> int \<Rightarrow> string \<Rightarrow> bool" where
  "names_line lines n t \<longleftrightarrow> 1 \<le> n \<and> n \<le> int (length lines) \<and> lines ! nat (n - 1) = t"

lemma names_line_block:
  assumes "numbered ys (int (length xs) + 1) n t"
  shows "names_line (xs @ ys @ zs) n t"
proof -
  from assms obtain i where i: "i < length ys" "n = int (length xs) + 1 + int i" "ys ! i = t"
    by (auto simp: numbered_def)
  then have "nat (n - 1) = length xs + i" by simp
  with i show ?thesis by (simp add: names_line_def nth_append)
qed

text \<open>
  for a hunk with lines to match the renderer finds a place exactly when \<open>applyHunk\<close>
  does, and the numbers it then shows are right: every context or removed line carries the
  number it has in the file before the hunk, every context or added line the number it has in
  the file \<open>applyHunk\<close> produces.
\<close>

theorem rendered_numbers_true:
  "ph_removed h \<noteq> [] \<Longrightarrow>
   (0 \<le> findHunkStart lines h \<longleftrightarrow> snd (applyHunk lines (apply_side_hunk h))) \<and>
   (0 \<le> findHunkStart lines h \<longrightarrow>
      list_all (\<lambda>dl.
         (dl_Kind dl \<noteq> DiffLineAdd \<longrightarrow> names_line lines (dl_OldNum dl) (dl_Text dl)) \<and>
         (dl_Kind dl \<noteq> DiffLineDelete \<longrightarrow>
            names_line (fst (applyHunk lines (apply_side_hunk h))) (dl_NewNum dl) (dl_Text dl)))
        (number_lines (findHunkStart lines h + 1) (findHunkStart lines h + 1) (ph_lines h)))"
proof (cases "find_match lines (ph_removed h)")
  case None
  assume "ph_removed h \<noteq> []"
  with None show ?thesis by (simp add: findHunkStart_def applyHunk_def apply_side_hunk_def new_hunk_def)
next
  case (Some i)
  assume r: "ph_removed h \<noteq> []"
  from Some obtain pre post where f: "first_split lines (ph_removed h) pre post" "i = length pre"
    unfolding find_match_first_split by blast
  then have lines: "lines = pre @ ph_removed h @ post" by (simp add: first_split_def)
  have start: "findHunkStart lines h = int (length pre)"
    using Some r f by (simp add: findHunkStart_def)
  have apply_eq: "applyHunk lines (apply_side_hunk h) = (pre @ ph_new h @ post, True)"
    using Some r f lines by (simp add: applyHunk_def apply_side_hunk_def new_hunk_def)
  have "(dl_Kind dl \<noteq> DiffLineAdd \<longrightarrow> names_line lines (dl_OldNum dl) (dl_Text dl)) \<and>
        (dl_Kind dl \<noteq> DiffLineDelete \<longrightarrow> names_line (pre @ ph_new h @ post) (dl_NewNum dl) (dl_Text dl))"
    if "dl \<in> set (number_lines (int (length pre) + 1) (int (length pre) + 1) (ph_lines h))" for dl
    using number_lines_true [OF that] unfolding lines ph_removed_def [symmetric] ph_new_def [symmetric]
    by (auto intro: names_line_block)
  with start apply_eq show ?thesis by (simp add: list_all_iff)
qed

definition shown_hunk :: patchHunk where
  "shown_hunk =
     \<lparr>ph_anchor = '''',
      ph_lines = [\<lparr>he_kind = DiffLineContext, he_text = ''a''\<rparr>,
                  \<lparr>he_kind = DiffLineDelete, he_text = ''b''\<rparr>,
                  \<lparr>he_kind = DiffLineAdd, he_text = ''c''\<rparr>],
      ph_atLine = 0\<rparr>"

theorem rendered_numbers_true_witness:
  "0 \<le> findHunkStart [''x'', ''a'', ''b''] shown_hunk \<and>
   snd (applyHunk [''x'', ''a'', ''b''] (apply_side_hunk shown_hunk))"
proof -
  have "ph_removed shown_hunk \<noteq> []" "0 \<le> findHunkStart [''x'', ''a'', ''b''] shown_hunk"
    by code_simp+
  with rendered_numbers_true [of shown_hunk "[''x'', ''a'', ''b'']"] show ?thesis by blast
qed

text \<open>
  What the renderer carries on with is not that file: \<open>applyHunkAt\<close> drops the context lines
  of a hunk, and puts an insertion hunk's lines before its anchor, so the hunks after it are
  numbered, or not found, against other lines than \<open>Apply\<close> works on.
\<close>

theorem applyHunkAt_drops_context:
  "applyHunkAt [''x'', ''a'', ''b''] (findHunkStart [''x'', ''a'', ''b''] shown_hunk) shown_hunk =
     [''x'', ''c''] \<and>
   applyHunk [''x'', ''a'', ''b''] (apply_side_hunk shown_hunk) = ([''x'', ''a'', ''c''], True)"
  by code_simp

theorem applyHunkAt_inserts_before_anchor:
  "let h = \<lparr>ph_anchor = ''a'', ph_lines = [\<lparr>he_kind = DiffLineAdd, he_text = ''c''\<rparr>], ph_atLine = 0\<rparr> in
   applyHunkAt [''a'', ''b''] (findHunkStart [''a'', ''b''] h) h = [''c'', ''a'', ''b''] \<and>
   applyHunk [''a'', ''b''] (apply_side_hunk h) = ([''a'', ''c'', ''b''], True)"
  by code_simp

end
