(* ===== verification/PatchHost.thy ===== *)
theory PatchHost
  imports PatchApply PatchUnified
begin

text \<open>
  Applying a patch to a host directory, \<open>host.go\<close>. The operating system and the path checks of
  the flowcraft module are the parameter \<open>os_ops\<close>; every call that may change the file system
  returns its new state.
\<close>

record 'w os_ops =
  os_Abs :: "string \<Rightarrow> string + string"
  os_Clean :: "string \<Rightarrow> string"
  os_FromSlash :: "string \<Rightarrow> string"
  os_Join :: "string \<Rightarrow> string \<Rightarrow> string"
  os_Dir :: "string \<Rightarrow> string"
  os_MkdirAll :: "'w \<Rightarrow> string \<Rightarrow> string option \<times> 'w"
  os_EvalSymlinks :: "'w \<Rightarrow> string \<Rightarrow> string + string"
  os_Lstat :: "'w \<Rightarrow> string \<Rightarrow> bool"
  os_ReadFile :: "'w \<Rightarrow> string \<Rightarrow> string + string"
  os_WriteFile :: "'w \<Rightarrow> string \<Rightarrow> string \<Rightarrow> string option \<times> 'w"
  os_Remove :: "'w \<Rightarrow> string \<Rightarrow> string option \<times> 'w"
  os_RelRef :: "string \<Rightarrow> bool"
  os_Within :: "string \<Rightarrow> string \<Rightarrow> bool"

datatype host_error =
    ParseError patch_error
  | OS string
  | PathEscapes string
  | DirEscapes string
  | HostExists string
  | HostMissing string
  | MissingOrEscapes string
  | HunkError apply_error

definition ensureDirInside ::
  "'w os_ops \<Rightarrow> 'w \<Rightarrow> string \<Rightarrow> string \<Rightarrow> host_error option \<times> 'w" where
  "ensureDirInside os w rootResolved parent =
     (case os_MkdirAll os w parent of
        (Some e, w1) \<Rightarrow> (Some (OS e), w1)
      | (None, w1) \<Rightarrow>
          (case os_EvalSymlinks os w1 parent of
             Inl e \<Rightarrow> (Some (OS e), w1)
           | Inr resolved \<Rightarrow>
               (if \<not> os_Within os rootResolved resolved then (Some (DirEscapes parent), w1)
                else (None, w1))))"

definition host_write :: "'w os_ops \<Rightarrow> 'w \<Rightarrow> string \<Rightarrow> string \<Rightarrow> host_error option \<times> 'w" where
  "host_write os w fp content =
     (case os_WriteFile os w fp content of
        (Some e, w1) \<Rightarrow> (Some (OS e), w1)
      | (None, w1) \<Rightarrow> (None, w1))"

definition host_file_op ::
  "(string \<Rightarrow> string) \<Rightarrow> 'w os_ops \<Rightarrow> 'w \<Rightarrow> string \<Rightarrow> string \<Rightarrow> patch_op \<Rightarrow> host_error option \<times> 'w" where
  "host_file_op quote os w rootResolved fp p =
     (case op_kind p of
        opAdd \<Rightarrow>
          (if os_Lstat os w fp then (Some (HostExists (op_path p)), w)
           else host_write os w fp (joinLines (op_body p)))
      | opUpdate \<Rightarrow>
          (case os_EvalSymlinks os w fp of
             Inl e \<Rightarrow> (Some (MissingOrEscapes (op_path p)), w)
           | Inr resolved \<Rightarrow>
               (if \<not> os_Within os rootResolved resolved then (Some (MissingOrEscapes (op_path p)), w)
                else
                  (case os_ReadFile os w fp of
                     Inl e \<Rightarrow> (Some (OS e), w)
                   | Inr data \<Rightarrow>
                       (case apply_hunks quote (op_path p) 0 (splitLines data) (op_hunks p) of
                          Inl e \<Rightarrow> (Some (HunkError e), w)
                        | Inr lines \<Rightarrow> host_write os w fp (joinLines lines)))))
      | opDelete \<Rightarrow>
          (if \<not> os_Lstat os w fp then (Some (HostMissing (op_path p)), w)
           else
             (case os_Remove os w fp of
                (Some e, w1) \<Rightarrow> (Some (OS e), w1)
              | (None, w1) \<Rightarrow> (None, w1))))"

definition op_file :: "'w os_ops \<Rightarrow> string \<Rightarrow> patch_op \<Rightarrow> string" where
  "op_file os root p = os_Join os root (os_Clean os (os_FromSlash os (op_path p)))"

definition host_op ::
  "(string \<Rightarrow> string) \<Rightarrow> 'w os_ops \<Rightarrow> string \<Rightarrow> string \<Rightarrow> 'w \<Rightarrow> patch_op \<Rightarrow> host_error option \<times> 'w" where
  "host_op quote os root rootResolved w p =
     (if \<not> os_RelRef os (os_Clean os (os_FromSlash os (op_path p))) then
        (Some (PathEscapes (op_path p)), w)
      else
        (case ensureDirInside os w rootResolved (os_Dir os (op_file os root p)) of
           (Some e, w1) \<Rightarrow> (Some e, w1)
         | (None, w1) \<Rightarrow> host_file_op quote os w1 rootResolved (op_file os root p) p))"

fun host_ops ::
  "(string \<Rightarrow> string) \<Rightarrow> 'w os_ops \<Rightarrow> string \<Rightarrow> string \<Rightarrow> 'w \<Rightarrow> patch_op list \<Rightarrow>
   FileResult list \<times> host_error option \<times> 'w" where
  "host_ops quote os root rr w [] = ([], None, w)"
| "host_ops quote os root rr w (p # ps) =
     (case host_op quote os root rr w p of
        (Some e, w1) \<Rightarrow> ([], Some e, w1)
      | (None, w1) \<Rightarrow>
          (let (rs, e, w2) = host_ops quote os root rr w1 ps in
           (\<lparr>fr_Path = op_path p, fr_Action = action_name (op_kind p)\<rparr> # rs, e, w2)))"

definition ApplyToDir ::
  "(string \<Rightarrow> bool) \<Rightarrow> (string \<Rightarrow> string) \<Rightarrow> 'w os_ops \<Rightarrow> 'w \<Rightarrow> string \<Rightarrow> string \<Rightarrow>
   FileResult list \<times> host_error option \<times> 'w" where
  "ApplyToDir host_abs quote os w dir patch =
     (case ParseAny host_abs patch of
        Inl e \<Rightarrow> ([], Some (ParseError e), w)
      | Inr ops \<Rightarrow>
          (case os_Abs os dir of
             Inl e \<Rightarrow> ([], Some (OS e), w)
           | Inr root0 \<Rightarrow>
               (let root = os_Clean os root0 in
                case os_MkdirAll os w root of
                  (Some e, w1) \<Rightarrow> ([], Some (OS e), w1)
                | (None, w1) \<Rightarrow>
                    (case os_EvalSymlinks os w1 root of
                       Inl e \<Rightarrow> ([], Some (OS e), w1)
                     | Inr rr \<Rightarrow> host_ops quote os root rr w1 ops))))"

subsection \<open>Where it writes\<close>

text \<open>
  What may happen to the file system: nothing, a directory made, or, at a path whose parent
  resolves inside the root at that very moment, a file written or removed.
\<close>

inductive guarded_change :: "'w os_ops \<Rightarrow> string \<Rightarrow> 'w \<Rightarrow> 'w \<Rightarrow> bool"
  for os :: "'w os_ops" and rr :: string where
  unchanged: "guarded_change os rr w w"
| mkdir: "guarded_change os rr w w1 \<Longrightarrow> guarded_change os rr w (snd (os_MkdirAll os w1 d))"
| create: "guarded_change os rr w w1 \<Longrightarrow> os_EvalSymlinks os w1 (os_Dir os fp) = Inr d \<Longrightarrow>
    os_Within os rr d \<Longrightarrow> \<not> os_Lstat os w1 fp \<Longrightarrow>
    guarded_change os rr w (snd (os_WriteFile os w1 fp c))"
| rewrite: "guarded_change os rr w w1 \<Longrightarrow> os_EvalSymlinks os w1 (os_Dir os fp) = Inr d \<Longrightarrow>
    os_Within os rr d \<Longrightarrow> os_EvalSymlinks os w1 fp = Inr f \<Longrightarrow> os_Within os rr f \<Longrightarrow>
    guarded_change os rr w (snd (os_WriteFile os w1 fp c))"
| remove: "guarded_change os rr w w1 \<Longrightarrow> os_EvalSymlinks os w1 (os_Dir os fp) = Inr d \<Longrightarrow>
    os_Within os rr d \<Longrightarrow> guarded_change os rr w (snd (os_Remove os w1 fp))"

lemma guarded_trans:
  "guarded_change os rr w1 w2 \<Longrightarrow> guarded_change os rr w w1 \<Longrightarrow> guarded_change os rr w w2"
  by (induction rule: guarded_change.induct) (auto intro: guarded_change.intros)

lemma ensureDirInside_change:
  assumes "ensureDirInside os w rr parent = (e, w1)"
  shows "w1 = snd (os_MkdirAll os w parent) \<and>
     (e = None \<longrightarrow> (\<exists>d. os_EvalSymlinks os w1 parent = Inr d \<and> os_Within os rr d))"
  using assms by (auto simp: ensureDirInside_def split: prod.splits option.splits sum.splits if_splits)

lemma host_write_snd: "snd (host_write os w fp c) = snd (os_WriteFile os w fp c)"
  by (auto simp: host_write_def split: prod.splits option.splits)

lemma host_file_op_change:
  assumes "os_EvalSymlinks os w (os_Dir os fp) = Inr d" "os_Within os rr d"
  shows "guarded_change os rr w (snd (host_file_op quote os w rr fp p))"
proof -
  note start = guarded_change.unchanged [of os rr w]
  have rm: "guarded_change os rr w w1" if "os_Remove os w fp = (e, w1)" for e w1
    using guarded_change.remove [OF start assms] that by simp
  show ?thesis
    by (cases "op_kind p")
      (auto simp: host_file_op_def host_write_snd start assms
        intro: rm guarded_change.create [OF start assms] guarded_change.rewrite [OF start assms]
        split: sum.splits prod.splits option.splits)
qed

lemma host_op_change: "guarded_change os rr w (snd (host_op quote os root rr w p))"
proof -
  note start = guarded_change.unchanged [of os rr w]
  obtain e w1 where e: "ensureDirInside os w rr (os_Dir os (op_file os root p)) = (e, w1)"
    by fastforce
  from ensureDirInside_change [OF e] have w1: "guarded_change os rr w w1"
    using guarded_change.mkdir [OF start] by simp
  show ?thesis
  proof (cases e)
    case None
    with ensureDirInside_change [OF e] obtain d
      where "os_EvalSymlinks os w1 (os_Dir os (op_file os root p)) = Inr d" "os_Within os rr d"
      by blast
    from host_file_op_change [OF this, of quote p] w1 None e show ?thesis
      by (auto simp: host_op_def start intro: guarded_trans)
  next
    case (Some x)
    with e w1 show ?thesis by (simp add: host_op_def start)
  qed
qed

lemma host_ops_change: "guarded_change os rr w (snd (snd (host_ops quote os root rr w ps)))"
proof (induction ps arbitrary: w)
  case Nil
  then show ?case by (simp add: guarded_change.unchanged)
next
  case (Cons p ps)
  obtain e w1 where e: "host_op quote os root rr w p = (e, w1)" by fastforce
  with host_op_change [of os rr w quote root p] have w1: "guarded_change os rr w w1" by simp
  show ?case
    using e w1 guarded_trans [OF Cons.IH [of w1] w1]
    by (cases e; cases "host_ops quote os root rr w1 ps") simp_all
qed

text \<open>The resolved target, as \<open>ApplyToDir\<close> computes it.\<close>

definition target_root :: "'w os_ops \<Rightarrow> 'w \<Rightarrow> string \<Rightarrow> string" where
  "target_root os w dir =
     (let root = os_Clean os (projr (os_Abs os dir))
      in projr (os_EvalSymlinks os (snd (os_MkdirAll os w root)) root))"

text \<open>
  whatever a patch says, \<open>ApplyToDir\<close> writes or removes a file only when, at that moment,
  the file's parent directory resolves, symbolic links followed, inside the resolved target;
  an existing file is rewritten only when it resolves inside itself. Everything else it does to
  the file system is making directories, and a patch that does not parse changes nothing.
\<close>

theorem ApplyToDir_guarded:
  "if is_ok (ParseAny host_abs patch)
   then guarded_change os (target_root os w dir) w (snd (snd (ApplyToDir host_abs quote os w dir patch)))
   else snd (snd (ApplyToDir host_abs quote os w dir patch)) = w"
proof (cases "\<exists>ops root0 w1 rr. ParseAny host_abs patch = Inr ops \<and> os_Abs os dir = Inr root0 \<and>
    os_MkdirAll os w (os_Clean os root0) = (None, w1) \<and>
    os_EvalSymlinks os w1 (os_Clean os root0) = Inr rr")
  case True
  then obtain ops root0 w1 rr where *: "ParseAny host_abs patch = Inr ops" "os_Abs os dir = Inr root0"
    "os_MkdirAll os w (os_Clean os root0) = (None, w1)"
    "os_EvalSymlinks os w1 (os_Clean os root0) = Inr rr" by blast
  have "guarded_change os rr w w1"
    using guarded_change.mkdir [OF guarded_change.unchanged, of os rr w "os_Clean os root0"] * by simp
  from guarded_trans [OF host_ops_change this] * show ?thesis
    by (simp add: ApplyToDir_def target_root_def Let_def)
next
  case False
  let ?rr = "target_root os w dir"
  have "guarded_change os ?rr w (snd (os_MkdirAll os w d))" for d
    by (rule guarded_change.mkdir [OF guarded_change.unchanged])
  from this [of "os_Clean os (projr (os_Abs os dir))"] False show ?thesis
    by (auto simp: ApplyToDir_def Let_def guarded_change.unchanged split: sum.splits prod.splits option.splits)
qed

text \<open>
  Directories are made before the check: a parent that goes through a link out of the target
  is refused, with the directory already made outside.
\<close>

definition through_link :: "string \<Rightarrow> string" where
  "through_link p = (if has_prefix p ''/t/link'' then ''/out'' @ drop 7 p else p)"

definition link_os :: "string list os_ops" where
  "link_os =
     \<lparr>os_Abs = Inr, os_Clean = id, os_FromSlash = id, os_Join = \<lambda>a b. a @ ''/'' @ b, os_Dir = id,
      os_MkdirAll = \<lambda>w d. (None, w @ [through_link d]),
      os_EvalSymlinks = \<lambda>w p. Inr (through_link p), os_Lstat = \<lambda>w p. False,
      os_ReadFile = \<lambda>w p. Inl '''', os_WriteFile = \<lambda>w p c. (None, w), os_Remove = \<lambda>w p. (None, w),
      os_RelRef = \<lambda>p. True, os_Within = has_prefix\<rparr>"

theorem ensureDirInside_makes_outside:
  "ensureDirInside link_os [] ''/t'' ''/t/link/new'' = (Some (DirEscapes ''/t/link/new''), [''/out/new''])"
  by code_simp

end
