(* ===== verification/ExecPolicy.thy ===== *)
theory ExecPolicy
  imports GoPrelude
begin

text \<open>
  The exec policy, \<open>src/internal/capabilities/execpolicy/execpolicy.go\<close>: the dynamic command
  allowlist and the list of commands that may run without the sandbox, each with its file in
  the workspace root, and the two questions that grow them.

  \<open>sandbox.Allowlist\<close>, the YAML codec, the file system and the host that asks the user are
  not under src/: they are the fields of \<open>policy_ops\<close>, which the manager carries. An operation
  that may fail halfway returns its error and the state it left.
\<close>

subsection \<open>The manager and what it calls\<close>

datatype policy_error =
    StaticAllowlist string
  | RuleRejected string
  | FileRead string
  | FileParse string string
  | FileWrite string
  | NoHost
  | AskFailed string
  | EmptyRule

record approvalsFile =
  af_Version :: string
  af_Allow :: "string list"

record escalationsFile =
  ef_Version :: string
  ef_Rules :: "string list"

datatype read_result = Missing | ReadError string | Data string

record escalationAuditEntry =
  ea_Command :: string
  ea_Rule :: string
  ea_Reason :: string
  ea_Detail :: string
  ea_Decision :: string

text \<open>The request as far as the policy reads it; \<open>xr_tokens\<close> is \<open>sandbox.NormaliseExec\<close>.\<close>

record exec_request =
  xr_ReadOnly :: bool
  xr_SafeReadOnly :: bool
  xr_tokens :: "string list"
  xr_Reason :: string

record EscalationRequest =
  er_Command :: string
  er_Rule :: string
  er_Reason :: string
  er_Detail :: string

record prompt =
  pr_Text :: string
  pr_Source :: string
  pr_Title :: string
  pr_Options :: "(string \<times> string) list"
  pr_AllowOther :: bool
  pr_Severity :: string

record ('a, 'f) policy_ops =
  al_New :: "string list \<Rightarrow> string + 'a"
  al_Add :: "'a \<Rightarrow> string list \<Rightarrow> string option \<times> 'a"
  al_Set :: "'a \<Rightarrow> string list \<Rightarrow> string option \<times> 'a"
  al_Rules :: "'a \<Rightarrow> string list"
  al_Matches :: "'a \<Rightarrow> exec_request \<Rightarrow> bool"
  fs_Read :: "'f \<Rightarrow> string \<Rightarrow> read_result"
  fs_Write :: "'f \<Rightarrow> string \<Rightarrow> string \<Rightarrow> string option \<times> 'f"
  fs_MkdirAll :: "'f \<Rightarrow> string \<Rightarrow> string option \<times> 'f"
  fs_Append :: "'f \<Rightarrow> string \<Rightarrow> escalationAuditEntry \<Rightarrow> string option \<times> 'f"
  path_Dir :: "string \<Rightarrow> string"
  path_Join :: "string \<Rightarrow> string \<Rightarrow> string"
  dec_approvals :: "string \<Rightarrow> string + approvalsFile"
  enc_approvals :: "approvalsFile \<Rightarrow> string + string"
  dec_escalations :: "string \<Rightarrow> string + escalationsFile"
  enc_escalations :: "escalationsFile \<Rightarrow> string + string"

record ('a, 'f) Manager =
  m_ops :: "('a, 'f) policy_ops"
  m_allowlist :: 'a
  m_escalated :: 'a
  m_path :: string
  m_escalationsPath :: string
  m_auditPath :: string
  m_hooks :: bool
  m_fired :: "string list"
  m_fs :: 'f

definition approvalsVersion :: string where "approvalsVersion = ''v1''"
definition escalationsFileName :: string where "escalationsFileName = ''escalations.yaml''"
definition escalationAuditFile :: string where "escalationAuditFile = ''escalations.jsonl''"
definition decisionOnce :: string where "decisionOnce = ''once''"
definition decisionAlways :: string where "decisionAlways = ''always''"
definition decisionDeny :: string where "decisionDeny = ''deny''"

subsection \<open>The two files\<close>

definition readFile :: "('a, 'f) Manager \<Rightarrow> policy_error + approvalsFile" where
  "readFile m =
     (if m_path m = '''' then Inr \<lparr>af_Version = approvalsVersion, af_Allow = []\<rparr>
      else case fs_Read (m_ops m) (m_fs m) (m_path m) of
             Missing \<Rightarrow> Inr \<lparr>af_Version = approvalsVersion, af_Allow = []\<rparr>
           | ReadError e \<Rightarrow> Inl (FileRead e)
           | Data d \<Rightarrow>
               (case dec_approvals (m_ops m) d of
                  Inl e \<Rightarrow> Inl (FileParse (m_path m) e)
                | Inr f \<Rightarrow> Inr f))"

definition readEscalations :: "('a, 'f) Manager \<Rightarrow> policy_error + escalationsFile" where
  "readEscalations m =
     (if m_escalationsPath m = '''' then Inr \<lparr>ef_Version = approvalsVersion, ef_Rules = []\<rparr>
      else case fs_Read (m_ops m) (m_fs m) (m_escalationsPath m) of
             Missing \<Rightarrow> Inr \<lparr>ef_Version = approvalsVersion, ef_Rules = []\<rparr>
           | ReadError e \<Rightarrow> Inl (FileRead e)
           | Data d \<Rightarrow>
               (case dec_escalations (m_ops m) d of
                  Inl e \<Rightarrow> Inl (FileParse (m_escalationsPath m) e)
                | Inr f \<Rightarrow> Inr f))"

definition writeYAML ::
  "('a, 'f) Manager \<Rightarrow> string \<Rightarrow> string + string \<Rightarrow> policy_error option \<times> ('a, 'f) Manager" where
  "writeYAML m path doc =
     (case doc of
        Inl e \<Rightarrow> (Some (FileWrite e), m)
      | Inr data \<Rightarrow>
          (case fs_Write (m_ops m) (m_fs m) path data of
             (Some e, fs') \<Rightarrow> (Some (FileWrite e), m\<lparr>m_fs := fs'\<rparr>)
           | (None, fs') \<Rightarrow> (None, m\<lparr>m_fs := fs'\<rparr>)))"

definition writeFile ::
  "('a, 'f) Manager \<Rightarrow> approvalsFile \<Rightarrow> policy_error option \<times> ('a, 'f) Manager" where
  "writeFile m file =
     (if m_path m = '''' then (None, m)
      else writeYAML m (m_path m) (enc_approvals (m_ops m) (file\<lparr>af_Version := approvalsVersion\<rparr>)))"

definition writeEscalations ::
  "('a, 'f) Manager \<Rightarrow> escalationsFile \<Rightarrow> policy_error option \<times> ('a, 'f) Manager" where
  "writeEscalations m file =
     (if m_escalationsPath m = '''' then (None, m)
      else writeYAML m (m_escalationsPath m)
             (enc_escalations (m_ops m) (file\<lparr>ef_Version := approvalsVersion\<rparr>)))"

subsection \<open>Construction\<close>

definition escalationsPathFor :: "('a, 'f) policy_ops \<Rightarrow> string \<Rightarrow> string" where
  "escalationsPathFor ops approvalsPath =
     (if trim_space approvalsPath = '''' then ''''
      else path_Join ops (path_Dir ops approvalsPath) escalationsFileName)"

text \<open>\<open>a.Add(rules...)\<close> on one of the two lists, skipped when there is nothing to add.\<close>

definition add_loaded :: "('a, 'f) policy_ops \<Rightarrow> 'a \<Rightarrow> string list \<Rightarrow> policy_error + 'a" where
  "add_loaded ops a rules =
     (if rules = [] then Inr a
      else case al_Add ops a rules of
             (Some e, _) \<Rightarrow> Inl (RuleRejected e)
           | (None, a') \<Rightarrow> Inr a')"

definition NewWithAudit ::
  "('a, 'f) policy_ops \<Rightarrow> 'f \<Rightarrow> string list \<Rightarrow> string \<Rightarrow> string \<Rightarrow> policy_error + ('a, 'f) Manager" where
  "NewWithAudit ops fs rules approvalsPath auditDir =
     (case al_New ops rules of
        Inl e \<Rightarrow> Inl (StaticAllowlist e)
      | Inr a \<Rightarrow>
          (case al_New ops [] of
             Inl e \<Rightarrow> Inl (StaticAllowlist e)
           | Inr esc \<Rightarrow>
               (let m = \<lparr>m_ops = ops, m_allowlist = a, m_escalated = esc, m_path = approvalsPath,
                         m_escalationsPath = escalationsPathFor ops approvalsPath,
                         m_auditPath = (if trim_space auditDir \<noteq> ''''
                                        then path_Join ops auditDir escalationAuditFile else ''''),
                         m_hooks = False, m_fired = [], m_fs = fs\<rparr>
                in try_bind (readFile m) (\<lambda>file.
                   try_bind (add_loaded ops a (af_Allow file)) (\<lambda>a'.
                   try_bind (readEscalations m) (\<lambda>escalations.
                   try_bind (add_loaded ops esc (ef_Rules escalations)) (\<lambda>esc'.
                   Inr (m\<lparr>m_allowlist := a', m_escalated := esc'\<rparr>))))))))"

definition New ::
  "('a, 'f) policy_ops \<Rightarrow> 'f \<Rightarrow> string list \<Rightarrow> string \<Rightarrow> policy_error + ('a, 'f) Manager" where
  "New ops fs rules approvalsPath = NewWithAudit ops fs rules approvalsPath ''''"

subsection \<open>Adding and removing rules\<close>

definition appendRule :: "string list \<Rightarrow> string \<Rightarrow> string list" where
  "appendRule rules rule = (if list_ex (\<lambda>r. r = rule) rules then rules else rules @ [rule])"

definition removeRule :: "string list \<Rightarrow> string \<Rightarrow> string list" where
  "removeRule rules rule = filter (\<lambda>r. r \<noteq> rule) rules"

definition set_allowlist :: "('a, 'f) Manager \<Rightarrow> string list \<Rightarrow> ('a, 'f) Manager" where
  "set_allowlist m rules = m\<lparr>m_allowlist := snd (al_Set (m_ops m) (m_allowlist m) rules)\<rparr>"

definition set_escalated :: "('a, 'f) Manager \<Rightarrow> string list \<Rightarrow> ('a, 'f) Manager" where
  "set_escalated m rules = m\<lparr>m_escalated := snd (al_Set (m_ops m) (m_escalated m) rules)\<rparr>"

definition AlwaysAllow ::
  "string \<Rightarrow> ('a, 'f) Manager \<Rightarrow> policy_error option \<times> ('a, 'f) Manager" where
  "AlwaysAllow rule m =
     (let before = al_Rules (m_ops m) (m_allowlist m) in
      case al_Add (m_ops m) (m_allowlist m) [rule] of
        (Some e, a') \<Rightarrow> (Some (RuleRejected e), m\<lparr>m_allowlist := a'\<rparr>)
      | (None, a') \<Rightarrow>
          (let m1 = m\<lparr>m_allowlist := a'\<rparr> in
           case readFile m1 of
             Inl e \<Rightarrow> (Some e, set_allowlist m1 before)
           | Inr file \<Rightarrow>
               (case writeFile m1 (file\<lparr>af_Allow := appendRule (af_Allow file) rule\<rparr>) of
                  (Some e, m2) \<Rightarrow> (Some e, set_allowlist m2 before)
                | (None, m2) \<Rightarrow> (None, m2))))"

definition AlwaysEscalate ::
  "string \<Rightarrow> ('a, 'f) Manager \<Rightarrow> policy_error option \<times> ('a, 'f) Manager" where
  "AlwaysEscalate rule m =
     (let before = al_Rules (m_ops m) (m_escalated m) in
      case al_Add (m_ops m) (m_escalated m) [rule] of
        (Some e, a') \<Rightarrow> (Some (RuleRejected e), m\<lparr>m_escalated := a'\<rparr>)
      | (None, a') \<Rightarrow>
          (let m1 = m\<lparr>m_escalated := a'\<rparr> in
           case readEscalations m1 of
             Inl e \<Rightarrow> (Some e, set_escalated m1 before)
           | Inr file \<Rightarrow>
               (case writeEscalations m1 (file\<lparr>ef_Rules := appendRule (ef_Rules file) rule\<rparr>) of
                  (Some e, m2) \<Rightarrow> (Some e, set_escalated m2 before)
                | (None, m2) \<Rightarrow> (None, m2))))"

definition Remove ::
  "string \<Rightarrow> ('a, 'f) Manager \<Rightarrow> policy_error option \<times> ('a, 'f) Manager" where
  "Remove rule m =
     (let rules = al_Rules (m_ops m) (m_allowlist m); filtered = removeRule rules rule in
      if length filtered = length rules then (None, m)
      else
        (case al_Set (m_ops m) (m_allowlist m) filtered of
           (Some e, a') \<Rightarrow> (Some (RuleRejected e), m\<lparr>m_allowlist := a'\<rparr>)
         | (None, a') \<Rightarrow>
             (let m1 = m\<lparr>m_allowlist := a'\<rparr> in
              case readFile m1 of
                Inl e \<Rightarrow> (Some e, set_allowlist m1 rules)
              | Inr file \<Rightarrow>
                  (case writeFile m1 (file\<lparr>af_Allow := removeRule (af_Allow file) rule\<rparr>) of
                     (Some e, m2) \<Rightarrow> (Some e, set_allowlist m2 rules)
                   | (None, m2) \<Rightarrow> (None, m2)))))"

definition RemoveEscalated ::
  "string \<Rightarrow> ('a, 'f) Manager \<Rightarrow> policy_error option \<times> ('a, 'f) Manager" where
  "RemoveEscalated rule m =
     (let rules = al_Rules (m_ops m) (m_escalated m); filtered = removeRule rules rule in
      if length filtered = length rules then (None, m)
      else
        (case al_Set (m_ops m) (m_escalated m) filtered of
           (Some e, a') \<Rightarrow> (Some (RuleRejected e), m\<lparr>m_escalated := a'\<rparr>)
         | (None, a') \<Rightarrow>
             (let m1 = m\<lparr>m_escalated := a'\<rparr> in
              case readEscalations m1 of
                Inl e \<Rightarrow> (Some e, set_escalated m1 rules)
              | Inr file \<Rightarrow>
                  (case writeEscalations m1 (file\<lparr>ef_Rules := removeRule (ef_Rules file) rule\<rparr>) of
                     (Some e, m2) \<Rightarrow> (Some e, set_escalated m2 rules)
                   | (None, m2) \<Rightarrow> (None, m2)))))"

definition Rules :: "('a, 'f) Manager \<Rightarrow> string list" where
  "Rules m = al_Rules (m_ops m) (m_allowlist m)"

definition EscalatedRules :: "('a, 'f) Manager \<Rightarrow> string list" where
  "EscalatedRules m = al_Rules (m_ops m) (m_escalated m)"

definition EscalatedAllowed :: "('a, 'f) Manager \<Rightarrow> exec_request \<Rightarrow> bool" where
  "EscalatedAllowed m req = al_Matches (m_ops m) (m_escalated m) req"

definition SetHooks :: "bool \<Rightarrow> ('a, 'f) Manager \<Rightarrow> ('a, 'f) Manager" where
  "SetHooks h m = m\<lparr>m_hooks := h\<rparr>"

subsection \<open>Asking\<close>

datatype Decision = Deny | Allow

record EscalationDecision =
  ed_Allow :: bool
  ed_Remember :: bool

definition no_escalation :: EscalationDecision where
  "no_escalation = \<lparr>ed_Allow = False, ed_Remember = False\<rparr>"

text \<open>
  The host in the context, when there is one: it answers a prompt with an error or with the
  reply's choice (the empty string when the reply names none).
\<close>

type_synonym asking_host = "(prompt \<Rightarrow> string + string) option"

definition NormaliseCommand :: "exec_request \<Rightarrow> string" where
  "NormaliseCommand req = str_join '' '' (xr_tokens req)"

definition fire :: "string \<Rightarrow> ('a, 'f) Manager \<Rightarrow> ('a, 'f) Manager" where
  "fire command m = (if m_hooks m then m\<lparr>m_fired := m_fired m @ [command]\<rparr> else m)"

definition approve_prompt :: "string \<Rightarrow> string \<Rightarrow> prompt" where
  "approve_prompt command reason =
     \<lparr>pr_Text = ''Command is not in the sandbox allowlist: '' @ command @ [CHR 0x0A] @ ''Reason: '' @ reason,
      pr_Source = ''opencraft.sandbox.approval'',
      pr_Title = ''Allow running '' @ command @ ''?'',
      pr_Options = [(''Allow once'', ''allow_once''), (''Deny'', ''deny''), (''Always allow'', ''always'')],
      pr_AllowOther = False, pr_Severity = ''notice''\<rparr>"

definition Approve ::
  "asking_host \<Rightarrow> exec_request \<Rightarrow> ('a, 'f) Manager \<Rightarrow>
   (Decision \<times> policy_error option) \<times> ('a, 'f) Manager" where
  "Approve host req m =
     (if xr_ReadOnly req \<and> xr_SafeReadOnly req then ((Allow, None), m)
      else
        (let command = NormaliseCommand req; m1 = fire command m in
         case host of
           None \<Rightarrow> ((Deny, Some NoHost), m1)
         | Some ask \<Rightarrow>
             (case ask (approve_prompt command (xr_Reason req)) of
                Inl e \<Rightarrow> ((Deny, Some (AskFailed e)), m1)
              | Inr choice \<Rightarrow>
                  (if choice = ''allow_once'' then ((Allow, None), m1)
                   else if choice = ''always'' then
                     (case AlwaysAllow command m1 of
                        (Some e, m2) \<Rightarrow> ((Deny, Some e), m2)
                      | (None, m2) \<Rightarrow> ((Allow, None), m2))
                   else ((Deny, None), m1)))))"

definition escalationBody :: "EscalationRequest \<Rightarrow> string" where
  "escalationBody req =
     (let reason = trim_space (er_Reason req); detail = trim_space (er_Detail req) in
      if reason = '''' \<and> detail = '''' then ''The command failed with a permission error.''
      else if detail = '''' then reason @ ''.''
      else if reason = '''' then detail
      else reason @ '':'' @ [CHR 0x0A, CHR 0x0A] @ detail)"

definition escalate_prompt :: "EscalationRequest \<Rightarrow> prompt" where
  "escalate_prompt req =
     (let nl = [CHR 0x0A, CHR 0x0A] in
      \<lparr>pr_Text = ''The sandbox refused this command:'' @ nl @ er_Command req @ nl @
         escalationBody req @ nl @
         ''Approving re-runs the whole command on the host with full access: no filesystem sandbox and the full environment.'',
       pr_Source = ''opencraft.sandbox.escalation'',
       pr_Title = ''Run outside the sandbox?'',
       pr_Options = [(''Run outside the sandbox (once)'', ''escalate_once''), (''Deny'', ''deny''),
                     (''Always run this command outside the sandbox'', ''escalate_always'')],
       pr_AllowOther = False, pr_Severity = ''danger''\<rparr>)"

text \<open>\<open>recordEscalation\<close>: best effort, its failures are only logged.\<close>

definition recordEscalation ::
  "EscalationRequest \<Rightarrow> string \<Rightarrow> ('a, 'f) Manager \<Rightarrow> ('a, 'f) Manager" where
  "recordEscalation req decision m =
     (if m_auditPath m = '''' then m
      else
        (case fs_MkdirAll (m_ops m) (m_fs m) (path_Dir (m_ops m) (m_auditPath m)) of
           (Some e, fs1) \<Rightarrow> m\<lparr>m_fs := fs1\<rparr>
         | (None, fs1) \<Rightarrow>
             m\<lparr>m_fs := snd (fs_Append (m_ops m) fs1 (m_auditPath m)
                 \<lparr>ea_Command = er_Command req, ea_Rule = er_Rule req, ea_Reason = er_Reason req,
                  ea_Detail = er_Detail req, ea_Decision = decision\<rparr>)\<rparr>))"

definition Escalate ::
  "asking_host \<Rightarrow> EscalationRequest \<Rightarrow> ('a, 'f) Manager \<Rightarrow>
   (EscalationDecision \<times> policy_error option) \<times> ('a, 'f) Manager" where
  "Escalate host req m =
     (let m1 = fire (er_Command req) m in
      case host of
        None \<Rightarrow> ((no_escalation, Some NoHost), m1)
      | Some ask \<Rightarrow>
          (case ask (escalate_prompt req) of
             Inl e \<Rightarrow> ((no_escalation, Some (AskFailed e)), m1)
           | Inr choice \<Rightarrow>
               (if choice = ''escalate_once'' then
                  ((\<lparr>ed_Allow = True, ed_Remember = False\<rparr>, None), recordEscalation req decisionOnce m1)
                else if choice = ''escalate_always'' then
                  (let rule = trim_space (er_Rule req) in
                   if rule = '''' then ((no_escalation, Some EmptyRule), m1)
                   else
                     (case AlwaysEscalate rule m1 of
                        (Some e, m2) \<Rightarrow> ((no_escalation, Some e), m2)
                      | (None, m2) \<Rightarrow>
                          ((\<lparr>ed_Allow = True, ed_Remember = True\<rparr>, None),
                           recordEscalation req decisionAlways m2)))
                else ((no_escalation, None), recordEscalation req decisionDeny m1))))"

end
