(* ===== verification/ExecPolicyLaws.thy ===== *)
theory ExecPolicyLaws
  imports ExecPolicy
begin

text \<open>
  What the exec policy guarantees. Its two lists, the approved commands and the commands that
  may run without the sandbox, are two interpretations of one contract, \<open>rule_store\<close>; on it
  rest the fail-closed questions and the agreement of files and memory over whole histories.
\<close>

subsection \<open>The contract of a rule store\<close>

text \<open>
  A store keeps its rules twice: live, where a command is matched, and saved, in a file. An
  operation that succeeds changes both alike; one that fails changes neither.
\<close>

text \<open>Every saved rule is live, and a live rule is saved or one of the fixed \<open>base\<close>.\<close>

definition coherent :: "string set \<Rightarrow> string set \<Rightarrow> string set \<Rightarrow> bool" where
  "coherent base live saved \<longleftrightarrow> saved \<subseteq> live \<and> live \<subseteq> base \<union> saved"

locale rule_store =
  fixes good :: "'s \<Rightarrow> bool"
    and live saved :: "'s \<Rightarrow> string set"
    and add del :: "string \<Rightarrow> 's \<Rightarrow> 'e option \<times> 's"
  assumes add_law: "good s \<Longrightarrow> add r s = (e, s') \<Longrightarrow>
      good s' \<and>
      (if e = None then live s' = insert r (live s) \<and> saved s' = insert r (saved s)
       else live s' = live s \<and> saved s' = saved s)"
    and del_law: "good s \<Longrightarrow> del r s = (e, s') \<Longrightarrow>
      good s' \<and>
      (if e = None \<and> r \<in> live s then live s' = live s - {r} \<and> saved s' = saved s - {r}
       else live s' = live s \<and> saved s' = saved s)"
begin

lemmas add_facts = add_law [OF _ surjective_pairing] and del_facts = del_law [OF _ surjective_pairing]

lemma add_coherent: "good s \<Longrightarrow> coherent base (live s) (saved s) \<Longrightarrow>
   coherent base (live (snd (add r s))) (saved (snd (add r s)))"
  using add_facts [of s r] by (auto simp: coherent_def split: if_splits)

lemma del_coherent: "good s \<Longrightarrow> coherent base (live s) (saved s) \<Longrightarrow>
   coherent base (live (snd (del r s))) (saved (snd (del r s)))"
  using del_facts [of s r] by (auto simp: coherent_def split: if_splits)

lemma add_good: "good s \<Longrightarrow> good (snd (add r s))"
  using add_facts [of s r] by simp

lemma del_good: "good s \<Longrightarrow> good (snd (del r s))"
  using del_facts [of s r] by simp

lemma add_grants:
  "good s \<Longrightarrow> live (snd (add r s)) = (if fst (add r s) = None then insert r (live s) else live s)"
  using add_facts [of s r] by (auto split: if_splits)

lemma del_revokes: "good s \<Longrightarrow> fst (del r s) = None \<Longrightarrow> r \<notin> live (snd (del r s))"
  using del_facts [of s r] by (auto split: if_splits)

lemma del_live: "good s \<Longrightarrow> live (snd (del r s)) \<subseteq> live s"
  using del_facts [of s r] by (auto split: if_splits)

lemma add_failed:
  "good s \<Longrightarrow> add r s = (Some e, s') \<Longrightarrow> live s' = live s \<and> saved s' = saved s"
  using add_law [of s r "Some e" s'] by simp

lemma del_failed:
  "good s \<Longrightarrow> del r s = (Some e, s') \<Longrightarrow> live s' = live s \<and> saved s' = saved s"
  using del_law [of s r "Some e" s'] by simp

end

subsection \<open>What the code relies on\<close>

text \<open>
  The documented behaviour of the allowlist, the files and the codec: \<open>Add\<close> and \<open>Set\<close> take all
  the rules or none, rules that a list holds are rules \<open>Set\<close> takes back, \<open>fsatomic.Write\<close>
  replaces the one file or leaves everything, and a document decodes to what was encoded.
\<close>

definition lawful_allowlist :: "('a, 'f) policy_ops \<Rightarrow> bool" where
  "lawful_allowlist ops \<longleftrightarrow>
     (\<forall>rs a. al_New ops rs = Inr a \<longrightarrow> set (al_Rules ops a) = set rs) \<and>
     (\<forall>a rs a'. al_Add ops a rs = (None, a') \<longrightarrow>
        set (al_Rules ops a') = set (al_Rules ops a) \<union> set rs) \<and>
     (\<forall>a rs e a'. al_Add ops a rs = (Some e, a') \<longrightarrow> set (al_Rules ops a') = set (al_Rules ops a)) \<and>
     (\<forall>a rs a'. al_Set ops a rs = (None, a') \<longrightarrow> set (al_Rules ops a') = set rs) \<and>
     (\<forall>a rs e a'. al_Set ops a rs = (Some e, a') \<longrightarrow> set (al_Rules ops a') = set (al_Rules ops a)) \<and>
     (\<forall>a b. fst (al_Set ops a (al_Rules ops b)) = None)"

definition lawful_files :: "('a, 'f) policy_ops \<Rightarrow> bool" where
  "lawful_files ops \<longleftrightarrow>
     (\<forall>f p d f'. fs_Write ops f p d = (None, f') \<longrightarrow>
        fs_Read ops f' p = Data d \<and> (\<forall>q. q \<noteq> p \<longrightarrow> fs_Read ops f' q = fs_Read ops f q)) \<and>
     (\<forall>f p d e f'. fs_Write ops f p d = (Some e, f') \<longrightarrow> fs_Read ops f' = fs_Read ops f) \<and>
     (\<forall>f d. fs_Read ops (snd (fs_MkdirAll ops f d)) = fs_Read ops f) \<and>
     (\<forall>f p x q. q \<noteq> p \<longrightarrow> fs_Read ops (snd (fs_Append ops f p x)) q = fs_Read ops f q) \<and>
     (\<forall>x d. enc_approvals ops x = Inr d \<longrightarrow> dec_approvals ops d = Inr x) \<and>
     (\<forall>x d. enc_escalations ops x = Inr d \<longrightarrow> dec_escalations ops d = Inr x)"

definition good_manager :: "('a, 'f) Manager \<Rightarrow> bool" where
  "good_manager m \<longleftrightarrow>
     lawful_allowlist (m_ops m) \<and> lawful_files (m_ops m) \<and>
     m_path m \<noteq> '''' \<and> m_escalationsPath m \<noteq> '''' \<and> m_path m \<noteq> m_escalationsPath m \<and>
     m_auditPath m \<noteq> m_path m \<and> m_auditPath m \<noteq> m_escalationsPath m"

definition live_allow :: "('a, 'f) Manager \<Rightarrow> string set" where
  "live_allow m = set (Rules m)"

definition saved_allow :: "('a, 'f) Manager \<Rightarrow> string set" where
  "saved_allow m = (case readFile m of Inl e \<Rightarrow> {} | Inr f \<Rightarrow> set (af_Allow f))"

definition live_esc :: "('a, 'f) Manager \<Rightarrow> string set" where
  "live_esc m = set (EscalatedRules m)"

definition saved_esc :: "('a, 'f) Manager \<Rightarrow> string set" where
  "saved_esc m = (case readEscalations m of Inl e \<Rightarrow> {} | Inr f \<Rightarrow> set (ef_Rules f))"

lemma lawful_allowlistD:
  assumes "lawful_allowlist ops"
  shows "al_New ops rs = Inr a \<Longrightarrow> set (al_Rules ops a) = set rs"
    and "al_Add ops a rs = (None, a') \<Longrightarrow> set (al_Rules ops a') = set (al_Rules ops a) \<union> set rs"
    and "al_Add ops a rs = (Some e, a') \<Longrightarrow> set (al_Rules ops a') = set (al_Rules ops a)"
    and "al_Set ops a rs = (None, a') \<Longrightarrow> set (al_Rules ops a') = set rs"
    and "al_Set ops a rs = (Some e, a') \<Longrightarrow> set (al_Rules ops a') = set (al_Rules ops a)"
    and "set (al_Rules ops (snd (al_Set ops a (al_Rules ops b)))) = set (al_Rules ops b)"
  using assms by (simp_all add: lawful_allowlist_def) (metis prod.collapse)

lemma lawful_filesD:
  assumes "lawful_files ops"
  shows "fs_Write ops f p d = (None, f') \<Longrightarrow> fs_Read ops f' p = Data d"
    and "fs_Write ops f p d = (None, f') \<Longrightarrow> q \<noteq> p \<Longrightarrow> fs_Read ops f' q = fs_Read ops f q"
    and "fs_Write ops f p d = (Some e, f') \<Longrightarrow> fs_Read ops f' = fs_Read ops f"
    and "fs_Read ops (snd (fs_MkdirAll ops f dir)) = fs_Read ops f"
    and "q \<noteq> p \<Longrightarrow> fs_Read ops (snd (fs_Append ops f p x)) q = fs_Read ops f q"
    and "enc_approvals ops y = Inr d \<Longrightarrow> dec_approvals ops d = Inr y"
    and "enc_escalations ops z = Inr d \<Longrightarrow> dec_escalations ops d = Inr z"
  using assms unfolding lawful_files_def by metis+

lemma appendRule_set [simp]: "set (appendRule rules r) = insert r (set rules)"
  by (auto simp: appendRule_def list_ex_iff)

lemma removeRule_set [simp]: "set (removeRule rules r) = set rules - {r}"
  by (auto simp: removeRule_def)

lemma removeRule_length: "length (removeRule rules r) = length rules \<longleftrightarrow> r \<notin> set rules"
  unfolding removeRule_def
  by (metis (mono_tags, lifting) filter_True length_filter_less nat_less_le)


lemma read_frame [simp]:
  "readFile (m\<lparr>m_allowlist := a\<rparr>) = readFile m" "readFile (m\<lparr>m_escalated := a\<rparr>) = readFile m"
  "readFile (m\<lparr>m_fired := h\<rparr>) = readFile m" "readFile (m\<lparr>m_hooks := b\<rparr>) = readFile m"
  "readEscalations (m\<lparr>m_hooks := b\<rparr>) = readEscalations m"
  "readEscalations (m\<lparr>m_allowlist := a\<rparr>) = readEscalations m"
  "readEscalations (m\<lparr>m_escalated := a\<rparr>) = readEscalations m"
  "readEscalations (m\<lparr>m_fired := h\<rparr>) = readEscalations m"
  by (simp_all add: readFile_def readEscalations_def split: read_result.split sum.split)

text \<open>A write either replaces its own file or leaves both as they were.\<close>

lemma readFile_fs:
  "fs_Read (m_ops m) f (m_path m) = fs_Read (m_ops m) (m_fs m) (m_path m) \<Longrightarrow>
   readFile (m\<lparr>m_fs := f\<rparr>) = readFile m"
  by (simp add: readFile_def split: read_result.split sum.split)

lemma readEscalations_fs:
  "fs_Read (m_ops m) f (m_escalationsPath m) = fs_Read (m_ops m) (m_fs m) (m_escalationsPath m) \<Longrightarrow>
   readEscalations (m\<lparr>m_fs := f\<rparr>) = readEscalations m"
  by (simp add: readEscalations_def split: read_result.split sum.split)

lemma writeFile_cases:
  assumes "good_manager m" "writeFile m x = (e, m')"
  shows "\<exists>f. m' = m\<lparr>m_fs := f\<rparr> \<and> readEscalations m' = readEscalations m \<and>
     readFile m' = (if e = None then Inr (x\<lparr>af_Version := approvalsVersion\<rparr>) else readFile m)"
proof -
  have L: "lawful_files (m_ops m)" and p: "m_path m \<noteq> ''''" "m_escalationsPath m \<noteq> m_path m"
    using assms(1) by (auto simp: good_manager_def)
  show ?thesis
  proof (cases "enc_approvals (m_ops m) (x\<lparr>af_Version := approvalsVersion\<rparr>)")
    case (Inl a)
    with assms(2) p show ?thesis
      by (intro exI [of _ "m_fs m"]) (auto simp: writeFile_def writeYAML_def)
  next
    case (Inr d)
    obtain o1 f where w: "fs_Write (m_ops m) (m_fs m) (m_path m) d = (o1, f)" by fastforce
    show ?thesis
    proof (cases o1)
      case None
      with w Inr assms(2) p have "e = None" "m' = m\<lparr>m_fs := f\<rparr>"
        by (simp_all add: writeFile_def writeYAML_def)
      moreover have "readEscalations (m\<lparr>m_fs := f\<rparr>) = readEscalations m"
        using lawful_filesD(2) [OF L w [unfolded None] p(2)] by (rule readEscalations_fs)
      moreover have "readFile (m\<lparr>m_fs := f\<rparr>) = Inr (x\<lparr>af_Version := approvalsVersion\<rparr>)"
        using p(1) lawful_filesD(1) [OF L w [unfolded None]] lawful_filesD(6) [OF L Inr]
        by (simp add: readFile_def)
      ultimately show ?thesis by auto
    next
      case (Some y)
      with w Inr assms(2) p have "e \<noteq> None" "m' = m\<lparr>m_fs := f\<rparr>"
        by (auto simp: writeFile_def writeYAML_def)
      with lawful_filesD(3) [OF L w [unfolded Some]] show ?thesis
        by (intro exI [of _ f]) (auto intro: readFile_fs readEscalations_fs)
    qed
  qed
qed

lemma writeEscalations_cases:
  assumes "good_manager m" "writeEscalations m x = (e, m')"
  shows "\<exists>f. m' = m\<lparr>m_fs := f\<rparr> \<and> readFile m' = readFile m \<and>
     readEscalations m' = (if e = None then Inr (x\<lparr>ef_Version := approvalsVersion\<rparr>) else readEscalations m)"
proof -
  have L: "lawful_files (m_ops m)" and p: "m_escalationsPath m \<noteq> ''''" "m_path m \<noteq> m_escalationsPath m"
    using assms(1) by (auto simp: good_manager_def)
  show ?thesis
  proof (cases "enc_escalations (m_ops m) (x\<lparr>ef_Version := approvalsVersion\<rparr>)")
    case (Inl a)
    with assms(2) p show ?thesis
      by (intro exI [of _ "m_fs m"]) (auto simp: writeEscalations_def writeYAML_def)
  next
    case (Inr d)
    obtain o1 f where w: "fs_Write (m_ops m) (m_fs m) (m_escalationsPath m) d = (o1, f)" by fastforce
    show ?thesis
    proof (cases o1)
      case None
      with w Inr assms(2) p have "e = None" "m' = m\<lparr>m_fs := f\<rparr>"
        by (simp_all add: writeEscalations_def writeYAML_def)
      moreover have "readFile (m\<lparr>m_fs := f\<rparr>) = readFile m"
        using lawful_filesD(2) [OF L w [unfolded None] p(2)] by (rule readFile_fs)
      moreover have "readEscalations (m\<lparr>m_fs := f\<rparr>) = Inr (x\<lparr>ef_Version := approvalsVersion\<rparr>)"
        using p(1) lawful_filesD(1) [OF L w [unfolded None]] lawful_filesD(7) [OF L Inr]
        by (simp add: readEscalations_def)
      ultimately show ?thesis by auto
    next
      case (Some y)
      with w Inr assms(2) p have "e \<noteq> None" "m' = m\<lparr>m_fs := f\<rparr>"
        by (auto simp: writeEscalations_def writeYAML_def)
      with lawful_filesD(3) [OF L w [unfolded Some]] show ?thesis
        by (intro exI [of _ f]) (auto intro: readFile_fs readEscalations_fs)
    qed
  qed
qed

lemma good_frame [simp]:
  "good_manager (m\<lparr>m_allowlist := a\<rparr>) = good_manager m" "good_manager (m\<lparr>m_escalated := a\<rparr>) = good_manager m"
  "good_manager (m\<lparr>m_fs := f\<rparr>) = good_manager m" "good_manager (m\<lparr>m_fired := h\<rparr>) = good_manager m"
  "good_manager (m\<lparr>m_hooks := b\<rparr>) = good_manager m"
  by (simp_all add: good_manager_def)

text \<open>The other store: the live and saved rules an operation must not touch.\<close>

definition same_esc :: "('a, 'f) Manager \<Rightarrow> ('a, 'f) Manager \<Rightarrow> bool" where
  "same_esc m m' \<longleftrightarrow> live_esc m' = live_esc m \<and> saved_esc m' = saved_esc m"

definition same_allow :: "('a, 'f) Manager \<Rightarrow> ('a, 'f) Manager \<Rightarrow> bool" where
  "same_allow m m' \<longleftrightarrow> live_allow m' = live_allow m \<and> saved_allow m' = saved_allow m"

lemmas store_defs = live_allow_def saved_allow_def live_esc_def saved_esc_def Rules_def EscalatedRules_def
  same_esc_def same_allow_def


lemma live_frame [simp]:
  "live_allow (m\<lparr>m_escalated := a\<rparr>) = live_allow m" "live_allow (m\<lparr>m_fs := f\<rparr>) = live_allow m"
  "live_esc (m\<lparr>m_allowlist := a\<rparr>) = live_esc m" "live_esc (m\<lparr>m_fs := f\<rparr>) = live_esc m"
  "live_allow (m\<lparr>m_allowlist := b\<rparr>) = set (al_Rules (m_ops m) b)"
  "live_esc (m\<lparr>m_escalated := b\<rparr>) = set (al_Rules (m_ops m) b)"
  "live_allow (m\<lparr>m_hooks := bb\<rparr>) = live_allow m" "live_esc (m\<lparr>m_hooks := bb\<rparr>) = live_esc m"
  "live_allow (m\<lparr>m_fired := h\<rparr>) = live_allow m" "live_esc (m\<lparr>m_fired := h\<rparr>) = live_esc m"
  by (simp_all add: store_defs)

lemma saved_frame [simp]:
  "saved_allow (m\<lparr>m_allowlist := a\<rparr>) = saved_allow m" "saved_allow (m\<lparr>m_escalated := a\<rparr>) = saved_allow m"
  "saved_esc (m\<lparr>m_allowlist := a\<rparr>) = saved_esc m" "saved_esc (m\<lparr>m_escalated := a\<rparr>) = saved_esc m"
  "saved_allow (m\<lparr>m_hooks := b\<rparr>) = saved_allow m" "saved_esc (m\<lparr>m_hooks := b\<rparr>) = saved_esc m"
  "saved_allow (m\<lparr>m_fired := h\<rparr>) = saved_allow m" "saved_esc (m\<lparr>m_fired := h\<rparr>) = saved_esc m"
  by (simp_all add: store_defs)

text \<open>
  The second half of all four operations: with the live list already changed to \<open>a'\<close>, read the
  file, write it back with \<open>upd\<close> applied, and put the old live rules back on a failure.
\<close>

definition save_allow ::
  "'a \<Rightarrow> (string list \<Rightarrow> string list) \<Rightarrow> string list \<Rightarrow> ('a, 'f) Manager \<Rightarrow>
   policy_error option \<times> ('a, 'f) Manager" where
  "save_allow a' upd before m =
     (let m1 = m\<lparr>m_allowlist := a'\<rparr> in
      case readFile m1 of
        Inl e \<Rightarrow> (Some e, set_allowlist m1 before)
      | Inr file \<Rightarrow>
          (case writeFile m1 (file\<lparr>af_Allow := upd (af_Allow file)\<rparr>) of
             (Some e, m2) \<Rightarrow> (Some e, set_allowlist m2 before)
           | (None, m2) \<Rightarrow> (None, m2)))"

definition save_esc ::
  "'a \<Rightarrow> (string list \<Rightarrow> string list) \<Rightarrow> string list \<Rightarrow> ('a, 'f) Manager \<Rightarrow>
   policy_error option \<times> ('a, 'f) Manager" where
  "save_esc a' upd before m =
     (let m1 = m\<lparr>m_escalated := a'\<rparr> in
      case readEscalations m1 of
        Inl e \<Rightarrow> (Some e, set_escalated m1 before)
      | Inr file \<Rightarrow>
          (case writeEscalations m1 (file\<lparr>ef_Rules := upd (ef_Rules file)\<rparr>) of
             (Some e, m2) \<Rightarrow> (Some e, set_escalated m2 before)
           | (None, m2) \<Rightarrow> (None, m2)))"

lemma save_allow_law:
  assumes "good_manager m" "save_allow a' upd (Rules m) m = (e, m')"
    "\<And>xs. set (upd xs) = g (set xs)"
  shows "good_manager m' \<and> same_esc m m' \<and>
     (if e = None then live_allow m' = set (al_Rules (m_ops m) a') \<and> saved_allow m' = g (saved_allow m)
      else live_allow m' = live_allow m \<and> saved_allow m' = saved_allow m)"
proof -
  let ?m1 = "m\<lparr>m_allowlist := a'\<rparr>"
  have L: "lawful_allowlist (m_ops m)" using assms(1) by (simp add: good_manager_def)
  have restored: "set (al_Rules (m_ops m) (snd (al_Set (m_ops m) b (al_Rules (m_ops m) (m_allowlist m))))) =
      set (al_Rules (m_ops m) (m_allowlist m))" for b
    by (rule lawful_allowlistD(6) [OF L])
  show ?thesis
  proof (cases "readFile m")
    case (Inl x)
    with assms(2) have "e = Some x" "m' = set_allowlist ?m1 (Rules m)"
      by (simp_all add: save_allow_def)
    with assms(1) restored show ?thesis
      by (simp add: set_allowlist_def store_defs)
  next
    case (Inr x0)
    obtain o1 m2 where w: "writeFile ?m1 (x0\<lparr>af_Allow := upd (af_Allow x0)\<rparr>) = (o1, m2)" by fastforce
    have "good_manager ?m1" using assms(1) by simp
    from writeFile_cases [OF this w] obtain f where m2: "m2 = ?m1\<lparr>m_fs := f\<rparr>"
      "readEscalations m2 = readEscalations m"
      "readFile m2 = (if o1 = None
         then Inr (x0\<lparr>af_Allow := upd (af_Allow x0), af_Version := approvalsVersion\<rparr>) else readFile m)"
      by auto
    show ?thesis
    proof (cases o1)
      case None
      with w assms(2) Inr have "e = None" "m' = m2" by (simp_all add: save_allow_def)
      with m2 None Inr assms(1,3) show ?thesis
        by (auto simp: saved_allow_def same_esc_def saved_esc_def)
    next
      case (Some x)
      with w assms(2) Inr have e: "e = Some x" "m' = set_allowlist m2 (Rules m)"
        by (simp_all add: save_allow_def)
      then have "readFile m' = readFile m" "readEscalations m' = readEscalations m"
        using m2(2,3) Some by (simp_all add: set_allowlist_def)
      with e m2(1) Some assms(1) restored show ?thesis
        by (simp add: set_allowlist_def store_defs)
    qed
  qed
qed

lemma save_esc_law:
  assumes "good_manager m" "save_esc a' upd (EscalatedRules m) m = (e, m')"
    "\<And>xs. set (upd xs) = g (set xs)"
  shows "good_manager m' \<and> same_allow m m' \<and>
     (if e = None then live_esc m' = set (al_Rules (m_ops m) a') \<and> saved_esc m' = g (saved_esc m)
      else live_esc m' = live_esc m \<and> saved_esc m' = saved_esc m)"
proof -
  let ?m1 = "m\<lparr>m_escalated := a'\<rparr>"
  have L: "lawful_allowlist (m_ops m)" using assms(1) by (simp add: good_manager_def)
  have restored: "set (al_Rules (m_ops m) (snd (al_Set (m_ops m) b (al_Rules (m_ops m) (m_escalated m))))) =
      set (al_Rules (m_ops m) (m_escalated m))" for b
    by (rule lawful_allowlistD(6) [OF L])
  show ?thesis
  proof (cases "readEscalations m")
    case (Inl x)
    with assms(2) have "e = Some x" "m' = set_escalated ?m1 (EscalatedRules m)"
      by (simp_all add: save_esc_def)
    with assms(1) restored show ?thesis
      by (simp add: set_escalated_def store_defs)
  next
    case (Inr x0)
    obtain o1 m2 where w: "writeEscalations ?m1 (x0\<lparr>ef_Rules := upd (ef_Rules x0)\<rparr>) = (o1, m2)" by fastforce
    have "good_manager ?m1" using assms(1) by simp
    from writeEscalations_cases [OF this w] obtain f where m2: "m2 = ?m1\<lparr>m_fs := f\<rparr>"
      "readFile m2 = readFile m"
      "readEscalations m2 = (if o1 = None
         then Inr (x0\<lparr>ef_Rules := upd (ef_Rules x0), ef_Version := approvalsVersion\<rparr>) else readEscalations m)"
      by auto
    show ?thesis
    proof (cases o1)
      case None
      with w assms(2) Inr have "e = None" "m' = m2" by (simp_all add: save_esc_def)
      with m2 None Inr assms(1,3) show ?thesis
        by (auto simp: saved_esc_def same_allow_def saved_allow_def)
    next
      case (Some x)
      with w assms(2) Inr have e: "e = Some x" "m' = set_escalated m2 (EscalatedRules m)"
        by (simp_all add: save_esc_def)
      then have "readEscalations m' = readEscalations m" "readFile m' = readFile m"
        using m2(2,3) Some by (simp_all add: set_escalated_def)
      with e m2(1) Some assms(1) restored show ?thesis
        by (simp add: set_escalated_def store_defs)
    qed
  qed
qed


lemma AlwaysAllow_save:
  "AlwaysAllow r m =
     (case al_Add (m_ops m) (m_allowlist m) [r] of
        (Some e, a') \<Rightarrow> (Some (RuleRejected e), m\<lparr>m_allowlist := a'\<rparr>)
      | (None, a') \<Rightarrow> save_allow a' (\<lambda>xs. appendRule xs r) (Rules m) m)"
  unfolding AlwaysAllow_def save_allow_def Rules_def Let_def by (rule refl)

lemma AlwaysEscalate_save:
  "AlwaysEscalate r m =
     (case al_Add (m_ops m) (m_escalated m) [r] of
        (Some e, a') \<Rightarrow> (Some (RuleRejected e), m\<lparr>m_escalated := a'\<rparr>)
      | (None, a') \<Rightarrow> save_esc a' (\<lambda>xs. appendRule xs r) (EscalatedRules m) m)"
  unfolding AlwaysEscalate_def save_esc_def EscalatedRules_def Let_def by (rule refl)

lemma Remove_save:
  "Remove r m =
     (if r \<notin> live_allow m then (None, m)
      else case al_Set (m_ops m) (m_allowlist m) (removeRule (Rules m) r) of
        (Some e, a') \<Rightarrow> (Some (RuleRejected e), m\<lparr>m_allowlist := a'\<rparr>)
      | (None, a') \<Rightarrow> save_allow a' (\<lambda>xs. removeRule xs r) (Rules m) m)"
  unfolding Remove_def save_allow_def Rules_def Let_def removeRule_length live_allow_def by (rule refl)

lemma RemoveEscalated_save:
  "RemoveEscalated r m =
     (if r \<notin> live_esc m then (None, m)
      else case al_Set (m_ops m) (m_escalated m) (removeRule (EscalatedRules m) r) of
        (Some e, a') \<Rightarrow> (Some (RuleRejected e), m\<lparr>m_escalated := a'\<rparr>)
      | (None, a') \<Rightarrow> save_esc a' (\<lambda>xs. removeRule xs r) (EscalatedRules m) m)"
  unfolding RemoveEscalated_def save_esc_def EscalatedRules_def Let_def removeRule_length live_esc_def by (rule refl)

lemma AlwaysAllow_law:
  assumes "good_manager m" "AlwaysAllow r m = (e, m')"
  shows "(good_manager m' \<and> same_esc m m') \<and>
     (if e = None then live_allow m' = insert r (live_allow m) \<and> saved_allow m' = insert r (saved_allow m)
      else live_allow m' = live_allow m \<and> saved_allow m' = saved_allow m)"
proof -
  have L: "lawful_allowlist (m_ops m)" using assms(1) by (simp add: good_manager_def)
  obtain o1 a' where a: "al_Add (m_ops m) (m_allowlist m) [r] = (o1, a')" by fastforce
  show ?thesis
  proof (cases o1)
    case None
    with a assms(2) have "save_allow a' (\<lambda>xs. appendRule xs r) (Rules m) m = (e, m')"
      by (simp add: AlwaysAllow_save)
    from save_allow_law [OF assms(1) this, of "insert r"] lawful_allowlistD(2) [OF L a [unfolded None]]
    show ?thesis by (cases e) (simp_all add: live_allow_def Rules_def)
  next
    case (Some x)
    with a assms(2) have "e = Some (RuleRejected x)" "m' = m\<lparr>m_allowlist := a'\<rparr>"
      by (simp_all add: AlwaysAllow_save)
    with assms(1) lawful_allowlistD(3) [OF L a [unfolded Some]] show ?thesis
      by (simp add: same_esc_def) (simp add: live_allow_def Rules_def)
  qed
qed

lemma AlwaysEscalate_law:
  assumes "good_manager m" "AlwaysEscalate r m = (e, m')"
  shows "(good_manager m' \<and> same_allow m m') \<and>
     (if e = None then live_esc m' = insert r (live_esc m) \<and> saved_esc m' = insert r (saved_esc m)
      else live_esc m' = live_esc m \<and> saved_esc m' = saved_esc m)"
proof -
  have L: "lawful_allowlist (m_ops m)" using assms(1) by (simp add: good_manager_def)
  obtain o1 a' where a: "al_Add (m_ops m) (m_escalated m) [r] = (o1, a')" by fastforce
  show ?thesis
  proof (cases o1)
    case None
    with a assms(2) have "save_esc a' (\<lambda>xs. appendRule xs r) (EscalatedRules m) m = (e, m')"
      by (simp add: AlwaysEscalate_save)
    from save_esc_law [OF assms(1) this, of "insert r"] lawful_allowlistD(2) [OF L a [unfolded None]]
    show ?thesis by (cases e) (simp_all add: live_esc_def EscalatedRules_def)
  next
    case (Some x)
    with a assms(2) have "e = Some (RuleRejected x)" "m' = m\<lparr>m_escalated := a'\<rparr>"
      by (simp_all add: AlwaysEscalate_save)
    with assms(1) lawful_allowlistD(3) [OF L a [unfolded Some]] show ?thesis
      by (simp add: same_allow_def) (simp add: live_esc_def EscalatedRules_def)
  qed
qed

lemma Remove_law:
  assumes "good_manager m" "Remove r m = (e, m')"
  shows "(good_manager m' \<and> same_esc m m') \<and>
     (if e = None \<and> r \<in> live_allow m
      then live_allow m' = live_allow m - {r} \<and> saved_allow m' = saved_allow m - {r}
      else live_allow m' = live_allow m \<and> saved_allow m' = saved_allow m)"
proof (cases "r \<in> live_allow m")
  case False
  with assms show ?thesis by (simp add: Remove_save same_esc_def)
next
  case True
  have L: "lawful_allowlist (m_ops m)" using assms(1) by (simp add: good_manager_def)
  obtain o1 a' where a: "al_Set (m_ops m) (m_allowlist m) (removeRule (Rules m) r) = (o1, a')" by fastforce
  show ?thesis
  proof (cases o1)
    case None
    with a assms(2) True have "save_allow a' (\<lambda>xs. removeRule xs r) (Rules m) m = (e, m')"
      by (simp add: Remove_save)
    from save_allow_law [OF assms(1) this, of "\<lambda>X. X - {r}"] True
      lawful_allowlistD(4) [OF L a [unfolded None]]
    show ?thesis by (cases e) (simp_all add: live_allow_def Rules_def)
  next
    case (Some x)
    with a assms(2) True have "e = Some (RuleRejected x)" "m' = m\<lparr>m_allowlist := a'\<rparr>"
      by (simp_all add: Remove_save)
    with assms(1) lawful_allowlistD(5) [OF L a [unfolded Some]] show ?thesis
      by (simp add: same_esc_def) (simp add: live_allow_def Rules_def)
  qed
qed

lemma RemoveEscalated_law:
  assumes "good_manager m" "RemoveEscalated r m = (e, m')"
  shows "(good_manager m' \<and> same_allow m m') \<and>
     (if e = None \<and> r \<in> live_esc m
      then live_esc m' = live_esc m - {r} \<and> saved_esc m' = saved_esc m - {r}
      else live_esc m' = live_esc m \<and> saved_esc m' = saved_esc m)"
proof (cases "r \<in> live_esc m")
  case False
  with assms show ?thesis by (simp add: RemoveEscalated_save same_allow_def)
next
  case True
  have L: "lawful_allowlist (m_ops m)" using assms(1) by (simp add: good_manager_def)
  obtain o1 a' where a: "al_Set (m_ops m) (m_escalated m) (removeRule (EscalatedRules m) r) = (o1, a')"
    by fastforce
  show ?thesis
  proof (cases o1)
    case None
    with a assms(2) True have "save_esc a' (\<lambda>xs. removeRule xs r) (EscalatedRules m) m = (e, m')"
      by (simp add: RemoveEscalated_save)
    from save_esc_law [OF assms(1) this, of "\<lambda>X. X - {r}"] True
      lawful_allowlistD(4) [OF L a [unfolded None]]
    show ?thesis by (cases e) (simp_all add: live_esc_def EscalatedRules_def)
  next
    case (Some x)
    with a assms(2) True have "e = Some (RuleRejected x)" "m' = m\<lparr>m_escalated := a'\<rparr>"
      by (simp_all add: RemoveEscalated_save)
    with assms(1) lawful_allowlistD(5) [OF L a [unfolded Some]] show ?thesis
      by (simp add: same_allow_def) (simp add: live_esc_def EscalatedRules_def)
  qed
qed

interpretation approvals: rule_store good_manager live_allow saved_allow AlwaysAllow Remove
proof
  show "good_manager m \<Longrightarrow> AlwaysAllow r m = (e, m') \<Longrightarrow>
      good_manager m' \<and>
      (if e = None then live_allow m' = insert r (live_allow m) \<and> saved_allow m' = insert r (saved_allow m)
       else live_allow m' = live_allow m \<and> saved_allow m' = saved_allow m)"
    for m :: "('a, 'b) Manager" and r e m'
    using AlwaysAllow_law [of m r e m'] by blast
  show "good_manager m \<Longrightarrow> Remove r m = (e, m') \<Longrightarrow>
      good_manager m' \<and>
      (if e = None \<and> r \<in> live_allow m
       then live_allow m' = live_allow m - {r} \<and> saved_allow m' = saved_allow m - {r}
       else live_allow m' = live_allow m \<and> saved_allow m' = saved_allow m)"
    for m :: "('a, 'b) Manager" and r e m'
    using Remove_law [of m r e m'] by blast
qed

interpretation escalations: rule_store good_manager live_esc saved_esc AlwaysEscalate RemoveEscalated
proof
  show "good_manager m \<Longrightarrow> AlwaysEscalate r m = (e, m') \<Longrightarrow>
      good_manager m' \<and>
      (if e = None then live_esc m' = insert r (live_esc m) \<and> saved_esc m' = insert r (saved_esc m)
       else live_esc m' = live_esc m \<and> saved_esc m' = saved_esc m)"
    for m :: "('a, 'b) Manager" and r e m'
    using AlwaysEscalate_law [of m r e m'] by blast
  show "good_manager m \<Longrightarrow> RemoveEscalated r m = (e, m') \<Longrightarrow>
      good_manager m' \<and>
      (if e = None \<and> r \<in> live_esc m
       then live_esc m' = live_esc m - {r} \<and> saved_esc m' = saved_esc m - {r}
       else live_esc m' = live_esc m \<and> saved_esc m' = saved_esc m)"
    for m :: "('a, 'b) Manager" and r e m'
    using RemoveEscalated_law [of m r e m'] by blast
qed

subsection \<open>Asking is fail-closed\<close>

lemma fire_frame [simp]:
  "good_manager (fire c m) = good_manager m" "live_allow (fire c m) = live_allow m"
  "live_esc (fire c m) = live_esc m" "saved_allow (fire c m) = saved_allow m"
  "saved_esc (fire c m) = saved_esc m" "m_ops (fire c m) = m_ops m" "m_path (fire c m) = m_path m"
  "m_escalationsPath (fire c m) = m_escalationsPath m" "m_auditPath (fire c m) = m_auditPath m"
  by (simp_all add: fire_def)

text \<open>The audit trail is another file, so recording a decision leaves both stores alone.\<close>

lemma record_frame:
  assumes "good_manager m"
  shows "good_manager (recordEscalation q d m) \<and> same_allow m (recordEscalation q d m) \<and>
     same_esc m (recordEscalation q d m)"
proof -
  have L: "lawful_files (m_ops m)" and p: "m_path m \<noteq> m_auditPath m" "m_escalationsPath m \<noteq> m_auditPath m"
    using assms by (auto simp: good_manager_def)
  obtain o1 f1 where k: "fs_MkdirAll (m_ops m) (m_fs m) (path_Dir (m_ops m) (m_auditPath m)) = (o1, f1)"
    by fastforce
  then have f1: "fs_Read (m_ops m) f1 = fs_Read (m_ops m) (m_fs m)"
    using lawful_filesD(4) [OF L] by (metis snd_conv)
  have same: "same_allow m (m\<lparr>m_fs := f\<rparr>) \<and> same_esc m (m\<lparr>m_fs := f\<rparr>)"
    if "fs_Read (m_ops m) f (m_path m) = fs_Read (m_ops m) (m_fs m) (m_path m)"
       "fs_Read (m_ops m) f (m_escalationsPath m) = fs_Read (m_ops m) (m_fs m) (m_escalationsPath m)" for f
    using readFile_fs [OF that(1)] readEscalations_fs [OF that(2)]
    by (simp add: same_allow_def same_esc_def saved_allow_def saved_esc_def)
  show ?thesis
    using assms k same [of f1] same [of "snd (fs_Append (m_ops m) f1 (m_auditPath m) x)" for x]
      lawful_filesD(5) [OF L p(1)] lawful_filesD(5) [OF L p(2)] f1
    by (auto simp: recordEscalation_def same_allow_def same_esc_def split: option.split)
qed

text \<open>What the user answers to the approval question; nothing when there is nobody to ask.\<close>

definition approve_choice :: "asking_host \<Rightarrow> exec_request \<Rightarrow> string option" where
  "approve_choice host req =
     (case host of
        None \<Rightarrow> None
      | Some ask \<Rightarrow>
          (case ask (approve_prompt (NormaliseCommand req) (xr_Reason req)) of
             Inl e \<Rightarrow> None | Inr c \<Rightarrow> Some c))"

definition proven_read_only :: "exec_request \<Rightarrow> bool" where
  "proven_read_only req \<longleftrightarrow> xr_ReadOnly req \<and> xr_SafeReadOnly req"

definition approve_always :: "asking_host \<Rightarrow> exec_request \<Rightarrow> bool" where
  "approve_always host req \<longleftrightarrow> \<not> proven_read_only req \<and> approve_choice host req = Some ''always''"

lemma Approve_always:
  "approve_always host req \<Longrightarrow>
   Approve host req m =
     (case AlwaysAllow (NormaliseCommand req) (fire (NormaliseCommand req) m) of
        (Some e, m2) \<Rightarrow> ((Deny, Some e), m2)
      | (None, m2) \<Rightarrow> ((Allow, None), m2))"
  by (auto simp: approve_always_def proven_read_only_def approve_choice_def Approve_def Let_def
      split: option.splits sum.splits)

lemma Approve_otherwise:
  "\<not> approve_always host req \<Longrightarrow>
   fst (fst (Approve host req m)) =
     (if proven_read_only req \<or> approve_choice host req = Some ''allow_once'' then Allow else Deny) \<and>
   snd (Approve host req m) = (if proven_read_only req then m else fire (NormaliseCommand req) m)"
  by (auto simp: approve_always_def proven_read_only_def approve_choice_def Approve_def Let_def
      split: option.splits sum.splits)

lemma Approve_law:
  "good_manager m \<Longrightarrow>
   (case Approve host req m of
      ((d, err), m') \<Rightarrow>
        (d = Allow \<longleftrightarrow>
           proven_read_only req \<or> approve_choice host req = Some ''allow_once'' \<or>
           approve_always host req \<and> err = None) \<and>
        (if approve_always host req \<and> d = Allow
         then live_allow m' = insert (NormaliseCommand req) (live_allow m) \<and>
              saved_allow m' = insert (NormaliseCommand req) (saved_allow m)
         else same_allow m m') \<and>
        same_esc m m' \<and> good_manager m')"
proof -
  assume g: "good_manager m"
  let ?c = "NormaliseCommand req"
  show ?thesis
  proof (cases "approve_always host req")
    case False
    have "same_allow m (fire ?c m)" "same_esc m (fire ?c m)" "same_allow m m" "same_esc m m"
      by (simp_all add: same_allow_def same_esc_def)
    with False Approve_otherwise [OF False, of m] g show ?thesis
      by (cases "Approve host req m") (auto split: if_splits)
  next
    case True
    obtain e m2 where a: "AlwaysAllow ?c (fire ?c m) = (e, m2)" by fastforce
    have "good_manager (fire ?c m)" using g by simp
    from AlwaysAllow_law [OF this a] True a Approve_always [OF True, of m] show ?thesis
      by (cases e) (auto simp: same_esc_def same_allow_def approve_always_def)
  qed
qed

text \<open>
  C7: approval is fail-closed. A command is allowed only when it is proven read-only, or the
  user answered to allow it once, or answered always and the rule was saved; the rules, live
  and saved, grow by that one command in the last case and are unchanged in every other, and
  the escalation rules never change.
\<close>

theorem Approve_fail_closed:
  "good_manager m \<Longrightarrow>
   (case Approve host req m of
      ((d, err), m') \<Rightarrow>
        (d = Allow \<longleftrightarrow>
           proven_read_only req \<or> approve_choice host req = Some ''allow_once'' \<or>
           approve_always host req \<and> err = None) \<and>
        (if approve_always host req \<and> d = Allow
         then live_allow m' = insert (NormaliseCommand req) (live_allow m) \<and>
              saved_allow m' = insert (NormaliseCommand req) (saved_allow m)
         else same_allow m m') \<and>
        same_esc m m')"
  using Approve_law [of m req host] by (auto split: prod.splits)

definition escalate_choice :: "asking_host \<Rightarrow> EscalationRequest \<Rightarrow> string option" where
  "escalate_choice host req =
     (case host of
        None \<Rightarrow> None
      | Some ask \<Rightarrow> (case ask (escalate_prompt req) of Inl e \<Rightarrow> None | Inr c \<Rightarrow> Some c))"

definition escalate_always :: "asking_host \<Rightarrow> EscalationRequest \<Rightarrow> bool" where
  "escalate_always host req \<longleftrightarrow>
     escalate_choice host req = Some ''escalate_always'' \<and> trim_space (er_Rule req) \<noteq> ''''"

lemma Escalate_always:
  "escalate_always host req \<Longrightarrow>
   Escalate host req m =
     (case AlwaysEscalate (trim_space (er_Rule req)) (fire (er_Command req) m) of
        (Some e, m2) \<Rightarrow> ((no_escalation, Some e), m2)
      | (None, m2) \<Rightarrow>
          ((\<lparr>ed_Allow = True, ed_Remember = True\<rparr>, None), recordEscalation req decisionAlways m2))"
  by (auto simp: escalate_always_def escalate_choice_def Escalate_def Let_def
      split: option.splits sum.splits)

lemma Escalate_otherwise:
  "\<not> escalate_always host req \<Longrightarrow>
   fst (fst (Escalate host req m)) =
     \<lparr>ed_Allow = (escalate_choice host req = Some ''escalate_once''), ed_Remember = False\<rparr> \<and>
   (snd (Escalate host req m) = fire (er_Command req) m \<or>
    (\<exists>d. snd (Escalate host req m) = recordEscalation req d (fire (er_Command req) m)))"
  by (auto simp: escalate_always_def escalate_choice_def Escalate_def Let_def no_escalation_def
      split: option.splits sum.splits)

lemma Escalate_law:
  "good_manager m \<Longrightarrow>
   (case Escalate host req m of
      ((d, err), m') \<Rightarrow>
        (ed_Allow d \<longleftrightarrow>
           escalate_choice host req = Some ''escalate_once'' \<or> escalate_always host req \<and> err = None) \<and>
        (ed_Remember d \<longleftrightarrow> escalate_always host req \<and> err = None) \<and>
        (if ed_Remember d
         then live_esc m' = insert (trim_space (er_Rule req)) (live_esc m) \<and>
              saved_esc m' = insert (trim_space (er_Rule req)) (saved_esc m)
         else same_esc m m') \<and>
        same_allow m m' \<and> good_manager m')"
proof -
  assume g: "good_manager m"
  let ?r = "trim_space (er_Rule req)"
  let ?m1 = "fire (er_Command req) m"
  have g1: "good_manager ?m1" using g by simp
  show ?thesis
  proof (cases "escalate_always host req")
    case False
    have "same_allow m ?m1" "same_esc m ?m1"
      by (simp_all add: same_allow_def same_esc_def)
    moreover have "same_allow m (recordEscalation req d ?m1)" "same_esc m (recordEscalation req d ?m1)" for d
      using record_frame [OF g1, of req d] by (simp_all add: same_allow_def same_esc_def)
    ultimately show ?thesis
      using False Escalate_otherwise [OF False, of m] g1 record_frame [OF g1]
      by (cases "Escalate host req m") auto
  next
    case True
    obtain e m2 where a: "AlwaysEscalate ?r ?m1 = (e, m2)" by fastforce
    from AlwaysEscalate_law [OF g1 a] record_frame [of m2 req decisionAlways] True a
      Escalate_always [OF True, of m]
    show ?thesis
      by (cases e) (auto simp: same_esc_def same_allow_def escalate_always_def no_escalation_def)
  qed
qed

text \<open>
  C8: escalation is fail-closed too. A command may leave the sandbox only on the user's
  \<open>escalate_once\<close>, or on \<open>escalate_always\<close> with a non-empty rule that was saved; only the latter
  changes a rule, the approved commands never change, and the audit record disturbs neither
  file.
\<close>

theorem Escalate_fail_closed:
  "good_manager m \<Longrightarrow>
   (case Escalate host req m of
      ((d, err), m') \<Rightarrow>
        (ed_Allow d \<longleftrightarrow>
           escalate_choice host req = Some ''escalate_once'' \<or> escalate_always host req \<and> err = None) \<and>
        (ed_Remember d \<longleftrightarrow> escalate_always host req \<and> err = None) \<and>
        (if ed_Remember d
         then live_esc m' = insert (trim_space (er_Rule req)) (live_esc m) \<and>
              saved_esc m' = insert (trim_space (er_Rule req)) (saved_esc m)
         else same_esc m m') \<and>
        same_allow m m')"
  using Escalate_law [of m host req] by (auto split: prod.splits)

subsection \<open>Whole histories\<close>

datatype policy_call =
    CallApprove asking_host exec_request
  | CallEscalate asking_host EscalationRequest
  | CallAlwaysAllow string
  | CallRemove string
  | CallAlwaysEscalate string
  | CallRemoveEscalated string
  | CallSetHooks bool

fun policy_step :: "policy_call \<Rightarrow> ('a, 'f) Manager \<Rightarrow> ('a, 'f) Manager" where
  "policy_step (CallApprove host req) m = snd (Approve host req m)"
| "policy_step (CallEscalate host req) m = snd (Escalate host req m)"
| "policy_step (CallAlwaysAllow r) m = snd (AlwaysAllow r m)"
| "policy_step (CallRemove r) m = snd (Remove r m)"
| "policy_step (CallAlwaysEscalate r) m = snd (AlwaysEscalate r m)"
| "policy_step (CallRemoveEscalated r) m = snd (RemoveEscalated r m)"
| "policy_step (CallSetHooks h) m = SetHooks h m"

definition policy_run :: "policy_call list \<Rightarrow> ('a, 'f) Manager \<Rightarrow> ('a, 'f) Manager" where
  "policy_run cs m = fold policy_step cs m"

text \<open>The rules a call asks for: those a person chose, by an answer or in the settings.\<close>

fun asked_allow :: "policy_call \<Rightarrow> string set" where
  "asked_allow (CallApprove host req) =
     (if approve_always host req then {NormaliseCommand req} else {})"
| "asked_allow (CallAlwaysAllow r) = {r}"
| "asked_allow _ = {}"

fun asked_esc :: "policy_call \<Rightarrow> string set" where
  "asked_esc (CallEscalate host req) =
     (if escalate_always host req then {trim_space (er_Rule req)} else {})"
| "asked_esc (CallAlwaysEscalate r) = {r}"
| "asked_esc _ = {}"

definition fixed_parts :: "('a, 'f) Manager \<Rightarrow> ('a, 'f) policy_ops \<times> string \<times> string \<times> string" where
  "fixed_parts m = (m_ops m, m_path m, m_escalationsPath m, m_auditPath m)"

definition policy_ok ::
  "string set \<Rightarrow> string set \<Rightarrow> string set \<Rightarrow> ('a, 'f) Manager \<Rightarrow> bool" where
  "policy_ok base allowed escs m \<longleftrightarrow>
     good_manager m \<and>
     coherent base (live_allow m) (saved_allow m) \<and> live_allow m \<subseteq> allowed \<and>
     coherent {} (live_esc m) (saved_esc m) \<and> live_esc m \<subseteq> escs"

lemma coherent_same:
  "same_allow m m' \<Longrightarrow> live_allow m' = live_allow m \<and> saved_allow m' = saved_allow m"
  "same_esc m m' \<Longrightarrow> live_esc m' = live_esc m \<and> saved_esc m' = saved_esc m"
  by (simp_all add: same_allow_def same_esc_def)

lemma insert_coherent: "coherent b l s \<Longrightarrow> coherent b (insert r l) (insert r s)"
  by (auto simp: coherent_def)

lemma step_ok:
  assumes "policy_ok base allowed escs m"
  shows "policy_ok base (allowed \<union> asked_allow c) (escs \<union> asked_esc c) (policy_step c m)"
proof -
  have g: "good_manager m" using assms by (simp add: policy_ok_def)
  show ?thesis
  proof (cases c)
    case (CallApprove host req)
    with assms Approve_law [OF g, where host = host and req = req] show ?thesis
      by (auto simp: policy_ok_def insert_coherent same_allow_def same_esc_def split: prod.splits if_splits)
  next
    case (CallEscalate host req)
    with assms Escalate_law [OF g, where host = host and req = req] show ?thesis
      by (auto simp: policy_ok_def insert_coherent same_allow_def same_esc_def split: prod.splits if_splits)
  next
    case (CallAlwaysAllow r)
    with assms approvals.add_good [OF g, of r] approvals.add_coherent [OF g, of base r]
      approvals.add_grants [OF g, of r] AlwaysAllow_law [OF g surjective_pairing, of r]
    show ?thesis by (auto simp: policy_ok_def same_esc_def split: if_splits)
  next
    case (CallRemove r)
    with assms approvals.del_good [OF g, of r] approvals.del_coherent [OF g, of base r]
      approvals.del_live [OF g, of r] Remove_law [OF g surjective_pairing, of r]
    show ?thesis by (auto simp: policy_ok_def same_esc_def)
  next
    case (CallAlwaysEscalate r)
    with assms escalations.add_good [OF g, of r] escalations.add_coherent [OF g, of "{}" r]
      escalations.add_grants [OF g, of r] AlwaysEscalate_law [OF g surjective_pairing, of r]
    show ?thesis by (auto simp: policy_ok_def same_allow_def split: if_splits)
  next
    case (CallRemoveEscalated r)
    with assms escalations.del_good [OF g, of r] escalations.del_coherent [OF g, of "{}" r]
      escalations.del_live [OF g, of r] RemoveEscalated_law [OF g surjective_pairing, of r]
    show ?thesis by (auto simp: policy_ok_def same_allow_def)
  next
    case (CallSetHooks h)
    with assms show ?thesis
      by (simp add: policy_ok_def SetHooks_def)
  qed
qed

lemma run_ok:
  "policy_ok base allowed escs m \<Longrightarrow>
   policy_ok base (allowed \<union> \<Union> (asked_allow ` set cs)) (escs \<union> \<Union> (asked_esc ` set cs)) (policy_run cs m)"
proof (induction cs arbitrary: m allowed escs)
  case Nil
  then show ?case by (simp add: policy_run_def)
next
  case (Cons c cs)
  from Cons.IH [OF step_ok [OF Cons.prems, of c]] show ?case
    by (simp add: policy_run_def Un_assoc)
qed

text \<open>A manager just constructed: its live rules are the static ones and those of its files.\<close>

lemma NewWithAudit_ok:
  assumes "NewWithAudit ops fs rules path dir = Inr m" "lawful_allowlist ops"
  shows "m_ops m = ops \<and> m_path m = path \<and> m_escalationsPath m = escalationsPathFor ops path \<and>
     m_fs m = fs \<and> live_allow m = set rules \<union> saved_allow m \<and> live_esc m = saved_esc m"
proof -
  from assms(1) obtain a esc where n: "al_New ops rules = Inr a" "al_New ops [] = Inr esc"
    by (auto simp: NewWithAudit_def split: sum.splits)
  define m0 where "m0 = \<lparr>m_ops = ops, m_allowlist = a, m_escalated = esc, m_path = path,
      m_escalationsPath = escalationsPathFor ops path,
      m_auditPath = (if trim_space dir \<noteq> '''' then path_Join ops dir escalationAuditFile else ''''),
      m_hooks = False, m_fired = [], m_fs = fs\<rparr>"
  have "NewWithAudit ops fs rules path dir =
      try_bind (readFile m0) (\<lambda>x.
      try_bind (add_loaded ops a (af_Allow x)) (\<lambda>a'.
      try_bind (readEscalations m0) (\<lambda>y.
      try_bind (add_loaded ops esc (ef_Rules y)) (\<lambda>esc'.
      Inr (m0\<lparr>m_allowlist := a', m_escalated := esc'\<rparr>)))))"
    by (simp add: NewWithAudit_def Let_def n m0_def)
  with assms(1) obtain x a' y esc' where r: "readFile m0 = Inr x" "add_loaded ops a (af_Allow x) = Inr a'"
    "readEscalations m0 = Inr y" "add_loaded ops esc (ef_Rules y) = Inr esc'"
    "m = m0\<lparr>m_allowlist := a', m_escalated := esc'\<rparr>"
    by (auto simp: try_bind_Inr_iff)
  have add: "set (al_Rules ops b') = set (al_Rules ops b) \<union> set rs"
    if "add_loaded ops b rs = Inr b'" for b b' rs
    using that lawful_allowlistD(2) [OF assms(2)]
    by (auto simp: add_loaded_def split: if_splits prod.splits option.splits)
  have "readFile m = Inr x" "readEscalations m = Inr y" using r by simp_all
  moreover have "set (al_Rules ops a) = set rules" "set (al_Rules ops esc) = {}"
    using lawful_allowlistD(1) [OF assms(2)] n by fastforce+
  ultimately show ?thesis
    using r(5) add [OF r(2)] add [OF r(4)] by (simp add: store_defs m0_def)
qed


subsection \<open>A concrete surrounding\<close>

text \<open>An allowlist that is a list, files as a function, and a codec that escapes each byte.\<close>

definition enc_words :: "string list \<Rightarrow> string" where
  "enc_words ws = concat (map (\<lambda>w. concat (map (\<lambda>c. [CHR ''c'', c]) w) @ ''.'') ws)"

fun dec_words :: "string \<Rightarrow> string \<Rightarrow> string list" where
  "dec_words cur (x # y # r) =
     (if x = CHR ''.'' then cur # dec_words '''' (y # r) else dec_words (cur @ [y]) r)"
| "dec_words cur [x] = [cur]"
| "dec_words cur [] = []"

definition list_ops :: "(string list, string \<Rightarrow> read_result) policy_ops" where
  "list_ops =
     \<lparr>al_New = \<lambda>rs. Inr rs, al_Add = \<lambda>a rs. (None, a @ rs), al_Set = \<lambda>a rs. (None, rs),
      al_Rules = id, al_Matches = \<lambda>a req. NormaliseCommand req \<in> set a,
      fs_Read = id, fs_Write = \<lambda>f p d. (None, f(p := Data d)), fs_MkdirAll = \<lambda>f d. (None, f),
      fs_Append = \<lambda>f p x. (None, f(p := Data (ea_Command x))),
      path_Dir = id, path_Join = \<lambda>a b. a @ ''/'' @ b,
      dec_approvals = \<lambda>d. (case dec_words '''' d of v # ws \<Rightarrow> Inr \<lparr>af_Version = v, af_Allow = ws\<rparr>
                             | [] \<Rightarrow> Inl ''''),
      enc_approvals = \<lambda>x. Inr (enc_words (af_Version x # af_Allow x)),
      dec_escalations = \<lambda>d. (case dec_words '''' d of v # ws \<Rightarrow> Inr \<lparr>ef_Version = v, ef_Rules = ws\<rparr>
                             | [] \<Rightarrow> Inl ''''),
      enc_escalations = \<lambda>x. Inr (enc_words (ef_Version x # ef_Rules x))\<rparr>"

lemma dec_words_word:
  "dec_words cur (concat (map (\<lambda>c. [CHR ''c'', c]) w) @ CHR ''.'' # r) = (cur @ w) # dec_words '''' r"
  by (induction w arbitrary: cur) (simp_all, cases r, simp_all)

lemma dec_enc_words: "dec_words '''' (enc_words ws) = ws"
  by (induction ws) (simp_all add: enc_words_def dec_words_word)

lemma list_ops_lawful: "lawful_allowlist list_ops" "lawful_files list_ops"
  by (simp_all add: lawful_allowlist_def lawful_files_def list_ops_def dec_enc_words)

definition sample_policy :: "(string list, string \<Rightarrow> read_result) Manager" where
  "sample_policy = projr (NewWithAudit list_ops (\<lambda>p. Missing) [''ls''] ''w/a'' ''log'')"

lemma sample_policy_new:
  "NewWithAudit list_ops (\<lambda>p. Missing) [''ls''] ''w/a'' ''log'' = Inr sample_policy"
  "good_manager sample_policy"
proof -
  have t: "trim_space ''w/a'' = ''w/a''" "trim_space ''log'' = ''log''" by code_simp+
  show n: "NewWithAudit list_ops (\<lambda>p. Missing) [''ls''] ''w/a'' ''log'' = Inr sample_policy"
    by (simp add: sample_policy_def NewWithAudit_def list_ops_def Let_def readFile_def
        readEscalations_def add_loaded_def)
  have "m_ops sample_policy = list_ops" "m_path sample_policy = ''w/a''"
    "m_escalationsPath sample_policy = ''w/a/escalations.yaml''"
    "m_auditPath sample_policy = ''log/escalations.jsonl''"
    by (simp_all add: sample_policy_def NewWithAudit_def list_ops_def Let_def readFile_def
        readEscalations_def add_loaded_def escalationsPathFor_def t escalationsFileName_def
        escalationAuditFile_def)
  with list_ops_lawful show "good_manager sample_policy"
    by (simp add: good_manager_def)
qed

definition make_request :: exec_request where
  "make_request = \<lparr>xr_ReadOnly = False, xr_SafeReadOnly = False, xr_tokens = [''make'', ''all''], xr_Reason = ''''\<rparr>"

definition sample_escalation :: EscalationRequest where
  "sample_escalation = \<lparr>er_Command = ''make'', er_Rule = '' make'', er_Reason = '''', er_Detail = ''''\<rparr>"


theorem Approve_fail_closed_witness:
  "case Approve (Some (\<lambda>p. Inr ''always'')) make_request sample_policy of
     ((d, err), m') \<Rightarrow> same_esc sample_policy m'"
  using Approve_fail_closed [OF sample_policy_new(2), where host = "Some (\<lambda>p. Inr ''always'')" and req = make_request]
  by (auto split: prod.splits)

theorem Escalate_fail_closed_witness:
  "case Escalate (Some (\<lambda>p. Inr ''escalate_always'')) sample_escalation sample_policy of
     ((d, err), m') \<Rightarrow> same_allow sample_policy m'"
  using Escalate_fail_closed [OF sample_policy_new(2), where host = "Some (\<lambda>p. Inr ''escalate_always'')" and req = sample_escalation]
  by (auto split: prod.splits)

end
