(* ===== verification/GoTime.thy ===== *)
theory GoTime
  imports GoPrelude
begin

text \<open>
  What the scheduler uses of Go's package \<open>time\<close>. An instant is a number of nanoseconds since
  the Unix epoch; \<open>time.Time{}\<close> is the first instant of the year 1. A location is the lookup
  function of its zone table: the UTC offset in force at a second, with the half-open interval
  of seconds it is in force for. A date is its number of days since 1970-01-01, so that
  \<open>AddDate(0, 0, n)\<close> is addition; the calendar is needed only to read and print dates.
\<close>

subsection \<open>Instants, locations and dates\<close>

type_synonym instant = int
type_synonym location = "int \<Rightarrow> int \<times> int \<times> int"

definition nanos :: int where "nanos = 1000000000"
definition hour_ns :: int where "hour_ns = 3600000000000"
definition minute_ns :: int where "minute_ns = 60000000000"
definition day_secs :: int where "day_secs = 86400"

definition zero_time :: instant where "zero_time = - 62135596800 * nanos"

definition unix_sec :: "instant \<Rightarrow> int" where
  "unix_sec t = t div nanos"

definition offset_at :: "location \<Rightarrow> int \<Rightarrow> int" where
  "offset_at loc sec = fst (loc sec)"

definition local_sec :: "location \<Rightarrow> instant \<Rightarrow> int" where
  "local_sec loc t = unix_sec t + offset_at loc (unix_sec t)"

text \<open>\<open>t.Date()\<close> as a day number, \<open>t.Clock()\<close> in seconds, and \<open>t.Weekday()\<close> (0 is Sunday).\<close>

definition civil_day :: "location \<Rightarrow> instant \<Rightarrow> int" where
  "civil_day loc t = local_sec loc t div day_secs"

definition clock_secs :: "location \<Rightarrow> instant \<Rightarrow> int" where
  "clock_secs loc t = local_sec loc t mod day_secs"

definition weekday_of_day :: "int \<Rightarrow> nat" where
  "weekday_of_day d = nat ((d + 4) mod 7)"

definition Weekday :: "location \<Rightarrow> instant \<Rightarrow> nat" where
  "Weekday loc t = weekday_of_day (civil_day loc t)"

text \<open>
  \<open>time.Date\<close>: the wall-clock second is first taken for UTC to guess the zone; when the
  result falls outside that zone's interval, the zone is looked up again, once.
\<close>

definition go_Date :: "location \<Rightarrow> int \<Rightarrow> int \<Rightarrow> int \<Rightarrow> instant" where
  "go_Date loc day secs nsec =
     (let unix = wrap64 (day * day_secs + secs);
          (offset, start, end') = loc unix;
          off = (if offset \<noteq> 0 \<and> (unix - offset < start \<or> unix - offset \<ge> end')
                 then offset_at loc (unix - offset) else offset)
      in (unix - off) * nanos + nsec)"

definition AddDate :: "location \<Rightarrow> instant \<Rightarrow> int \<Rightarrow> instant" where
  "AddDate loc t days = go_Date loc (civil_day loc t + days) (clock_secs loc t) (t mod nanos)"

subsection \<open>The calendar\<close>

definition days_of_civil :: "int \<Rightarrow> int \<Rightarrow> int \<Rightarrow> int" where
  "days_of_civil y m d =
     (let y' = (if m \<le> 2 then y - 1 else y);
          era = y' div 400; yoe = y' - era * 400;
          doy = (153 * ((m + 9) mod 12) + 2) div 5 + d - 1;
          doe = yoe * 365 + yoe div 4 - yoe div 100 + doy
      in era * 146097 + doe - 719468)"

definition civil_of_days :: "int \<Rightarrow> int \<times> int \<times> int" where
  "civil_of_days z0 =
     (let z = z0 + 719468; era = z div 146097; doe = z - era * 146097;
          yoe = (doe - doe div 1460 + doe div 36524 - doe div 146096) div 365;
          doy = doe - (365 * yoe + yoe div 4 - yoe div 100);
          mp = (5 * doy + 2) div 153; d = doy - (153 * mp + 2) div 5 + 1;
          m = (if mp < 10 then mp + 3 else mp - 9);
          y = yoe + era * 400
      in (if m \<le> 2 then y + 1 else y, m, d))"

definition is_leap :: "int \<Rightarrow> bool" where
  "is_leap y \<longleftrightarrow> y mod 4 = 0 \<and> (y mod 100 \<noteq> 0 \<or> y mod 400 = 0)"

definition days_in :: "int \<Rightarrow> int \<Rightarrow> int" where
  "days_in y m =
     (if m = 2 then (if is_leap y then 29 else 28)
      else if m = 4 \<or> m = 6 \<or> m = 9 \<or> m = 11 then 30 else 31)"

subsection \<open>Layouts\<close>

text \<open>\<open>getnum\<close>: one or two digits, exactly two when \<open>fixed\<close>.\<close>

definition getnum :: "bool \<Rightarrow> string \<Rightarrow> (int \<times> string) option" where
  "getnum fixed s =
     (case s of
        [] \<Rightarrow> None
      | a # r \<Rightarrow>
          (if \<not> is_digit a then None
           else case r of
                  b # r' \<Rightarrow>
                    (if is_digit b then Some (int (digit_val a) * 10 + int (digit_val b), r')
                     else if fixed then None else Some (int (digit_val a), r))
                | [] \<Rightarrow> (if fixed then None else Some (int (digit_val a), []))))"

text \<open>\<open>time.Parse("15:04", s)\<close>: the hour and the minute.\<close>

definition parse_clock_layout :: "string \<Rightarrow> (int \<times> int) option" where
  "parse_clock_layout s =
     (case getnum False s of
        None \<Rightarrow> None
      | Some (h, r) \<Rightarrow>
          (if h \<ge> 24 then None
           else case r of
                  [] \<Rightarrow> None
                | c # r' \<Rightarrow>
                    (if c \<noteq> CHR '':'' then None
                     else case getnum True r' of
                            None \<Rightarrow> None
                          | Some (m, rest) \<Rightarrow>
                              (if m \<ge> 60 \<or> rest \<noteq> [] then None else Some (h, m)))))"

text \<open>\<open>time.Parse("2006-01-02", s)\<close>: the day number; the instant is that day in UTC.\<close>

definition parse_date_layout :: "string \<Rightarrow> int option" where
  "parse_date_layout s =
     (if length s = 10 \<and> s ! 4 = CHR ''-'' \<and> s ! 7 = CHR ''-'' \<and>
         list_all is_digit (take 4 s @ take 2 (drop 5 s) @ drop 8 s) then
        (let num = (\<lambda>w. int (foldl (\<lambda>n c. 10 * n + digit_val c) 0 w));
             y = num (take 4 s); m = num (take 2 (drop 5 s)); d = num (drop 8 s) in
         if 1 \<le> m \<and> m \<le> 12 \<and> 1 \<le> d \<and> d \<le> days_in y m then Some (days_of_civil y m d) else None)
      else None)"

definition pad_dec :: "nat \<Rightarrow> int \<Rightarrow> string" where
  "pad_dec w z = replicate (w - length (dec_nat (nat z))) (CHR ''0'') @ dec_nat (nat z)"

text \<open>\<open>t.Format("2006-01-02")\<close> for the years that have four digits.\<close>

definition format_date :: "int \<Rightarrow> string" where
  "format_date day =
     (let (y, m, d) = civil_of_days day in
      pad_dec 4 y @ ''-'' @ pad_dec 2 m @ ''-'' @ pad_dec 2 d)"

subsection \<open>Locations with one offset\<close>

definition fixed_zone :: "int \<Rightarrow> location" where
  "fixed_zone off = (\<lambda>_. (off, - (2 ^ 63), 2 ^ 63 - 1))"

lemma offset_fixed [simp]: "offset_at (fixed_zone off) s = off"
  by (simp add: offset_at_def fixed_zone_def)

lemma nanos_pos [simp]: "0 < nanos"
  by (simp add: nanos_def)

lemma day_secs_pos [simp]: "0 < day_secs"
  by (simp add: day_secs_def)

lemma go_Date_fixed:
  "- (2 ^ 62) \<le> day * day_secs + secs \<Longrightarrow> day * day_secs + secs < 2 ^ 62 \<Longrightarrow>
   go_Date (fixed_zone off) day secs nsec = (day * day_secs + secs - off) * nanos + nsec"
  by (simp add: go_Date_def Let_def wrap64_id fixed_zone_def offset_at_def split: prod.split)

lemma fixed_split:
  "t = (civil_day (fixed_zone off) t * day_secs + clock_secs (fixed_zone off) t - off) * nanos + t mod nanos"
proof -
  have "civil_day (fixed_zone off) t * day_secs + clock_secs (fixed_zone off) t = unix_sec t + off"
    by (simp add: civil_day_def clock_secs_def local_sec_def)
  then show ?thesis by (simp add: unix_sec_def)
qed

lemma clock_range: "0 \<le> clock_secs loc t \<and> clock_secs loc t < day_secs"
  by (simp add: clock_secs_def)

lemma fixed_Date_parts:
  assumes "0 \<le> secs" "secs < day_secs" "0 \<le> nsec" "nsec < nanos"
    "t = (day * day_secs + secs - off) * nanos + nsec"
  shows "civil_day (fixed_zone off) t = day \<and> clock_secs (fixed_zone off) t = secs \<and> t mod nanos = nsec"
proof -
  have "t div nanos = day * day_secs + secs - off" "t mod nanos = nsec"
    using assms(3-5) by simp_all
  moreover from this have "unix_sec t + off = day * day_secs + secs" by (simp add: unix_sec_def)
  ultimately show ?thesis
    using assms(1,2) by (simp add: civil_day_def clock_secs_def local_sec_def)
qed

lemma weekday_lt: "weekday_of_day d < 7"
  by (simp add: weekday_of_day_def nat_less_iff)

lemma Weekday_lt: "Weekday loc t < 7"
  by (simp add: Weekday_def weekday_lt)

end
