(* ===== verification/Recurrence.thy ===== *)
theory Recurrence
  imports GoTime
begin

text \<open>
  Schedules and their next occurrence, \<open>src/internal/capabilities/automations/recurrence.go\<close> and
  the schedule part of \<open>model.go\<close>. The location the code reads off its argument is an argument
  here. Go's \<open>int\<close> is 64 bits wide: the two products the code forms, hours to nanoseconds and
  weeks to days, wrap. The three scans are \<open>partial_function (option)\<close>: \<open>None\<close> is a scan that
  never returns, so that a theorem of the form \<open>Next = Some \<dots>\<close> says that it does.
\<close>

subsection \<open>The model\<close>

datatype ScheduleType = ScheduleHourly | ScheduleDaily | ScheduleWeekdays | ScheduleWeekly
  | ScheduleOther string

record Schedule =
  sc_Type :: ScheduleType
  sc_IntervalHours :: int
  sc_IntervalWeeks :: int
  sc_Days :: "string list"
  sc_Time :: string
  sc_Origin :: string

datatype sched_error =
    HourlyInterval | InvalidWeekday string | DaysEmpty | TimeNotClock
  | IntervalWeeksNegative | OriginFormat | UnknownScheduleType string
  | NoHourlyRun | NoDailyRun | NoWeeklyRun | OriginRequired | InvalidTime string

datatype frequency = freqHourly | freqDaily | freqWeekly

record timeOfDay =
  tod_hour :: int
  tod_minute :: int

text \<open>\<open>weekdays\<close> is a nil map for every day; \<open>origin\<close> an instant, zero when unanchored.\<close>

record recurrence =
  rc_freq :: frequency
  rc_interval :: int
  rc_at :: timeOfDay
  rc_weekdays :: "nat list option"
  rc_origin :: instant

definition maxHourlyLookahead :: int where "maxHourlyLookahead = 366 * 24 * hour_ns"
definition maxDailyLookahead :: int where "maxDailyLookahead = 366 * 7"
definition maxWeeklyLookahead :: int where "maxWeeklyLookahead = 5 * 366"

subsection \<open>Parsing\<close>

text \<open>
  \<open>strings.ToUpper\<close> as far as it can yield an ASCII letter: besides a to z, two runes outside
  ASCII have an ASCII upper case, U+0131 (I) and U+017F (S).
\<close>

fun to_upper :: "string \<Rightarrow> string" where
  "to_upper [] = []"
| "to_upper (c # s) =
     (if c = CHR 0xC4 \<and> s \<noteq> [] \<and> hd s = CHR 0xB1 then CHR ''I'' # to_upper (tl s)
      else if c = CHR 0xC5 \<and> s \<noteq> [] \<and> hd s = CHR 0xBF then CHR ''S'' # to_upper (tl s)
      else (if 97 \<le> (of_char c :: nat) \<and> (of_char c :: nat) \<le> 122
            then char_of (of_char c - (32 :: nat)) else c) # to_upper s)"

definition parseWeekday :: "string \<Rightarrow> nat option" where
  "parseWeekday s =
     (let u = to_upper (trim_space s) in
      if u = ''MO'' \<or> u = ''MON'' \<or> u = ''MONDAY'' then Some 1
      else if u = ''TU'' \<or> u = ''TUE'' \<or> u = ''TUESDAY'' then Some 2
      else if u = ''WE'' \<or> u = ''WED'' \<or> u = ''WEDNESDAY'' then Some 3
      else if u = ''TH'' \<or> u = ''THU'' \<or> u = ''THURSDAY'' then Some 4
      else if u = ''FR'' \<or> u = ''FRI'' \<or> u = ''FRIDAY'' then Some 5
      else if u = ''SA'' \<or> u = ''SAT'' \<or> u = ''SATURDAY'' then Some 6
      else if u = ''SU'' \<or> u = ''SUN'' \<or> u = ''SUNDAY'' then Some 0
      else None)"

definition parseClock :: "string \<Rightarrow> sched_error + (int \<times> int)" where
  "parseClock s =
     (case parse_clock_layout (trim_space s) of
        None \<Rightarrow> Inl (InvalidTime s)
      | Some hm \<Rightarrow> Inr hm)"

definition validClock :: "string \<Rightarrow> bool" where
  "validClock s = is_ok (parseClock s)"

fun check_days :: "string list \<Rightarrow> sched_error option" where
  "check_days [] = None"
| "check_days (d # ds) =
     (case parseWeekday d of None \<Rightarrow> Some (InvalidWeekday d) | Some wd \<Rightarrow> check_days ds)"

definition validateDays :: "string list \<Rightarrow> bool \<Rightarrow> sched_error option" where
  "validateDays days required =
     (if days = [] then (if required then Some DaysEmpty else None) else check_days days)"

definition daysSet :: "string list \<Rightarrow> nat list option" where
  "daysSet days = (if days = [] then None else Some (List.map_filter parseWeekday days))"

definition weekdaySet :: "nat list" where "weekdaySet = [1, 2, 3, 4, 5]"

definition Schedule_Validate :: "Schedule \<Rightarrow> sched_error option" where
  "Schedule_Validate s =
     (case sc_Type s of
        ScheduleHourly \<Rightarrow>
          (if sc_IntervalHours s < 1 then Some HourlyInterval
           else validateDays (sc_Days s) False)
      | ScheduleOther t \<Rightarrow> Some (UnknownScheduleType t)
      | ty \<Rightarrow>
          (if \<not> validClock (sc_Time s) then Some TimeNotClock
           else if ty = ScheduleWeekly then
             (case validateDays (sc_Days s) True of
                Some e \<Rightarrow> Some e
              | None \<Rightarrow>
                  (if sc_IntervalWeeks s < 0 then Some IntervalWeeksNegative
                   else if sc_Origin s \<noteq> '''' \<and> parse_date_layout (sc_Origin s) = None
                   then Some OriginFormat else None))
           else None))"

subsection \<open>The engine\<close>

definition dayOK :: "recurrence \<Rightarrow> nat \<Rightarrow> bool" where
  "dayOK r d = (case rc_weekdays r of None \<Rightarrow> True | Some ds \<Rightarrow> List.member ds d)"

partial_function (option) hourly_scan ::
  "location \<Rightarrow> recurrence \<Rightarrow> int \<Rightarrow> instant \<Rightarrow> instant \<Rightarrow> (sched_error + instant) option" where
  "hourly_scan loc r step limit t =
     (if t < limit then
        (if dayOK r (Weekday loc t) then Some (Inr t)
         else hourly_scan loc r step limit (t + step))
      else Some (Inl NoHourlyRun))"

definition nextHourly ::
  "location \<Rightarrow> recurrence \<Rightarrow> instant \<Rightarrow> (sched_error + instant) option" where
  "nextHourly loc r after =
     (let step = wrap64 (rc_interval r * hour_ns) in
      hourly_scan loc r step (after + maxHourlyLookahead) (after + step))"

definition at_secs :: "recurrence \<Rightarrow> int" where
  "at_secs r = tod_hour (rc_at r) * 3600 + tod_minute (rc_at r) * 60"

definition dayAt :: "location \<Rightarrow> recurrence \<Rightarrow> instant \<Rightarrow> int \<Rightarrow> instant" where
  "dayAt loc r after day = AddDate loc (go_Date loc (civil_day loc after) (at_secs r) 0) day"

partial_function (option) daily_scan ::
  "location \<Rightarrow> recurrence \<Rightarrow> instant \<Rightarrow> int \<Rightarrow> (sched_error + instant) option" where
  "daily_scan loc r after day =
     (if day \<le> maxDailyLookahead then
        (let t = dayAt loc r after day in
         if after < t \<and> dayOK r (Weekday loc t) then Some (Inr t)
         else daily_scan loc r after (day + rc_interval r))
      else Some (Inl NoDailyRun))"

definition nextDaily ::
  "location \<Rightarrow> recurrence \<Rightarrow> instant \<Rightarrow> (sched_error + instant) option" where
  "nextDaily loc r after = daily_scan loc r after 0"

definition weekStart :: "location \<Rightarrow> instant \<Rightarrow> instant" where
  "weekStart loc t =
     (let offset = (int (Weekday loc t) + 6) mod 7 in
      AddDate loc (go_Date loc (civil_day loc t) 0 0) (- offset))"

definition week_slot :: "location \<Rightarrow> recurrence \<Rightarrow> instant \<Rightarrow> int \<Rightarrow> instant" where
  "week_slot loc r start day = AddDate loc (go_Date loc (civil_day loc start) (at_secs r) 0) day"

text \<open>The inner loop: the first of the week's seven days that is ahead and selected.\<close>

definition week_hit :: "location \<Rightarrow> recurrence \<Rightarrow> instant \<Rightarrow> instant \<Rightarrow> instant option" where
  "week_hit loc r after start =
     find (\<lambda>t. after < t \<and> dayOK r (Weekday loc t)) (map (week_slot loc r start) [0..6])"

partial_function (option) weekly_scan ::
  "location \<Rightarrow> recurrence \<Rightarrow> instant \<Rightarrow> int \<Rightarrow> instant \<Rightarrow> instant \<Rightarrow> (sched_error + instant) option" where
  "weekly_scan loc r after stride limit start =
     (if start < limit then
        (case week_hit loc r after start of
           Some t \<Rightarrow> Some (Inr t)
         | None \<Rightarrow> weekly_scan loc r after stride limit (AddDate loc start stride))
      else Some (Inl NoWeeklyRun))"

definition utc :: location where "utc = fixed_zone 0"

definition nextWeeklyAnchored ::
  "location \<Rightarrow> recurrence \<Rightarrow> instant \<Rightarrow> (sched_error + instant) option" where
  "nextWeeklyAnchored loc r after =
     (let interval = (if rc_interval r < 1 then 1 else rc_interval r);
          originLocal = go_Date loc (civil_day utc (rc_origin r)) 0 0
      in weekly_scan loc r after (wrap64 (interval * 7)) (AddDate loc after maxWeeklyLookahead)
           (weekStart loc originLocal))"

definition nextWeekly ::
  "location \<Rightarrow> recurrence \<Rightarrow> instant \<Rightarrow> (sched_error + instant) option" where
  "nextWeekly loc r after =
     (if rc_origin r = zero_time then Some (Inl OriginRequired) else nextWeeklyAnchored loc r after)"

definition recurrence_next ::
  "location \<Rightarrow> recurrence \<Rightarrow> instant \<Rightarrow> (sched_error + instant) option" where
  "recurrence_next loc r after =
     (case rc_freq r of
        freqHourly \<Rightarrow> nextHourly loc r after
      | freqDaily \<Rightarrow> nextDaily loc r after
      | freqWeekly \<Rightarrow> nextWeekly loc r after)"

subsection \<open>From schedules to rules\<close>

definition midnight :: timeOfDay where "midnight = \<lparr>tod_hour = 0, tod_minute = 0\<rparr>"

definition recurrenceFromSchedule :: "Schedule \<Rightarrow> sched_error + recurrence" where
  "recurrenceFromSchedule s =
     (case sc_Type s of
        ScheduleHourly \<Rightarrow>
          Inr \<lparr>rc_freq = freqHourly, rc_interval = sc_IntervalHours s, rc_at = midnight,
               rc_weekdays = daysSet (sc_Days s), rc_origin = zero_time\<rparr>
      | ScheduleDaily \<Rightarrow>
          try_bind (parseClock (sc_Time s)) (\<lambda>(h, m).
            Inr \<lparr>rc_freq = freqDaily, rc_interval = 1, rc_at = \<lparr>tod_hour = h, tod_minute = m\<rparr>,
                 rc_weekdays = None, rc_origin = zero_time\<rparr>)
      | ScheduleWeekdays \<Rightarrow>
          try_bind (parseClock (sc_Time s)) (\<lambda>(h, m).
            Inr \<lparr>rc_freq = freqDaily, rc_interval = 1, rc_at = \<lparr>tod_hour = h, tod_minute = m\<rparr>,
                 rc_weekdays = Some weekdaySet, rc_origin = zero_time\<rparr>)
      | ScheduleWeekly \<Rightarrow>
          try_bind (parseClock (sc_Time s)) (\<lambda>(h, m).
          let r = \<lparr>rc_freq = freqWeekly,
                   rc_interval = (if sc_IntervalWeeks s \<ge> 1 then sc_IntervalWeeks s else 1),
                   rc_at = \<lparr>tod_hour = h, tod_minute = m\<rparr>,
                   rc_weekdays = daysSet (sc_Days s), rc_origin = zero_time\<rparr>
          in if sc_Origin s \<noteq> '''' then
               (case parse_date_layout (sc_Origin s) of
                  None \<Rightarrow> Inl OriginFormat
                | Some d \<Rightarrow> Inr (r\<lparr>rc_origin := d * day_secs * nanos\<rparr>))
             else Inr r)
      | ScheduleOther t \<Rightarrow> Inl (UnknownScheduleType t))"

definition Schedule_Next ::
  "location \<Rightarrow> Schedule \<Rightarrow> instant \<Rightarrow> (sched_error + instant) option" where
  "Schedule_Next loc s after =
     (case Schedule_Validate s of
        Some e \<Rightarrow> Some (Inl e)
      | None \<Rightarrow>
          (case recurrenceFromSchedule s of
             Inl e \<Rightarrow> Some (Inl e)
           | Inr r \<Rightarrow> recurrence_next loc r after))"

definition ensureOrigin :: "location \<Rightarrow> instant \<Rightarrow> Schedule \<Rightarrow> Schedule" where
  "ensureOrigin loc now s =
     (if sc_Type s = ScheduleWeekly \<and> sc_Origin s = ''''
      then s\<lparr>sc_Origin := format_date (civil_day loc now)\<rparr> else s)"

definition sameSchedule :: "Schedule \<Rightarrow> Schedule \<Rightarrow> bool" where
  "sameSchedule a b \<longleftrightarrow>
     sc_Type a = sc_Type b \<and> sc_IntervalHours a = sc_IntervalHours b \<and>
     sc_IntervalWeeks a = sc_IntervalWeeks b \<and> sc_Time a = sc_Time b \<and>
     sc_Origin a = sc_Origin b \<and> sc_Days a = sc_Days b"

definition type_name :: "ScheduleType \<Rightarrow> string" where
  "type_name ty =
     (case ty of ScheduleHourly \<Rightarrow> ''hourly'' | ScheduleDaily \<Rightarrow> ''daily''
      | ScheduleWeekdays \<Rightarrow> ''weekdays'' | ScheduleWeekly \<Rightarrow> ''weekly'' | ScheduleOther t \<Rightarrow> t)"

definition signed_dec :: "int \<Rightarrow> string" where
  "signed_dec z = (if z < 0 then CHR ''-'' # dec_nat (nat (- z)) else dec_nat (nat z))"

definition Description :: "Schedule \<Rightarrow> string" where
  "Description s =
     (case sc_Type s of
        ScheduleHourly \<Rightarrow>
          (if sc_Days s \<noteq> [] then
             ''every '' @ signed_dec (sc_IntervalHours s) @ ''h ('' @ str_join '','' (sc_Days s) @ '')''
           else ''every '' @ signed_dec (sc_IntervalHours s) @ ''h'')
      | ScheduleDaily \<Rightarrow> ''daily '' @ sc_Time s
      | ScheduleWeekdays \<Rightarrow> ''weekdays '' @ sc_Time s
      | ScheduleWeekly \<Rightarrow>
          (if sc_IntervalWeeks s > 1 then
             ''weekly '' @ signed_dec (sc_IntervalWeeks s) @ ''w '' @ str_join '','' (sc_Days s) @ '' '' @ sc_Time s
           else ''weekly '' @ str_join '','' (sc_Days s) @ '' '' @ sc_Time s)
      | ScheduleOther t \<Rightarrow> t)"

end
