(* ===== verification/RecurrenceLaws.thy ===== *)
theory RecurrenceLaws
  imports Recurrence
begin

text \<open>
  The next occurrence of a schedule: that the scans return, that what they return is ahead and
  on a selected day, and that in a zone with one offset it is the earliest instant the
  schedule names. The last section shows where the code leaves that specification.
\<close>

subsection \<open>What comes back is ahead and on a selected day\<close>

lemmas hourly_scan_induct = hourly_scan.raw_induct [rotated, consumes 1, case_names scan]
lemmas daily_scan_induct = daily_scan.raw_induct [rotated, consumes 1, case_names scan]
lemmas weekly_scan_induct = weekly_scan.raw_induct [rotated, consumes 1, case_names scan]

lemma hourly_scan_result:
  assumes "hourly_scan loc r step limit t = Some y" "0 < step"
  shows "\<forall>t'. y = Inr t' \<longrightarrow>
   t \<le> t' \<and> t' < limit \<and> dayOK r (Weekday loc t') \<and> (\<exists>k::nat. t' = t + int k * step) \<and>
   (\<forall>j::nat. t + int j * step < t' \<longrightarrow> \<not> dayOK r (Weekday loc (t + int j * step)))"
  using assms
proof (induction loc r step limit t y rule: hourly_scan_induct)
  case (scan f loc r step limit t y)
  show ?case
  proof (intro allI impI)
    fix t' assume y: "y = Inr t'"
    show "t \<le> t' \<and> t' < limit \<and> dayOK r (Weekday loc t') \<and> (\<exists>k::nat. t' = t + int k * step) \<and>
       (\<forall>j::nat. t + int j * step < t' \<longrightarrow> \<not> dayOK r (Weekday loc (t + int j * step)))"
    proof (cases "dayOK r (Weekday loc t)")
      case True
      with scan(2) y have "t' = t" "t < limit" by (auto split: if_splits)
      moreover have "\<not> t + int j * step < t" for j :: nat
        using scan(3) by (simp add: not_less)
      ultimately show ?thesis using True by (auto intro: exI [of _ 0])
    next
      case False
      with scan(2) y have "t < limit" and r: "f loc r step limit (t + step) = Some y"
        by (auto split: if_splits)
      from scan(1) [OF r scan(3)] y obtain k :: nat where k: "t' = t + step + int k * step" "t + step \<le> t'"
        "t' < limit" "dayOK r (Weekday loc t')"
        and least: "\<forall>j::nat. t + step + int j * step < t' \<longrightarrow> \<not> dayOK r (Weekday loc (t + step + int j * step))"
        by blast
      have "t' = t + int (Suc k) * step" using k(1) by (simp add: algebra_simps)
      moreover have "\<not> dayOK r (Weekday loc (t + int j * step))" if "t + int j * step < t'" for j
      proof (cases j)
        case 0
        with False show ?thesis by simp
      next
        case (Suc i)
        have "t + int j * step = t + step + int i * step" using Suc by (simp add: algebra_simps)
        with that least show ?thesis by metis
      qed
      moreover have "t \<le> t'" using k(2) scan(3) by linarith
      ultimately show ?thesis using k(3,4) by blast
    qed
  qed
qed

lemma daily_scan_result:
  assumes "daily_scan loc r after day = Some y" "rc_interval r = 1"
  shows "\<forall>t. y = Inr t \<longrightarrow>
   (\<exists>n\<ge>day. n \<le> maxDailyLookahead \<and> t = dayAt loc r after n \<and> after < t \<and> dayOK r (Weekday loc t) \<and>
      (\<forall>i. day \<le> i \<longrightarrow> i < n \<longrightarrow>
         \<not> (after < dayAt loc r after i \<and> dayOK r (Weekday loc (dayAt loc r after i)))))"
  using assms
proof (induction loc r after day y rule: daily_scan_induct)
  case (scan f loc r after day y)
  show ?case
  proof (intro allI impI)
    fix t assume y: "y = Inr t"
    show "\<exists>n\<ge>day. n \<le> maxDailyLookahead \<and> t = dayAt loc r after n \<and> after < t \<and>
       dayOK r (Weekday loc t) \<and>
       (\<forall>i. day \<le> i \<longrightarrow> i < n \<longrightarrow>
         \<not> (after < dayAt loc r after i \<and> dayOK r (Weekday loc (dayAt loc r after i))))"
    proof (cases "after < dayAt loc r after day \<and> dayOK r (Weekday loc (dayAt loc r after day))")
      case True
      with scan(2) y have "day \<le> maxDailyLookahead" "t = dayAt loc r after day"
        by (auto simp: Let_def split: if_splits)
      with True show ?thesis by (intro exI [of _ day]) auto
    next
      case False
      with scan(2,3) y have r: "f loc r after (day + rc_interval r) = Some y"
        by (auto simp: Let_def split: if_splits)
      from scan(1) [OF r scan(3)] y scan(3)
      obtain n where n: "day + 1 \<le> n" "n \<le> maxDailyLookahead" "t = dayAt loc r after n" "after < t"
        "dayOK r (Weekday loc t)"
        and least: "\<forall>i. day + 1 \<le> i \<longrightarrow> i < n \<longrightarrow>
           \<not> (after < dayAt loc r after i \<and> dayOK r (Weekday loc (dayAt loc r after i)))"
        by auto
      have "\<not> (after < dayAt loc r after i \<and> dayOK r (Weekday loc (dayAt loc r after i)))"
        if "day \<le> i" "i < n" for i
        using that False least by (cases "i = day") auto
      with n show ?thesis by (intro exI [of _ n]) auto
    qed
  qed
qed

lemma week_hit_result:
  "week_hit loc r after start = Some t \<Longrightarrow> after < t \<and> dayOK r (Weekday loc t)"
  by (auto simp: week_hit_def find_Some_iff)

lemma weekly_scan_result:
  assumes "weekly_scan loc r after stride limit start = Some y"
  shows "\<forall>t. y = Inr t \<longrightarrow> after < t \<and> dayOK r (Weekday loc t)"
  using assms
proof (induction loc r after stride limit start y rule: weekly_scan_induct)
  case (scan f loc r after stride limit start y)
  then show ?case by (auto split: if_splits option.splits dest: week_hit_result)
qed

text \<open>The largest interval whose length in nanoseconds fits a 64-bit duration.\<close>

definition maxIntervalHours :: int where "maxIntervalHours = 2562047"

lemma hour_step: "1 \<le> n \<Longrightarrow> n \<le> maxIntervalHours \<Longrightarrow> wrap64 (n * hour_ns) = n * hour_ns"
  by (rule wrap64_id) (simp_all add: hour_ns_def maxIntervalHours_def)

text \<open>The weekdays a schedule selects.\<close>

definition selected :: "Schedule \<Rightarrow> nat \<Rightarrow> bool" where
  "selected s d \<longleftrightarrow>
     (case sc_Type s of
        ScheduleDaily \<Rightarrow> True
      | ScheduleWeekdays \<Rightarrow> 1 \<le> d \<and> d \<le> 5
      | _ \<Rightarrow> (case daysSet (sc_Days s) of None \<Rightarrow> True | Some ds \<Rightarrow> d \<in> set ds))"

lemma next_ahead:
  assumes "Schedule_Next loc s after = Some (Inr t)" "sc_IntervalHours s \<le> maxIntervalHours"
  shows "after < t \<and> selected s (Weekday loc t)"
proof -
  from assms(1) obtain r where v: "Schedule_Validate s = None" and r: "recurrenceFromSchedule s = Inr r"
    and n: "recurrence_next loc r after = Some (Inr t)"
    by (auto simp: Schedule_Next_def split: option.splits sum.splits)
  show ?thesis
  proof (cases "sc_Type s")
    case ScheduleHourly
    with v assms(2) have i: "1 \<le> sc_IntervalHours s" "sc_IntervalHours s \<le> maxIntervalHours"
      by (auto simp: Schedule_Validate_def split: if_splits)
    let ?step = "sc_IntervalHours s * hour_ns"
    from i have pos: "0 < ?step" by (simp add: hour_ns_def)
    from ScheduleHourly r n hour_step [OF i]
    have "hourly_scan loc r ?step (after + maxHourlyLookahead) (after + ?step) = Some (Inr t)"
      by (auto simp: recurrenceFromSchedule_def recurrence_next_def nextHourly_def Let_def)
    from hourly_scan_result [OF this pos] pos ScheduleHourly r show ?thesis
      by (auto simp: recurrenceFromSchedule_def selected_def dayOK_def split: option.splits)
  next
    case ScheduleDaily
    with r n have "daily_scan loc r after 0 = Some (Inr t)" "rc_interval r = 1" "rc_weekdays r = None"
      by (auto simp: recurrenceFromSchedule_def try_bind_Inr_iff recurrence_next_def nextDaily_def)
    with daily_scan_result [OF this(1,2)] ScheduleDaily show ?thesis
      by (auto simp: selected_def)
  next
    case ScheduleWeekdays
    with r n have "daily_scan loc r after 0 = Some (Inr t)" "rc_interval r = 1"
      "rc_weekdays r = Some weekdaySet"
      by (auto simp: recurrenceFromSchedule_def try_bind_Inr_iff recurrence_next_def nextDaily_def)
    with daily_scan_result [OF this(1,2)] ScheduleWeekdays show ?thesis
      by (auto simp: selected_def dayOK_def weekdaySet_def)
  next
    case ScheduleWeekly
    with r n have "nextWeekly loc r after = Some (Inr t)" "rc_weekdays r = daysSet (sc_Days s)"
      by (auto simp: recurrenceFromSchedule_def try_bind_Inr_iff recurrence_next_def Let_def
          split: if_splits option.splits)
    with ScheduleWeekly show ?thesis
      by (auto simp: nextWeekly_def nextWeeklyAnchored_def Let_def selected_def dayOK_def
          dest!: weekly_scan_result split: if_splits option.splits)
  next
    case (ScheduleOther x)
    with r show ?thesis by (simp add: recurrenceFromSchedule_def)
  qed
qed

subsection \<open>The scans return\<close>

text \<open>
  Offsets of a zone table are less than a day, and the clock is within a range that keeps every
  product away from the 64-bit bounds (it reaches past the year ten billion).
\<close>

definition sane_zone :: "location \<Rightarrow> bool" where
  "sane_zone loc \<longleftrightarrow> (\<forall>s. - day_secs < offset_at loc s \<and> offset_at loc s < day_secs)"

definition clock_in_range :: "instant \<Rightarrow> bool" where
  "clock_in_range t \<longleftrightarrow> - (2 ^ 58) \<le> unix_sec t \<and> unix_sec t \<le> 2 ^ 58"

definition maxIntervalWeeks :: int where "maxIntervalWeeks = 1000000000000"

lemma sane_zoneD: "sane_zone loc \<Longrightarrow> - day_secs < offset_at loc s \<and> offset_at loc s < day_secs"
  by (simp add: sane_zone_def)

lemma unix_sec_parts: "0 \<le> n \<Longrightarrow> n < nanos \<Longrightarrow> unix_sec (s * nanos + n) = s"
  by (simp add: unix_sec_def)

lemma go_Date_near:
  assumes "sane_zone loc" "- (2 ^ 62) \<le> day * day_secs + secs" "day * day_secs + secs < 2 ^ 62"
    "0 \<le> n" "n < nanos"
  shows "day * day_secs + secs - day_secs < unix_sec (go_Date loc day secs n) \<and>
     unix_sec (go_Date loc day secs n) < day * day_secs + secs + day_secs"
proof -
  let ?u = "day * day_secs + secs"
  obtain off start en where z: "loc ?u = (off, start, en)" by (cases "loc ?u")
  have w: "wrap64 ?u = ?u" using assms(2,3) by (intro wrap64_id) simp_all
  have "\<exists>o'. go_Date loc day secs n = (?u - o') * nanos + n \<and> - day_secs < o' \<and> o' < day_secs"
    using sane_zoneD [OF assms(1), of ?u] sane_zoneD [OF assms(1), of "?u - off"]
    by (auto simp: go_Date_def w z offset_at_def Let_def)
  then show ?thesis using unix_sec_parts [OF assms(4,5)] by fastforce
qed

lemma AddDate_near:
  assumes "sane_zone loc" "- (2 ^ 61) \<le> unix_sec t + n * day_secs" "unix_sec t + n * day_secs \<le> 2 ^ 61"
  shows "unix_sec t + (n - 2) * day_secs < unix_sec (AddDate loc t n) \<and>
     unix_sec (AddDate loc t n) < unix_sec t + (n + 2) * day_secs"
proof -
  have u: "(civil_day loc t + n) * day_secs + clock_secs loc t =
      unix_sec t + offset_at loc (unix_sec t) + n * day_secs"
    unfolding civil_day_def clock_secs_def local_sec_def
    by (metis (no_types, opaque_lifting) add.assoc add.commute distrib_right mult_div_mod_eq mult.commute)
  have o: "- day_secs < offset_at loc (unix_sec t)" "offset_at loc (unix_sec t) < day_secs"
    using sane_zoneD [OF assms(1)] by blast+
  from o assms(2,3) u
  have "- (2 ^ 62) \<le> (civil_day loc t + n) * day_secs + clock_secs loc t"
    "(civil_day loc t + n) * day_secs + clock_secs loc t < 2 ^ 62"
    by (simp_all add: day_secs_def)
  from go_Date_near [OF assms(1) this, of "t mod nanos"] o u show ?thesis
    by (simp add: AddDate_def day_secs_def)
qed

lemma hourly_scan_returns:
  "0 < step \<Longrightarrow> \<exists>y. hourly_scan loc r step limit t = Some y"
proof (induction "nat (limit - t)" arbitrary: t rule: less_induct)
  case less
  show ?case
  proof (cases "t < limit \<and> \<not> dayOK r (Weekday loc t)")
    case True
    with less.prems have "nat (limit - (t + step)) < nat (limit - t)" by simp
    from less.hyps [OF this less.prems] True show ?thesis
      by (simp add: hourly_scan.simps [of loc r step limit t])
  next
    case False
    then show ?thesis by (auto simp: hourly_scan.simps [of loc r step limit t])
  qed
qed

lemma daily_scan_returns:
  "rc_interval r = 1 \<Longrightarrow> \<exists>y. daily_scan loc r after day = Some y"
proof (induction "nat (maxDailyLookahead + 1 - day)" arbitrary: day rule: less_induct)
  case less
  show ?case
  proof (cases "day \<le> maxDailyLookahead")
    case True
    then have "nat (maxDailyLookahead + 1 - (day + 1)) < nat (maxDailyLookahead + 1 - day)" by simp
    from less.hyps [OF this less.prems] less.prems show ?thesis
      by (auto simp: daily_scan.simps [of loc r after day] Let_def)
  next
    case False
    then show ?thesis by (auto simp: daily_scan.simps [of loc r after day])
  qed
qed

lemma weekly_scan_returns:
  assumes "sane_zone loc" "7 \<le> stride" "stride * day_secs \<le> 2 ^ 60" "unix_sec limit \<le> 2 ^ 60"
  shows "- (2 ^ 60) \<le> unix_sec start \<Longrightarrow> \<exists>y. weekly_scan loc r after stride limit start = Some y"
proof (induction "nat (limit - start)" arbitrary: start rule: less_induct)
  case less
  show ?case
  proof (cases "start < limit \<and> week_hit loc r after start = None")
    case True
    then have "unix_sec start \<le> unix_sec limit" by (simp add: unix_sec_def zdiv_mono1)
    with assms(4) have s: "unix_sec start \<le> 2 ^ 60" by linarith
    have "7 * day_secs \<le> stride * day_secs" using assms(2) by simp
    with s assms(3) less.prems
    have "unix_sec start + (stride - 2) * day_secs < unix_sec (AddDate loc start stride)"
      using AddDate_near [OF assms(1), of start stride] by (simp add: day_secs_def)
    then have later: "unix_sec start + 5 * day_secs < unix_sec (AddDate loc start stride)"
      using \<open>7 * day_secs \<le> stride * day_secs\<close> by (simp add: day_secs_def left_diff_distrib)
    then have "start < AddDate loc start stride"
      by (metis add_less_same_cancel1 day_secs_def div_le_mono2 linorder_not_less nanos_pos not_less_iff_gr_or_eq order_less_trans unix_sec_def zdiv_mono1 add.commute less_add_same_cancel1 mult_pos_pos zero_less_numeral day_secs_pos)
    with True have "nat (limit - AddDate loc start stride) < nat (limit - start)" by simp
    moreover have "- (2 ^ 60) \<le> unix_sec (AddDate loc start stride)"
      using later less.prems by (simp add: day_secs_def)
    ultimately obtain y where "weekly_scan loc r after stride limit (AddDate loc start stride) = Some y"
      using less.hyps by blast
    with True show ?thesis by (simp add: weekly_scan.simps [of loc r after stride limit start])
  next
    case False
    then show ?thesis
      by (auto simp: weekly_scan.simps [of loc r after stride limit start] split: option.splits)
  qed
qed

lemma digit_val_le: "is_digit c \<Longrightarrow> digit_val c \<le> 9"
  unfolding is_digit_def digit_val_def by linarith

lemma digits_bound:
  "list_all is_digit w \<Longrightarrow> foldl (\<lambda>n c. 10 * n + digit_val c) a w < (a + 1) * 10 ^ length w"
proof (induction w arbitrary: a)
  case Nil
  then show ?case by simp
next
  case (Cons c w)
  then have "foldl (\<lambda>n c. 10 * n + digit_val c) (10 * a + digit_val c) w < (10 * a + digit_val c + 1) * 10 ^ length w"
    by simp
  also have "\<dots> \<le> (10 * a + 10) * 10 ^ length w"
    using digit_val_le [of c] Cons.prems by (intro mult_right_mono) simp_all
  finally show ?case by (simp add: algebra_simps)
qed

lemma days_of_civil_bound:
  assumes "0 \<le> y" "y \<le> 9999" "1 \<le> m" "m \<le> 12" "1 \<le> d" "d \<le> 31"
  shows "- 1000000 \<le> days_of_civil y m d \<and> days_of_civil y m d \<le> 4000000"
proof -
  define y' where "y' = (if m \<le> 2 then y - 1 else y)"
  define yoe where "yoe = y' - y' div 400 * 400"
  define mp where "mp = (m + 9) mod 12"
  have e: "- 1 \<le> y' div 400" "y' div 400 \<le> 24" using assms(1,2) by (auto simp: y'_def)
  have yoe: "0 \<le> yoe" "yoe < 400" by (simp_all add: yoe_def minus_div_mult_eq_mod)
  have mp: "0 \<le> mp" "mp < 12" by (simp_all add: mp_def)
  have eq: "days_of_civil y m d =
      y' div 400 * 146097 + (yoe * 365 + yoe div 4 - yoe div 100 + ((153 * mp + 2) div 5 + d - 1)) - 719468"
    by (simp add: days_of_civil_def Let_def y'_def yoe_def mp_def)
  show ?thesis unfolding eq using e yoe mp assms(5,6) by linarith
qed


lemma parse_date_bound:
  "parse_date_layout s = Some d \<Longrightarrow> - 1000000 \<le> d \<and> d \<le> 4000000"
proof -
  assume p: "parse_date_layout s = Some d"
  let ?num = "\<lambda>w. int (foldl (\<lambda>n c. 10 * n + digit_val c) 0 w)"
  from p have len: "length s = 10" and dig: "list_all is_digit (take 4 s)"
    by (auto simp: parse_date_layout_def split: if_splits)
  have "foldl (\<lambda>n c. 10 * n + digit_val c) 0 (take 4 s) < 10000"
    using digits_bound [OF dig, of 0] len by simp
  then have y: "0 \<le> ?num (take 4 s)" "?num (take 4 s) \<le> 9999" by simp_all
  from p have d: "d = days_of_civil (?num (take 4 s)) (?num (take 2 (drop 5 s))) (?num (drop 8 s))"
    "1 \<le> ?num (take 2 (drop 5 s))" "?num (take 2 (drop 5 s)) \<le> 12" "1 \<le> ?num (drop 8 s)"
    "?num (drop 8 s) \<le> days_in (?num (take 4 s)) (?num (take 2 (drop 5 s)))"
    unfolding parse_date_layout_def Let_def by (simp_all split: if_splits)
  have "days_in a b \<le> 31" for a b by (simp add: days_in_def)
  with d have "?num (drop 8 s) \<le> 31" by (meson order_trans)
  with days_of_civil_bound [OF y d(2,3,4)] d(1) show ?thesis by simp
qed

lemma civil_day_utc: "civil_day utc (d * day_secs * nanos) = d"
  by (simp add: civil_day_def local_sec_def utc_def unix_sec_def day_secs_def nanos_def)

lemma weekStart_near:
  assumes "sane_zone loc" "- (2 ^ 60) \<le> unix_sec t" "unix_sec t \<le> 2 ^ 60"
  shows "unix_sec t - 12 * day_secs < unix_sec (weekStart loc t)"
proof -
  let ?o = "(int (Weekday loc t) + 6) mod 7"
  let ?m = "go_Date loc (civil_day loc t) 0 0"
  have o: "0 \<le> ?o" "?o \<le> 6" by simp_all
  have c: "civil_day loc t * day_secs = unix_sec t + offset_at loc (unix_sec t) - clock_secs loc t"
    by (simp add: civil_day_def clock_secs_def local_sec_def minus_mod_eq_div_mult)
  have off: "- day_secs < offset_at loc (unix_sec t)" "offset_at loc (unix_sec t) < day_secs"
    using sane_zoneD [OF assms(1)] by blast+
  have r: "- (2 ^ 62) \<le> civil_day loc t * day_secs + 0" "civil_day loc t * day_secs + 0 < 2 ^ 62"
    using c off clock_range [of loc t] assms(2,3) by (simp_all add: day_secs_def)
  have m: "unix_sec t - 3 * day_secs < unix_sec ?m" "unix_sec ?m < unix_sec t + 3 * day_secs"
    using go_Date_near [OF assms(1) r, of 0] c off clock_range [of loc t] by (simp_all add: day_secs_def)
  have "- (2 ^ 61) \<le> unix_sec ?m + - ?o * day_secs" "unix_sec ?m + - ?o * day_secs \<le> 2 ^ 61"
    using m o assms(2,3) by (simp_all add: day_secs_def)
  from AddDate_near [OF assms(1) this] m o show ?thesis
    by (simp add: weekStart_def Let_def day_secs_def)
qed

lemma next_returns:
  assumes "sane_zone loc" "clock_in_range after" "sc_IntervalHours s \<le> maxIntervalHours"
    "sc_IntervalWeeks s \<le> maxIntervalWeeks"
  shows "\<exists>y. Schedule_Next loc s after = Some y"
proof (cases "Schedule_Validate s")
  case (Some e)
  then show ?thesis by (simp add: Schedule_Next_def)
next
  case v: None
  show ?thesis
  proof (cases "recurrenceFromSchedule s")
    case (Inl e)
    with v show ?thesis by (simp add: Schedule_Next_def)
  next
    case r: (Inr r)
    have "\<exists>y. recurrence_next loc r after = Some y"
    proof (cases "sc_Type s")
      case ScheduleHourly
      with v assms(3) have i: "1 \<le> sc_IntervalHours s" "sc_IntervalHours s \<le> maxIntervalHours"
        by (auto simp: Schedule_Validate_def split: if_splits)
      then have "0 < sc_IntervalHours s * hour_ns" by (simp add: hour_ns_def)
      with hourly_scan_returns ScheduleHourly r hour_step [OF i] show ?thesis
        by (auto simp: recurrenceFromSchedule_def recurrence_next_def nextHourly_def Let_def)
    next
      case ScheduleDaily
      with r have "rc_interval r = 1" "rc_freq r = freqDaily"
        by (auto simp: recurrenceFromSchedule_def try_bind_Inr_iff)
      with daily_scan_returns show ?thesis by (simp add: recurrence_next_def nextDaily_def)
    next
      case ScheduleWeekdays
      with r have "rc_interval r = 1" "rc_freq r = freqDaily"
        by (auto simp: recurrenceFromSchedule_def try_bind_Inr_iff)
      with daily_scan_returns show ?thesis by (simp add: recurrence_next_def nextDaily_def)
    next
      case ScheduleWeekly
      with r assms(4) have f: "rc_freq r = freqWeekly" "1 \<le> rc_interval r" "rc_interval r \<le> maxIntervalWeeks"
        and orig: "rc_origin r = zero_time \<or>
          (\<exists>d. rc_origin r = d * day_secs * nanos \<and> parse_date_layout (sc_Origin s) = Some d)"
        by (auto simp: recurrenceFromSchedule_def try_bind_Inr_iff Let_def maxIntervalWeeks_def
            split: if_splits option.splits)
      show ?thesis
      proof (cases "rc_origin r = zero_time")
        case True
        with f show ?thesis by (simp add: recurrence_next_def nextWeekly_def)
      next
        case False
        with orig obtain d where d: "rc_origin r = d * day_secs * nanos" "- 1000000 \<le> d" "d \<le> 4000000"
          using parse_date_bound by blast
        have w: "wrap64 (rc_interval r * 7) = rc_interval r * 7"
          using f by (intro wrap64_id) (simp_all add: maxIntervalWeeks_def)
        let ?ol = "go_Date loc d 0 0"
        have "d * day_secs - day_secs < unix_sec ?ol \<and> unix_sec ?ol < d * day_secs + day_secs"
          using go_Date_near [OF assms(1), of d 0 0] d by (simp add: day_secs_def)
        with d have ol: "- (2 ^ 50) \<le> unix_sec ?ol" "unix_sec ?ol \<le> 2 ^ 50" by (simp_all add: day_secs_def)
        with weekStart_near [OF assms(1), of ?ol] have st: "- (2 ^ 60) \<le> unix_sec (weekStart loc ?ol)"
          by (simp add: day_secs_def)
        have lim: "unix_sec (AddDate loc after maxWeeklyLookahead) \<le> 2 ^ 60"
          using AddDate_near [OF assms(1), of after maxWeeklyLookahead] assms(2)
          by (simp add: clock_in_range_def maxWeeklyLookahead_def day_secs_def)
        have sd: "7 \<le> rc_interval r * 7" "rc_interval r * 7 * day_secs \<le> 2 ^ 60"
          using f by (simp_all add: maxIntervalWeeks_def day_secs_def)
        from weekly_scan_returns [OF assms(1) sd lim st, of r after] False f d(1) w show ?thesis
          by (simp add: recurrence_next_def nextWeekly_def nextWeeklyAnchored_def Let_def civil_day_utc)
      qed
    next
      case (ScheduleOther x)
      with r show ?thesis by (simp add: recurrenceFromSchedule_def)
    qed
    with v r show ?thesis by (simp add: Schedule_Next_def)
  qed
qed


definition sample_schedule :: Schedule where
  "sample_schedule =
     \<lparr>sc_Type = ScheduleWeekdays, sc_IntervalHours = 0, sc_IntervalWeeks = 0, sc_Days = [],
      sc_Time = ''9:30'', sc_Origin = ''''\<rparr>"


subsection \<open>In a zone with one offset the result is the next occurrence\<close>

text \<open>
  The specification says which instants a wall-clock schedule names: the second \<open>h:m\<close> of a
  selected day and, for a weekly one, of a week that is a multiple of the interval away from
  the week of its origin. Weeks start on Monday; day 0, 1970-01-01, was a Thursday.
\<close>

definition week_of_day :: "int \<Rightarrow> int" where
  "week_of_day d = (d + 3) div 7"

definition effective_weeks :: "Schedule \<Rightarrow> int" where
  "effective_weeks s = (if sc_IntervalWeeks s \<ge> 1 then sc_IntervalWeeks s else 1)"

definition named_day :: "Schedule \<Rightarrow> int \<Rightarrow> bool" where
  "named_day s d \<longleftrightarrow>
     selected s (weekday_of_day d) \<and>
     (sc_Type s = ScheduleWeekly \<longrightarrow>
        (case parse_date_layout (sc_Origin s) of
           None \<Rightarrow> False
         | Some o' \<Rightarrow> week_of_day o' \<le> week_of_day d \<and>
             (week_of_day d - week_of_day o') mod effective_weeks s = 0))"

definition occurs :: "location \<Rightarrow> Schedule \<Rightarrow> instant \<Rightarrow> bool" where
  "occurs loc s t \<longleftrightarrow>
     (case parse_clock_layout (trim_space (sc_Time s)) of
        None \<Rightarrow> False
      | Some (h, m) \<Rightarrow>
          clock_secs loc t = h * 3600 + m * 60 \<and> t mod nanos = 0 \<and> named_day s (civil_day loc t))"

definition is_next :: "(instant \<Rightarrow> bool) \<Rightarrow> instant \<Rightarrow> instant \<Rightarrow> bool" where
  "is_next P after t \<longleftrightarrow> after < t \<and> P t \<and> (\<forall>t'. after < t' \<and> P t' \<longrightarrow> t \<le> t')"

text \<open>The instant of second \<open>secs\<close> of day \<open>d\<close> in the zone.\<close>

definition at_day :: "int \<Rightarrow> int \<Rightarrow> int \<Rightarrow> instant" where
  "at_day off secs d = (d * day_secs + secs - off) * nanos"

lemma at_day_parts:
  "0 \<le> secs \<Longrightarrow> secs < day_secs \<Longrightarrow>
   civil_day (fixed_zone off) (at_day off secs d) = d \<and>
   clock_secs (fixed_zone off) (at_day off secs d) = secs \<and> at_day off secs d mod nanos = 0"
  using fixed_Date_parts [of secs 0 "at_day off secs d" d off] by (simp add: at_day_def)

lemma at_day_unique:
  "clock_secs (fixed_zone off) t = secs \<Longrightarrow> t mod nanos = 0 \<Longrightarrow>
   t = at_day off secs (civil_day (fixed_zone off) t)"
  using fixed_split [of t off] by (simp add: at_day_def)

lemma at_day_mono: "at_day off secs d \<le> at_day off secs d' \<longleftrightarrow> d \<le> d'"
  by (simp add: at_day_def day_secs_def nanos_def)

lemma at_day_strict: "at_day off secs d < at_day off secs d' \<longleftrightarrow> d < d'"
  by (simp add: at_day_def day_secs_def nanos_def)

lemma civil_day_times:
  "civil_day (fixed_zone off) t * day_secs = unix_sec t + off - clock_secs (fixed_zone off) t"
  by (simp add: civil_day_def clock_secs_def local_sec_def minus_mod_eq_div_mult)

text \<open>The day an instant is on is the last one whose midnight is not after it.\<close>

lemma at_day_after:
  assumes "0 \<le> secs" "secs < day_secs" "after < at_day off secs d"
  shows "civil_day (fixed_zone off) after \<le> d"
proof (rule ccontr)
  assume "\<not> civil_day (fixed_zone off) after \<le> d"
  then have d: "d + 1 \<le> civil_day (fixed_zone off) after" by simp
  have "(d * day_secs + secs - off) < (d + 1) * day_secs - off"
    using assms(2) by (simp add: day_secs_def)
  also have "\<dots> \<le> civil_day (fixed_zone off) after * day_secs - off"
    using d by (simp add: day_secs_def)
  also have "\<dots> \<le> unix_sec after"
    using civil_day_times [of off after] clock_range [of "fixed_zone off" after] by simp
  finally have "d * day_secs + secs - off \<le> unix_sec after - 1" by simp
  then have "(d * day_secs + secs - off) * nanos \<le> (unix_sec after - 1) * nanos"
    by (simp add: nanos_def)
  also have "\<dots> < after"
    unfolding unix_sec_def nanos_def by presburger
  finally show False using assms(3) by (simp add: at_day_def)
qed

lemma AddDate_at_day:
  assumes "0 \<le> secs" "secs < day_secs" "- (2 ^ 62) \<le> (d + n) * day_secs + secs"
    "(d + n) * day_secs + secs < 2 ^ 62"
  shows "AddDate (fixed_zone off) (at_day off secs d) n = at_day off secs (d + n)"
  using at_day_parts [OF assms(1,2), of off d] go_Date_fixed [OF assms(3,4), of off 0]
  by (simp add: AddDate_def at_day_def)

lemma civil_day_range:
  assumes "clock_in_range after" "- day_secs < off" "off < day_secs"
  shows "- (2 ^ 60) \<le> civil_day (fixed_zone off) after * day_secs \<and>
     civil_day (fixed_zone off) after * day_secs \<le> 2 ^ 60"
proof -
  from assms civil_day_times [of off after] clock_range [of "fixed_zone off" after] show ?thesis
    by (simp add: clock_in_range_def day_secs_def)
qed

lemma dayAt_fixed:
  assumes "clock_in_range after" "- day_secs < off" "off < day_secs" "0 \<le> at_secs r" "at_secs r < day_secs"
    "0 \<le> n" "n \<le> maxDailyLookahead"
  shows "dayAt (fixed_zone off) r after n = at_day off (at_secs r) (civil_day (fixed_zone off) after + n)"
proof -
  let ?d = "civil_day (fixed_zone off) after"
  note R = civil_day_range [OF assms(1-3)]
  from R assms(4,5)
  have "go_Date (fixed_zone off) ?d (at_secs r) 0 = at_day off (at_secs r) ?d"
    using go_Date_fixed [of ?d "at_secs r" off 0] by (simp add: at_day_def day_secs_def)
  moreover have "- (2 ^ 62) \<le> (?d + n) * day_secs + at_secs r" "(?d + n) * day_secs + at_secs r < 2 ^ 62"
    using R assms(4-7) by (simp_all add: day_secs_def maxDailyLookahead_def distrib_right)
  ultimately show ?thesis
    using AddDate_at_day [OF assms(4,5), of ?d n off] by (simp add: dayAt_def)
qed

lemma Weekday_at_day:
  "0 \<le> secs \<Longrightarrow> secs < day_secs \<Longrightarrow> Weekday (fixed_zone off) (at_day off secs d) = weekday_of_day d"
  by (simp add: Weekday_def at_day_parts)

text \<open>A daily scan finds a day of its own within a week, whatever the weekdays, if one is selected.\<close>

lemma daily_scan_finds:
  assumes "rc_interval r = 1" "day \<le> i" "i \<le> maxDailyLookahead"
    "after < dayAt loc r after i" "dayOK r (Weekday loc (dayAt loc r after i))"
  shows "\<exists>t. daily_scan loc r after day = Some (Inr t)"
  using assms(2)
proof (induction "nat (i - day)" arbitrary: day rule: less_induct)
  case less
  show ?case
  proof (cases "after < dayAt loc r after day \<and> dayOK r (Weekday loc (dayAt loc r after day))")
    case True
    with less.prems assms(3) show ?thesis by (simp add: daily_scan.simps [of loc r after day] Let_def)
  next
    case False
    with assms(4,5) less.prems have "day < i" by (cases "day = i") auto
    then have "nat (i - (day + 1)) < nat (i - day)" "day + 1 \<le> i" by auto
    from less.hyps [OF this] False less.prems assms(1,3) show ?thesis
      by (auto simp: daily_scan.simps [of loc r after day] Let_def)
  qed
qed


lemma clock_layout_range:
  "parse_clock_layout s = Some (h, m) \<Longrightarrow> 0 \<le> h * 3600 + m * 60 \<and> h * 3600 + m * 60 < day_secs"
proof -
  assume p: "parse_clock_layout s = Some (h, m)"
  have nn: "0 \<le> x" if "getnum b w = Some (x, rest)" for b w x rest
    using that by (auto simp: getnum_def split: list.splits if_splits)
  from p have "0 \<le> h" "h < 24" "0 \<le> m" "m < 60"
    by (auto simp: parse_clock_layout_def dest!: nn split: option.splits if_splits list.splits)
  then show ?thesis by (simp add: day_secs_def)
qed

lemma find_weekday: "\<exists>n. 1 \<le> n \<and> n \<le> 3 \<and> 1 \<le> weekday_of_day (d + n) \<and> weekday_of_day (d + n) \<le> 5"
proof -
  have "1 \<le> (d + 1 + 4) mod 7 \<and> (d + 1 + 4) mod 7 \<le> 5 \<or>
        1 \<le> (d + 2 + 4) mod 7 \<and> (d + 2 + 4) mod 7 \<le> 5 \<or>
        1 \<le> (d + 3 + 4) mod 7 \<and> (d + 3 + 4) mod 7 \<le> 5" by presburger
  then obtain n where n: "n \<in> {1, 2, 3}" "1 \<le> (d + n + 4) mod 7" "(d + n + 4) mod 7 \<le> 5" by blast
  from n(1) have "1 \<le> n" "n \<le> 3" by auto
  moreover have "1 \<le> weekday_of_day (d + n)" "weekday_of_day (d + n) \<le> 5"
    using n(2,3) by (simp_all add: weekday_of_day_def nat_le_iff le_nat_iff)
  ultimately show ?thesis by blast
qed

lemma five_days: "d = Suc 0 \<or> d = 2 \<or> d = 3 \<or> d = 4 \<or> d = 5 \<longleftrightarrow> Suc 0 \<le> d \<and> d \<le> 5"
  by presburger

lemma daily_next:
  assumes "sc_Type s = ScheduleDaily \<or> sc_Type s = ScheduleWeekdays"
    "Schedule_Validate s = None" "clock_in_range after" "- day_secs < off" "off < day_secs"
  shows "\<exists>t. Schedule_Next (fixed_zone off) s after = Some (Inr t) \<and>
     is_next (occurs (fixed_zone off) s) after t"
proof -
  let ?z = "fixed_zone off"
  let ?D = "civil_day ?z after"
  from assms(1,2) have "validClock (sc_Time s)" by (auto simp: Schedule_Validate_def split: if_splits)
  then obtain h m where c: "parse_clock_layout (trim_space (sc_Time s)) = Some (h, m)"
    by (auto simp: validClock_def parseClock_def is_ok_iff split: option.splits)
  obtain r where r: "recurrenceFromSchedule s = Inr r" "rc_freq r = freqDaily" "rc_interval r = 1"
    "at_secs r = h * 3600 + m * 60" and ok: "\<And>d. d < 7 \<Longrightarrow> dayOK r d = selected s d"
    using assms(1) c
    by (auto simp: recurrenceFromSchedule_def parseClock_def at_secs_def dayOK_def selected_def weekdaySet_def
        five_days)
  note S = clock_layout_range [OF c, folded r(4)]
  have slot: "dayAt ?z r after n = at_day off (at_secs r) (?D + n)" if "0 \<le> n" "n \<le> maxDailyLookahead" for n
    using dayAt_fixed [OF assms(3-5) S [THEN conjunct1] S [THEN conjunct2] that] .
  have occ: "occurs ?z s (at_day off (at_secs r) d) \<longleftrightarrow> selected s (weekday_of_day d)" for d
    using at_day_parts [OF S [THEN conjunct1] S [THEN conjunct2], of off d] c r(4) assms(1)
    by (auto simp: occurs_def named_day_def)
  obtain n where n: "1 \<le> n" "n \<le> 3" "selected s (weekday_of_day (?D + n))"
    using find_weekday [of ?D] assms(1) by (auto simp: selected_def)
  have "after < at_day off (at_secs r) (?D + n)"
  proof (rule ccontr)
    assume "\<not> after < at_day off (at_secs r) (?D + n)"
    then have "(?D + n) * day_secs + at_secs r - off \<le> unix_sec after"
      by (simp add: at_day_def unix_sec_def not_less)
         (metis nanos_pos nonzero_mult_div_cancel_right order_less_imp_not_eq2 zdiv_mono1)
    with civil_day_times [of off after] clock_range [of ?z after] S n(1)
    show False by (simp add: day_secs_def distrib_right)
  qed
  then have "\<exists>t. daily_scan ?z r after 0 = Some (Inr t)"
    using n slot [of n] S ok [of "weekday_of_day (?D + n)"] weekday_lt
    by (intro daily_scan_finds [OF r(3), of 0 n]) (auto simp: maxDailyLookahead_def Weekday_at_day)
  then obtain t where t: "daily_scan ?z r after 0 = Some (Inr t)" by blast
  from daily_scan_result [OF this r(3)] obtain k where k: "0 \<le> k" "k \<le> maxDailyLookahead"
    "t = dayAt ?z r after k" "after < t" "dayOK r (Weekday ?z t)"
    and first: "\<forall>i. 0 \<le> i \<longrightarrow> i < k \<longrightarrow>
       \<not> (after < dayAt ?z r after i \<and> dayOK r (Weekday ?z (dayAt ?z r after i)))" by auto
  have tk: "t = at_day off (at_secs r) (?D + k)" using k slot by simp
  have "is_next (occurs ?z s) after t"
    unfolding is_next_def
  proof (intro conjI allI impI)
    show "after < t" by (rule k(4))
    show "occurs ?z s t"
      using k(5) ok S weekday_lt by (simp add: tk occ Weekday_at_day)
    fix t' assume t': "after < t' \<and> occurs ?z s t'"
    define d where "d = civil_day ?z t'"
    have "t' = at_day off (at_secs r) d"
      using t' at_day_unique [of off t'] c r(4) by (auto simp: occurs_def d_def)
    then have d': "after < at_day off (at_secs r) d" "selected s (weekday_of_day d)"
      using t' occ by auto
    have "?D \<le> d" using at_day_after [OF S [THEN conjunct1] S [THEN conjunct2] d'(1)] .
    show "t \<le> t'"
    proof (rule ccontr)
      assume "\<not> t \<le> t'"
      then have "d < ?D + k" using tk \<open>t' = _\<close> by (simp add: at_day_mono)
      then have i: "0 \<le> d - ?D" "d - ?D < k" using \<open>?D \<le> d\<close> by simp_all
      then have "dayAt ?z r after (d - ?D) = at_day off (at_secs r) d" using slot [of "d - ?D"] k(2) by simp
      with first i d' ok [of "weekday_of_day d"] weekday_lt S show False
        by (metis Weekday_at_day)
    qed
  qed
  moreover have "Schedule_Next ?z s after = Some (Inr t)"
    using assms(2) r t by (simp add: Schedule_Next_def recurrence_next_def nextDaily_def)
  ultimately show ?thesis by blast
qed

lemma week_slot_fixed:
  assumes "0 \<le> at_secs r" "at_secs r < day_secs" "- (2 ^ 61) \<le> d * day_secs" "d * day_secs \<le> 2 ^ 61"
    "0 \<le> j" "j \<le> 6"
  shows "week_slot (fixed_zone off) r (at_day off 0 d) j = at_day off (at_secs r) (d + j)"
proof -
  have "go_Date (fixed_zone off) d (at_secs r) 0 = at_day off (at_secs r) d"
    using go_Date_fixed [of d "at_secs r" off 0] assms by (simp add: at_day_def day_secs_def)
  moreover have "- (2 ^ 62) \<le> (d + j) * day_secs + at_secs r" "(d + j) * day_secs + at_secs r < 2 ^ 62"
    using assms by (simp_all add: day_secs_def distrib_right)
  ultimately show ?thesis
    using AddDate_at_day [OF assms(1,2), of d j off] at_day_parts [of 0 off d]
    by (simp add: week_slot_def)
qed

lemma unix_sec_at_day: "unix_sec (at_day off secs d) = d * day_secs + secs - off"
  by (simp add: at_day_def unix_sec_def nanos_def)

text \<open>Day \<open>d\<close> at the rule's time is ahead of \<open>after\<close> and selected.\<close>

definition hit :: "int \<Rightarrow> recurrence \<Rightarrow> instant \<Rightarrow> int \<Rightarrow> bool" where
  "hit off r after d \<longleftrightarrow> after < at_day off (at_secs r) d \<and> dayOK r (weekday_of_day d)"

lemma week_hit_eq:
  assumes "0 \<le> at_secs r" "at_secs r < day_secs" "- (2 ^ 61) \<le> d * day_secs" "d * day_secs \<le> 2 ^ 61"
  shows "week_hit (fixed_zone off) r after (at_day off 0 d) =
     find (\<lambda>t. after < t \<and> dayOK r (Weekday (fixed_zone off) t))
       (map (\<lambda>k. at_day off (at_secs r) (d + int k)) [0..<7])"
proof -
  have "[0..6 :: int] = map int [0..<7]" by (simp add: upto_rec1 upt_rec)
  moreover have "map (week_slot (fixed_zone off) r (at_day off 0 d)) (map int [0..<7]) =
      map (\<lambda>k. at_day off (at_secs r) (d + int k)) [0..<7]"
    using week_slot_fixed [OF assms] by (simp del: upt_Suc add: upt_rec)
  ultimately show ?thesis unfolding week_hit_def by (simp only:)
qed

lemma week_hit_Some:
  assumes "0 \<le> at_secs r" "at_secs r < day_secs" "- (2 ^ 61) \<le> d * day_secs" "d * day_secs \<le> 2 ^ 61"
    "week_hit (fixed_zone off) r after (at_day off 0 d) = Some t"
  shows "\<exists>k<7. t = at_day off (at_secs r) (d + int k) \<and> hit off r after (d + int k) \<and>
     (\<forall>l<k. \<not> hit off r after (d + int l))"
  using assms(5) unfolding week_hit_eq [OF assms(1-4)] find_Some_iff
  by (auto simp: hit_def Weekday_at_day [OF assms(1,2)] simp del: upt_Suc)

lemma week_hit_None:
  assumes "0 \<le> at_secs r" "at_secs r < day_secs" "- (2 ^ 61) \<le> d * day_secs" "d * day_secs \<le> 2 ^ 61"
    "week_hit (fixed_zone off) r after (at_day off 0 d) = None" "k < 7"
  shows "\<not> hit off r after (d + int k)"
  using assms(5,6) unfolding week_hit_eq [OF assms(1-4)] find_None_iff
  by (auto simp: hit_def Weekday_at_day [OF assms(1,2)] simp del: upt_Suc)

text \<open>
  The scan from the Monday \<open>d\<close> in steps of \<open>7 * w\<close> days: what it returns is the first hit
  among the days of the weeks it visits.
\<close>

lemma weekly_scan_first:
  assumes "weekly_scan (fixed_zone off) r after stride limit start = Some y"
    "0 \<le> at_secs r" "at_secs r < day_secs" "7 \<le> stride" "stride * day_secs \<le> 2 ^ 60"
    "unix_sec limit \<le> 2 ^ 60" "- day_secs < off" "off < day_secs"
  shows "\<forall>d t. start = at_day off 0 d \<longrightarrow> - (2 ^ 60) \<le> d * day_secs \<longrightarrow> y = Inr t \<longrightarrow>
     (\<exists>q k. k < 7 \<and> t = at_day off (at_secs r) (d + int q * stride + int k) \<and>
        hit off r after (d + int q * stride + int k) \<and>
        (\<forall>l<k. \<not> hit off r after (d + int q * stride + int l)) \<and>
        (\<forall>p<q. \<forall>l<7. \<not> hit off r after (d + int p * stride + int l)))"
  using assms
proof (induction "fixed_zone off" r after stride limit start y rule: weekly_scan_induct)
  case (scan f r after stride limit start y)
  show ?case
  proof (intro allI impI)
    fix d t assume st: "start = at_day off 0 d" and lo: "- (2 ^ 60) \<le> d * day_secs" and y: "y = Inr t"
    from scan(2) y have "start < limit" by (auto split: if_splits)
    then have "unix_sec start \<le> unix_sec limit" by (simp add: unix_sec_def zdiv_mono1)
    with scan(7) have "unix_sec start \<le> 2 ^ 60" by simp
    then have hi: "d * day_secs \<le> 2 ^ 60 + day_secs"
      using scan(9) by (simp add: st unix_sec_at_day)
    have R: "- (2 ^ 61) \<le> d * day_secs" "d * day_secs \<le> 2 ^ 61" using lo hi by (simp_all add: day_secs_def)
    show "\<exists>q k. k < 7 \<and> t = at_day off (at_secs r) (d + int q * stride + int k) \<and>
        hit off r after (d + int q * stride + int k) \<and>
        (\<forall>l<k. \<not> hit off r after (d + int q * stride + int l)) \<and>
        (\<forall>p<q. \<forall>l<7. \<not> hit off r after (d + int p * stride + int l))"
    proof (cases "week_hit (fixed_zone off) r after start")
      case (Some t')
      with scan(2) y \<open>start < limit\<close> have "t' = t" by simp
      with week_hit_Some [OF scan(3,4) R, of off after t] Some st obtain k where
        "k < 7" "t = at_day off (at_secs r) (d + int k)" "hit off r after (d + int k)"
        "\<forall>l<k. \<not> hit off r after (d + int l)" by blast
      then show ?thesis by (intro exI [of _ 0] exI [of _ k]) simp
    next
      case None
      have "AddDate (fixed_zone off) start stride = at_day off 0 (d + stride)"
        unfolding st using R scan(5,6) by (intro AddDate_at_day) (simp_all add: day_secs_def distrib_right)
      with scan(2) None \<open>start < limit\<close>
      have f: "f (fixed_zone off) r after stride limit (at_day off 0 (d + stride)) = Some y" by simp
      have "0 \<le> stride * day_secs" using scan(5) by (simp add: day_secs_def)
      then have "- (2 ^ 60) \<le> (d + stride) * day_secs" using lo by (simp add: distrib_right)
      with scan(1) [OF f scan(3-9)] y obtain q k where q: "k < 7"
        "t = at_day off (at_secs r) (d + stride + int q * stride + int k)"
        "hit off r after (d + stride + int q * stride + int k)"
        "\<forall>l<k. \<not> hit off r after (d + stride + int q * stride + int l)"
        and before: "\<forall>p<q. \<forall>l<7. \<not> hit off r after (d + stride + int p * stride + int l)" by blast
      have e: "d + stride + int p * stride = d + int (Suc p) * stride" for p by (simp add: algebra_simps)
      have "\<forall>p<Suc q. \<forall>l<7. \<not> hit off r after (d + int p * stride + int l)"
      proof (intro allI impI)
        fix p l :: nat assume "p < Suc q" "l < 7"
        show "\<not> hit off r after (d + int p * stride + int l)"
        proof (cases p)
          case 0
          with week_hit_None [OF scan(3,4) R, of off after l] None st \<open>l < 7\<close> show ?thesis by simp
        next
          case (Suc p')
          with before \<open>p < Suc q\<close> \<open>l < 7\<close>
          have "\<not> hit off r after (d + stride + int p' * stride + int l)" by simp
          then show ?thesis unfolding e Suc .
        qed
      qed
      with q show ?thesis unfolding e by blast
    qed
  qed
qed


lemma weekStart_fixed:
  assumes "- (2 ^ 60) \<le> d * day_secs" "d * day_secs \<le> 2 ^ 60"
  shows "weekStart (fixed_zone off) (at_day off 0 d) = at_day off 0 (7 * week_of_day d - 3)"
proof -
  have "(int (weekday_of_day d) + 6) mod 7 = (d + 3) mod 7"
    unfolding weekday_of_day_def by (simp add: mod_simps) presburger
  moreover have "go_Date (fixed_zone off) d 0 0 = at_day off 0 d"
    using go_Date_fixed [of d 0 off 0] assms by (simp add: at_day_def)
  moreover have "d - (d + 3) mod 7 = 7 * week_of_day d - 3"
    unfolding week_of_day_def by (metis add_diff_cancel_right' diff_diff_eq2 minus_mod_eq_mult_div diff_add_eq)
  moreover have "AddDate (fixed_zone off) (at_day off 0 d) (- ((d + 3) mod 7)) =
      at_day off 0 (d + - ((d + 3) mod 7))"
  proof (rule AddDate_at_day)
    have "0 \<le> (d + 3) mod 7" "(d + 3) mod 7 \<le> 6" by simp_all
    with assms show "- (2 ^ 62) \<le> (d + - ((d + 3) mod 7)) * day_secs + 0"
      "(d + - ((d + 3) mod 7)) * day_secs + 0 < 2 ^ 62"
      by (simp_all add: day_secs_def distrib_right)
  qed simp_all
  ultimately show ?thesis
    using at_day_parts [of 0 off d] by (simp add: weekStart_def Weekday_def)
qed

lemma named_weekly:
  assumes "sc_Type s = ScheduleWeekly" "parse_date_layout (sc_Origin s) = Some o'"
  shows "named_day s d \<longleftrightarrow>
     selected s (weekday_of_day d) \<and>
     (\<exists>q k. k < 7 \<and> d = 7 * week_of_day o' - 3 + int q * (effective_weeks s * 7) + int k)"
proof -
  let ?w = "effective_weeks s"
  have w: "1 \<le> ?w" by (simp add: effective_weeks_def)
  have "week_of_day o' \<le> week_of_day d \<and> (week_of_day d - week_of_day o') mod ?w = 0 \<longleftrightarrow>
      (\<exists>q k. k < 7 \<and> d = 7 * week_of_day o' - 3 + int q * (?w * 7) + int k)" (is "?L \<longleftrightarrow> ?R")
  proof
    assume L: ?L
    define q where "q = (week_of_day d - week_of_day o') div ?w"
    have q: "0 \<le> q" "week_of_day d = week_of_day o' + q * ?w"
      using L w div_mult_mod_eq [of "week_of_day d - week_of_day o'" ?w]
      by (simp_all add: q_def pos_imp_zdiv_nonneg_iff)
    define k where "k = (d + 3) mod 7"
    have k: "0 \<le> k" "k < 7" by (simp_all add: k_def)
    have "d = 7 * week_of_day d - 3 + k"
      unfolding week_of_day_def k_def by (simp add: minus_mod_eq_mult_div [symmetric])
    with q(2) have "d = 7 * week_of_day o' - 3 + int (nat q) * (?w * 7) + int (nat k)"
      using q(1) k(1) by (simp add: algebra_simps)
    moreover have "nat k < 7" using k by simp
    ultimately show ?R by blast
  next
    assume ?R
    then obtain q k where k: "k < (7 :: nat)"
      and d: "d = 7 * week_of_day o' - 3 + int q * (?w * 7) + int k" by blast
    have "d + 3 = int k + 7 * (week_of_day o' + int q * ?w)" using d by (simp add: algebra_simps)
    then have "week_of_day d = week_of_day o' + int q * ?w"
      using k unfolding week_of_day_def by simp
    with w show ?L by simp
  qed
  with assms show ?thesis by (simp add: named_day_def)
qed

lemma weekly_next:
  assumes "sc_Type s = ScheduleWeekly" "sc_Origin s \<noteq> ''''" "sc_IntervalWeeks s \<le> maxIntervalWeeks"
    "clock_in_range after" "- day_secs < off" "off < day_secs"
    "Schedule_Next (fixed_zone off) s after = Some (Inr t)"
  shows "is_next (occurs (fixed_zone off) s) after t"
proof -
  let ?z = "fixed_zone off"
  let ?w = "effective_weeks s"
  from assms(7) obtain r where r: "recurrenceFromSchedule s = Inr r"
    and n: "recurrence_next ?z r after = Some (Inr t)"
    by (auto simp: Schedule_Next_def split: option.splits sum.splits)
  from r assms(1,2) obtain h m o' where c: "parse_clock_layout (trim_space (sc_Time s)) = Some (h, m)"
    and d: "parse_date_layout (sc_Origin s) = Some o'" and rr: "rc_freq r = freqWeekly"
    "rc_interval r = ?w" "at_secs r = h * 3600 + m * 60" "rc_weekdays r = daysSet (sc_Days s)"
    "rc_origin r = o' * day_secs * nanos"
    by (auto simp: recurrenceFromSchedule_def try_bind_Inr_iff parseClock_def Let_def at_secs_def
        effective_weeks_def split: option.splits if_splits)
  have ok: "dayOK r e = selected s e" for e
    using rr(4) assms(1) by (auto simp: dayOK_def selected_def split: option.splits)
  note S = clock_layout_range [OF c, folded rr(3)]
  have w: "1 \<le> ?w" "?w \<le> maxIntervalWeeks"
    using assms(3) by (auto simp: effective_weeks_def maxIntervalWeeks_def)
  have wr: "wrap64 (?w * 7) = ?w * 7" using w by (intro wrap64_id) (simp_all add: maxIntervalWeeks_def)
  have o': "- 1000000 \<le> o'" "o' \<le> 4000000" using parse_date_bound [OF d] by simp_all
  then have oR: "- (2 ^ 50) \<le> o' * day_secs" "o' * day_secs \<le> 2 ^ 50" by (simp_all add: day_secs_def)
  let ?M = "7 * week_of_day o' - 3"
  have mon: "?M \<le> o'" "o' - 7 < ?M" unfolding week_of_day_def by presburger+
  have "go_Date ?z o' 0 0 = at_day off 0 o'"
    using go_Date_fixed [of o' 0 off 0] oR by (simp add: at_day_def)
  then have start: "weekStart ?z (go_Date ?z (civil_day utc (rc_origin r)) 0 0) = at_day off 0 ?M"
    using weekStart_fixed [of o' off] oR by (simp add: rr(5) civil_day_utc)
  have sane: "sane_zone ?z" using assms(5,6) by (simp add: sane_zone_def)
  have lim: "unix_sec (AddDate ?z after maxWeeklyLookahead) \<le> 2 ^ 60"
    using AddDate_near [OF sane, of after maxWeeklyLookahead] assms(4)
    by (simp add: clock_in_range_def maxWeeklyLookahead_def day_secs_def)
  from n rr(1,2) w wr start have scan: "weekly_scan ?z r after (?w * 7) (AddDate ?z after maxWeeklyLookahead)
      (at_day off 0 ?M) = Some (Inr t)"
    by (simp add: recurrence_next_def nextWeekly_def nextWeeklyAnchored_def Let_def split: if_splits)
  have sd: "7 \<le> ?w * 7" "?w * 7 * day_secs \<le> 2 ^ 60"
    using w by (simp_all add: maxIntervalWeeks_def day_secs_def)
  have "- (2 ^ 60) \<le> ?M * day_secs" using mon o' by (simp add: day_secs_def)
  with weekly_scan_first [OF scan S [THEN conjunct1] S [THEN conjunct2] sd lim assms(5,6)]
  obtain q k where k: "k < (7 :: nat)" "t = at_day off (at_secs r) (?M + int q * (?w * 7) + int k)"
    "hit off r after (?M + int q * (?w * 7) + int k)"
    and same: "\<forall>l<k. \<not> hit off r after (?M + int q * (?w * 7) + int l)"
    and before: "\<forall>p<q. \<forall>l<7. \<not> hit off r after (?M + int p * (?w * 7) + int l)" by blast
  have occ: "occurs ?z s (at_day off (at_secs r) e) \<longleftrightarrow> named_day s e" for e
    using at_day_parts [OF S [THEN conjunct1] S [THEN conjunct2], of off e] c rr(3)
    by (simp add: occurs_def)
  show ?thesis
    unfolding is_next_def
  proof (intro conjI allI impI)
    show "after < t" using k(2,3) by (simp add: hit_def)
    have "named_day s (?M + int q * (?w * 7) + int k)"
      unfolding named_weekly [OF assms(1) d] using k ok by (auto simp: hit_def)
    then show "occurs ?z s t" using occ k(2) by simp
    fix t' assume t': "after < t' \<and> occurs ?z s t'"
    define e where "e = civil_day ?z t'"
    have te: "t' = at_day off (at_secs r) e"
      using t' at_day_unique [of off t'] c rr(3) by (auto simp: occurs_def e_def)
    with t' occ have "named_day s e" "after < at_day off (at_secs r) e" by auto
    then obtain q' k' where k': "k' < (7 :: nat)" "e = ?M + int q' * (?w * 7) + int k'"
      "hit off r after e"
      unfolding named_weekly [OF assms(1) d] using ok by (auto simp: hit_def)
    show "t \<le> t'"
    proof (rule ccontr)
      assume "\<not> t \<le> t'"
      then have lt: "e < ?M + int q * (?w * 7) + int k" by (simp add: k(2) te at_day_mono)
      have "q' \<le> q"
      proof (rule ccontr)
        assume "\<not> q' \<le> q"
        then have "int q + 1 \<le> int q'" by simp
        then have "(int q + 1) * (?w * 7) \<le> int q' * (?w * 7)" using w by (intro mult_right_mono) simp_all
        with lt k'(2) k(1) w show False by (simp add: distrib_right)
      qed
      then consider "q' < q" | "q' = q" by linarith
      then show False
      proof cases
        case 1
        with before k' show False by blast
      next
        case 2
        with lt k'(2) have "k' < k" by simp
        with same k' 2 show False by blast
      qed
    qed
  qed
qed

text \<open>
  C28: in a zone with one offset, a daily or weekdays schedule always has a next run, and it is
  the earliest instant after the given one at the schedule's time on a day it selects.
\<close>

theorem daily_next_is_earliest:
  "sc_Type s = ScheduleDaily \<or> sc_Type s = ScheduleWeekdays \<Longrightarrow> Schedule_Validate s = None \<Longrightarrow>
   clock_in_range after \<Longrightarrow> - day_secs < off \<Longrightarrow> off < day_secs \<Longrightarrow>
   \<exists>t. Schedule_Next (fixed_zone off) s after = Some (Inr t) \<and>
     is_next (occurs (fixed_zone off) s) after t"
  by (rule daily_next)

theorem daily_next_is_earliest_witness:
  "\<exists>t. Schedule_Next (fixed_zone 3600) sample_schedule 0 = Some (Inr t) \<and>
     is_next (occurs (fixed_zone 3600) sample_schedule) 0 t"
proof (rule daily_next_is_earliest)
  show "Schedule_Validate sample_schedule = None" by code_simp
qed (simp_all add: sample_schedule_def clock_in_range_def unix_sec_def day_secs_def)

text \<open>
  in a zone with one offset, the run a weekly schedule with an origin answers is the
  earliest instant after the given one at its time, on a day it selects, in a week that is a
  whole number of intervals after the week of its origin.
\<close>

theorem weekly_next_is_earliest:
  "sc_Type s = ScheduleWeekly \<Longrightarrow> sc_Origin s \<noteq> '''' \<Longrightarrow> sc_IntervalWeeks s \<le> maxIntervalWeeks \<Longrightarrow>
   clock_in_range after \<Longrightarrow> - day_secs < off \<Longrightarrow> off < day_secs \<Longrightarrow>
   Schedule_Next (fixed_zone off) s after = Some (Inr t) \<Longrightarrow>
   is_next (occurs (fixed_zone off) s) after t"
  by (rule weekly_next)

definition fortnightly :: Schedule where
  "fortnightly =
     \<lparr>sc_Type = ScheduleWeekly, sc_IntervalHours = 0, sc_IntervalWeeks = 2, sc_Days = [''mon'', ''Fri''],
      sc_Time = ''08:00'', sc_Origin = ''2026-09-07''\<rparr>"

theorem weekly_next_is_earliest_witness:
  "is_next (occurs (fixed_zone 0) fortnightly) (1789000000 * nanos) (1789113600 * nanos)"
proof (rule weekly_next_is_earliest)
  show "Schedule_Next (fixed_zone 0) fortnightly (1789000000 * nanos) = Some (Inr (1789113600 * nanos))"
    by (code_simp, subst weekly_scan.simps, code_simp)
qed (simp_all add: fortnightly_def clock_in_range_def unix_sec_def day_secs_def maxIntervalWeeks_def)

subsection \<open>Where the schedule goes wrong\<close>

definition hourly_every :: "int \<Rightarrow> string list \<Rightarrow> Schedule" where
  "hourly_every n days =
     \<lparr>sc_Type = ScheduleHourly, sc_IntervalHours = n, sc_IntervalWeeks = 0, sc_Days = days,
      sc_Time = '''', sc_Origin = ''''\<rparr>"

text \<open>One hour past the bound the product wraps, and the next run lies in the past.\<close>

theorem hourly_interval_wraps:
  "Schedule_Validate (hourly_every 2562048 []) = None \<and>
   Schedule_Next (fixed_zone 0) (hourly_every 2562048 []) 0 = Some (Inr (- 9223371273709551616))"
proof
  show "Schedule_Validate (hourly_every 2562048 []) = None" by code_simp
  show "Schedule_Next (fixed_zone 0) (hourly_every 2562048 []) 0 = Some (Inr (- 9223371273709551616))"
    by (code_simp, subst hourly_scan.simps, code_simp)
qed

text \<open>At two to the 51 hours it is zero, and the scan never leaves a day that is not selected.\<close>

lemma stuck_scan: "t < limit \<Longrightarrow> \<not> dayOK r (Weekday loc t) \<Longrightarrow> hourly_scan loc r 0 limit t = None"
proof (rule ccontr)
  assume a: "t < limit" "\<not> dayOK r (Weekday loc t)" "hourly_scan loc r 0 limit t \<noteq> None"
  then obtain y where "hourly_scan loc r 0 limit t = Some y" by blast
  then have "(0 :: int) = 0 \<longrightarrow> t < limit \<longrightarrow> dayOK r (Weekday loc t)"
  proof (induction loc r "0 :: int" limit t y rule: hourly_scan_induct)
    case (scan f loc r limit t y)
    then show ?case by (auto split: if_splits)
  qed
  with a show False by simp
qed

theorem hourly_scan_never_returns:
  "Schedule_Validate (hourly_every (2 ^ 51) [''mon'']) = None \<and>
   Schedule_Next (fixed_zone 0) (hourly_every (2 ^ 51) [''mon'']) 0 = None"
proof
  show v: "Schedule_Validate (hourly_every (2 ^ 51) [''mon'']) = None" by code_simp
  define r where "r = \<lparr>rc_freq = freqHourly, rc_interval = 2 ^ 51, rc_at = midnight,
      rc_weekdays = daysSet [''mon''], rc_origin = zero_time\<rparr>"
  have "\<not> dayOK r (Weekday (fixed_zone 0) 0)" unfolding r_def by code_simp
  moreover have "wrap64 (2 ^ 51 * hour_ns) = 0" by code_simp
  ultimately have "nextHourly (fixed_zone 0) r 0 = None"
    by (simp add: nextHourly_def r_def stuck_scan maxHourlyLookahead_def hour_ns_def)
  with v show "Schedule_Next (fixed_zone 0) (hourly_every (2 ^ 51) [''mon'']) 0 = None"
    by (simp add: Schedule_Next_def recurrence_next_def recurrenceFromSchedule_def hourly_every_def r_def)
qed

text \<open>
  A zone that springs forward from 02:00 to 03:00 on day 1. From noon of that day a schedule at
  02:30 answers 03:30 of day 2: the candidate of day 0 was moved out of the gap, and the days
  after it are counted from the moved clock.
\<close>

definition spring_zone :: location where
  "spring_zone s = (if s < 90000 then (3600, - (2 ^ 63), 90000) else (7200, 90000, 2 ^ 63 - 1))"

definition half_past_two :: Schedule where
  "half_past_two =
     \<lparr>sc_Type = ScheduleDaily, sc_IntervalHours = 0, sc_IntervalWeeks = 0, sc_Days = [],
      sc_Time = ''02:30'', sc_Origin = ''''\<rparr>"

theorem daily_next_after_gap:
  "Schedule_Next spring_zone half_past_two (129600 * nanos) = Some (Inr (178200 * nanos)) \<and>
   \<not> occurs spring_zone half_past_two (178200 * nanos) \<and>
   occurs spring_zone half_past_two (174600 * nanos)"
proof (intro conjI)
  show "Schedule_Next spring_zone half_past_two (129600 * nanos) = Some (Inr (178200 * nanos))"
    by (code_simp, subst daily_scan.simps, code_simp, subst daily_scan.simps, code_simp)
  show "\<not> occurs spring_zone half_past_two (178200 * nanos)" by code_simp
  show "occurs spring_zone half_past_two (174600 * nanos)" by code_simp
qed

end
