(* ===== verification/GoUtf8.thy ===== *)
theory GoUtf8
  imports GoPrelude
begin

text \<open>
  Go's UTF-8: \<open>utf8.DecodeRuneInString\<close>, by which \<open>for range\<close> and \<open>[]rune\<close> walk a byte string.
  A byte that starts no valid encoding is one rune, U+FFFD, of width one.
\<close>

definition RuneError :: nat where "RuneError = 0xFFFD"

definition byte :: "char \<Rightarrow> nat" where "byte c = of_char c"

definition cont_in :: "nat \<Rightarrow> nat \<Rightarrow> char \<Rightarrow> bool" where
  "cont_in lo hi c \<longleftrightarrow> lo \<le> byte c \<and> byte c \<le> hi"

definition is_cont :: "char \<Rightarrow> bool" where
  "is_cont c \<longleftrightarrow> cont_in 0x80 0xBF c"

text \<open>
  The rune and its width. The bounds of the second byte exclude overlong forms, surrogates and
  values past U+10FFFF.
\<close>

definition decode2 :: "nat \<Rightarrow> string \<Rightarrow> nat \<times> nat" where
  "decode2 b s =
     (case s of
        c1 # _ \<Rightarrow> (if is_cont c1 then ((b - 0xC0) * 64 + (byte c1 - 0x80), 2) else (RuneError, 1))
      | [] \<Rightarrow> (RuneError, 1))"

definition decode3 :: "nat \<Rightarrow> string \<Rightarrow> nat \<times> nat" where
  "decode3 b s =
     (let lo = (if b = 0xE0 then 0xA0 else 0x80); hi = (if b = 0xED then 0x9F else 0xBF) in
      case s of
        c1 # c2 # _ \<Rightarrow>
          (if cont_in lo hi c1 \<and> is_cont c2
           then ((b - 0xE0) * 4096 + (byte c1 - 0x80) * 64 + (byte c2 - 0x80), 3)
           else (RuneError, 1))
      | _ \<Rightarrow> (RuneError, 1))"

definition decode4 :: "nat \<Rightarrow> string \<Rightarrow> nat \<times> nat" where
  "decode4 b s =
     (let lo = (if b = 0xF0 then 0x90 else 0x80); hi = (if b = 0xF4 then 0x8F else 0xBF) in
      case s of
        c1 # c2 # c3 # _ \<Rightarrow>
          (if cont_in lo hi c1 \<and> is_cont c2 \<and> is_cont c3
           then ((b - 0xF0) * 262144 + (byte c1 - 0x80) * 4096 + (byte c2 - 0x80) * 64 + (byte c3 - 0x80), 4)
           else (RuneError, 1))
      | _ \<Rightarrow> (RuneError, 1))"

definition decode_rune :: "string \<Rightarrow> nat \<times> nat" where
  "decode_rune s =
     (case s of
        [] \<Rightarrow> (RuneError, 0)
      | c # r \<Rightarrow>
          (let b = byte c in
           if b < 0x80 then (b, 1)
           else if 0xC2 \<le> b \<and> b \<le> 0xDF then decode2 b r
           else if 0xE0 \<le> b \<and> b \<le> 0xEF then decode3 b r
           else if 0xF0 \<le> b \<and> b \<le> 0xF4 then decode4 b r
           else (RuneError, 1)))"

lemma decode_width: "s \<noteq> [] \<Longrightarrow> 1 \<le> snd (decode_rune s) \<and> snd (decode_rune s) \<le> length s"
  by (auto simp: decode_rune_def decode2_def decode3_def decode4_def Let_def split: list.splits)

lemma decode_width_le: "snd (decode_rune s) \<le> 4"
  by (auto simp: decode_rune_def decode2_def decode3_def decode4_def Let_def split: list.splits)

lemma decode_ascii: "byte c < 0x80 \<Longrightarrow> decode_rune (c # s) = (byte c, 1)"
  by (simp add: decode_rune_def)

text \<open>The runes of a string, in order.\<close>

function runes :: "string \<Rightarrow> nat list" where
  "runes s = (if s = [] then [] else fst (decode_rune s) # runes (drop (snd (decode_rune s)) s))"
  by pat_completeness auto
termination
  by (relation "measure length") (use decode_width in fastforce)+

declare runes.simps [simp del]

lemma runes_Nil [simp]: "runes [] = []"
  by (simp add: runes.simps)

lemma runes_ascii: "byte c < 0x80 \<Longrightarrow> runes (c # s) = byte c # runes s"
  by (simp add: runes.simps [of "c # s"] decode_ascii)

definition rune_count :: "string \<Rightarrow> nat" where
  "rune_count s = length (runes s)"

lemma rune_count_le: "rune_count s \<le> length s"
proof (induction s rule: runes.induct)
  case (1 s)
  show ?case
  proof (cases "s = []")
    case False
    have "rune_count s = Suc (rune_count (drop (snd (decode_rune s)) s))"
      using False by (simp add: rune_count_def runes.simps [of s])
    also have "\<dots> \<le> Suc (length s - snd (decode_rune s))"
      using 1 [OF False] by simp
    finally show ?thesis using decode_width [OF False] by linarith
  qed (simp add: rune_count_def)
qed

text \<open>\<open>string([]rune)\<close>: the encoding of each rune; what is no rune encodes as U+FFFD.\<close>

definition encode_rune :: "nat \<Rightarrow> string" where
  "encode_rune r0 =
     (let r = (if r0 > 0x10FFFF \<or> (0xD800 \<le> r0 \<and> r0 \<le> 0xDFFF) then RuneError else r0) in
      map char_of
        (if r < 0x80 then [r]
         else if r < 0x800 then [0xC0 + r div 64, 0x80 + r mod 64]
         else if r < 0x10000 then [0xE0 + r div 4096, 0x80 + r div 64 mod 64, 0x80 + r mod 64]
         else [0xF0 + r div 262144, 0x80 + r div 4096 mod 64, 0x80 + r div 64 mod 64, 0x80 + r mod 64]))"

definition of_runes :: "nat list \<Rightarrow> string" where
  "of_runes rs = concat (map encode_rune rs)"

end
