(* ===== verification/AutoTasks.thy ===== *)
theory AutoTasks
  imports RecurrenceLaws GoUtf8 "HOL-Library.Product_Lexorder" "HOL-Library.List_Lexorder"
    "HOL-Library.Char_ord" "HOL-Library.Multiset"
begin

text \<open>
  Automation tasks and their store, \<open>model.go\<close> and \<open>store.go\<close> of
  \<open>src/internal/capabilities/automations/\<close>. The two SQLite tables are lists of rows; a statement
  is a function on them, a failed transaction leaves them as they were. A time column holds
  seconds (RFC 3339, UTC), so storing a time drops its nanoseconds; ordering the text orders
  the instants. \<open>time.ParseDuration\<close>, \<open>filepath.IsAbs\<close> and \<open>config.CanonicalWorkDir\<close> are
  parameters.
\<close>

subsection \<open>Tasks\<close>

definition ModeWorkspace :: string where "ModeWorkspace = ''workspace''"
definition ModeReadOnly :: string where "ModeReadOnly = ''read-only''"
definition ModeYOLO :: string where "ModeYOLO = ''yolo''"
definition think_levels :: "string list" where
  "think_levels = [''minimal'', ''low'', ''medium'', ''high'', ''xhigh'']"
definition NotifyAlways :: string where "NotifyAlways = ''always''"
definition NotifyFailed :: string where "NotifyFailed = ''failed''"
definition NotifyNever :: string where "NotifyNever = ''never''"

record Task =
  t_ID :: string
  t_Name :: string
  t_Prompt :: string
  t_Schedule :: Schedule
  t_Workspace :: string
  t_Mode :: string
  t_Model :: string
  t_Think :: string
  t_ConversationID :: string
  t_Notify :: string
  t_Timeout :: string
  t_Enabled :: bool
  t_CreatedAt :: instant
  t_UpdatedAt :: instant
  t_LastRunAt :: instant
  t_LastStatus :: string
  t_NextRunAt :: instant

datatype task_error =
    BadName | BadPrompt | BadWorkspace | UnknownMode string | UnknownThink string
  | BadConversation | UnknownNotify string | TimeoutSyntax | TimeoutRange
  | BadSchedule sched_error | NextRun sched_error | TaskNotFound | Sql string

text \<open>\<open>ids.IsSession\<close>.\<close>

definition IsSession :: "string \<Rightarrow> bool" where
  "IsSession tid \<longleftrightarrow> has_prefix tid ''s-'' \<and> CHR ''/'' \<notin> set tid \<and> CHR 0x5C \<notin> set tid"

definition DefaultTaskTimeout :: int where "DefaultTaskTimeout = 15 * minute_ns"
definition maxTaskTimeout :: int where "maxTaskTimeout = 24 * hour_ns"

record platform =
  ParseDuration :: "string \<Rightarrow> int option"
  IsAbs :: "string \<Rightarrow> bool"
  CanonicalWorkDir :: "string \<Rightarrow> string"

definition timeout_error :: "platform \<Rightarrow> string \<Rightarrow> task_error option" where
  "timeout_error pf s =
     (let timeout = trim_space s in
      if timeout = '''' then None
      else case ParseDuration pf timeout of
             None \<Rightarrow> Some TimeoutSyntax
           | Some d \<Rightarrow> (if d \<le> 0 \<or> d > maxTaskTimeout then Some TimeoutRange else None))"

definition Task_Validate :: "platform \<Rightarrow> Task \<Rightarrow> task_error option" where
  "Task_Validate pf t =
     (let name = trim_space (t_Name t); prompt = trim_space (t_Prompt t)
      in if name = '''' \<or> rune_count name > 200 then Some BadName
         else if prompt = '''' \<or> rune_count prompt > 10000 then Some BadPrompt
         else if \<not> IsAbs pf (t_Workspace t) then Some BadWorkspace
         else if t_Mode t \<notin> set ['''', ModeWorkspace, ModeReadOnly, ModeYOLO]
         then Some (UnknownMode (t_Mode t))
         else if t_Think t \<noteq> '''' \<and> t_Think t \<notin> set think_levels then Some (UnknownThink (t_Think t))
         else if t_ConversationID t \<noteq> '''' \<and> \<not> IsSession (t_ConversationID t) then Some BadConversation
         else if t_Notify t \<notin> set ['''', NotifyAlways, NotifyFailed, NotifyNever]
         then Some (UnknownNotify (t_Notify t))
         else case timeout_error pf (t_Timeout t) of
                Some e \<Rightarrow> Some e
              | None \<Rightarrow> map_option BadSchedule (Schedule_Validate (t_Schedule t)))"

definition CanonicalWorkspace :: "platform \<Rightarrow> string \<Rightarrow> string" where
  "CanonicalWorkspace pf workDir =
     (let w = trim_space workDir in if \<not> IsAbs pf w then w else CanonicalWorkDir pf w)"

definition TimeoutDuration :: "platform \<Rightarrow> Task \<Rightarrow> int" where
  "TimeoutDuration pf t =
     (let s = trim_space (t_Timeout t) in
      if s = '''' then DefaultTaskTimeout
      else case ParseDuration pf s of
             Some d \<Rightarrow> (if d > 0 then d else DefaultTaskTimeout)
           | None \<Rightarrow> DefaultTaskTimeout)"

text \<open>\<open>Duration.String\<close>: hours, minutes and seconds with a trimmed fraction, or one small unit.\<close>

definition frac_digits :: "nat \<Rightarrow> int \<Rightarrow> string" where
  "frac_digits prec v =
     (let ds = pad_dec prec (v mod 10 ^ prec);
          kept = rev (dropWhile (\<lambda>c. c = CHR ''0'') (rev ds))
      in if prec = 0 \<or> kept = '''' then '''' else CHR ''.'' # kept)"

definition Duration_String :: "int \<Rightarrow> string" where
  "Duration_String d =
     (let u = \<bar>d\<bar>; sign = (if d < 0 then ''-'' else '''');
          body =
            (if u = 0 then ''0s''
             else if u < 1000 then dec_nat (nat u) @ ''ns''
             else if u < 1000000 then
               dec_nat (nat (u div 1000)) @ frac_digits 3 u @ [CHR 0xC2, CHR 0xB5] @ ''s''
             else if u < nanos then dec_nat (nat (u div 1000000)) @ frac_digits 6 u @ ''ms''
             else
               (let secs = u div nanos; mins = secs div 60; hours = mins div 60 in
                (if hours > 0 then dec_nat (nat hours) @ ''h'' else '''') @
                (if mins > 0 then dec_nat (nat (mins mod 60)) @ ''m'' else '''') @
                dec_nat (nat (secs mod 60)) @ frac_digits 9 u @ ''s''))
      in sign @ body)"

definition FormatTimeout :: "int \<Rightarrow> string" where
  "FormatTimeout d =
     (if d > 0 \<and> d mod minute_ns = 0 then signed_dec (d div minute_ns) @ ''m'' else Duration_String d)"

definition TimeoutLabel :: "platform \<Rightarrow> Task \<Rightarrow> string" where
  "TimeoutLabel pf t = FormatTimeout (TimeoutDuration pf t)"

subsection \<open>Runs and the tables\<close>

definition RunRunning :: string where "RunRunning = ''running''"
definition RunCompleted :: string where "RunCompleted = ''completed''"
definition RunFailed :: string where "RunFailed = ''failed''"
definition RunTimeout :: string where "RunTimeout = ''timeout''"
definition RunCanceled :: string where "RunCanceled = ''canceled''"
definition RunSkipped :: string where "RunSkipped = ''skipped''"

record Run =
  r_ID :: string
  r_TaskID :: string
  r_At :: instant
  r_Status :: string
  r_Error :: string
  r_ConversationID :: string
  r_RunID :: string
  r_DurationMs :: int
  r_Summary :: string

record database =
  db_tasks :: "Task list"
  db_runs :: "Run list"

definition perTaskRunLimit :: nat where "perTaskRunLimit = 100"
definition globalRunLimit :: nat where "globalRunLimit = 1000"

text \<open>\<open>fmtTime\<close> then \<open>parseTime\<close>: what a time column gives back.\<close>

definition stored_time :: "instant \<Rightarrow> instant" where
  "stored_time t = unix_sec t * nanos"

definition stored_task :: "Task \<Rightarrow> Task" where
  "stored_task t =
     t\<lparr>t_CreatedAt := stored_time (t_CreatedAt t), t_UpdatedAt := stored_time (t_UpdatedAt t),
       t_LastRunAt := stored_time (t_LastRunAt t), t_NextRunAt := stored_time (t_NextRunAt t)\<rparr>"

definition GetTask :: "database \<Rightarrow> string \<Rightarrow> task_error + Task" where
  "GetTask db tid =
     (case find (\<lambda>t. t_ID t = tid) (db_tasks db) of None \<Rightarrow> Inl TaskNotFound | Some t \<Rightarrow> Inr t)"

definition ListTasks :: "database \<Rightarrow> Task list" where
  "ListTasks db = sort_key t_Name (db_tasks db)"

definition HasEnabled :: "database \<Rightarrow> bool" where
  "HasEnabled db \<longleftrightarrow> length (filter t_Enabled (db_tasks db)) > 0"

text \<open>INSERT, or UPDATE of the listed columns: the creation time and the last run stay.\<close>

definition upsert_task :: "Task \<Rightarrow> Task list \<Rightarrow> Task list" where
  "upsert_task t ts =
     (if list_ex (\<lambda>u. t_ID u = t_ID t) ts then
        map (\<lambda>u. if t_ID u = t_ID t
                 then (stored_task t)\<lparr>t_CreatedAt := t_CreatedAt u, t_LastRunAt := t_LastRunAt u,
                                      t_LastStatus := t_LastStatus u\<rparr>
                 else u) ts
      else ts @ [stored_task t])"

text \<open>
  \<open>SaveTask\<close> before the statement: the cleaned fields, the row already stored under the id, the
  schedule with its phase anchor, then the id, the times and the next trigger. \<open>None\<close> is a \<open>Next\<close>
  that does not return.
\<close>

definition clean_task :: "platform \<Rightarrow> Task \<Rightarrow> Task" where
  "clean_task pf task =
     task\<lparr>t_Name := trim_space (t_Name task), t_Prompt := trim_space (t_Prompt task),
          t_Workspace := CanonicalWorkspace pf (t_Workspace task),
          t_Mode := (if t_Mode task = '''' then ModeWorkspace else t_Mode task),
          t_Notify := (if t_Notify task = '''' then NotifyAlways else t_Notify task)\<rparr>"

definition stored_row :: "database \<Rightarrow> Task \<Rightarrow> Task option" where
  "stored_row db t =
     (if t_ID t = '''' then None
      else case GetTask db (t_ID t) of Inr x \<Rightarrow> Some x | Inl _ \<Rightarrow> None)"

definition anchored :: "location \<Rightarrow> instant \<Rightarrow> Task option \<Rightarrow> Schedule \<Rightarrow> Schedule" where
  "anchored loc now stored s =
     ensureOrigin loc now
       (case stored of
          Some x \<Rightarrow> (if sc_Origin s = '''' then s\<lparr>sc_Origin := sc_Origin (t_Schedule x)\<rparr> else s)
        | None \<Rightarrow> s)"

definition prepare_task ::
  "platform \<Rightarrow> location \<Rightarrow> instant \<Rightarrow> string \<Rightarrow> database \<Rightarrow> Task \<Rightarrow> (task_error + Task) option" where
  "prepare_task pf loc now fresh db task =
     (let t0 = clean_task pf task
      in case Task_Validate pf t0 of
           Some e \<Rightarrow> Some (Inl e)
         | None \<Rightarrow>
             (let stored = stored_row db t0;
                  s = anchored loc now stored (t_Schedule t0);
                  t1 = t0\<lparr>t_Schedule := s,
                          t_ID := (if t_ID t0 = '''' then fresh else t_ID t0),
                          t_CreatedAt := (if t_ID t0 = '''' \<or> t_CreatedAt t0 = zero_time then now
                                          else t_CreatedAt t0),
                          t_UpdatedAt := now\<rparr>;
                  keepNext = (case stored of
                                Some x \<Rightarrow> sameSchedule (t_Schedule x) s \<and> t_NextRunAt t0 > now
                              | None \<Rightarrow> False)
              in if keepNext then Some (Inr t1)
                 else case Schedule_Next loc s now of
                        None \<Rightarrow> None
                      | Some (Inl e) \<Rightarrow> Some (Inl (NextRun e))
                      | Some (Inr next') \<Rightarrow> Some (Inr (t1\<lparr>t_NextRunAt := next'\<rparr>))))"

definition SaveTask ::
  "platform \<Rightarrow> location \<Rightarrow> instant \<Rightarrow> string \<Rightarrow> Task \<Rightarrow> database \<Rightarrow>
   ((task_error + Task) \<times> database) option" where
  "SaveTask pf loc now fresh task db =
     (case prepare_task pf loc now fresh db task of
        None \<Rightarrow> None
      | Some (Inl e) \<Rightarrow> Some (Inl e, db)
      | Some (Inr t) \<Rightarrow> Some (Inr t, db\<lparr>db_tasks := upsert_task t (db_tasks db)\<rparr>))"

definition DeleteTask :: "string \<Rightarrow> database \<Rightarrow> task_error option \<times> database" where
  "DeleteTask tid db =
     (if \<not> list_ex (\<lambda>t. t_ID t = tid) (db_tasks db) then (Some TaskNotFound, db)
      else (None, db\<lparr>db_tasks := filter (\<lambda>t. t_ID t \<noteq> tid) (db_tasks db),
                     db_runs := filter (\<lambda>r. r_TaskID r \<noteq> tid) (db_runs db)\<rparr>))"

text \<open>\<open>ORDER BY at DESC, id DESC\<close>.\<close>

definition run_key :: "Run \<Rightarrow> instant \<times> string" where
  "run_key r = (r_At r, r_ID r)"

definition newest_first :: "Run list \<Rightarrow> Run list" where
  "newest_first rs = rev (sort_key run_key rs)"

definition ListRuns :: "database \<Rightarrow> string \<Rightarrow> Run list" where
  "ListRuns db taskID = newest_first (filter (\<lambda>r. r_TaskID r = taskID) (db_runs db))"

text \<open>\<open>DELETE \<dots> WHERE id IN (SELECT id \<dots> LIMIT -1 OFFSET n)\<close>.\<close>

definition prune :: "(Run \<Rightarrow> bool) \<Rightarrow> nat \<Rightarrow> Run list \<Rightarrow> Run list" where
  "prune sel n rs =
     (let gone = map r_ID (drop n (newest_first (filter sel rs)))
      in filter (\<lambda>r. r_ID r \<notin> set gone) rs)"

definition pruneRuns :: "string \<Rightarrow> Run list \<Rightarrow> Run list" where
  "pruneRuns taskID rs =
     prune (\<lambda>_. True) globalRunLimit (prune (\<lambda>r. r_TaskID r = taskID) perTaskRunLimit rs)"

definition AppendRun ::
  "instant \<Rightarrow> string \<Rightarrow> Run \<Rightarrow> database \<Rightarrow> (task_error + Run) \<times> database" where
  "AppendRun now fresh run db =
     (let r = run\<lparr>r_ID := (if r_ID run = '''' then fresh else r_ID run),
                  r_At := (if r_At run = zero_time then now else r_At run),
                  r_Status := (if r_Status run = '''' then RunRunning else r_Status run)\<rparr>
      in if list_ex (\<lambda>x. r_ID x = r_ID r) (db_runs db) then (Inl (Sql ''insert run''), db)
         else (Inr r, db\<lparr>db_runs :=
                 pruneRuns (r_TaskID r) (db_runs db @ [r\<lparr>r_At := stored_time (r_At r)\<rparr>])\<rparr>))"

definition UpdateRun :: "Run \<Rightarrow> database \<Rightarrow> database" where
  "UpdateRun run db =
     db\<lparr>db_runs := map (\<lambda>r. if r_ID r = r_ID run
          then r\<lparr>r_Status := r_Status run, r_Error := r_Error run,
                 r_ConversationID := r_ConversationID run, r_RunID := r_RunID run,
                 r_DurationMs := r_DurationMs run, r_Summary := r_Summary run\<rparr>
          else r) (db_runs db)\<rparr>"

definition SetTaskLast :: "string \<Rightarrow> instant \<Rightarrow> string \<Rightarrow> database \<Rightarrow> database" where
  "SetTaskLast tid at status db =
     db\<lparr>db_tasks := map (\<lambda>t. if t_ID t = tid
          then t\<lparr>t_LastRunAt := stored_time at, t_LastStatus := status\<rparr> else t) (db_tasks db)\<rparr>"

definition AdvanceNextRun :: "string \<Rightarrow> instant \<Rightarrow> database \<Rightarrow> database" where
  "AdvanceNextRun tid next' db =
     db\<lparr>db_tasks := map (\<lambda>t. if t_ID t = tid then t\<lparr>t_NextRunAt := stored_time next'\<rparr> else t)
          (db_tasks db)\<rparr>"

definition Reconcile :: "database \<Rightarrow> nat \<times> database" where
  "Reconcile db =
     (length (filter (\<lambda>r. r_Status r = RunRunning) (db_runs db)),
      \<lparr>db_tasks = map (\<lambda>t. if t_LastStatus t = RunRunning then t\<lparr>t_LastStatus := RunFailed\<rparr> else t)
         (db_tasks db),
       db_runs = map (\<lambda>r. if r_Status r = RunRunning
         then r\<lparr>r_Status := RunFailed, r_Error := ''interrupted_by_app_restart''\<rparr> else r) (db_runs db)\<rparr>)"

subsection \<open>Calls\<close>

datatype store_call =
    CallSaveTask instant string Task | CallDeleteTask string | CallAppendRun instant string Run
  | CallUpdateRun Run | CallSetTaskLast string instant string | CallAdvanceNextRun string instant
  | CallReconcile

text \<open>A call that does not return, or whose statement fails, leaves the tables alone.\<close>

fun store_step :: "platform \<Rightarrow> location \<Rightarrow> store_call \<Rightarrow> database \<Rightarrow> database" where
  "store_step pf loc (CallSaveTask now fresh t) db =
     (case SaveTask pf loc now fresh t db of None \<Rightarrow> db | Some (_, db') \<Rightarrow> db')"
| "store_step pf loc (CallDeleteTask i) db = snd (DeleteTask i db)"
| "store_step pf loc (CallAppendRun now fresh r) db = snd (AppendRun now fresh r db)"
| "store_step pf loc (CallUpdateRun r) db = UpdateRun r db"
| "store_step pf loc (CallSetTaskLast i at st) db = SetTaskLast i at st db"
| "store_step pf loc (CallAdvanceNextRun i at) db = AdvanceNextRun i at db"
| "store_step pf loc CallReconcile db = snd (Reconcile db)"

end
