(* ===== verification/AutoTasksLaws.thy ===== *)
theory AutoTasksLaws
  imports AutoTasks
begin

text \<open>
  What the task store promises: history stays within its caps and keeps the newest runs, the
  task table holds only rows validation accepts, and a saved task has a trigger ahead of the
  clock. A history of store calls is the contract \<open>call_system\<close> of the prelude, interpreted on
  \<open>store_step\<close> with the invariant \<open>store_ok\<close>.
\<close>

subsection \<open>Pruning\<close>

lemma newest_first_mset [simp]: "mset (newest_first rs) = mset rs"
  by (simp add: newest_first_def)

lemma newest_first_set [simp]: "set (newest_first rs) = set rs"
  by (simp add: newest_first_def)

lemma newest_first_sorted: "sorted_wrt (\<lambda>x y. run_key y \<le> run_key x) (newest_first rs)"
proof -
  have "sorted_wrt (\<lambda>x y. run_key x \<le> run_key y) (sort_key run_key rs)"
    using sorted_sort_key [of run_key rs] by (simp only: sorted_map)
  then show ?thesis by (simp only: newest_first_def sorted_wrt_rev)
qed

lemma newest_first_ids: "distinct (map r_ID rs) \<Longrightarrow> distinct (map r_ID (newest_first rs))"
proof -
  assume d: "distinct (map r_ID rs)"
  have "mset (map r_ID (newest_first rs)) = mset (map r_ID rs)" by simp
  from mset_eq_imp_distinct_iff [OF this] d show ?thesis by simp
qed

lemma newest_first_filter: "newest_first (filter p rs) = filter p (newest_first rs)"
  by (simp only: newest_first_def rev_filter [symmetric] filter_sort)

lemma run_key_inj: "distinct (map r_ID rs) \<Longrightarrow> inj_on run_key (set rs)"
  by (auto simp: run_key_def distinct_map intro!: inj_onI dest: inj_onD)

lemma filter_dropped:
  "distinct (map f xs) \<Longrightarrow> filter (\<lambda>x. f x \<notin> f ` set (drop n xs)) xs = take n xs"
proof (induction xs arbitrary: n)
  case (Cons x xs)
  show ?case
  proof (cases n)
    case 0
    have "filter (\<lambda>y. f y \<notin> f ` set (x # xs)) (x # xs) = []"
      by (simp add: filter_empty_conv)
    then show ?thesis using 0 by simp
  next
    case (Suc m)
    have "f x \<notin> f ` set (drop m xs)"
      using Cons.prems by (auto dest: in_set_dropD)
    then show ?thesis using Suc Cons by simp
  qed
qed simp

text \<open>What pruning keeps of the selected rows: exactly the \<open>n\<close> newest.\<close>

lemma prune_selected:
  assumes "distinct (map r_ID rs)"
  shows "newest_first (filter sel (prune sel n rs)) = take n (newest_first (filter sel rs))"
proof -
  let ?all = "newest_first (filter sel rs)"
  let ?g = "\<lambda>r. r_ID r \<notin> r_ID ` set (drop n ?all)"
  have d: "distinct (map r_ID ?all)"
    using assms by (intro newest_first_ids distinct_map_filter)
  have "filter sel (prune sel n rs) = filter ?g (filter sel rs)"
    by (simp add: prune_def Let_def conj_commute)
  also have "newest_first \<dots> = filter ?g ?all"
    by (rule newest_first_filter)
  also have "\<dots> = take n ?all" by (rule filter_dropped [OF d])
  finally show ?thesis .
qed

lemma prune_sub: "set (prune sel n rs) \<subseteq> set rs"
  by (auto simp: prune_def Let_def)

lemma prune_ids: "distinct (map r_ID rs) \<Longrightarrow> distinct (map r_ID (prune sel n rs))"
  by (simp add: prune_def Let_def distinct_map_filter)

lemma prune_count: "distinct (map r_ID rs) \<Longrightarrow>
  length (filter sel (prune sel n rs)) = min n (length (filter sel rs))"
proof -
  assume d: "distinct (map r_ID rs)"
  have "length (newest_first xs) = length xs" for xs by (simp add: newest_first_def)
  then show ?thesis using arg_cong [OF prune_selected [OF d], of length sel n] by (simp add: min.commute)
qed

lemma prune_other: "length (filter p (prune sel n rs)) \<le> length (filter p rs)"
proof -
  let ?g = "\<lambda>r. r_ID r \<notin> r_ID ` set (drop n (newest_first (filter sel rs)))"
  have "filter p (prune sel n rs) = filter ?g (filter p rs)"
    by (simp add: prune_def Let_def conj_commute)
  then show ?thesis by (simp only: length_filter_le)
qed


definition run_table_ok :: "Run list \<Rightarrow> bool" where
  "run_table_ok rs \<longleftrightarrow>
     distinct (map r_ID rs) \<and> length rs \<le> globalRunLimit \<and>
     (\<forall>t. length (filter (\<lambda>r. r_TaskID r = t) rs) \<le> perTaskRunLimit)"

lemma AppendRun_table:
  assumes "run_table_ok (db_runs db)"
  shows "run_table_ok (db_runs (snd (AppendRun now fresh run db)))"
proof (cases "fst (AppendRun now fresh run db)")
  case (Inl e)
  then have "snd (AppendRun now fresh run db) = db" by (auto simp: AppendRun_def Let_def split: if_splits)
  then show ?thesis using assms by simp
next
  case (Inr r)
  let ?new = "db_runs db @ [r\<lparr>r_At := stored_time (r_At r)\<rparr>]"
  let ?mine = "\<lambda>x. r_TaskID x = r_TaskID r"
  let ?one = "prune ?mine perTaskRunLimit ?new"
  from Inr have after: "db_runs (snd (AppendRun now fresh run db)) = prune (\<lambda>_. True) globalRunLimit ?one"
    and fresh: "r_ID r \<notin> r_ID ` set (db_runs db)"
    by (auto simp: AppendRun_def Let_def pruneRuns_def list_ex_iff split: if_splits)
  have d: "distinct (map r_ID ?new)" using assms fresh by (simp add: run_table_ok_def)
  have per: "length (filter (\<lambda>x. r_TaskID x = t) ?one) \<le> perTaskRunLimit" for t
  proof (cases "t = r_TaskID r")
    case True
    then show ?thesis using prune_count [OF d, of ?mine perTaskRunLimit] by simp
  next
    case False
    then have "length (filter (\<lambda>x. r_TaskID x = t) ?new) \<le> perTaskRunLimit"
      using assms by (simp add: run_table_ok_def)
    then show ?thesis using prune_other [of "\<lambda>x. r_TaskID x = t" ?mine perTaskRunLimit ?new] by simp
  qed
  have "length (filter (\<lambda>x. r_TaskID x = t) (prune (\<lambda>_. True) globalRunLimit ?one)) \<le> perTaskRunLimit" for t
    using prune_other [of "\<lambda>x. r_TaskID x = t" "\<lambda>_. True" globalRunLimit ?one] per [of t] by simp
  moreover have "length (prune (\<lambda>_. True) globalRunLimit ?one) \<le> globalRunLimit"
    using prune_count [OF prune_ids [OF d], of "\<lambda>_. True" globalRunLimit ?mine perTaskRunLimit] by simp
  ultimately show ?thesis
    unfolding after run_table_ok_def using prune_ids [OF prune_ids [OF d]] by simp
qed


subsection \<open>Tasks\<close>

lemma sameSchedule_eq: "sameSchedule a b \<Longrightarrow> a = b"
  by (simp add: sameSchedule_def)

lemma anchored_bounds [simp]:
  "sc_IntervalHours (anchored loc now x s) = sc_IntervalHours s"
  "sc_IntervalWeeks (anchored loc now x s) = sc_IntervalWeeks s"
  by (simp_all add: anchored_def ensureOrigin_def split: option.split)

text \<open>Rows the task table may hold: one per id, each of which validation accepts.\<close>

definition task_table_ok :: "platform \<Rightarrow> Task list \<Rightarrow> bool" where
  "task_table_ok pf ts \<longleftrightarrow> distinct (map t_ID ts) \<and> (\<forall>t\<in>set ts. Task_Validate pf t = None)"

text \<open>Validation reads the fields a user edits, and nothing else.\<close>

definition same_fields :: "Task \<Rightarrow> Task \<Rightarrow> bool" where
  "same_fields t u \<longleftrightarrow>
     t_Name t = t_Name u \<and> t_Prompt t = t_Prompt u \<and> t_Workspace t = t_Workspace u \<and>
     t_Mode t = t_Mode u \<and> t_Think t = t_Think u \<and> t_ConversationID t = t_ConversationID u \<and>
     t_Notify t = t_Notify u \<and> t_Timeout t = t_Timeout u"

lemma guard_None:
  "(if c then Some e else x) = None \<longleftrightarrow> \<not> c \<and> x = None"
  "(case y of None \<Rightarrow> x | Some e \<Rightarrow> Some e) = None \<longleftrightarrow> y = None \<and> x = None"
  by (simp_all split: option.split)

lemma Validate_fields:
  "same_fields t u \<Longrightarrow> Schedule_Validate (t_Schedule t) = None \<Longrightarrow>
   Task_Validate pf u = None \<Longrightarrow> Task_Validate pf t = None"
  by (simp add: same_fields_def Task_Validate_def Let_def guard_None split del: if_split)

lemma Validate_schedule: "Task_Validate pf t = None \<Longrightarrow> Schedule_Validate (t_Schedule t) = None"
  by (simp add: Task_Validate_def Let_def guard_None split del: if_split)

lemma Next_valid: "Schedule_Next loc s now = Some (Inr t) \<Longrightarrow> Schedule_Validate s = None"
  by (simp add: Schedule_Next_def split: option.splits)

lemma GetTask_mem: "GetTask db i = Inr x \<Longrightarrow> x \<in> set (db_tasks db) \<and> t_ID x = i"
  by (auto simp: GetTask_def find_Some_iff split: option.splits)

lemma stored_row_mem: "stored_row db t = Some x \<Longrightarrow> x \<in> set (db_tasks db)"
  by (auto simp: stored_row_def dest: GetTask_mem split: if_splits sum.splits)

text \<open>What \<open>SaveTask\<close> hands to the statement.\<close>

lemma prepare_shape:
  assumes "prepare_task pf loc now fresh db task = Some (Inr t)"
  defines "t0 \<equiv> clean_task pf task"
  shows "Task_Validate pf t0 = None" "same_fields t t0"
    "t_Schedule t = anchored loc now (stored_row db t0) (t_Schedule t0)"
    "t_UpdatedAt t = now" "t_Enabled t = t_Enabled t0"
    "t_ID t = (if t_ID task = '''' then fresh else t_ID task)"
    "(\<exists>x. stored_row db t0 = Some x \<and> t_Schedule x = t_Schedule t \<and> now < t_NextRunAt t \<and>
       t_NextRunAt t = t_NextRunAt task) \<or>
     Schedule_Next loc (t_Schedule t) now = Some (Inr (t_NextRunAt t))"
proof -
  let ?s = "anchored loc now (stored_row db t0) (t_Schedule t0)"
  let ?t1 = "t0\<lparr>t_Schedule := ?s, t_ID := (if t_ID t0 = '''' then fresh else t_ID t0),
    t_CreatedAt := (if t_ID t0 = '''' \<or> t_CreatedAt t0 = zero_time then now else t_CreatedAt t0),
    t_UpdatedAt := now\<rparr>"
  let ?keep = "case stored_row db t0 of Some x \<Rightarrow> sameSchedule (t_Schedule x) ?s \<and> now < t_NextRunAt t0 | None \<Rightarrow> False"
  show v: "Task_Validate pf t0 = None"
    using assms(1) by (cases "Task_Validate pf t0") (simp_all add: prepare_task_def t0_def)
  have eq: "(if ?keep then Some (Inr ?t1) else case Schedule_Next loc ?s now of
      None \<Rightarrow> None | Some (Inl e) \<Rightarrow> Some (Inl (NextRun e))
    | Some (Inr next') \<Rightarrow> Some (Inr (?t1\<lparr>t_NextRunAt := next'\<rparr>))) = Some (Inr t)"
    using assms(1) v unfolding prepare_task_def Let_def t0_def by (simp split del: if_split)
  have t: "t = ?t1\<lparr>t_NextRunAt := t_NextRunAt t\<rparr> \<and>
    ((\<exists>x. stored_row db t0 = Some x \<and> t_Schedule x = ?s \<and> now < t_NextRunAt t \<and>
       t_NextRunAt t = t_NextRunAt task) \<or>
     Schedule_Next loc ?s now = Some (Inr (t_NextRunAt t)))"
  proof (cases ?keep)
    case True
    with eq have "t = ?t1" by simp
    moreover have "t_NextRunAt t0 = t_NextRunAt task" by (simp add: t0_def clean_task_def)
    ultimately show ?thesis using True by (auto dest: sameSchedule_eq split: option.splits)
  next
    case False
    with eq obtain n where "Schedule_Next loc ?s now = Some (Inr n)" "t = ?t1\<lparr>t_NextRunAt := n\<rparr>"
      by (auto split: option.splits sum.splits simp del: Task.update_convs)
    then show ?thesis by simp
  qed
  have id0: "t_ID t0 = t_ID task" by (simp add: t0_def clean_task_def)
  from t obtain n where n: "t = ?t1\<lparr>t_NextRunAt := n\<rparr>" by blast
  then show sch: "t_Schedule t = ?s" and "same_fields t t0" and "t_UpdatedAt t = now"
    and "t_Enabled t = t_Enabled t0" and "t_ID t = (if t_ID task = '''' then fresh else t_ID task)"
    by (simp_all add: same_fields_def id0)
  show "(\<exists>x. stored_row db t0 = Some x \<and> t_Schedule x = t_Schedule t \<and> now < t_NextRunAt t \<and>
       t_NextRunAt t = t_NextRunAt task) \<or>
     Schedule_Next loc (t_Schedule t) now = Some (Inr (t_NextRunAt t))"
    unfolding sch using t by blast
qed

lemma prepare_valid:
  assumes "prepare_task pf loc now fresh db task = Some (Inr t)" "task_table_ok pf (db_tasks db)"
  shows "Task_Validate pf t = None"
proof -
  note shape = prepare_shape [OF assms(1)]
  have "Schedule_Validate (t_Schedule t) = None"
    using shape(7) assms(2) by (metis Next_valid Validate_schedule stored_row_mem task_table_ok_def)
  then show ?thesis using Validate_fields shape(1,2) by blast
qed


lemma timeout_bounds:
  "timeout_error pf (t_Timeout t) = None \<Longrightarrow> 0 < TimeoutDuration pf t \<and> TimeoutDuration pf t \<le> maxTaskTimeout"
  by (auto simp: timeout_error_def TimeoutDuration_def Let_def DefaultTaskTimeout_def maxTaskTimeout_def
      minute_ns_def hour_ns_def split: if_splits option.splits)

lemma Validate_timeout:
  "Task_Validate pf t = None \<Longrightarrow> 0 < TimeoutDuration pf t \<and> TimeoutDuration pf t \<le> maxTaskTimeout"
  by (rule timeout_bounds) (simp add: Task_Validate_def Let_def guard_None split del: if_split)

lemma stored_task_fields [simp]:
  "same_fields (stored_task t) t" "t_Schedule (stored_task t) = t_Schedule t"
  "t_ID (stored_task t) = t_ID t" "t_Enabled (stored_task t) = t_Enabled t"
  by (simp_all add: stored_task_def same_fields_def)

lemma Validate_same:
  "same_fields t u \<Longrightarrow> t_Schedule t = t_Schedule u \<Longrightarrow> Task_Validate pf u = None \<Longrightarrow> Task_Validate pf t = None"
  using Validate_fields Validate_schedule by metis

lemma map_row_ids:
  "(\<And>u. t_ID (f u) = t_ID u) \<Longrightarrow> map t_ID (map f ts) = map t_ID ts"
  by (induction ts) simp_all

lemma upsert_keeps:
  assumes "task_table_ok pf ts" "Task_Validate pf t = None"
  shows "task_table_ok pf (upsert_task t ts)"
proof (cases "t_ID t \<in> t_ID ` set ts")
  case True
  define f where "f u = (if t_ID u = t_ID t then (stored_task t)\<lparr>t_CreatedAt := t_CreatedAt u,
    t_LastRunAt := t_LastRunAt u, t_LastStatus := t_LastStatus u\<rparr> else u)" for u
  have eq: "upsert_task t ts = map f ts"
    using True by (auto simp: upsert_task_def list_ex_iff f_def)
  have ids: "map t_ID (map f ts) = map t_ID ts" by (rule map_row_ids) (simp add: f_def)
  have "Task_Validate pf (f u) = None" if "u \<in> set ts" for u
  proof (cases "t_ID u = t_ID t")
    case True
    then have "same_fields (f u) t" "t_Schedule (f u) = t_Schedule t"
      by (simp_all add: f_def same_fields_def stored_task_def)
    then show ?thesis using Validate_same assms(2) by blast
  qed (use assms(1) that in \<open>simp add: f_def task_table_ok_def\<close>)
  then show ?thesis using assms(1) ids unfolding eq task_table_ok_def set_map ids by simp
next
  case False
  moreover from this have "upsert_task t ts = ts @ [stored_task t]"
    by (auto simp: upsert_task_def list_ex_iff image_iff)
  moreover have "Task_Validate pf (stored_task t) = None"
    by (rule Validate_same [OF _ _ assms(2)]) simp_all
  ultimately show ?thesis using assms by (auto simp: task_table_ok_def)
qed

lemma map_keeps:
  "task_table_ok pf ts \<Longrightarrow> (\<And>u. t_ID (f u) = t_ID u \<and> same_fields (f u) u \<and> t_Schedule (f u) = t_Schedule u) \<Longrightarrow>
   task_table_ok pf (map f ts)"
  by (auto simp: task_table_ok_def map_row_ids simp del: map_map intro: Validate_same)

subsection \<open>Histories of the store\<close>

definition store_ok :: "platform \<Rightarrow> database \<Rightarrow> bool" where
  "store_ok pf db \<longleftrightarrow> task_table_ok pf (db_tasks db) \<and> run_table_ok (db_runs db)"

lemma map_run_keeps:
  assumes f: "\<And>r. r_ID (f r) = r_ID r \<and> r_TaskID (f r) = r_TaskID r" and ok: "run_table_ok rs"
  shows "run_table_ok (map f rs)"
proof -
  have ids: "map r_ID (map f rs) = map r_ID rs" using f by simp
  have "length (filter (\<lambda>r. r_TaskID r = t) (map f rs)) = length (filter (\<lambda>r. r_TaskID r = t) rs)" for t
    using f by (simp add: filter_map comp_def)
  then show ?thesis using ok unfolding run_table_ok_def length_map ids by simp
qed

lemma filter_run_keeps:
  assumes ok: "run_table_ok rs"
  shows "run_table_ok (filter p rs)"
proof -
  have "length (filter (\<lambda>r. r_TaskID r = t) (filter p rs)) \<le> perTaskRunLimit" for t
  proof -
    have "length (filter p (filter (\<lambda>r. r_TaskID r = t) rs)) \<le> length (filter (\<lambda>r. r_TaskID r = t) rs)"
      by (rule length_filter_le)
    also have "\<dots> \<le> perTaskRunLimit" using ok by (simp add: run_table_ok_def)
    finally show ?thesis by (simp add: conj_commute)
  qed
  moreover have "length (filter p rs) \<le> globalRunLimit"
    using ok by (auto simp: run_table_ok_def intro: order_trans [OF length_filter_le])
  ultimately show ?thesis using ok by (simp add: run_table_ok_def distinct_map_filter)
qed

lemma store_keeps: "store_ok pf db \<Longrightarrow> store_ok pf (store_step pf loc c db)"
proof (cases c)
  case (CallSaveTask now fresh t)
  assume ok: "store_ok pf db"
  show ?thesis
    using ok CallSaveTask prepare_valid [of pf loc now fresh db t]
    by (auto simp: SaveTask_def store_ok_def intro!: upsert_keeps split: option.split sum.split)
next
  case (CallDeleteTask i)
  assume "store_ok pf db"
  then show ?thesis using CallDeleteTask
    by (auto simp: DeleteTask_def store_ok_def task_table_ok_def distinct_map_filter filter_run_keeps)
next
  case (CallAppendRun now fresh r)
  assume ok: "store_ok pf db"
  have "db_tasks (snd (AppendRun now fresh r db)) = db_tasks db" by (simp add: AppendRun_def Let_def)
  then show ?thesis using ok CallAppendRun AppendRun_table [of db now fresh r] by (simp add: store_ok_def)
next
  case (CallUpdateRun r)
  assume "store_ok pf db"
  then show ?thesis using CallUpdateRun by (auto simp: UpdateRun_def store_ok_def intro!: map_run_keeps)
next
  case (CallSetTaskLast i at st)
  assume "store_ok pf db"
  then show ?thesis using CallSetTaskLast
    by (auto simp: SetTaskLast_def store_ok_def same_fields_def intro!: map_keeps)
next
  case (CallAdvanceNextRun i at)
  assume "store_ok pf db"
  then show ?thesis using CallAdvanceNextRun
    by (auto simp: AdvanceNextRun_def store_ok_def same_fields_def intro!: map_keeps)
next
  case CallReconcile
  assume "store_ok pf db"
  then show ?thesis using CallReconcile
    by (auto simp: Reconcile_def store_ok_def same_fields_def intro!: map_keeps map_run_keeps)
qed

interpretation store: call_system "store_step pf loc" "store_ok pf"
  by unfold_locales (rule store_keeps)


subsection \<open>Saving a task\<close>

lemma find_map_id: "(\<And>u. t_ID (f u) = t_ID u) \<Longrightarrow>
  find (\<lambda>u. t_ID u = i) (map f ts) = map_option f (find (\<lambda>u. t_ID u = i) ts)"
  by (induction ts) simp_all

lemma find_append: "find p (xs @ ys) = (case find p xs of None \<Rightarrow> find p ys | r \<Rightarrow> r)"
  by (induction xs) simp_all

lemma find_same: "find (\<lambda>u. t_ID u = i) ts = Some x \<Longrightarrow> t_ID x = i"
  by (induction ts) (simp_all split: if_splits)

lemma upsert_lookup:
  "find (\<lambda>u. t_ID u = i) (upsert_task t ts) =
   (if i = t_ID t then Some (case find (\<lambda>u. t_ID u = i) ts of
        None \<Rightarrow> stored_task t
      | Some u \<Rightarrow> (stored_task t)\<lparr>t_CreatedAt := t_CreatedAt u, t_LastRunAt := t_LastRunAt u,
                              t_LastStatus := t_LastStatus u\<rparr>)
    else find (\<lambda>u. t_ID u = i) ts)"
proof -
  have ex: "list_ex (\<lambda>u. t_ID u = t_ID t) ts \<longleftrightarrow> find (\<lambda>u. t_ID u = t_ID t) ts \<noteq> None"
    by (induction ts) simp_all
  show ?thesis
  proof (cases "find (\<lambda>u. t_ID u = t_ID t) ts")
    case None
    then show ?thesis by (auto simp: upsert_task_def ex find_append split: option.split)
  next
    case (Some u)
    have "upsert_task t ts = map (\<lambda>u. if t_ID u = t_ID t
        then (stored_task t)\<lparr>t_CreatedAt := t_CreatedAt u, t_LastRunAt := t_LastRunAt u,
                              t_LastStatus := t_LastStatus u\<rparr> else u) ts"
      using Some by (simp add: upsert_task_def ex)
    then show ?thesis
      using Some by (cases "find (\<lambda>u. t_ID u = i) ts") (auto simp: find_map_id dest: find_same)
  qed
qed

lemma SaveTask_law:
  assumes "sane_zone loc" "clock_in_range now" "sc_IntervalHours (t_Schedule task) \<le> maxIntervalHours"
    "sc_IntervalWeeks (t_Schedule task) \<le> maxIntervalWeeks"
  shows "\<exists>res db'. SaveTask pf loc now fresh task db = Some (res, db') \<and>
    (case res of
       Inl e \<Rightarrow> db' = db
     | Inr t \<Rightarrow>
         now < t_NextRunAt t \<and>
         (t_NextRunAt t = t_NextRunAt task \<or>
          Schedule_Next loc (t_Schedule t) now = Some (Inr (t_NextRunAt t))) \<and>
         0 < TimeoutDuration pf t \<and> TimeoutDuration pf t \<le> maxTaskTimeout \<and>
         (\<exists>row. GetTask db' (t_ID t) = Inr row \<and> same_fields row t \<and> t_Schedule row = t_Schedule t \<and>
            t_NextRunAt row = stored_time (t_NextRunAt t)) \<and>
         (\<forall>i. if i = t_ID t then True else GetTask db' i = GetTask db i))"
proof -
  let ?t0 = "clean_task pf task"
  let ?s = "anchored loc now (stored_row db ?t0) (t_Schedule ?t0)"
  have "\<exists>y. Schedule_Next loc ?s now = Some y"
    by (rule next_returns) (use assms in \<open>simp_all add: clean_task_def\<close>)
  then have "prepare_task pf loc now fresh db task \<noteq> None"
    by (auto simp: prepare_task_def Let_def split: option.split sum.split)
  then obtain p where p: "prepare_task pf loc now fresh db task = Some p" by blast
  show ?thesis
  proof (cases p)
    case (Inl e)
    then show ?thesis using p by (simp add: SaveTask_def)
  next
    case (Inr t)
    note shape = prepare_shape [OF p [unfolded Inr]]
    have "sc_IntervalHours (t_Schedule t) \<le> maxIntervalHours"
      using assms(3) unfolding shape(3) by (simp add: clean_task_def)
    then have "now < t_NextRunAt t \<and> (t_NextRunAt t = t_NextRunAt task \<or>
          Schedule_Next loc (t_Schedule t) now = Some (Inr (t_NextRunAt t)))"
      using shape(7) next_ahead by blast
    moreover have "timeout_error pf (t_Timeout ?t0) = None"
      using shape(1) by (simp add: Task_Validate_def Let_def guard_None split del: if_split)
    then have "0 < TimeoutDuration pf t \<and> TimeoutDuration pf t \<le> maxTaskTimeout"
      using shape(2) timeout_bounds [of pf t] by (simp add: same_fields_def)
    moreover define db' where "db' = db\<lparr>db_tasks := upsert_task t (db_tasks db)\<rparr>"
    moreover have "\<exists>row. GetTask db' (t_ID t) = Inr row \<and> same_fields row t \<and>
        t_Schedule row = t_Schedule t \<and> t_NextRunAt row = stored_time (t_NextRunAt t)"
      by (cases "find (\<lambda>u. t_ID u = t_ID t) (db_tasks db)")
        (simp_all add: db'_def GetTask_def upsert_lookup same_fields_def stored_task_def)
    moreover have "\<forall>i. if i = t_ID t then True else GetTask db' i = GetTask db i"
      by (simp add: db'_def GetTask_def upsert_lookup)
    moreover have "SaveTask pf loc now fresh task db = Some (Inr t, db')"
      using p Inr by (simp add: SaveTask_def db'_def)
    ultimately show ?thesis by auto
  qed
qed

subsection \<open>The run history of one task\<close>

lemma prune_unselected:
  assumes "distinct (map r_ID rs)" "\<And>x. p x \<Longrightarrow> \<not> sel x"
  shows "filter p (prune sel n rs) = filter p rs"
proof -
  have "r_ID x \<notin> r_ID ` set (drop n (newest_first (filter sel rs)))" if "x \<in> set rs" "p x" for x
  proof
    assume "r_ID x \<in> r_ID ` set (drop n (newest_first (filter sel rs)))"
    then obtain y where "y \<in> set rs" "sel y" "r_ID y = r_ID x"
      by (auto dest!: in_set_dropD)
    then have "y = x" using assms(1) that(1) by (auto simp: distinct_map dest: inj_onD)
    then show False using \<open>sel y\<close> assms(2) that(2) by blast
  qed
  then show ?thesis
    by (auto simp: prune_def Let_def intro!: filter_cong)
qed

lemma prune_all_fit: "length rs \<le> n \<Longrightarrow> prune (\<lambda>_. True) n rs = rs"
  by (simp add: prune_def Let_def newest_first_def)

lemma AppendRun_law:
  assumes "run_table_ok (db_runs db)" "length (db_runs db) < globalRunLimit"
    "AppendRun now fresh run db = (Inr r, db')"
  shows "ListRuns db' t =
    (if t = r_TaskID r
     then take perTaskRunLimit
            (ListRuns (db\<lparr>db_runs := db_runs db @ [r\<lparr>r_At := stored_time (r_At r)\<rparr>]\<rparr>) t)
     else ListRuns db t)"
proof -
  let ?new = "db_runs db @ [r\<lparr>r_At := stored_time (r_At r)\<rparr>]"
  let ?mine = "\<lambda>x. r_TaskID x = r_TaskID r"
  let ?one = "prune ?mine perTaskRunLimit ?new"
  from assms(3) have after: "db_runs db' = prune (\<lambda>_. True) globalRunLimit ?one"
    and fresh: "r_ID r \<notin> r_ID ` set (db_runs db)"
    by (auto simp: AppendRun_def Let_def pruneRuns_def list_ex_iff split: if_splits)
  have d: "distinct (map r_ID ?new)" using assms(1) fresh by (simp add: run_table_ok_def)
  have "length ?one \<le> globalRunLimit"
    using prune_other [of "\<lambda>_. True" ?mine perTaskRunLimit ?new] assms(2) by simp
  then have one: "db_runs db' = ?one" by (simp add: after prune_all_fit)
  show ?thesis
  proof (cases "t = r_TaskID r")
    case True
    then show ?thesis using prune_selected [OF d, of ?mine] by (simp add: ListRuns_def one)
  next
    case False
    then have "filter (\<lambda>x. r_TaskID x = t) ?one = filter (\<lambda>x. r_TaskID x = t) ?new"
      by (intro prune_unselected [OF d]) auto
    then show ?thesis using False by (simp add: ListRuns_def one)
  qed
qed

subsection \<open>The store's promises\<close>

text \<open>
  C29: Whatever calls the store receives after it was created, its tables stay in order: one row
  per task id, every row one that \<open>Validate\<close> accepts (its mode, level, policy and timeout among
  the known ones, its workspace absolute, its schedule valid), one row per run id, at most 100
  runs of one task and at most 1000 in all.
\<close>

theorem store_history_ok:
  "store_ok pf (run_calls (store_step pf loc) cs \<lparr>db_tasks = [], db_runs = []\<rparr>)"
  by (rule store.history_keeps) (simp add: store_ok_def task_table_ok_def run_table_ok_def)

text \<open>
  \<open>SaveTask\<close> returns; when it fails the tables are unchanged. When it succeeds the task has a
  trigger strictly after now, kept from the caller only while the schedule is unchanged and
  otherwise the schedule's own next occurrence; its runs are bounded by a positive timeout of
  at most 24 hours; reading the id back gives the saved fields, schedule and trigger (at the
  column's resolution), and every other task reads as before.
\<close>

theorem SaveTask_schedules_ahead:
  "sane_zone loc \<Longrightarrow> clock_in_range now \<Longrightarrow> sc_IntervalHours (t_Schedule task) \<le> maxIntervalHours \<Longrightarrow>
   sc_IntervalWeeks (t_Schedule task) \<le> maxIntervalWeeks \<Longrightarrow>
   \<exists>res db'. SaveTask pf loc now fresh task db = Some (res, db') \<and>
    (case res of
       Inl e \<Rightarrow> db' = db
     | Inr t \<Rightarrow>
         now < t_NextRunAt t \<and>
         (t_NextRunAt t = t_NextRunAt task \<or>
          Schedule_Next loc (t_Schedule t) now = Some (Inr (t_NextRunAt t))) \<and>
         0 < TimeoutDuration pf t \<and> TimeoutDuration pf t \<le> maxTaskTimeout \<and>
         (\<exists>row. GetTask db' (t_ID t) = Inr row \<and> same_fields row t \<and> t_Schedule row = t_Schedule t \<and>
            t_NextRunAt row = stored_time (t_NextRunAt t)) \<and>
         (\<forall>i. if i = t_ID t then True else GetTask db' i = GetTask db i))"
  by (rule SaveTask_law)

text \<open>
  \<open>AppendRun\<close> prunes the right rows: while the table is below the global cap, the history of
  the run's task becomes the 100 newest of its old rows and the new one, in the listing's
  order, and the history of every other task is untouched.
\<close>

theorem AppendRun_keeps_newest:
  "run_table_ok (db_runs db) \<Longrightarrow> length (db_runs db) < globalRunLimit \<Longrightarrow>
   AppendRun now fresh run db = (Inr r, db') \<Longrightarrow>
   ListRuns db' t =
    (if t = r_TaskID r
     then take perTaskRunLimit
            (ListRuns (db\<lparr>db_runs := db_runs db @ [r\<lparr>r_At := stored_time (r_At r)\<rparr>]\<rparr>) t)
     else ListRuns db t)"
  by (rule AppendRun_law)

definition sample_platform :: platform where
  "sample_platform =
     \<lparr>ParseDuration = (\<lambda>s. if s = ''20m'' then Some (20 * minute_ns) else None),
      IsAbs = (\<lambda>s. has_prefix s ''/''), CanonicalWorkDir = (\<lambda>s. s)\<rparr>"

definition sample_task :: Task where
  "sample_task =
     \<lparr>t_ID = '''', t_Name = '' Report '', t_Prompt = ''Summarize'', t_Schedule = sample_schedule,
      t_Workspace = ''/w'', t_Mode = '''', t_Model = '''', t_Think = ''low'', t_ConversationID = '''',
      t_Notify = '''', t_Timeout = ''20m'', t_Enabled = True, t_CreatedAt = zero_time,
      t_UpdatedAt = zero_time, t_LastRunAt = zero_time, t_LastStatus = '''', t_NextRunAt = zero_time\<rparr>"

definition sample_run :: "string \<Rightarrow> string \<Rightarrow> instant \<Rightarrow> Run" where
  "sample_run i task at =
     \<lparr>r_ID = i, r_TaskID = task, r_At = at, r_Status = '''', r_Error = '''', r_ConversationID = '''',
      r_RunID = '''', r_DurationMs = 0, r_Summary = ''''\<rparr>"

definition sample_db :: database where
  "sample_db = \<lparr>db_tasks = [], db_runs = [sample_run ''a'' ''t'' nanos, sample_run ''b'' ''u'' nanos]\<rparr>"

theorem SaveTask_schedules_ahead_witness:
  "\<exists>res db'. SaveTask sample_platform (fixed_zone 3600) 0 ''t-1'' sample_task sample_db = Some (res, db') \<and>
     (\<forall>t. res = Inr t \<longrightarrow> 0 < t_NextRunAt t)"
  using SaveTask_schedules_ahead [of "fixed_zone 3600" 0 sample_task sample_platform "''t-1''" sample_db]
  by (auto simp: sane_zone_def day_secs_def clock_in_range_def unix_sec_def sample_task_def
      sample_schedule_def maxIntervalHours_def maxIntervalWeeks_def)

theorem AppendRun_keeps_newest_witness:
  "\<exists>r db'. AppendRun 0 ''z'' (sample_run ''c'' ''t'' (2 * nanos)) sample_db = (Inr r, db') \<and>
     map r_ID (ListRuns db' ''t'') = [''c'', ''a'']"
proof -
  let ?res = "AppendRun 0 ''z'' (sample_run ''c'' ''t'' (2 * nanos)) sample_db"
  have "fst ?res = Inr ((sample_run ''c'' ''t'' (2 * nanos))\<lparr>r_Status := RunRunning\<rparr>)"
    by (simp add: AppendRun_def Let_def sample_db_def sample_run_def nanos_def zero_time_def)
  then have "?res = (Inr ((sample_run ''c'' ''t'' (2 * nanos))\<lparr>r_Status := RunRunning\<rparr>), snd ?res)"
    by (metis prod.collapse)
  note step = AppendRun_keeps_newest [OF _ _ this, of "''t''"]
  have "run_table_ok (db_runs sample_db)" "length (db_runs sample_db) < globalRunLimit"
    by (simp_all add: run_table_ok_def sample_db_def sample_run_def globalRunLimit_def perTaskRunLimit_def)
  from step [OF this] have "map r_ID (ListRuns (snd ?res) ''t'') = [''c'', ''a'']"
    by (simp add: ListRuns_def sample_db_def sample_run_def stored_time_def unix_sec_def nanos_def
        newest_first_def run_key_def perTaskRunLimit_def)
  then show ?thesis using \<open>?res = (Inr _, snd ?res)\<close> by (intro exI conjI) assumption+
qed

end
