(* ===== verification/Scheduler.thy ===== *)
theory Scheduler
  imports AutoTasks
begin

text \<open>
  The automation scheduler, \<open>manager.go\<close> and \<open>runner.go\<close> of
  \<open>src/internal/capabilities/automations/\<close>. Goroutines interleave between the critical sections
  of \<open>Manager.mu\<close> and between store calls, so a goroutine is its program counter with its
  locals (\<open>thread\<close>), \<open>run_section\<close> runs it up to the next point where another may run, and a history
  is any sequence of API calls and sections. What a section reads from its surroundings (the
  clock, a fresh id, a failing statement, what the run function returned and whether its
  deadline had passed) is that section's \<open>inputs\<close>. The channels and contexts that only end
  the scan loop are not part of the state.
\<close>

subsection \<open>Settled runs\<close>

record RunResult =
  res_Status :: string
  res_Error :: string
  res_ConversationID :: string
  res_RunID :: string

record agent_result =
  ar_Status :: string
  ar_Err :: "string option"

record SettledRun =
  st_Result :: RunResult
  st_Status :: string
  st_ErrorText :: string

text \<open>\<open>completed\<close> is the core's \<open>agent.StatusCompleted\<close>.\<close>

definition ClassifySettledRun ::
  "string \<Rightarrow> string \<Rightarrow> string \<Rightarrow> agent_result option \<Rightarrow> string option \<Rightarrow> SettledRun" where
  "ClassifySettledRun completed conversationID runID res waitErr =
     (let status = (case res of None \<Rightarrow> ''unknown'' | Some r \<Rightarrow> ar_Status r);
          text1 = (case res of None \<Rightarrow> ''''
                   | Some r \<Rightarrow> (case ar_Err r of None \<Rightarrow> '''' | Some e \<Rightarrow> e));
          text2 = (case waitErr of None \<Rightarrow> text1 | Some e \<Rightarrow> (if text1 = '''' then e else text1));
          done_ok = (waitErr = None \<and> res \<noteq> None \<and> status = completed)
      in \<lparr>st_Result =
            \<lparr>res_Status = (if done_ok then RunCompleted else RunFailed),
             res_Error = (if done_ok then '''' else text2),
             res_ConversationID = conversationID, res_RunID = runID\<rparr>,
          st_Status = status, st_ErrorText = text2\<rparr>)"

text \<open>The status and error the manager records for a run function's return.\<close>

definition settle_run ::
  "bool \<Rightarrow> bool \<Rightarrow> int \<Rightarrow> RunResult \<Rightarrow> string option \<Rightarrow> string \<times> string" where
  "settle_run timedOut canceled timeout res runErr =
     (let status = (if runErr = None \<and> res_Status res \<noteq> '''' then res_Status res else RunFailed);
          error = (case runErr of Some e \<Rightarrow> e | None \<Rightarrow> res_Error res)
      in if status = RunCompleted then (status, error)
         else if timedOut then (RunTimeout, ''run timed out after '' @ FormatTimeout timeout)
         else if canceled then (RunCanceled, '''')
         else (status, error))"

subsection \<open>The manager\<close>

record ManagerOptions =
  opt_Store :: bool
  opt_Run :: bool
  opt_Window :: int
  opt_Limit :: int

record Manager =
  m_window :: int
  m_limit :: int
  m_pending :: "string list"
  m_pendingSet :: "string set"
  m_running :: "string set"
  m_active :: "string \<rightharpoonup> bool"
  m_started :: bool
  m_stopped :: bool
  m_db :: database

datatype manager_error =
    NeedsStore | NeedsRun | ManagerStopped | AlreadyQueued | RunNotActive string

definition NewManager :: "ManagerOptions \<Rightarrow> database \<Rightarrow> manager_error + Manager" where
  "NewManager opts db =
     (if \<not> opt_Store opts then Inl NeedsStore
      else if \<not> opt_Run opts then Inl NeedsRun
      else Inr \<lparr>m_window = (if opt_Window opts \<le> 0 then 2 * minute_ns else opt_Window opts),
                m_limit = (if opt_Limit opts \<le> 0 then 4 else opt_Limit opts),
                m_pending = [], m_pendingSet = {}, m_running = {}, m_active = Map.empty,
                m_started = False, m_stopped = False, m_db = db\<rparr>)"

text \<open>Program counters: the scan (\<open>Tick\<close>), \<open>dispatch\<close>, the run goroutine and \<open>Start\<close>'s reconcile.\<close>

datatype thread =
    TickStart
  | TickList
  | TickScan instant "Task list"
  | TickDecide instant Task "Task list"
  | TickEnqueue instant string "Task list"
  | Dispatch
  | RunLoad string
  | RunAppend string Task
  | RunRegister string Task Run
  | RunCall string Task Run
  | RunPersist string Run
  | RunMark string Run
  | RunDefer string
  | StartReconcile

record inputs =
  o_now :: instant
  o_fresh :: string
  o_fault :: bool
  o_result :: RunResult
  o_err :: "string option"
  o_timedOut :: bool

definition busy :: "Manager \<Rightarrow> string \<Rightarrow> bool" where
  "busy m i \<longleftrightarrow> i \<in> m_pendingSet m \<or> i \<in> m_running m"

definition enqueue :: "string \<Rightarrow> Manager \<Rightarrow> Manager" where
  "enqueue i m = m\<lparr>m_pendingSet := insert i (m_pendingSet m), m_pending := m_pending m @ [i]\<rparr>"

subsection \<open>API calls\<close>

definition RunNow :: "string \<Rightarrow> Manager \<Rightarrow> manager_error option \<times> Manager \<times> thread list" where
  "RunNow i m =
     (if m_stopped m then (Some ManagerStopped, m, [])
      else if busy m i then (Some AlreadyQueued, m, [])
      else (None, enqueue i m, [Dispatch]))"

definition Discard :: "string \<Rightarrow> Manager \<Rightarrow> Manager" where
  "Discard i m =
     (if i \<notin> m_pendingSet m then m
      else m\<lparr>m_pendingSet := m_pendingSet m - {i}, m_pending := remove1 i (m_pending m)\<rparr>)"

definition CancelRun :: "string \<Rightarrow> Manager \<Rightarrow> manager_error option \<times> Manager" where
  "CancelRun r m =
     (if m_active m r = None then (Some (RunNotActive r), m)
      else (None, m\<lparr>m_active := (m_active m)(r \<mapsto> True)\<rparr>))"

definition Start :: "Manager \<Rightarrow> Manager \<times> thread list" where
  "Start m =
     (if m_started m then (m, [])
      else (m\<lparr>m_started := True, m_stopped := False\<rparr>, [StartReconcile]))"

definition Stop :: "Manager \<Rightarrow> Manager" where
  "Stop m =
     (if \<not> m_started m then m
      else m\<lparr>m_started := False, m_stopped := True, m_pending := [], m_pendingSet := {}\<rparr>)"

definition Manager_Task :: "string \<Rightarrow> Manager \<Rightarrow> task_error + Task" where
  "Manager_Task i m = GetTask (m_db m) i"

subsection \<open>Sections\<close>

definition on_db :: "(database \<Rightarrow> database) \<Rightarrow> Manager \<Rightarrow> Manager" where
  "on_db f m = m\<lparr>m_db := f (m_db m)\<rparr>"

text \<open>
  \<open>Tick\<close>: the check that the manager runs, the listing, and the loop's guards for one task up to
  its schedule.
\<close>

definition tick_start :: "Manager \<Rightarrow> Manager \<times> thread list" where
  "tick_start m = (if m_stopped m then (m, []) else (m, [TickList]))"

definition tick_list :: "inputs \<Rightarrow> Manager \<Rightarrow> Manager \<times> thread list" where
  "tick_list inp m =
     (if o_fault inp then (m, []) else (m, [TickScan (o_now inp) (ListTasks (m_db m))]))"

definition tick_scan :: "instant \<Rightarrow> Task list \<Rightarrow> Manager \<Rightarrow> Manager \<times> thread list" where
  "tick_scan now ts m =
     (case ts of
        [] \<Rightarrow> (m, [Dispatch])
      | t # rest \<Rightarrow>
          (if \<not> t_Enabled t \<or> busy m (t_ID t) \<or> t_NextRunAt t = zero_time \<or> t_NextRunAt t > now
           then (m, [TickScan now rest]) else (m, [TickDecide now t rest])))"

text \<open>
  One task of the scan, once it is known to be idle and due: the schedule's next occurrence
  decides between a corrupt schedule, a missed occurrence and a due one.
\<close>

definition tick_decide ::
  "location \<Rightarrow> inputs \<Rightarrow> instant \<Rightarrow> Task \<Rightarrow> Task list \<Rightarrow> Manager \<Rightarrow> Manager \<times> thread list" where
  "tick_decide loc inp now t ts m =
     (let advance = (\<lambda>at. if o_fault inp then m else on_db (AdvanceNextRun (t_ID t) at) m)
      in case Schedule_Next loc (t_Schedule t) now of
           None \<Rightarrow> (m, [TickDecide now t ts])
         | Some (Inl e) \<Rightarrow> (advance (AddDate loc now 1), [TickScan now ts])
         | Some (Inr next') \<Rightarrow>
             (if now - t_NextRunAt t > m_window m then (advance next', [TickScan now ts])
              else if o_fault inp then (m, [TickScan now ts])
              else (advance next', [TickEnqueue now (t_ID t) ts])))"

definition dispatch :: "Manager \<Rightarrow> Manager \<times> thread list" where
  "dispatch m =
     (if m_stopped m then (m, [])
      else if int (card (m_running m)) \<ge> m_limit m \<or> m_pending m = [] then (m, [])
      else (let i = hd (m_pending m) in
            (m\<lparr>m_pending := tl (m_pending m), m_pendingSet := m_pendingSet m - {i},
               m_running := insert i (m_running m)\<rparr>, [Dispatch, RunLoad i])))"

definition new_run :: "string \<Rightarrow> string \<Rightarrow> instant \<Rightarrow> Run" where
  "new_run rid taskID at =
     \<lparr>r_ID = rid, r_TaskID = taskID, r_At = at, r_Status = RunRunning, r_Error = '''',
      r_ConversationID = '''', r_RunID = '''', r_DurationMs = 0, r_Summary = ''''\<rparr>"

text \<open>\<open>Milliseconds\<close> truncates toward zero.\<close>

definition millis :: "int \<Rightarrow> int" where
  "millis d = (if d < 0 then - (- d div 1000000) else d div 1000000)"

definition run_call :: "platform \<Rightarrow> inputs \<Rightarrow> string \<Rightarrow> Task \<Rightarrow> Run \<Rightarrow> Manager \<Rightarrow> Manager \<times> thread list" where
  "run_call pf inp i t r m =
     (let canceled = (m_active m (r_ID r) = Some True);
          (status, error) =
            settle_run (o_timedOut inp) canceled (TimeoutDuration pf t) (o_result inp) (o_err inp)
      in (m\<lparr>m_active := (m_active m)(r_ID r := None)\<rparr>,
          [RunPersist i
             (r\<lparr>r_Status := status, r_Error := error, r_DurationMs := millis (o_now inp - r_At r),
                r_ConversationID := res_ConversationID (o_result inp),
                r_RunID := res_RunID (o_result inp)\<rparr>)]))"

fun run_section :: "platform \<Rightarrow> location \<Rightarrow> inputs \<Rightarrow> thread \<Rightarrow> Manager \<Rightarrow> Manager \<times> thread list" where
  "run_section pf loc inp TickStart m = tick_start m"
| "run_section pf loc inp TickList m = tick_list inp m"
| "run_section pf loc inp (TickScan now ts) m = tick_scan now ts m"
| "run_section pf loc inp (TickDecide now t ts) m = tick_decide loc inp now t ts m"
| "run_section pf loc inp (TickEnqueue now i ts) m = (enqueue i m, [TickScan now ts])"
| "run_section pf loc inp Dispatch m = dispatch m"
| "run_section pf loc inp (RunLoad i) m =
     (case GetTask (m_db m) i of
        Inl _ \<Rightarrow> (m, [RunDefer i])
      | Inr t \<Rightarrow> (m, [if o_fault inp then RunDefer i else RunAppend i t]))"
| "run_section pf loc inp (RunAppend i t) m =
     (if o_fault inp then (m, [RunDefer i])
      else case AppendRun (o_now inp) (o_fresh inp) (new_run (o_fresh inp) i (o_now inp)) (m_db m) of
             (Inl _, db) \<Rightarrow> (m\<lparr>m_db := db\<rparr>, [RunDefer i])
           | (Inr r, db) \<Rightarrow> (m\<lparr>m_db := db\<rparr>, [RunRegister i t r]))"
| "run_section pf loc inp (RunRegister i t r) m =
     (m\<lparr>m_active := (m_active m)(r_ID r \<mapsto> False)\<rparr>, [RunCall i t r])"
| "run_section pf loc inp (RunCall i t r) m = run_call pf inp i t r m"
| "run_section pf loc inp (RunPersist i r) m =
     (if o_fault inp then m else on_db (UpdateRun r) m, [RunMark i r])"
| "run_section pf loc inp (RunMark i r) m =
     (if o_fault inp then m else on_db (SetTaskLast i (r_At r) (r_Status r)) m, [RunDefer i])"
| "run_section pf loc inp (RunDefer i) m = (m\<lparr>m_running := m_running m - {i}\<rparr>, [Dispatch])"
| "run_section pf loc inp StartReconcile m =
     (if o_fault inp then m else on_db (\<lambda>db. snd (Reconcile db)) m, [])"

lemma scan_sections [simp]:
  "tick_start m = (if m_stopped m then (m, []) else (m, [TickList]))"
  "tick_list inp m = (if o_fault inp then (m, []) else (m, [TickScan (o_now inp) (ListTasks (m_db m))]))"
  "tick_scan now [] m = (m, [Dispatch])"
  "tick_scan now (t # ts) m =
     (if \<not> t_Enabled t \<or> busy m (t_ID t) \<or> t_NextRunAt t = zero_time \<or> t_NextRunAt t > now
      then (m, [TickScan now ts]) else (m, [TickDecide now t ts]))"
  by (simp_all add: tick_start_def tick_list_def tick_scan_def)

subsection \<open>Interleavings\<close>

text \<open>A call of the API, a write of the settings panel to the tables, or a section of goroutine \<open>k\<close>.\<close>

record sys =
  sy_mgr :: Manager
  sy_threads :: "thread list"

datatype event =
    CallRunNow string | CallDiscard string | CallCancelRun string | CallStart | CallStop | CallTick
  | CallStore store_call | Go nat inputs

definition spawn :: "Manager \<Rightarrow> thread list \<Rightarrow> sys \<Rightarrow> sys" where
  "spawn m new s = \<lparr>sy_mgr = m, sy_threads = sy_threads s @ new\<rparr>"

fun sys_step :: "platform \<Rightarrow> location \<Rightarrow> event \<Rightarrow> sys \<Rightarrow> sys" where
  "sys_step pf loc (CallRunNow i) s = (case RunNow i (sy_mgr s) of (e, m, new) \<Rightarrow> spawn m new s)"
| "sys_step pf loc (CallDiscard i) s = spawn (Discard i (sy_mgr s)) [] s"
| "sys_step pf loc (CallCancelRun r) s = spawn (snd (CancelRun r (sy_mgr s))) [] s"
| "sys_step pf loc CallStart s = (case Start (sy_mgr s) of (m, new) \<Rightarrow> spawn m new s)"
| "sys_step pf loc CallStop s = spawn (Stop (sy_mgr s)) [] s"
| "sys_step pf loc CallTick s = spawn (sy_mgr s) [TickStart] s"
| "sys_step pf loc (CallStore c) s = spawn (on_db (store_step pf loc c) (sy_mgr s)) [] s"
| "sys_step pf loc (Go k inp) s =
     (if k < length (sy_threads s) then
        (case run_section pf loc inp (sy_threads s ! k) (sy_mgr s) of
           (m, new) \<Rightarrow> \<lparr>sy_mgr = m,
             sy_threads = take k (sy_threads s) @ new @ drop (Suc k) (sy_threads s)\<rparr>)
      else s)"

definition boot :: "Manager \<Rightarrow> sys" where
  "boot m = \<lparr>sy_mgr = m, sy_threads = []\<rparr>"

end
