(* ===== verification/SchedulerLaws.thy ===== *)
theory SchedulerLaws
  imports Scheduler AutoTasksLaws
begin

text \<open>
  What the scheduler promises under every interleaving of its goroutines and API calls. The
  contract \<open>call_system\<close> is interpreted three times: on all histories with the slot limit, on the
  histories in which nobody else queues a task a scan is about to queue with at most one run per
  task, and on the histories that never start again over a left-over queue with the promise that
  queued work has a goroutine on its way to \<open>dispatch\<close>. A section is classified once, by
  \<open>queue_move\<close>. Two traces at the end show that the restrictions are needed.
\<close>

subsection \<open>Threads and the queue\<close>

fun live :: "thread \<Rightarrow> string list" where
  "live (RunLoad i) = [i]"
| "live (RunAppend i t) = [i]"
| "live (RunRegister i t r) = [i]"
| "live (RunCall i t r) = [i]"
| "live (RunPersist i r) = [i]"
| "live (RunMark i r) = [i]"
| "live (RunDefer i) = [i]"
| "live _ = []"

text \<open>The task a scan has decided to queue, between its busy check and its enqueue.\<close>

fun window :: "thread \<Rightarrow> string list" where
  "window (TickDecide now t ts) = [t_ID t]"
| "window (TickEnqueue now i ts) = [i]"
| "window _ = []"

definition live_ids :: "thread list \<Rightarrow> string list" where
  "live_ids ths = concat (map live ths)"

definition window_ids :: "thread list \<Rightarrow> string list" where
  "window_ids ths = concat (map window ths)"

lemma ids_simps [simp]:
  "live_ids [] = []" "live_ids (t # ts) = live t @ live_ids ts" "live_ids (xs @ ys) = live_ids xs @ live_ids ys"
  "window_ids [] = []" "window_ids (t # ts) = window t @ window_ids ts"
  "window_ids (xs @ ys) = window_ids xs @ window_ids ys"
  by (simp_all add: live_ids_def window_ids_def)

text \<open>Goroutines that will reach \<open>dispatch\<close> before they end.\<close>

fun dispatcher :: "thread \<Rightarrow> bool" where
  "dispatcher (TickScan now ts) = True"
| "dispatcher (TickDecide now t ts) = True"
| "dispatcher (TickEnqueue now i ts) = True"
| "dispatcher Dispatch = True"
| "dispatcher th = (live th \<noteq> [])"

lemma live_dispatcher: "live th \<noteq> [] \<Longrightarrow> dispatcher th"
  by (cases th) simp_all

lemma live_ids_dispatcher: "live_ids ths \<noteq> [] \<Longrightarrow> list_ex dispatcher ths"
  by (induction ths) (auto intro: live_dispatcher)

text \<open>A section replaces one thread.\<close>

lemma go_cases:
  assumes "P s"
    "\<And>xs th ys m new. sy_threads s = xs @ th # ys \<Longrightarrow> k = length xs \<Longrightarrow>
       run_section pf loc inp th (sy_mgr s) = (m, new) \<Longrightarrow> P \<lparr>sy_mgr = m, sy_threads = xs @ new @ ys\<rparr>"
  shows "P (sys_step pf loc (Go k inp) s)"
proof (cases "k < length (sy_threads s)")
  case True
  obtain m new where r: "run_section pf loc inp (sy_threads s ! k) (sy_mgr s) = (m, new)" by fastforce
  have "sy_threads s = take k (sy_threads s) @ sy_threads s ! k # drop (Suc k) (sy_threads s)"
    using True by (rule id_take_nth_drop)
  from assms(2) [OF this _ r] True r show ?thesis by simp
qed (simp add: assms(1))

text \<open>Every section, seen through the fields that matter to scheduling.\<close>

definition same_queue :: "Manager \<Rightarrow> Manager \<Rightarrow> bool" where
  "same_queue m m' \<longleftrightarrow>
     m_pending m' = m_pending m \<and> m_pendingSet m' = m_pendingSet m \<and> m_running m' = m_running m \<and>
     m_limit m' = m_limit m \<and> m_stopped m' = m_stopped m \<and> m_started m' = m_started m"

lemma same_queue_simps [simp]:
  "same_queue m m" "same_queue m (on_db f m)" "same_queue m (m\<lparr>m_active := a\<rparr>)" "same_queue m (m\<lparr>m_db := d\<rparr>)"
  by (simp_all add: same_queue_def on_db_def)

text \<open>
  What a section does to the queue: it hands its thread on, opens or closes a scan's window,
  enqueues the task of the window, dispatches, or gives a slot back.
\<close>

inductive queue_move :: "thread \<Rightarrow> Manager \<Rightarrow> Manager \<Rightarrow> thread list \<Rightarrow> bool" where
  handed: "same_queue m m' \<Longrightarrow> concat (map live new) = live th \<Longrightarrow>
    set (concat (map window new)) \<subseteq> set (window th) \<Longrightarrow> length (concat (map window new)) \<le> 1 \<Longrightarrow>
    th \<noteq> Dispatch \<Longrightarrow> dispatcher th \<longrightarrow> list_ex dispatcher new \<Longrightarrow> queue_move th m m' new"
| opened: "\<not> busy m (t_ID t) \<Longrightarrow> queue_move (TickScan now (t # ts)) m m [TickDecide now t ts]"
| queued: "queue_move (TickEnqueue now i ts) m (enqueue i m) [TickScan now ts]"
| idle: "m_stopped m \<or> m_limit m \<le> int (card (m_running m)) \<or> m_pending m = [] \<Longrightarrow>
    queue_move Dispatch m m []"
| dispatched: "\<not> m_stopped m \<Longrightarrow> int (card (m_running m)) < m_limit m \<Longrightarrow> m_pending m = i # p \<Longrightarrow>
    queue_move Dispatch m (m\<lparr>m_pending := p, m_pendingSet := m_pendingSet m - {i},
      m_running := insert i (m_running m)\<rparr>) [Dispatch, RunLoad i]"
| released: "queue_move (RunDefer i) m (m\<lparr>m_running := m_running m - {i}\<rparr>) [Dispatch]"

lemma section_moves:
  assumes "run_section pf loc inp th m = (m', new)"
  shows "queue_move th m m' new"
proof (cases th)
  case (TickScan now ts)
  with assms show ?thesis
    by (cases ts) (auto intro: handed opened split: if_splits)
next
  case (TickDecide now t ts)
  with assms show ?thesis
    by (auto simp: tick_decide_def Let_def intro!: handed split: option.splits sum.splits if_splits)
next
  case Dispatch
  with assms show ?thesis
    by (cases "m_pending m") (auto simp: dispatch_def intro: idle dispatched split: if_splits)
next
  case (RunCall i t r)
  with assms show ?thesis
    by (auto simp: run_call_def Let_def intro!: handed split: prod.splits)
next
  case (TickEnqueue now i ts)
  with assms show ?thesis by (auto intro: queued)
next
  case (RunDefer i)
  with assms show ?thesis by (auto intro: released)
qed (use assms in \<open>auto intro!: handed split: if_splits sum.splits prod.splits\<close>)


subsection \<open>Every interleaving\<close>

definition sched_ok :: "sys \<Rightarrow> bool" where
  "sched_ok s \<longleftrightarrow>
     (let m = sy_mgr s in
      0 < m_limit m \<and> finite (m_running m) \<and> int (card (m_running m)) \<le> m_limit m \<and>
      m_pendingSet m \<subseteq> set (m_pending m) \<and> m_running m \<subseteq> set (live_ids (sy_threads s)))"

lemma move_ok:
  assumes "queue_move th m m' new"
    "sched_ok \<lparr>sy_mgr = m, sy_threads = xs @ th # ys\<rparr>"
  shows "sched_ok \<lparr>sy_mgr = m', sy_threads = xs @ new @ ys\<rparr>"
  using assms
proof (cases rule: queue_move.cases)
  case handed
  then have "set (live_ids new) = set (live th)" by (simp add: live_ids_def)
  then show ?thesis using handed assms(2) by (auto simp: sched_ok_def same_queue_def Let_def)
next
  case queued
  then show ?thesis using assms(2) by (auto simp: sched_ok_def enqueue_def Let_def)
next
  case (dispatched i p)
  have "card (insert i (m_running m)) \<le> Suc (card (m_running m))" by (rule card_insert_le_m1) simp_all
  then have "int (card (insert i (m_running m))) \<le> m_limit m" using dispatched(5) by linarith
  then show ?thesis using dispatched assms(2) by (auto simp: sched_ok_def Let_def)
next
  case (released i)
  have "card (m_running m - {i}) \<le> card (m_running m)" by (rule card_Diff1_le)
  then show ?thesis using released assms(2) by (auto simp: sched_ok_def Let_def)
qed (use assms(2) in \<open>auto simp: sched_ok_def Let_def\<close>)

lemma remove1_keeps: "S \<subseteq> set xs \<Longrightarrow> S - {i} \<subseteq> set (remove1 i xs)"
  by (metis Diff_iff in_set_remove1 insertI1 subset_iff)

lemma sched_keeps: "sched_ok s \<Longrightarrow> sched_ok (sys_step pf loc ev s)"
proof (cases ev)
  case (Go k inp)
  assume ok: "sched_ok s"
  show ?thesis unfolding Go
  proof (rule go_cases [where P = sched_ok, OF ok])
    fix xs th ys m new
    assume s: "sy_threads s = xs @ th # ys" and r: "run_section pf loc inp th (sy_mgr s) = (m, new)"
    have "sched_ok \<lparr>sy_mgr = sy_mgr s, sy_threads = xs @ th # ys\<rparr>" using ok s by (cases s) simp
    then show "sched_ok \<lparr>sy_mgr = m, sy_threads = xs @ new @ ys\<rparr>" by (rule move_ok [OF section_moves [OF r]])
  qed
next
  case (CallDiscard i)
  assume ok: "sched_ok s"
  show ?thesis using ok remove1_keeps [of "m_pendingSet (sy_mgr s)" "m_pending (sy_mgr s)" i]
    unfolding CallDiscard by (auto simp: sched_ok_def spawn_def Discard_def Let_def)
qed (auto simp: sched_ok_def spawn_def RunNow_def CancelRun_def Start_def Stop_def enqueue_def on_db_def Let_def)

interpretation scheduler: call_system "sys_step pf loc" sched_ok
  by unfold_locales (rule sched_keeps)

lemma boot_ok: "NewManager opts db = Inr m \<Longrightarrow> sched_ok (boot m)"
  by (auto simp: NewManager_def sched_ok_def boot_def Let_def split: if_splits)

subsection \<open>Without the scan's race\<close>

fun racy :: "event \<Rightarrow> sys \<Rightarrow> bool" where
  "racy (CallRunNow i) s = (i \<in> set (window_ids (sy_threads s)))"
| "racy (Go k inp) s =
     (k < length (sy_threads s) \<and>
      (case sy_threads s ! k of
         TickScan now (t # ts) \<Rightarrow> t_ID t \<in> set (window_ids (sy_threads s))
       | _ \<Rightarrow> False))"
| "racy ev s = False"

definition calm_step :: "platform \<Rightarrow> location \<Rightarrow> event \<Rightarrow> sys \<Rightarrow> sys" where
  "calm_step pf loc ev s = (if racy ev s then s else sys_step pf loc ev s)"

definition exclusive :: "sys \<Rightarrow> bool" where
  "exclusive s \<longleftrightarrow>
     (let m = sy_mgr s; ths = sy_threads s in
      distinct (m_pending m @ live_ids ths @ window_ids ths) \<and>
      m_pendingSet m = set (m_pending m) \<and> m_running m = set (live_ids ths) \<and>
      0 < m_limit m \<and> int (length (live_ids ths)) \<le> m_limit m)"

lemma short_distinct: "length xs \<le> 1 \<Longrightarrow> distinct xs"
  by (cases xs) (auto simp: le_Suc_eq)

lemma distinct_swap:
  "distinct (p @ l @ a @ w @ b) \<Longrightarrow> set w' \<subseteq> set w \<Longrightarrow> distinct w' \<Longrightarrow> distinct (p @ l @ a @ w' @ b)"
  by auto

lemma move_exclusive:
  assumes "queue_move th m m' new"
    "exclusive \<lparr>sy_mgr = m, sy_threads = xs @ th # ys\<rparr>"
    "\<And>now t ts. th = TickScan now (t # ts) \<Longrightarrow> t_ID t \<notin> set (window_ids (xs @ th # ys))"
  shows "exclusive \<lparr>sy_mgr = m', sy_threads = xs @ new @ ys\<rparr>"
  using assms(1)
proof (cases rule: queue_move.cases)
  case handed
  then have n: "live_ids new = live th" "set (window_ids new) \<subseteq> set (window th)" "distinct (window_ids new)"
    by (simp_all add: live_ids_def window_ids_def short_distinct)
  have "distinct (m_pending m @ live_ids (xs @ th # ys) @ window_ids xs @ window th @ window_ids ys)"
    using assms(2) by (simp only: exclusive_def Let_def ids_simps sys.simps)
  from distinct_swap [OF this n(2,3)]
  have "distinct (m_pending m @ live_ids (xs @ new @ ys) @ window_ids (xs @ new @ ys))"
    by (simp only: ids_simps n(1))
  moreover have "live_ids (xs @ new @ ys) = live_ids (xs @ th # ys)" by (simp add: n(1))
  ultimately show ?thesis
    using handed(1) assms(2) by (simp only: exclusive_def same_queue_def Let_def sys.simps)
next
  case (opened t now ts)
  then show ?thesis using assms(2) assms(3) [OF opened(1)]
    by (auto simp: exclusive_def busy_def Let_def)
next
  case (queued now i ts)
  then show ?thesis using assms(2) by (auto simp: exclusive_def enqueue_def Let_def)
next
  case (dispatched i p)
  have "card (set (live_ids (xs @ th # ys))) = length (live_ids (xs @ th # ys))"
    using assms(2) by (intro distinct_card) (simp add: exclusive_def Let_def)
  then have "int (length (live_ids (xs @ th # ys))) < m_limit m"
    using dispatched assms(2) by (simp add: exclusive_def Let_def)
  then show ?thesis using dispatched assms(2) by (auto simp: exclusive_def Let_def)
next
  case (released i)
  then show ?thesis using assms(2) by (auto simp: exclusive_def Let_def)
qed (use assms(2) in \<open>auto simp: exclusive_def Let_def\<close>)

lemma calm_keeps: "exclusive s \<Longrightarrow> exclusive (calm_step pf loc ev s)"
proof (cases "racy ev s")
  case False
  assume ok: "exclusive s"
  show ?thesis
  proof (cases ev)
    case (Go k inp)
    have "exclusive (sys_step pf loc (Go k inp) s)"
    proof (rule go_cases [where P = exclusive, OF ok])
      fix xs th ys m new
      assume s: "sy_threads s = xs @ th # ys" "k = length xs"
        and r: "run_section pf loc inp th (sy_mgr s) = (m, new)"
      have e: "exclusive \<lparr>sy_mgr = sy_mgr s, sy_threads = xs @ th # ys\<rparr>" using ok s by (cases s) simp
      have "t_ID t \<notin> set (window_ids (xs @ th # ys))" if "th = TickScan now (t # ts)" for now t ts
        using False that unfolding Go by (simp add: s nth_append)
      then show "exclusive \<lparr>sy_mgr = m, sy_threads = xs @ new @ ys\<rparr>"
        using move_exclusive [OF section_moves [OF r] e] by blast
    qed
    then show ?thesis using False unfolding Go calm_step_def by (simp only: if_False)
  next
    case (CallDiscard i)
    then show ?thesis using ok False
      by (auto simp: calm_step_def exclusive_def spawn_def Discard_def Let_def set_remove1_eq)
  next
    case (CallRunNow i)
    then show ?thesis using ok False
      by (auto simp: calm_step_def exclusive_def spawn_def RunNow_def busy_def enqueue_def Let_def)
  qed (use ok in \<open>auto simp: calm_step_def exclusive_def spawn_def CancelRun_def Start_def Stop_def on_db_def Let_def\<close>)
qed (simp add: calm_step_def)

interpretation calm: call_system "calm_step pf loc" exclusive
  by unfold_locales (rule calm_keeps)

lemma boot_exclusive: "NewManager opts db = Inr m \<Longrightarrow> exclusive (boot m)"
  by (auto simp: NewManager_def exclusive_def boot_def Let_def split: if_splits)


subsection \<open>Nothing queued is forgotten\<close>

definition prompt :: "sys \<Rightarrow> bool" where
  "prompt s \<longleftrightarrow>
     sched_ok s \<and>
     (m_pending (sy_mgr s) = [] \<or> m_stopped (sy_mgr s) \<or> list_ex dispatcher (sy_threads s))"

text \<open>Starting again with a queue left over is left out.\<close>

definition fresh_start_step :: "platform \<Rightarrow> location \<Rightarrow> event \<Rightarrow> sys \<Rightarrow> sys" where
  "fresh_start_step pf loc ev s =
     (if ev = CallStart \<and> m_pending (sy_mgr s) \<noteq> [] then s else sys_step pf loc ev s)"

lemma move_prompt:
  assumes "queue_move th m m' new" "prompt \<lparr>sy_mgr = m, sy_threads = xs @ th # ys\<rparr>"
  shows "prompt \<lparr>sy_mgr = m', sy_threads = xs @ new @ ys\<rparr>"
proof -
  have ok: "sched_ok \<lparr>sy_mgr = m', sy_threads = xs @ new @ ys\<rparr>"
    using assms by (auto simp: prompt_def intro: move_ok)
  show ?thesis
    using assms(1)
  proof (cases rule: queue_move.cases)
    case handed
    then show ?thesis using ok assms(2) by (auto simp: prompt_def same_queue_def)
  next
    case idle
    have "list_ex dispatcher (xs @ ys)" if "m_limit m \<le> int (card (m_running m))"
    proof -
      have "m_running m \<noteq> {}" "m_running m \<subseteq> set (live_ids (xs @ ys))"
        using that assms(2) idle(1) by (auto simp: prompt_def sched_ok_def Let_def)
      then show ?thesis by (intro live_ids_dispatcher) auto
    qed
    then show ?thesis using idle ok by (auto simp: prompt_def)
  qed (use ok in \<open>auto simp: prompt_def\<close>)
qed

lemma prompt_keeps: "prompt s \<Longrightarrow> prompt (fresh_start_step pf loc ev s)"
proof (cases ev)
  case (Go k inp)
  assume ok: "prompt s"
  have "prompt (sys_step pf loc (Go k inp) s)"
  proof (rule go_cases [where P = prompt, OF ok])
    fix xs th ys m new
    assume s: "sy_threads s = xs @ th # ys" and r: "run_section pf loc inp th (sy_mgr s) = (m, new)"
    have "prompt \<lparr>sy_mgr = sy_mgr s, sy_threads = xs @ th # ys\<rparr>" using ok s by (cases s) simp
    then show "prompt \<lparr>sy_mgr = m, sy_threads = xs @ new @ ys\<rparr>" by (rule move_prompt [OF section_moves [OF r]])
  qed
  then show ?thesis by (simp add: Go fresh_start_step_def)
next
  case (CallDiscard i)
  assume ok: "prompt s"
  then have "sched_ok (fresh_start_step pf loc ev s)"
    by (simp add: fresh_start_step_def prompt_def sched_keeps)
  then show ?thesis using ok unfolding CallDiscard
    by (auto simp: prompt_def fresh_start_step_def spawn_def Discard_def)
next
  case (CallRunNow i)
  assume ok: "prompt s"
  then have "sched_ok (fresh_start_step pf loc ev s)"
    by (simp add: fresh_start_step_def prompt_def sched_keeps)
  then show ?thesis using ok unfolding CallRunNow
    by (auto simp: prompt_def fresh_start_step_def spawn_def RunNow_def enqueue_def)
next
  case CallStart
  assume ok: "prompt s"
  then have "sched_ok (fresh_start_step pf loc ev s)"
    by (simp add: fresh_start_step_def prompt_def sched_keeps)
  then show ?thesis using ok unfolding CallStart
    by (auto simp: prompt_def fresh_start_step_def spawn_def Start_def)
qed (auto simp: prompt_def fresh_start_step_def sched_ok_def spawn_def CancelRun_def Stop_def on_db_def Let_def)

interpretation queue: call_system "fresh_start_step pf loc" prompt
  by unfold_locales (rule prompt_keeps)

lemma boot_prompt: "NewManager opts db = Inr m \<Longrightarrow> prompt (boot m)"
  using boot_ok [of opts db m] by (auto simp: NewManager_def prompt_def boot_def split: if_splits)


subsection \<open>One uninterrupted scan\<close>

definition scan_due :: "Manager \<Rightarrow> instant \<Rightarrow> Task \<Rightarrow> bool" where
  "scan_due m now t \<longleftrightarrow>
     t_Enabled t \<and> \<not> busy m (t_ID t) \<and> t_NextRunAt t \<noteq> zero_time \<and> t_NextRunAt t \<le> now"

definition scan_trigger :: "location \<Rightarrow> instant \<Rightarrow> Task \<Rightarrow> instant" where
  "scan_trigger loc now t =
     (case Schedule_Next loc (t_Schedule t) now of Some (Inr n) \<Rightarrow> n | _ \<Rightarrow> AddDate loc now 1)"

definition scan_queues :: "location \<Rightarrow> Manager \<Rightarrow> instant \<Rightarrow> Task \<Rightarrow> bool" where
  "scan_queues loc m now t \<longleftrightarrow>
     scan_due m now t \<and> now - t_NextRunAt t \<le> m_window m \<and>
     (case Schedule_Next loc (t_Schedule t) now of Some (Inr n) \<Rightarrow> True | _ \<Rightarrow> False)"

text \<open>The whole scan as one function of the manager.\<close>

definition scan_result :: "location \<Rightarrow> instant \<Rightarrow> Task list \<Rightarrow> Manager \<Rightarrow> Manager" where
  "scan_result loc now ts m =
     m\<lparr>m_pending := m_pending m @ map t_ID (filter (scan_queues loc m now) ts),
       m_pendingSet := m_pendingSet m \<union> set (map t_ID (filter (scan_queues loc m now) ts)),
       m_db := fold (\<lambda>t. AdvanceNextRun (t_ID t) (scan_trigger loc now t)) (filter (scan_due m now) ts)
                 (m_db m)\<rparr>"

abbreviation solo :: "Manager \<Rightarrow> thread \<Rightarrow> sys" where
  "solo m th \<equiv> \<lparr>sy_mgr = m, sy_threads = [th]\<rparr>"

lemma solo_step:
  "run_section pf loc inp th m = (m', [th']) \<Longrightarrow> sys_step pf loc (Go 0 inp) (solo m th) = solo m' th'"
  by simp

lemma scan_one:
  fixes m :: Manager
  assumes "\<not> o_fault inp" "Schedule_Next loc (t_Schedule t) now \<noteq> None"
  defines "m' \<equiv> (if scan_due m now t then on_db (AdvanceNextRun (t_ID t) (scan_trigger loc now t)) m else m)"
  shows "\<exists>n. run_calls (sys_step pf loc) (replicate n (Go 0 inp)) (solo m (TickScan now (t # ts))) =
    solo (if scan_queues loc m now t then enqueue (t_ID t) m' else m') (TickScan now ts)"
proof (cases "scan_due m now t")
  case False
  then have "sys_step pf loc (Go 0 inp) (solo m (TickScan now (t # ts))) = solo m (TickScan now ts)"
    by (intro solo_step) (auto simp: scan_due_def)
  then show ?thesis using False by (intro exI [of _ 1]) (simp add: m'_def scan_queues_def)
next
  case True
  have open': "sys_step pf loc (Go 0 inp) (solo m (TickScan now (t # ts))) = solo m (TickDecide now t ts)"
    using True by (intro solo_step) (auto simp: scan_due_def)
  show ?thesis
  proof (cases "scan_queues loc m now t")
    case False
    then have "sys_step pf loc (Go 0 inp) (solo m (TickDecide now t ts)) = solo m' (TickScan now ts)"
      using True assms(1,2)
      by (intro solo_step)
        (auto simp: tick_decide_def scan_queues_def scan_trigger_def m'_def Let_def split: option.splits sum.splits)
    then show ?thesis using False open' by (intro exI [of _ 2]) (simp add: numeral_2_eq_2)
  next
    case q: True
    then have "sys_step pf loc (Go 0 inp) (solo m (TickDecide now t ts)) = solo m' (TickEnqueue now (t_ID t) ts)"
      using True assms(1,2)
      by (intro solo_step)
        (auto simp: tick_decide_def scan_queues_def scan_trigger_def m'_def Let_def split: option.splits sum.splits)
    moreover have "sys_step pf loc (Go 0 inp) (solo m' (TickEnqueue now (t_ID t) ts)) =
      solo (enqueue (t_ID t) m') (TickScan now ts)"
      by simp
    ultimately show ?thesis using q open' by (intro exI [of _ 3]) (simp add: numeral_3_eq_3)
  qed
qed


lemma scan_many:
  assumes "\<not> o_fault inp" "distinct (map t_ID ts)" "\<And>t. t \<in> set ts \<Longrightarrow> Schedule_Next loc (t_Schedule t) now \<noteq> None"
  shows "\<exists>n. run_calls (sys_step pf loc) (replicate n (Go 0 inp)) (solo m (TickScan now ts)) =
    solo (scan_result loc now ts m) Dispatch"
  using assms(2,3)
proof (induction ts arbitrary: m)
  case Nil
  have "sys_step pf loc (Go 0 inp) (solo m (TickScan now [])) = solo m Dispatch"
    by (rule solo_step) simp
  then show ?case by (intro exI [of _ 1]) (simp add: scan_result_def)
next
  case (Cons t ts)
  let ?d = "if scan_due m now t then on_db (AdvanceNextRun (t_ID t) (scan_trigger loc now t)) m else m"
  let ?m = "if scan_queues loc m now t then enqueue (t_ID t) ?d else ?d"
  have "Schedule_Next loc (t_Schedule t) now \<noteq> None" using Cons.prems(2) by simp
  from scan_one [OF assms(1) this] obtain n where
    n: "run_calls (sys_step pf loc) (replicate n (Go 0 inp)) (solo m (TickScan now (t # ts))) = solo ?m (TickScan now ts)"
    by blast
  from Cons.IH [of ?m] Cons.prems obtain k where
    k: "run_calls (sys_step pf loc) (replicate k (Go 0 inp)) (solo ?m (TickScan now ts)) =
      solo (scan_result loc now ts ?m) Dispatch"
    by auto
  have due: "scan_due ?m now u = scan_due m now u" and queues: "scan_queues loc ?m now u = scan_queues loc m now u"
    if "u \<in> set ts" for u
  proof -
    have "t_ID u \<noteq> t_ID t" using that Cons.prems(1) by (auto simp: image_iff)
    then show "scan_due ?m now u = scan_due m now u" "scan_queues loc ?m now u = scan_queues loc m now u"
      by (auto simp: scan_due_def scan_queues_def busy_def enqueue_def on_db_def)
  qed
  have f: "filter (scan_due ?m now) ts = filter (scan_due m now) ts"
    "filter (scan_queues loc ?m now) ts = filter (scan_queues loc m now) ts"
    using due queues by (auto intro!: filter_cong)
  have "scan_queues loc m now t \<Longrightarrow> scan_due m now t" by (simp add: scan_queues_def)
  then have "scan_result loc now ts ?m = scan_result loc now (t # ts) m"
    unfolding scan_result_def f by (auto simp: enqueue_def on_db_def)
  then show ?case using n k by (intro exI [of _ "n + k"]) (simp add: replicate_add)
qed

lemma advance_fold:
  "db_runs (fold (\<lambda>t. AdvanceNextRun (t_ID t) (f t)) ts db) = db_runs db"
  "distinct (map t_ID ts) \<Longrightarrow>
   GetTask (fold (\<lambda>t. AdvanceNextRun (t_ID t) (f t)) ts db) i =
     (case find (\<lambda>t. t_ID t = i) ts of
        None \<Rightarrow> GetTask db i
      | Some t \<Rightarrow> (case GetTask db i of Inl e \<Rightarrow> Inl e | Inr u \<Rightarrow> Inr (u\<lparr>t_NextRunAt := stored_time (f t)\<rparr>)))"
proof -
  show "db_runs (fold (\<lambda>t. AdvanceNextRun (t_ID t) (f t)) ts db) = db_runs db"
    by (induction ts arbitrary: db) (simp_all add: AdvanceNextRun_def)
  have step: "GetTask (AdvanceNextRun j at db) i =
    (case GetTask db i of Inl e \<Rightarrow> Inl e | Inr u \<Rightarrow> Inr (if j = i then u\<lparr>t_NextRunAt := stored_time at\<rparr> else u))" for j at db
    by (auto simp: GetTask_def AdvanceNextRun_def find_map_id dest: find_same split: option.split)
  show "GetTask (fold (\<lambda>t. AdvanceNextRun (t_ID t) (f t)) ts db) i =
     (case find (\<lambda>t. t_ID t = i) ts of
        None \<Rightarrow> GetTask db i
      | Some t \<Rightarrow> (case GetTask db i of Inl e \<Rightarrow> Inl e | Inr u \<Rightarrow> Inr (u\<lparr>t_NextRunAt := stored_time (f t)\<rparr>)))"
    if "distinct (map t_ID ts)"
    using that
  proof (induction ts arbitrary: db)
    case (Cons t ts)
    have "find (\<lambda>u. t_ID u = t_ID t) ts = None" using Cons.prems by (auto simp: find_None_iff image_iff)
    then show ?case using Cons by (auto simp: step split: option.split sum.split)
  qed simp
qed


subsection \<open>A run ends\<close>

definition gives_back :: "platform \<Rightarrow> location \<Rightarrow> string \<Rightarrow> nat \<Rightarrow> sys \<Rightarrow> bool" where
  "gives_back pf loc i k s \<longleftrightarrow>
     (\<forall>inps. \<exists>n m. n \<le> k \<and>
        run_calls (sys_step pf loc) (map (\<lambda>j. Go 0 (inps j)) [0..<n]) s = solo m Dispatch \<and>
        i \<notin> m_running m)"

lemma gives_back_step:
  assumes "\<And>inp. \<exists>m' th'. run_section pf loc inp th m = (m', [th']) \<and> gives_back pf loc i k (solo m' th')"
  shows "gives_back pf loc i (Suc k) (solo m th)"
  unfolding gives_back_def
proof
  fix inps :: "nat \<Rightarrow> inputs"
  from assms [of "inps 0"] obtain m' th' where r: "run_section pf loc (inps 0) th m = (m', [th'])"
    and g: "gives_back pf loc i k (solo m' th')" by blast
  from g obtain n m2 where n: "n \<le> k" "i \<notin> m_running m2"
    "run_calls (sys_step pf loc) (map (\<lambda>j. Go 0 (inps (Suc j))) [0..<n]) (solo m' th') = solo m2 Dispatch"
    unfolding gives_back_def by (drule_tac x = "\<lambda>j. inps (Suc j)" in spec) blast
  have "map (\<lambda>j. Go 0 (inps j)) [0..<Suc n] = Go 0 (inps 0) # map (\<lambda>j. Go 0 (inps (Suc j))) [0..<n]"
    by (rule map_upt_Suc)
  then have "run_calls (sys_step pf loc) (map (\<lambda>j. Go 0 (inps j)) [0..<Suc n]) (solo m th) = solo m2 Dispatch"
    using n(3) solo_step [OF r] by (simp only: run_calls_simps)
  then show "\<exists>n m'. n \<le> Suc k \<and>
      run_calls (sys_step pf loc) (map (\<lambda>j. Go 0 (inps j)) [0..<n]) (solo m th) = solo m' Dispatch \<and>
      i \<notin> m_running m'"
    using n(1,2) by (intro exI [of _ "Suc n"] exI [of _ m2]) simp
qed

lemma gives_back_mono: "gives_back pf loc i k s \<Longrightarrow> k \<le> k' \<Longrightarrow> gives_back pf loc i k' s"
  unfolding gives_back_def by (meson order_trans)

lemma defer_gives_back: "gives_back pf loc i 1 (solo m (RunDefer i))"
  unfolding gives_back_def by (intro allI exI [of _ 1] exI [of _ "m\<lparr>m_running := m_running m - {i}\<rparr>"]) simp

lemma run_gives_back:
  "gives_back pf loc i 2 (solo m (RunMark i r))"
  "gives_back pf loc i 3 (solo m (RunPersist i r))"
  "gives_back pf loc i 4 (solo m (RunCall i t r))"
  "gives_back pf loc i 5 (solo m (RunRegister i t r))"
  "gives_back pf loc i 6 (solo m (RunAppend i t))"
  "gives_back pf loc i 7 (solo m (RunLoad i))"
proof -
  have deferred: "1 \<le> k \<Longrightarrow> gives_back pf loc i k (solo m (RunDefer i))" for m k
    by (rule gives_back_mono [OF defer_gives_back])
  have "gives_back pf loc i (Suc 1) (solo m (RunMark i r))" for m r
    by (rule gives_back_step) (simp add: deferred)
  then show mark: "gives_back pf loc i 2 (solo m (RunMark i r))" for m r
    by (simp add: numeral_2_eq_2)
  have "gives_back pf loc i (Suc 2) (solo m (RunPersist i r))" for m r
    by (rule gives_back_step) (simp add: mark)
  then show persist: "gives_back pf loc i 3 (solo m (RunPersist i r))" for m r by simp
  have "gives_back pf loc i (Suc 3) (solo m (RunCall i t r))" for m r t
    by (rule gives_back_step) (simp add: run_call_def Let_def persist split: prod.split)
  then show call: "gives_back pf loc i 4 (solo m (RunCall i t r))" for m r t by simp
  have "gives_back pf loc i (Suc 4) (solo m (RunRegister i t r))" for m r t
    by (rule gives_back_step) (simp add: call)
  then show register: "gives_back pf loc i 5 (solo m (RunRegister i t r))" for m r t by simp
  have "gives_back pf loc i (Suc 5) (solo m (RunAppend i t))" for m t
    by (rule gives_back_step) (auto simp: deferred register split: prod.split sum.split)
  then show append: "gives_back pf loc i 6 (solo m (RunAppend i t))" for m t by simp
  have "gives_back pf loc i (Suc 6) (solo m (RunLoad i))" for m
    by (rule gives_back_step) (auto simp: deferred append split: sum.split)
  then show "gives_back pf loc i 7 (solo m (RunLoad i))" for m by simp
qed

subsection \<open>The scheduler's promises\<close>

text \<open>
  C30: Under every interleaving of API calls, scans, dispatches, run goroutines and store writes,
  with any of the store's statements failing, a manager that \<open>NewManager\<close> built never marks more
  tasks running than its limit, every id in the pending set is in the queue, and every task it
  marks running has a live run goroutine.
\<close>

theorem limit_holds_in_every_interleaving:
  "case NewManager opts db of
     Inl e \<Rightarrow> opt_Store opts = False \<or> opt_Run opts = False
   | Inr m \<Rightarrow>
       (let s = run_calls (sys_step pf loc) evs (boot m); m' = sy_mgr s in
        finite (m_running m') \<and> int (card (m_running m')) \<le> m_limit m' \<and>
        m_pendingSet m' \<subseteq> set (m_pending m') \<and> m_running m' \<subseteq> set (live_ids (sy_threads s)))"
proof (cases "NewManager opts db")
  case (Inl e)
  then show ?thesis by (auto simp: NewManager_def split: if_splits)
next
  case (Inr m)
  from scheduler.history_keeps [OF boot_ok [OF Inr]] show ?thesis
    unfolding Inr by (simp add: sched_ok_def Let_def)
qed

text \<open>
  C31: As long as nobody queues a task between a scan's busy check and its enqueue of that task,
  no interleaving runs a task twice at once or queues it twice: the queue and the live run
  goroutines name pairwise different tasks, the two sets the code keeps mirror them exactly, and
  no more goroutines run than the limit allows.
\<close>

theorem one_run_per_task:
  "case NewManager opts db of
     Inl e \<Rightarrow> opt_Store opts = False \<or> opt_Run opts = False
   | Inr m \<Rightarrow>
       (let s = run_calls (calm_step pf loc) evs (boot m); m' = sy_mgr s; ths = sy_threads s in
        distinct (m_pending m' @ live_ids ths) \<and> m_pendingSet m' = set (m_pending m') \<and>
        m_running m' = set (live_ids ths) \<and> int (length (live_ids ths)) \<le> m_limit m')"
proof (cases "NewManager opts db")
  case (Inl e)
  then show ?thesis by (auto simp: NewManager_def split: if_splits)
next
  case (Inr m)
  have "exclusive (run_calls (calm_step pf loc) evs (boot m))"
    by (rule calm.history_keeps [OF boot_exclusive [OF Inr]])
  then show ?thesis unfolding Inr by (auto simp: exclusive_def Let_def)
qed


text \<open>
  A run goroutine always gives its slot back: whatever the store, the clock and the run
  function do (the function returning is one section), within seven sections the task is no
  longer marked running and the goroutine is at \<open>dispatch\<close>.
\<close>

theorem run_returns_its_slot:
  "\<exists>n m'. n \<le> 7 \<and>
     run_calls (sys_step pf loc) (map (\<lambda>j. Go 0 (inps j)) [0..<n]) (solo m (RunLoad i)) = solo m' Dispatch \<and>
     i \<notin> m_running m'"
  using run_gives_back(6) [of pf loc i m] unfolding gives_back_def by blast


text \<open>
  The record of a settled run tells the truth: it says completed exactly when the wait
  returned without error, the engine reported completion and the runner reported no error of its
  own; otherwise timeout exactly when the deadline cut the run short, canceled (with no error
  text) exactly when the user stopped it and the deadline did not, and failed in all other cases.
\<close>

theorem settled_record_tells_the_truth:
  "let r = st_Result (ClassifySettledRun completed c rid res waitErr);
       ok = (waitErr = None \<and> runErr = None \<and> (case res of None \<Rightarrow> False | Some a \<Rightarrow> ar_Status a = completed));
       (status, err) = settle_run timedOut canceled timeout r runErr
   in status = (if ok then RunCompleted else if timedOut then RunTimeout
                else if canceled then RunCanceled else RunFailed) \<and>
      (if ok \<or> canceled \<and> \<not> timedOut then err = '''' else True) \<and>
      (if ok \<or> timedOut \<or> canceled then True
       else err = (case runErr of Some e \<Rightarrow> e
         | None \<Rightarrow> st_ErrorText (ClassifySettledRun completed c rid res waitErr)))"
  by (cases res; cases waitErr; cases runErr)
    (auto simp: ClassifySettledRun_def settle_run_def Let_def RunCompleted_def RunFailed_def RunTimeout_def
      RunCanceled_def)

subsection \<open>Traces\<close>

definition due_task :: Task where
  "due_task = sample_task\<lparr>t_ID := ''t'', t_NextRunAt := - nanos\<rparr>"

definition trace_db :: database where
  "trace_db = \<lparr>db_tasks = [due_task, sample_task\<lparr>t_ID := ''u'', t_NextRunAt := nanos\<rparr>], db_runs = []\<rparr>"

definition trace_manager :: Manager where
  "trace_manager =
     \<lparr>m_window = 2 * minute_ns, m_limit = 2, m_pending = [], m_pendingSet = {}, m_running = {},
      m_active = Map.empty, m_started = False, m_stopped = False, m_db = trace_db\<rparr>"

lemma trace_manager_new:
  "NewManager \<lparr>opt_Store = True, opt_Run = True, opt_Window = 0, opt_Limit = 2\<rparr> trace_db = Inr trace_manager"
  by (simp add: NewManager_def trace_manager_def)

definition quiet :: inputs where
  "quiet = \<lparr>o_now = 0, o_fresh = ''run_1'', o_fault = False,
     o_result = \<lparr>res_Status = '''', res_Error = '''', res_ConversationID = '''', res_RunID = ''''\<rparr>,
     o_err = None, o_timedOut = False\<rparr>"

lemma trace_next: "Schedule_Next (fixed_zone 3600) sample_schedule 0 = Some (Inr (30600 * nanos))"
  by (code_simp, subst daily_scan.simps, code_simp)

lemma trace_fields [simp]:
  "m_window trace_manager = 2 * minute_ns" "m_limit trace_manager = 2" "m_pending trace_manager = []"
  "m_pendingSet trace_manager = {}" "m_running trace_manager = {}" "\<not> m_stopped trace_manager"
  "\<not> m_started trace_manager" "m_db trace_manager = trace_db"
  by (simp_all add: trace_manager_def)

lemma due_fields [simp]:
  "t_ID due_task = ''t''" "t_Schedule due_task = sample_schedule" "t_NextRunAt due_task = - nanos"
  "t_Enabled due_task"
  by (simp_all add: due_task_def sample_task_def)

lemma trace_window [simp]: "0 < nanos" "\<not> nanos < 0" "- nanos \<noteq> zero_time" "nanos \<le> 2 * minute_ns"
  "\<not> 2 * minute_ns < nanos"
  by (simp_all add: nanos_def zero_time_def minute_ns_def)

lemma quiet_fields [simp]: "\<not> o_fault quiet" "o_now quiet = 0"
  by (simp_all add: quiet_def)

definition later_task :: Task where
  "later_task = sample_task\<lparr>t_ID := ''u'', t_NextRunAt := nanos\<rparr>"

lemma trace_list: "ListTasks trace_db = [due_task, later_task]"
  by (simp add: ListTasks_def trace_db_def due_task_def sample_task_def later_task_def)

abbreviation go :: "platform \<Rightarrow> event list \<Rightarrow> sys \<Rightarrow> sys" where
  "go pf \<equiv> run_calls (sys_step pf (fixed_zone 3600))"

lemma scan_opens:
  "go pf [CallTick, Go 0 quiet, Go 0 quiet, Go 0 quiet] (boot trace_manager) =
     solo trace_manager (TickDecide 0 due_task [later_task])"
  by (simp add: boot_def spawn_def trace_list busy_def)

definition moved :: "Manager \<Rightarrow> Manager" where
  "moved = on_db (AdvanceNextRun ''t'' (30600 * nanos))"

lemma moved_fields [simp]:
  "m_pending (moved m) = m_pending m" "m_pendingSet (moved m) = m_pendingSet m"
  "m_window (moved m) = m_window m" "m_running (moved m) = m_running m" "m_limit (moved m) = m_limit m" "m_stopped (moved m) = m_stopped m"
  by (simp_all add: moved_def on_db_def)

lemma scan_decides:
  "m_window m = 2 * minute_ns \<Longrightarrow>
   tick_decide (fixed_zone 3600) quiet 0 due_task ts m = (moved m, [TickEnqueue 0 ''t'' ts])"
  by (simp add: tick_decide_def trace_next moved_def)

lemma run_one: "go pf [e] s = sys_step pf (fixed_zone 3600) e s"
  by simp

text \<open>The manager once \<open>RunNow\<close> has queued and started task \<open>t\<close> inside the scan's window.\<close>

definition taken :: Manager where
  "taken = trace_manager\<lparr>m_pending := [], m_pendingSet := {}, m_running := {''t''}\<rparr>"

lemma taken_fields [simp]:
  "m_window taken = 2 * minute_ns" "m_limit taken = 2" "m_pending taken = []" "m_pendingSet taken = {}"
  "m_running taken = {''t''}" "\<not> m_stopped taken"
  by (simp_all add: taken_def)

lemma race_first:
  "go pf [CallRunNow ''t'', Go 1 quiet] (solo trace_manager (TickDecide 0 due_task [later_task])) =
     \<lparr>sy_mgr = taken, sy_threads = [TickDecide 0 due_task [later_task], Dispatch, RunLoad ''t'']\<rparr>"
  by (simp add: RunNow_def busy_def enqueue_def spawn_def dispatch_def taken_def Let_def)

lemma race_second:
  "go pf [Go 0 quiet, Go 0 quiet, Go 1 quiet]
     \<lparr>sy_mgr = taken, sy_threads = [TickDecide 0 due_task [later_task], Dispatch, RunLoad ''t'']\<rparr> =
   \<lparr>sy_mgr = (moved taken)\<lparr>m_pending := [], m_pendingSet := {}, m_running := {''t''}\<rparr>,
    sy_threads = [TickScan 0 [later_task], Dispatch, RunLoad ''t'', RunLoad ''t'']\<rparr>"
  by (simp add: scan_decides enqueue_def dispatch_def Let_def)


theorem scan_races_with_RunNow:
  "live_ids (sy_threads (go pf
     ([CallTick, Go 0 quiet, Go 0 quiet, Go 0 quiet] @ [CallRunNow ''t'', Go 1 quiet] @
      [Go 0 quiet, Go 0 quiet, Go 1 quiet] @ [CallRunNow ''u'', Go 1 quiet])
     (boot trace_manager))) = [''u'', ''t'', ''t''] \<and> m_limit trace_manager = 2"
  unfolding run_calls_append scan_opens race_first race_second
  by (simp add: RunNow_def busy_def enqueue_def spawn_def dispatch_def Let_def)

lemma later_fields [simp]: "t_NextRunAt later_task = nanos" "t_Schedule later_task = sample_schedule"
  by (simp_all add: later_task_def sample_task_def)

definition started :: Manager where
  "started = trace_manager\<lparr>m_started := True, m_stopped := False\<rparr>"

lemma started_fields [simp]:
  "m_window started = 2 * minute_ns" "m_pending started = []" "m_pendingSet started = {}"
  "m_running started = {}" "\<not> m_stopped started" "m_started started" "m_db started = trace_db"
  by (simp_all add: started_def)

lemma moved_started [simp]: "m_started (moved m) = m_started m"
  by (simp add: moved_def on_db_def)

lemma scan_opens_started:
  "go pf [CallStart, CallTick, Go 1 quiet, Go 1 quiet, Go 1 quiet] (boot trace_manager) =
     \<lparr>sy_mgr = started, sy_threads = [StartReconcile, TickDecide 0 due_task [later_task]]\<rparr>"
  by (simp add: boot_def spawn_def trace_list busy_def Start_def flip: started_def)

theorem Stop_leaves_a_queued_task:
  "let s = go pf
     ([CallStart, CallTick, Go 1 quiet, Go 1 quiet, Go 1 quiet] @ [Go 1 quiet, CallStop, Go 1 quiet, Go 1 quiet, Go 1 quiet, Go 1 quiet])
     (boot trace_manager) in
   m_stopped (sy_mgr s) \<and> m_pending (sy_mgr s) = [''t''] \<and> sy_threads s = [StartReconcile]"
  unfolding Let_def run_calls_append scan_opens_started
  by (simp add: spawn_def busy_def enqueue_def scan_decides Stop_def dispatch_def)

end
