(* ===== verification/ExecPool.thy ===== *)
theory ExecPool
  imports GoTime
begin

text \<open>
  The pool of exec children and the runners it leases them to: \<open>pool.go\<close> and the lifecycle part of
  \<open>runner.go\<close> in \<open>src/internal/capabilities/execd/\<close>. A child process is a number; launching one takes
  the next number. Goroutines interleave between the critical sections of \<open>Pool.mu\<close> and
  \<open>RemoteRunner.mu\<close>, between launches, pings and stops: a goroutine is its program counter with its
  locals, and \<open>pool_section\<close> runs it to the next such point. What a section reads from outside (the
  clock, whether a launch, a bind or a ping succeeded, which ready case a \<open>select\<close> takes) is its
  \<open>outside\<close> argument. The set \<open>ps_stopped\<close> records the children whose process was stopped.
\<close>

subsection \<open>Settings\<close>

record PoolSettings =
  Prewarm :: int
  MaxIdle :: int
  MaxActive :: int
  IdleTTL :: int

definition DefaultPoolSettings :: PoolSettings where
  "DefaultPoolSettings = \<lparr>Prewarm = 1, MaxIdle = 4, MaxActive = 16, IdleTTL = 5 * minute_ns\<rparr>"

definition NormalizePoolSettings :: "PoolSettings \<Rightarrow> PoolSettings" where
  "NormalizePoolSettings s0 =
     (let def = DefaultPoolSettings;
          s1 = (if Prewarm s0 < 0 then s0\<lparr>Prewarm := 0\<rparr> else s0);
          s2 = (if Prewarm s1 > 8 then s1\<lparr>Prewarm := 8\<rparr> else s1);
          s3 = (if MaxIdle s2 < Prewarm s2 then s2\<lparr>MaxIdle := Prewarm s2\<rparr> else s2);
          s4 = (if MaxIdle s3 > 16 then s3\<lparr>MaxIdle := 16\<rparr> else s3);
          s5 = (if MaxActive s4 \<le> 0 then s4\<lparr>MaxActive := MaxActive def\<rparr> else s4);
          s6 = (if MaxActive s5 > 64 then s5\<lparr>MaxActive := 64\<rparr> else s5);
          s7 = (if IdleTTL s6 \<le> 0 then s6\<lparr>IdleTTL := IdleTTL def\<rparr> else s6)
      in if IdleTTL s7 > hour_ns then s7\<lparr>IdleTTL := hour_ns\<rparr> else s7)"

subsection \<open>State\<close>

type_synonym child = nat

record idleChild =
  ic_client :: child
  ic_since :: instant

record Pool =
  p_settings :: PoolSettings
  p_idle :: "idleChild list"
  p_active :: int
  p_used :: bool
  p_closed :: bool
  p_stopCh :: bool
  p_settingsCh :: bool
  p_warmCh :: bool

record RemoteRunner =
  r_client :: "child option"
  r_leased :: child
  r_release :: bool
  r_bound :: bool
  r_dead :: bool
  r_closed :: bool
  r_closing :: bool
  r_watching :: bool
  r_restarting :: bool
  r_failures :: nat
  r_failedRestarts :: nat

definition watchdogMaxFailures :: nat where "watchdogMaxFailures = 3"
definition maxWatchdogRestarts :: nat where "maxWatchdogRestarts = 3"
definition relaunch_attempts :: nat where "relaunch_attempts = 5"

datatype pool_error = PoolClosed | LaunchFailed | BindFailed | ChildUnavailable

datatype thread =
    AcquireLoop
  | AcquireCheck idleChild int
  | AcquireTake child
  | LaunchPooled
  | LaunchDedicated
  | BindChild child bool
  | DropSlot
  | SignalWarm
  | ReleaseStart child
  | ReleaseCheck child
  | ReleasePut child
  | StopChildren "child list" "thread option"
  | LoopWait
  | LoopTrim
  | LoopReap
  | LoopPrewarm
  | LoopLaunch
  | LoopPut child
  | SettingsSignal
  | CloseLock
  | RunnerClose nat
  | RestartDrop nat
  | RestartStop nat "child option"
  | RestartWait nat nat
  | RestartLaunch nat nat
  | RestartProbe nat nat child
  | RestartInstall nat child

record outside =
  o_now :: instant
  o_ok :: bool
  o_case :: nat

record pool_sys =
  ps_pool :: Pool
  ps_runners :: "RemoteRunner list"
  ps_threads :: "thread list"
  ps_next :: child
  ps_stopped :: "child set"

definition NewPool :: "PoolSettings \<Rightarrow> pool_sys" where
  "NewPool settings =
     \<lparr>ps_pool = \<lparr>p_settings = NormalizePoolSettings settings, p_idle = [], p_active = 0,
        p_used = False, p_closed = False, p_stopCh = False, p_settingsCh = False, p_warmCh = False\<rparr>,
      ps_runners = [], ps_threads = [LoopWait], ps_next = 0, ps_stopped = {}\<rparr>"

definition Pool_Stats :: "Pool \<Rightarrow> nat \<times> int" where
  "Pool_Stats p = (length (p_idle p), p_active p)"

definition NewRemoteRunner :: "child \<Rightarrow> bool \<Rightarrow> RemoteRunner" where
  "NewRemoteRunner c pooled =
     \<lparr>r_client = Some c, r_leased = c, r_release = pooled, r_bound = True, r_dead = False,
      r_closed = False, r_closing = False, r_watching = True, r_restarting = False,
      r_failures = 0, r_failedRestarts = 0\<rparr>"

text \<open>\<open>available\<close>: the client a call of the runner goes to.\<close>

definition available :: "RemoteRunner \<Rightarrow> pool_error + child" where
  "available r =
     (case r_client r of
        None \<Rightarrow> Inl ChildUnavailable
      | Some c \<Rightarrow> (if r_dead r then Inl ChildUnavailable else Inr c))"

text \<open>\<open>ensureBound\<close>: a client relaunched by the watchdog is bound again by the next call.\<close>

definition ensureBound :: "bool \<Rightarrow> RemoteRunner \<Rightarrow> (pool_error + child) \<times> RemoteRunner" where
  "ensureBound bind_ok r =
     (case available r of
        Inl e \<Rightarrow> (Inl e, r)
      | Inr c \<Rightarrow>
          (if r_bound r then (Inr c, r)
           else if bind_ok then (Inr c, r\<lparr>r_bound := True\<rparr>) else (Inl BindFailed, r)))"

subsection \<open>Updates\<close>

definition on_pool :: "(Pool \<Rightarrow> Pool) \<Rightarrow> pool_sys \<Rightarrow> pool_sys" where
  "on_pool f s = s\<lparr>ps_pool := f (ps_pool s)\<rparr>"

definition on_runner :: "nat \<Rightarrow> (RemoteRunner \<Rightarrow> RemoteRunner) \<Rightarrow> pool_sys \<Rightarrow> pool_sys" where
  "on_runner k f s =
     (if k < length (ps_runners s) then s\<lparr>ps_runners := (ps_runners s)[k := f (ps_runners s ! k)]\<rparr> else s)"

definition stop_child :: "child \<Rightarrow> pool_sys \<Rightarrow> pool_sys" where
  "stop_child c s = s\<lparr>ps_stopped := insert c (ps_stopped s)\<rparr>"

definition launch :: "pool_sys \<Rightarrow> child \<times> pool_sys" where
  "launch s = (ps_next s, s\<lparr>ps_next := Suc (ps_next s)\<rparr>)"

text \<open>A stopped process answers no ping.\<close>

definition healthy :: "outside \<Rightarrow> child \<Rightarrow> pool_sys \<Rightarrow> bool" where
  "healthy inp c s \<longleftrightarrow> o_ok inp \<and> c \<notin> ps_stopped s"

definition idle_full :: "Pool \<Rightarrow> bool" where
  "idle_full p \<longleftrightarrow> int (length (p_idle p)) \<ge> MaxIdle (p_settings p)"

definition drop_active :: "Pool \<Rightarrow> Pool" where
  "drop_active p = (if p_active p > 0 then p\<lparr>p_active := p_active p - 1\<rparr> else p)"

subsection \<open>The pool's goroutines\<close>

definition acquire_loop :: "pool_sys \<Rightarrow> pool_sys \<times> thread list" where
  "acquire_loop s =
     (let p = ps_pool s in
      if p_closed p then (s, [])
      else if p_idle p = [] then
        (if p_active p \<ge> MaxActive (p_settings p) then (s, [LaunchDedicated])
         else (on_pool (\<lambda>p. p\<lparr>p_active := p_active p + 1\<rparr>) s, [LaunchPooled]))
      else (on_pool (\<lambda>p. p\<lparr>p_idle := butlast (p_idle p)\<rparr>) s,
            [AcquireCheck (last (p_idle p)) (IdleTTL (p_settings p))]))"

definition acquire_check :: "outside \<Rightarrow> idleChild \<Rightarrow> int \<Rightarrow> pool_sys \<Rightarrow> pool_sys \<times> thread list" where
  "acquire_check inp c ttl s =
     (if o_now inp - ic_since c \<ge> ttl \<or> \<not> healthy inp (ic_client c) s
      then (stop_child (ic_client c) s, [AcquireLoop]) else (s, [AcquireTake (ic_client c)]))"

definition acquire_take :: "child \<Rightarrow> pool_sys \<Rightarrow> pool_sys \<times> thread list" where
  "acquire_take c s =
     (if p_closed (ps_pool s) then (s, [StopChildren [c] None])
      else (on_pool (\<lambda>p. p\<lparr>p_active := p_active p + 1\<rparr>) s, [BindChild c True]))"

definition launch_lease :: "outside \<Rightarrow> bool \<Rightarrow> pool_sys \<Rightarrow> pool_sys \<times> thread list" where
  "launch_lease inp pooled s =
     (if o_ok inp then (case launch s of (c, s') \<Rightarrow> (s', [BindChild c pooled]))
      else (s, if pooled then [DropSlot] else []))"

text \<open>\<open>Lease\<close> once it has a child: \<open>NewRemoteRunner\<close> stops a child it cannot bind.\<close>

definition bind_child :: "outside \<Rightarrow> child \<Rightarrow> bool \<Rightarrow> pool_sys \<Rightarrow> pool_sys \<times> thread list" where
  "bind_child inp c pooled s =
     (if o_ok inp then (s\<lparr>ps_runners := ps_runners s @ [NewRemoteRunner c pooled]\<rparr>, [SignalWarm])
      else (stop_child c s, if pooled then [DropSlot] else []))"

definition release_start :: "child \<Rightarrow> pool_sys \<Rightarrow> pool_sys \<times> thread list" where
  "release_start c s =
     (let s' = on_pool drop_active s in
      if p_closed (ps_pool s) \<or> idle_full (ps_pool s) then (s', [StopChildren [c] None])
      else (s', [ReleaseCheck c]))"

definition release_check :: "outside \<Rightarrow> child \<Rightarrow> pool_sys \<Rightarrow> pool_sys \<times> thread list" where
  "release_check inp c s = (if \<not> healthy inp c s then (s, [StopChildren [c] None]) else (s, [ReleasePut c]))"

definition release_put :: "outside \<Rightarrow> child \<Rightarrow> pool_sys \<Rightarrow> pool_sys \<times> thread list" where
  "release_put inp c s =
     (if p_closed (ps_pool s) \<or> idle_full (ps_pool s) then (s, [StopChildren [c] None])
      else (on_pool (\<lambda>p. p\<lparr>p_idle := p_idle p @ [\<lparr>ic_client = c, ic_since = o_now inp\<rparr>]\<rparr>) s, []))"

text \<open>The janitor: \<open>loop\<close>, whose \<open>select\<close> takes a ready case, and its three chores.\<close>

definition loop_wait :: "outside \<Rightarrow> pool_sys \<Rightarrow> pool_sys \<times> thread list" where
  "loop_wait inp s =
     (let p = ps_pool s in
      if o_case inp = 0 \<and> p_stopCh p then (s, [])
      else if o_case inp = 1 \<and> p_settingsCh p
      then (on_pool (\<lambda>p. p\<lparr>p_settingsCh := False\<rparr>) s, [LoopTrim])
      else if o_case inp = 2 \<and> p_warmCh p
      then (on_pool (\<lambda>p. p\<lparr>p_warmCh := False\<rparr>) s, [LoopPrewarm])
      else if o_case inp = 3 then (s, [LoopReap])
      else (s, [LoopWait]))"

definition reapInterval :: "Pool \<Rightarrow> int" where
  "reapInterval p = max (IdleTTL (p_settings p) div 4) (15 * nanos)"

definition trim_idle :: "pool_sys \<Rightarrow> pool_sys \<times> thread list" where
  "trim_idle s =
     (let p = ps_pool s; n = nat (MaxIdle (p_settings p)) in
      (on_pool (\<lambda>p. p\<lparr>p_idle := take n (p_idle p)\<rparr>) s,
       [StopChildren (rev (map ic_client (drop n (p_idle p)))) (Some LoopWait)]))"

definition reap_kept :: "PoolSettings \<Rightarrow> instant \<Rightarrow> nat \<times> idleChild \<Rightarrow> bool" where
  "reap_kept st now ic \<longleftrightarrow> int (fst ic) < Prewarm st \<or> now - ic_since (snd ic) < IdleTTL st"

definition reap_idle :: "outside \<Rightarrow> pool_sys \<Rightarrow> pool_sys \<times> thread list" where
  "reap_idle inp s =
     (let p = ps_pool s; keep = reap_kept (p_settings p) (o_now inp); xs = List.enumerate 0 (p_idle p) in
      (on_pool (\<lambda>p. p\<lparr>p_idle := map snd (filter keep xs)\<rparr>) s,
       [StopChildren (map (ic_client \<circ> snd) (filter (\<lambda>x. \<not> keep x) xs)) (Some LoopPrewarm)]))"

definition prewarm_needed :: "Pool \<Rightarrow> int" where
  "prewarm_needed p =
     (if p_used p \<and> p_active p < MaxActive (p_settings p)
      then Prewarm (p_settings p) - int (length (p_idle p)) else 0)"

definition prewarm :: "pool_sys \<Rightarrow> pool_sys \<times> thread list" where
  "prewarm s =
     (if p_closed (ps_pool s) \<or> prewarm_needed (ps_pool s) \<le> 0 then (s, [LoopWait]) else (s, [LoopLaunch]))"

definition launchBackground :: "outside \<Rightarrow> pool_sys \<Rightarrow> pool_sys \<times> thread list" where
  "launchBackground inp s =
     (if o_ok inp then (case launch s of (c, s') \<Rightarrow> (s', [LoopPut c])) else (s, [LoopWait]))"

definition prewarm_put :: "outside \<Rightarrow> child \<Rightarrow> pool_sys \<Rightarrow> pool_sys \<times> thread list" where
  "prewarm_put inp c s =
     (if p_closed (ps_pool s) \<or> idle_full (ps_pool s) then (s, [StopChildren [c] (Some LoopWait)])
      else (on_pool (\<lambda>p. p\<lparr>p_idle := p_idle p @ [\<lparr>ic_client = c, ic_since = o_now inp\<rparr>]\<rparr>) s,
            [LoopPrewarm]))"

definition close_lock :: "pool_sys \<Rightarrow> pool_sys \<times> thread list" where
  "close_lock s =
     (on_pool (\<lambda>p. p\<lparr>p_closed := True, p_idle := []\<rparr>) s,
      [StopChildren (map ic_client (p_idle (ps_pool s))) None])"

subsection \<open>The runner's goroutines\<close>

text \<open>\<open>Close\<close> from its critical section on: the relaunched child is stopped, a lease is returned.\<close>

definition runner_close :: "nat \<Rightarrow> pool_sys \<Rightarrow> pool_sys \<times> thread list" where
  "runner_close k s =
     (let r = ps_runners s ! k;
          s' = on_runner k (\<lambda>r. r\<lparr>r_client := None, r_dead := True, r_closed := True\<rparr>) s;
          own = (case r_client r of None \<Rightarrow> [] | Some c \<Rightarrow> [c])
      in if r_release r
         then (s', [StopChildren (filter (\<lambda>c. c \<noteq> r_leased r) own) (Some (ReleaseStart (r_leased r)))])
         else (s', [StopChildren own None]))"

text \<open>The end of \<open>restart\<close>: the watchdog counts the failures in a row and gives up after the third.\<close>

definition restart_failed :: "RemoteRunner \<Rightarrow> RemoteRunner" where
  "restart_failed r =
     (let n = Suc (r_failedRestarts r) in
      r\<lparr>r_restarting := False, r_failedRestarts := n, r_watching := (r_watching r \<and> n < maxWatchdogRestarts)\<rparr>)"

definition restart_done :: "RemoteRunner \<Rightarrow> RemoteRunner" where
  "restart_done r = r\<lparr>r_restarting := False, r_failedRestarts := 0\<rparr>"

definition restart_drop :: "nat \<Rightarrow> pool_sys \<Rightarrow> pool_sys \<times> thread list" where
  "restart_drop k s =
     (let r = ps_runners s ! k in
      if r_closed r then (on_runner k restart_done s, [])
      else (on_runner k (\<lambda>r. r\<lparr>r_client := None, r_dead := True, r_bound := False\<rparr>) s,
            [RestartStop k (r_client r)]))"

definition restart_stop :: "nat \<Rightarrow> child option \<Rightarrow> pool_sys \<Rightarrow> pool_sys \<times> thread list" where
  "restart_stop k c s =
     ((case c of None \<Rightarrow> s | Some c \<Rightarrow> stop_child c s), [RestartWait k relaunch_attempts])"

text \<open>Each attempt waits out its backoff unless \<open>Close\<close> ends the wait.\<close>

definition restart_wait :: "outside \<Rightarrow> nat \<Rightarrow> nat \<Rightarrow> pool_sys \<Rightarrow> pool_sys \<times> thread list" where
  "restart_wait inp k n s =
     (if n = 0 then (on_runner k restart_failed s, [])
      else if r_closing (ps_runners s ! k) \<and> o_case inp = 0 then (on_runner k restart_done s, [])
      else (s, [RestartLaunch k (n - 1)]))"

definition restart_launch :: "outside \<Rightarrow> nat \<Rightarrow> nat \<Rightarrow> pool_sys \<Rightarrow> pool_sys \<times> thread list" where
  "restart_launch inp k n s =
     (if o_ok inp then (case launch s of (c, s') \<Rightarrow> (s', [RestartProbe k n c]))
      else (s, [RestartWait k n]))"

definition restart_probe :: "outside \<Rightarrow> nat \<Rightarrow> nat \<Rightarrow> child \<Rightarrow> pool_sys \<Rightarrow> pool_sys \<times> thread list" where
  "restart_probe inp k n c s =
     (if healthy inp c s then (s, [RestartInstall k c]) else (stop_child c s, [RestartWait k n]))"

definition restart_install :: "nat \<Rightarrow> child \<Rightarrow> pool_sys \<Rightarrow> pool_sys \<times> thread list" where
  "restart_install k c s =
     (if r_closed (ps_runners s ! k) then (on_runner k restart_done s, [StopChildren [c] None])
      else (on_runner k (\<lambda>r. restart_done (r\<lparr>r_client := Some c, r_dead := False, r_bound := False\<rparr>)) s, []))"

text \<open>One tick of \<open>watch\<close>.\<close>

definition watch_ping :: "bool \<Rightarrow> nat \<Rightarrow> pool_sys \<Rightarrow> pool_sys \<times> thread list" where
  "watch_ping ok k s =
     (let r = ps_runners s ! k in
      if \<not> r_watching r \<or> r_restarting r then (s, [])
      else if ok \<and> is_ok (available r) then (on_runner k (\<lambda>r. r\<lparr>r_failures := 0\<rparr>) s, [])
      else if Suc (r_failures r) < watchdogMaxFailures
      then (on_runner k (\<lambda>r. r\<lparr>r_failures := Suc (r_failures r)\<rparr>) s, [])
      else (on_runner k (\<lambda>r. r\<lparr>r_failures := 0, r_restarting := True\<rparr>) s, [RestartDrop k]))"

subsection \<open>Interleavings\<close>

fun pool_section :: "outside \<Rightarrow> thread \<Rightarrow> pool_sys \<Rightarrow> pool_sys \<times> thread list" where
  "pool_section inp AcquireLoop s = acquire_loop s"
| "pool_section inp (AcquireCheck c ttl) s = acquire_check inp c ttl s"
| "pool_section inp (AcquireTake c) s = acquire_take c s"
| "pool_section inp LaunchPooled s = launch_lease inp True s"
| "pool_section inp LaunchDedicated s = launch_lease inp False s"
| "pool_section inp (BindChild c pooled) s = bind_child inp c pooled s"
| "pool_section inp DropSlot s = (on_pool drop_active s, [])"
| "pool_section inp SignalWarm s = (on_pool (\<lambda>p. p\<lparr>p_used := True, p_warmCh := True\<rparr>) s, [])"
| "pool_section inp (ReleaseStart c) s = release_start c s"
| "pool_section inp (ReleaseCheck c) s = release_check inp c s"
| "pool_section inp (ReleasePut c) s = release_put inp c s"
| "pool_section inp (StopChildren [] next') s = (s, case next' of None \<Rightarrow> [] | Some th \<Rightarrow> [th])"
| "pool_section inp (StopChildren (c # cs) next') s = (stop_child c s, [StopChildren cs next'])"
| "pool_section inp LoopWait s = loop_wait inp s"
| "pool_section inp LoopTrim s = trim_idle s"
| "pool_section inp LoopReap s = reap_idle inp s"
| "pool_section inp LoopPrewarm s = prewarm s"
| "pool_section inp LoopLaunch s = launchBackground inp s"
| "pool_section inp (LoopPut c) s = prewarm_put inp c s"
| "pool_section inp SettingsSignal s = (on_pool (\<lambda>p. p\<lparr>p_settingsCh := True\<rparr>) s, [])"
| "pool_section inp CloseLock s = close_lock s"
| "pool_section inp (RunnerClose k) s = runner_close k s"
| "pool_section inp (RestartDrop k) s = restart_drop k s"
| "pool_section inp (RestartStop k c) s = restart_stop k c s"
| "pool_section inp (RestartWait k n) s = restart_wait inp k n s"
| "pool_section inp (RestartLaunch k n) s = restart_launch inp k n s"
| "pool_section inp (RestartProbe k n c) s = restart_probe inp k n c s"
| "pool_section inp (RestartInstall k c) s = restart_install k c s"

datatype pool_event =
    CallLease | CallRunnerClose nat | CallSetSettings PoolSettings | CallPoolClose
  | WatchTick nat bool | Go nat outside

definition spawned :: "pool_sys \<times> thread list \<Rightarrow> pool_sys" where
  "spawned x = (case x of (s, new) \<Rightarrow> s\<lparr>ps_threads := ps_threads s @ new\<rparr>)"

definition SetSettings :: "PoolSettings \<Rightarrow> pool_sys \<Rightarrow> pool_sys \<times> thread list" where
  "SetSettings st s =
     (on_pool (\<lambda>p. p\<lparr>p_settings := NormalizePoolSettings st\<rparr>) s,
      if p_closed (ps_pool s) then [] else [SettingsSignal])"

text \<open>\<open>closeOnce\<close> of the runner and of the pool: only the first call does anything.\<close>

definition RunnerClose_call :: "nat \<Rightarrow> pool_sys \<Rightarrow> pool_sys \<times> thread list" where
  "RunnerClose_call k s =
     (if k < length (ps_runners s) \<and> \<not> r_closing (ps_runners s ! k)
      then (on_runner k (\<lambda>r. r\<lparr>r_closing := True, r_watching := False\<rparr>) s, [RunnerClose k])
      else (s, []))"

definition PoolClose_call :: "pool_sys \<Rightarrow> pool_sys \<times> thread list" where
  "PoolClose_call s =
     (if p_stopCh (ps_pool s) then (s, [])
      else (on_pool (\<lambda>p. p\<lparr>p_stopCh := True\<rparr>) s, [CloseLock]))"

fun pool_step :: "pool_event \<Rightarrow> pool_sys \<Rightarrow> pool_sys" where
  "pool_step CallLease s = spawned (s, [AcquireLoop])"
| "pool_step (CallRunnerClose k) s = spawned (RunnerClose_call k s)"
| "pool_step (CallSetSettings st) s = spawned (SetSettings st s)"
| "pool_step CallPoolClose s = spawned (PoolClose_call s)"
| "pool_step (WatchTick k ok) s = (if k < length (ps_runners s) then spawned (watch_ping ok k s) else s)"
| "pool_step (Go j inp) s =
     (if j < length (ps_threads s) then
        (case pool_section inp (ps_threads s ! j) s of
           (s', new) \<Rightarrow> s'\<lparr>ps_threads := take j (ps_threads s) @ new @ drop (Suc j) (ps_threads s)\<rparr>)
      else s)"

end
