(* ===== verification/ExecPoolLaws.thy ===== *)
theory ExecPoolLaws
  imports ExecPool "HOL-Library.Multiset"
begin

text \<open>
  The pool of exec children is safe under every interleaving. The books: each child ever launched is
  in one place at most (idle, leased by a runner, or in the hands of one goroutine), and one that is
  nowhere was stopped or is about to be. The slots: the active count is exactly the leases and the
  goroutines that hold a slot. The idle list respects its bound up to a pending trim and is empty once
  the pool is closed. A last trace shows where the count passes the documented cap.
\<close>

subsection \<open>Settings\<close>

definition settings_ok :: "PoolSettings \<Rightarrow> bool" where
  "settings_ok s \<longleftrightarrow>
     0 \<le> Prewarm s \<and> Prewarm s \<le> 8 \<and> Prewarm s \<le> MaxIdle s \<and> MaxIdle s \<le> 16 \<and>
     1 \<le> MaxActive s \<and> MaxActive s \<le> 64 \<and> 0 < IdleTTL s \<and> IdleTTL s \<le> hour_ns"

lemma normalize_ok: "settings_ok (NormalizePoolSettings s)"
  by (simp add: settings_ok_def NormalizePoolSettings_def DefaultPoolSettings_def Let_def minute_ns_def hour_ns_def)

lemma normalize_id: "settings_ok s \<Longrightarrow> NormalizePoolSettings s = s"
  by (simp add: settings_ok_def NormalizePoolSettings_def DefaultPoolSettings_def Let_def)

subsection \<open>Who holds a child\<close>

fun hands :: "thread \<Rightarrow> child list" where
  "hands (AcquireCheck c ttl) = [ic_client c]"
| "hands (AcquireTake c) = [c]"
| "hands (BindChild c pooled) = [c]"
| "hands (ReleaseStart c) = [c]"
| "hands (ReleaseCheck c) = [c]"
| "hands (ReleasePut c) = [c]"
| "hands (StopChildren cs None) = cs"
| "hands (StopChildren cs (Some th)) = cs @ hands th"
| "hands (LoopPut c) = [c]"
| "hands (RestartProbe k n c) = [c]"
| "hands (RestartInstall k c) = [c]"
| "hands _ = []"

text \<open>A child the watchdog has taken from its runner and is about to stop.\<close>

fun doomed :: "thread \<Rightarrow> child list" where
  "doomed (RestartStop k (Some c)) = [c]"
| "doomed (StopChildren cs (Some th)) = doomed th"
| "doomed _ = []"

definition tokens :: "RemoteRunner \<Rightarrow> child list" where
  "tokens r =
     (case r_client r of None \<Rightarrow> [] | Some c \<Rightarrow> [c]) @
     (if r_release r \<and> \<not> r_closed r \<and> r_client r \<noteq> Some (r_leased r) then [r_leased r] else [])"

definition idle_ms :: "pool_sys \<Rightarrow> child multiset" where
  "idle_ms s = mset (map ic_client (p_idle (ps_pool s)))"

definition toks :: "RemoteRunner list \<Rightarrow> child multiset" where
  "toks rs = mset (concat (map tokens rs))"

definition hands_ms :: "thread list \<Rightarrow> child multiset" where
  "hands_ms ths = mset (concat (map hands ths))"

definition dooms :: "thread list \<Rightarrow> child set" where
  "dooms ths = set (concat (map doomed ths))"

definition owned :: "pool_sys \<Rightarrow> child multiset" where
  "owned s = idle_ms s + toks (ps_runners s) + hands_ms (ps_threads s)"

lemma ms_simps [simp]:
  "hands_ms [] = {#}" "hands_ms (th # ths) = mset (hands th) + hands_ms ths"
  "hands_ms (xs @ ys) = hands_ms xs + hands_ms ys"
  "dooms [] = {}" "dooms (th # ths) = set (doomed th) \<union> dooms ths"
  "dooms (xs @ ys) = dooms xs \<union> dooms ys"
  "toks [] = {#}" "toks (r # rs) = mset (tokens r) + toks rs" "toks (rs @ rs') = toks rs + toks rs'"
  by (simp_all add: hands_ms_def dooms_def toks_def)

lemma toks_update:
  "k < length rs \<Longrightarrow> toks (rs[k := r]) + mset (tokens (rs ! k)) = toks rs + mset (tokens r)"
proof -
  assume k: "k < length rs"
  have "rs = take k rs @ rs ! k # drop (Suc k) rs" using k by (rule id_take_nth_drop)
  then have "toks rs = toks (take k rs) + mset (tokens (rs ! k)) + toks (drop (Suc k) rs)"
    by (metis ms_simps(8,9) add.assoc)
  moreover have "toks (rs[k := r]) = toks (take k rs) + mset (tokens r) + toks (drop (Suc k) rs)"
    using k by (simp add: upd_conv_take_nth_drop add.assoc)
  ultimately show ?thesis by (simp add: ac_simps)
qed

lemma toks_same: "k < length rs \<Longrightarrow> tokens r = tokens (rs ! k) \<Longrightarrow> toks (rs[k := r]) = toks rs"
  using toks_update [of k rs r] by simp

text \<open>The books of one section: children launched come in, children stopped or doomed go out.\<close>

definition books :: "thread \<Rightarrow> pool_sys \<Rightarrow> thread list \<Rightarrow> pool_sys \<Rightarrow> bool" where
  "books th s new s' \<longleftrightarrow>
     (\<exists>gone. idle_ms s' + toks (ps_runners s') + hands_ms new + gone =
        idle_ms s + toks (ps_runners s) + mset (hands th) + mset [ps_next s..<ps_next s'] \<and>
        set_mset gone \<subseteq> ps_stopped s' \<union> dooms new) \<and>
     ps_next s \<le> ps_next s' \<and> ps_stopped s \<subseteq> ps_stopped s' \<and> set (doomed th) \<subseteq> ps_stopped s' \<union> dooms new"

lemma booksI:
  assumes "idle_ms s' + toks (ps_runners s') + hands_ms new + gone =
      idle_ms s + toks (ps_runners s) + mset (hands th) + mset [ps_next s..<ps_next s']"
    "set_mset gone \<subseteq> ps_stopped s' \<union> dooms new" "ps_next s \<le> ps_next s'" "ps_stopped s \<subseteq> ps_stopped s'"
    "set (doomed th) \<subseteq> ps_stopped s' \<union> dooms new"
  shows "books th s new s'"
  using assms unfolding books_def by blast

lemma sys_simps [simp]:
  "ps_runners (on_pool f s) = ps_runners s" "ps_next (on_pool f s) = ps_next s"
  "ps_stopped (on_pool f s) = ps_stopped s" "ps_pool (on_pool f s) = f (ps_pool s)"
  "ps_threads (on_pool f s) = ps_threads s" "ps_threads (on_runner k g s) = ps_threads s"
  "ps_pool (on_runner k g s) = ps_pool s" "ps_next (on_runner k g s) = ps_next s"
  "ps_stopped (on_runner k g s) = ps_stopped s" "length (ps_runners (on_runner k g s)) = length (ps_runners s)"
  "ps_pool (stop_child c s) = ps_pool s" "ps_runners (stop_child c s) = ps_runners s"
  "ps_next (stop_child c s) = ps_next s" "ps_stopped (stop_child c s) = insert c (ps_stopped s)"
  "ps_threads (stop_child c s) = ps_threads s"
  by (simp_all add: on_pool_def on_runner_def stop_child_def)

lemma runners_on_runner: "k < length (ps_runners s) \<Longrightarrow>
  ps_runners (on_runner k g s) = (ps_runners s)[k := g (ps_runners s ! k)]"
  by (simp add: on_runner_def)

lemma idle_ms_simps [simp]:
  "idle_ms (on_runner k g s) = idle_ms s" "idle_ms (stop_child c s) = idle_ms s"
  "idle_ms (s\<lparr>ps_threads := ths\<rparr>) = idle_ms s"
  "idle_ms (on_pool f s) = mset (map ic_client (p_idle (f (ps_pool s))))"
  by (simp_all add: idle_ms_def)

lemma drop_active_simps [simp]:
  "p_idle (drop_active p) = p_idle p" "p_settings (drop_active p) = p_settings p"
  "p_closed (drop_active p) = p_closed p" "p_settingsCh (drop_active p) = p_settingsCh p"
  "p_stopCh (drop_active p) = p_stopCh p"
  by (simp_all add: drop_active_def)

lemma filter_enumerate_split:
  "mset (map (f \<circ> snd) (filter P xs)) + mset (map (f \<circ> snd) (filter (\<lambda>x. \<not> P x) xs)) = mset (map (f \<circ> snd) xs)"
  by (induction xs) simp_all

lemma pool_books:
  "acquire_loop s = (s', new) \<Longrightarrow> books AcquireLoop s new s'"
  "acquire_check inp c ttl s = (s', new) \<Longrightarrow> books (AcquireCheck c ttl) s new s'"
  "acquire_take d s = (s', new) \<Longrightarrow> books (AcquireTake d) s new s'"
  "launch_lease inp True s = (s', new) \<Longrightarrow> books LaunchPooled s new s'"
  "launch_lease inp False s = (s', new) \<Longrightarrow> books LaunchDedicated s new s'"
  "bind_child inp d pooled s = (s', new) \<Longrightarrow> books (BindChild d pooled) s new s'"
  "release_start d s = (s', new) \<Longrightarrow> books (ReleaseStart d) s new s'"
  "release_check inp d s = (s', new) \<Longrightarrow> books (ReleaseCheck d) s new s'"
  "release_put inp d s = (s', new) \<Longrightarrow> books (ReleasePut d) s new s'"
proof -
  show "acquire_loop s = (s', new) \<Longrightarrow> books AcquireLoop s new s'"
    by (cases "p_idle (ps_pool s)" rule: rev_cases)
      (auto simp: acquire_loop_def Let_def idle_ms_def intro!: booksI [where gone = "{#}"] split: if_splits)
  show "acquire_check inp c ttl s = (s', new) \<Longrightarrow> books (AcquireCheck c ttl) s new s'"
    by (auto simp: acquire_check_def intro: booksI [where gone = "{#}"] booksI [where gone = "{#ic_client c#}"] split: if_splits)
  show "acquire_take d s = (s', new) \<Longrightarrow> books (AcquireTake d) s new s'"
    by (auto simp: acquire_take_def idle_ms_def intro!: booksI [where gone = "{#}"] split: if_splits)
  show "launch_lease inp True s = (s', new) \<Longrightarrow> books LaunchPooled s new s'"
    by (auto simp: launch_lease_def launch_def idle_ms_def intro!: booksI [where gone = "{#}"] split: if_splits)
  show "launch_lease inp False s = (s', new) \<Longrightarrow> books LaunchDedicated s new s'"
    by (auto simp: launch_lease_def launch_def idle_ms_def intro!: booksI [where gone = "{#}"] split: if_splits)
  show "bind_child inp d pooled s = (s', new) \<Longrightarrow> books (BindChild d pooled) s new s'"
    by (auto simp: bind_child_def idle_ms_def NewRemoteRunner_def tokens_def
        intro: booksI [where gone = "{#}"] booksI [where gone = "{#d#}"] split: if_splits)
  show "release_start d s = (s', new) \<Longrightarrow> books (ReleaseStart d) s new s'"
    by (auto simp: release_start_def idle_ms_def Let_def intro!: booksI [where gone = "{#}"] split: if_splits)
  show "release_check inp d s = (s', new) \<Longrightarrow> books (ReleaseCheck d) s new s'"
    by (auto simp: release_check_def intro!: booksI [where gone = "{#}"] split: if_splits)
  show "release_put inp d s = (s', new) \<Longrightarrow> books (ReleasePut d) s new s'"
    by (auto simp: release_put_def idle_ms_def intro!: booksI [where gone = "{#}"] split: if_splits)
qed


lemma loop_books:
  "loop_wait inp s = (s', new) \<Longrightarrow> books LoopWait s new s'"
  "trim_idle s = (s', new) \<Longrightarrow> books LoopTrim s new s'"
  "reap_idle inp s = (s', new) \<Longrightarrow> books LoopReap s new s'"
  "prewarm s = (s', new) \<Longrightarrow> books LoopPrewarm s new s'"
  "launchBackground inp s = (s', new) \<Longrightarrow> books LoopLaunch s new s'"
  "prewarm_put inp d s = (s', new) \<Longrightarrow> books (LoopPut d) s new s'"
  "close_lock s = (s', new) \<Longrightarrow> books CloseLock s new s'"
proof -
  show "loop_wait inp s = (s', new) \<Longrightarrow> books LoopWait s new s'"
    by (auto simp: loop_wait_def Let_def idle_ms_def intro!: booksI [where gone = "{#}"] split: if_splits)
  show "trim_idle s = (s', new) \<Longrightarrow> books LoopTrim s new s'"
  proof -
    assume "trim_idle s = (s', new)"
    moreover have "mset (map ic_client (take n xs)) + mset (map ic_client (drop n xs)) = mset (map ic_client xs)" for n xs
      by (metis append_take_drop_id map_append mset_append)
    ultimately show ?thesis
      by (auto simp: trim_idle_def Let_def idle_ms_def simp del: mset_map intro!: booksI [where gone = "{#}"])
  qed
  show "reap_idle inp s = (s', new) \<Longrightarrow> books LoopReap s new s'"
  proof -
    assume "reap_idle inp s = (s', new)"
    moreover have "mset (map ic_client (map snd (filter P xs))) + mset (map (ic_client \<circ> snd) (filter (\<lambda>x. \<not> P x) xs)) =
        mset (map ic_client (map snd xs))" for P and xs :: "(nat \<times> idleChild) list"
      using filter_enumerate_split [of ic_client P xs] by (simp only: map_map)
    ultimately show ?thesis
      by (auto simp: reap_idle_def Let_def idle_ms_def simp del: mset_map map_map intro!: booksI [where gone = "{#}"])
  qed
  show "prewarm s = (s', new) \<Longrightarrow> books LoopPrewarm s new s'"
    by (auto simp: prewarm_def intro!: booksI [where gone = "{#}"] split: if_splits)
  show "launchBackground inp s = (s', new) \<Longrightarrow> books LoopLaunch s new s'"
    by (auto simp: launchBackground_def launch_def idle_ms_def intro!: booksI [where gone = "{#}"] split: if_splits)
  show "prewarm_put inp d s = (s', new) \<Longrightarrow> books (LoopPut d) s new s'"
    by (auto simp: prewarm_put_def idle_ms_def intro!: booksI [where gone = "{#}"] split: if_splits)
  show "close_lock s = (s', new) \<Longrightarrow> books CloseLock s new s'"
    by (auto simp: close_lock_def idle_ms_def intro!: booksI [where gone = "{#}"])
qed

lemma tokens_simps [simp]:
  "tokens (restart_done r) = tokens r" "tokens (restart_failed r) = tokens r"
  "tokens (r\<lparr>r_failures := n\<rparr>) = tokens r" "tokens (r\<lparr>r_restarting := b\<rparr>) = tokens r"
  "tokens (r\<lparr>r_closing := b\<rparr>) = tokens r" "tokens (r\<lparr>r_watching := b\<rparr>) = tokens r"
  "tokens (r\<lparr>r_bound := b\<rparr>) = tokens r" "tokens (r\<lparr>r_dead := b\<rparr>) = tokens r"
  by (simp_all add: tokens_def restart_done_def restart_failed_def Let_def)

lemma restart_books:
  assumes k: "k < length (ps_runners s)"
  shows
  "runner_close k s = (s', new) \<Longrightarrow> \<not> r_closed (ps_runners s ! k) \<Longrightarrow> books (RunnerClose k) s new s'"
  "restart_drop k s = (s', new) \<Longrightarrow> books (RestartDrop k) s new s'"
  "restart_stop k c s = (s', new) \<Longrightarrow> books (RestartStop k c) s new s'"
  "restart_wait inp k n s = (s', new) \<Longrightarrow> books (RestartWait k n) s new s'"
  "restart_launch inp k n s = (s', new) \<Longrightarrow> books (RestartLaunch k n) s new s'"
  "restart_probe inp k n d s = (s', new) \<Longrightarrow> books (RestartProbe k n d) s new s'"
  "restart_install k d s = (s', new) \<Longrightarrow> r_client (ps_runners s ! k) = None \<Longrightarrow>
     (r_release (ps_runners s ! k) \<and> \<not> r_closed (ps_runners s ! k) \<longrightarrow> d \<noteq> r_leased (ps_runners s ! k)) \<Longrightarrow>
     books (RestartInstall k d) s new s'"
proof -
  let ?r = "ps_runners s ! k"
  note upd = toks_update [OF k] toks_same [OF k] runners_on_runner [OF k]
  show "runner_close k s = (s', new) \<Longrightarrow> \<not> r_closed ?r \<Longrightarrow> books (RunnerClose k) s new s'"
    using upd(1) [of "?r\<lparr>r_client := None, r_dead := True, r_closed := True\<rparr>"]
    by (auto simp: runner_close_def Let_def tokens_def upd(3) intro!: booksI [where gone = "{#}"]
        split: if_splits option.splits)
  show "restart_drop k s = (s', new) \<Longrightarrow> books (RestartDrop k) s new s'"
  proof (cases "r_closed ?r")
    case True
    assume "restart_drop k s = (s', new)"
    then show ?thesis using True
      by (auto simp: restart_drop_def Let_def upd(2,3) intro!: booksI [where gone = "{#}"])
  next
    case False
    assume "restart_drop k s = (s', new)"
    then show ?thesis
      using False upd(1) [of "?r\<lparr>r_client := None, r_dead := True, r_bound := False\<rparr>"]
      by (auto simp: restart_drop_def Let_def tokens_def upd(3)
          intro: booksI [where gone = "{#}"] booksI [where gone = "{#the (r_client ?r)#}"]
          split: if_splits option.splits)
  qed
  show "restart_stop k c s = (s', new) \<Longrightarrow> books (RestartStop k c) s new s'"
    by (auto simp: restart_stop_def intro!: booksI [where gone = "{#}"] split: option.splits)
  show "restart_wait inp k n s = (s', new) \<Longrightarrow> books (RestartWait k n) s new s'"
    by (auto simp: restart_wait_def upd(2,3) intro!: booksI [where gone = "{#}"] split: if_splits)
  show "restart_launch inp k n s = (s', new) \<Longrightarrow> books (RestartLaunch k n) s new s'"
    by (auto simp: restart_launch_def launch_def idle_ms_def intro!: booksI [where gone = "{#}"] split: if_splits)
  show "restart_probe inp k n d s = (s', new) \<Longrightarrow> books (RestartProbe k n d) s new s'"
    by (auto simp: restart_probe_def intro: booksI [where gone = "{#}"] booksI [where gone = "{#d#}"] split: if_splits)
  show "restart_install k d s = (s', new) \<Longrightarrow> r_client ?r = None \<Longrightarrow>
     (r_release ?r \<and> \<not> r_closed ?r \<longrightarrow> d \<noteq> r_leased ?r) \<Longrightarrow> books (RestartInstall k d) s new s'"
    using upd(1) [of "?r\<lparr>r_client := Some d, r_dead := False, r_bound := False\<rparr>"]
      upd(1) [of "restart_done (?r\<lparr>r_client := Some d, r_dead := False, r_bound := False\<rparr>)"]
    by (auto simp: restart_install_def Let_def tokens_def upd(2,3) restart_done_def intro!: booksI [where gone = "{#}"]
        split: if_splits option.splits)
qed


subsection \<open>Who works on a runner\<close>

fun closer :: "thread \<Rightarrow> nat list" where
  "closer (RunnerClose k) = [k]"
| "closer _ = []"

fun dropped :: "thread \<Rightarrow> nat list" where
  "dropped (RestartStop k c) = [k]"
| "dropped (RestartWait k n) = [k]"
| "dropped (RestartLaunch k n) = [k]"
| "dropped (RestartProbe k n c) = [k]"
| "dropped (RestartInstall k c) = [k]"
| "dropped _ = []"

fun restarter :: "thread \<Rightarrow> nat list" where
  "restarter (RestartDrop k) = [k]"
| "restarter th = dropped th"

definition closers :: "thread list \<Rightarrow> nat list" where "closers ths = concat (map closer ths)"
definition droppeds :: "thread list \<Rightarrow> nat list" where "droppeds ths = concat (map dropped ths)"
definition restarters :: "thread list \<Rightarrow> nat list" where "restarters ths = concat (map restarter ths)"

lemma workers_simps [simp]:
  "closers [] = []" "closers (t # ts) = closer t @ closers ts" "closers (xs @ ys) = closers xs @ closers ys"
  "droppeds [] = []" "droppeds (t # ts) = dropped t @ droppeds ts" "droppeds (xs @ ys) = droppeds xs @ droppeds ys"
  "restarters [] = []" "restarters (t # ts) = restarter t @ restarters ts"
  "restarters (xs @ ys) = restarters xs @ restarters ys"
  by (simp_all add: closers_def droppeds_def restarters_def)

text \<open>What a stopping goroutine goes on to does no work on a runner.\<close>

fun nested_ok :: "thread \<Rightarrow> bool" where
  "nested_ok (StopChildren cs (Some th)) = (closer th = [] \<and> restarter th = [] \<and> doomed th = [] \<and> nested_ok th)"
| "nested_ok _ = True"

definition runner_ok :: "RemoteRunner \<Rightarrow> bool" where
  "runner_ok r \<longleftrightarrow>
     (if r_closed r then r_client r = None \<and> r_closing r else True)"

definition workers_ok :: "RemoteRunner list \<Rightarrow> thread list \<Rightarrow> bool" where
  "workers_ok rs ths \<longleftrightarrow>
     (\<forall>r\<in>set rs. runner_ok r) \<and> list_all nested_ok ths \<and>
     distinct (closers ths) \<and> distinct (restarters ths) \<and>
     (\<forall>k\<in>set (closers ths). k < length rs \<and> r_closing (rs ! k) \<and> \<not> r_closed (rs ! k)) \<and>
     (\<forall>k\<in>set (restarters ths). k < length rs \<and> r_restarting (rs ! k)) \<and>
     (\<forall>k\<in>set (droppeds ths). k < length rs \<and> r_client (rs ! k) = None)"

text \<open>Sections that touch no runner keep their thread's claims on one.\<close>

definition passes_on :: "thread \<Rightarrow> thread list \<Rightarrow> bool" where
  "passes_on th new \<longleftrightarrow>
     list_all nested_ok new \<and>
     closers new = closer th \<and> restarters new = restarter th \<and> set (droppeds new) = set (dropped th)"

lemma passes_keeps:
  "passes_on th new \<Longrightarrow> workers_ok rs (xs @ th # ys) \<Longrightarrow> workers_ok rs (xs @ new @ ys)"
  by (auto simp: passes_on_def workers_ok_def)

lemma pool_passes:
  "acquire_loop s = (s', new) \<Longrightarrow> ps_runners s' = ps_runners s \<and> passes_on AcquireLoop new"
  "acquire_check inp c ttl s = (s', new) \<Longrightarrow> ps_runners s' = ps_runners s \<and> passes_on (AcquireCheck c ttl) new"
  "acquire_take d s = (s', new) \<Longrightarrow> ps_runners s' = ps_runners s \<and> passes_on (AcquireTake d) new"
  "launch_lease inp True s = (s', new) \<Longrightarrow> ps_runners s' = ps_runners s \<and> passes_on LaunchPooled new"
  "launch_lease inp False s = (s', new) \<Longrightarrow> ps_runners s' = ps_runners s \<and> passes_on LaunchDedicated new"
  "release_start d s = (s', new) \<Longrightarrow> ps_runners s' = ps_runners s \<and> passes_on (ReleaseStart d) new"
  "release_check inp d s = (s', new) \<Longrightarrow> ps_runners s' = ps_runners s \<and> passes_on (ReleaseCheck d) new"
  "release_put inp d s = (s', new) \<Longrightarrow> ps_runners s' = ps_runners s \<and> passes_on (ReleasePut d) new"
  "loop_wait inp s = (s', new) \<Longrightarrow> ps_runners s' = ps_runners s \<and> passes_on LoopWait new"
  "trim_idle s = (s', new) \<Longrightarrow> ps_runners s' = ps_runners s \<and> passes_on LoopTrim new"
  "reap_idle inp s = (s', new) \<Longrightarrow> ps_runners s' = ps_runners s \<and> passes_on LoopReap new"
  "prewarm s = (s', new) \<Longrightarrow> ps_runners s' = ps_runners s \<and> passes_on LoopPrewarm new"
  "launchBackground inp s = (s', new) \<Longrightarrow> ps_runners s' = ps_runners s \<and> passes_on LoopLaunch new"
  "prewarm_put inp d s = (s', new) \<Longrightarrow> ps_runners s' = ps_runners s \<and> passes_on (LoopPut d) new"
  "close_lock s = (s', new) \<Longrightarrow> ps_runners s' = ps_runners s \<and> passes_on CloseLock new"
  "restart_stop k co s = (s', new) \<Longrightarrow> ps_runners s' = ps_runners s \<and> passes_on (RestartStop k co) new"
  "restart_launch inp k n s = (s', new) \<Longrightarrow> ps_runners s' = ps_runners s \<and> passes_on (RestartLaunch k n) new"
  "restart_probe inp k n d s = (s', new) \<Longrightarrow> ps_runners s' = ps_runners s \<and> passes_on (RestartProbe k n d) new"
  by (auto simp: acquire_loop_def acquire_check_def acquire_take_def launch_lease_def launch_def release_start_def
      release_check_def release_put_def loop_wait_def trim_idle_def reap_idle_def prewarm_def launchBackground_def
      prewarm_put_def close_lock_def restart_stop_def restart_launch_def restart_probe_def passes_on_def Let_def
      split: if_splits option.splits)


lemma droppeds_restarters: "set (droppeds ths) \<subseteq> set (restarters ths)"
proof (induction ths)
  case (Cons t ths)
  have "set (dropped t) \<subseteq> set (restarter t)" by (cases t) simp_all
  with Cons show ?case by auto
qed simp

text \<open>A thread may end, or a runner change in a way its workers allow.\<close>

lemma workers_drop:
  "workers_ok rs (xs @ th # ys) \<Longrightarrow> list_all nested_ok new \<Longrightarrow> closers new = [] \<Longrightarrow> restarters new = [] \<Longrightarrow>
   workers_ok rs (xs @ new @ ys)"
  using droppeds_restarters [of new] by (auto simp: workers_ok_def)

lemma workers_update:
  assumes "workers_ok rs ths" "runner_ok r" "k \<notin> set (closers ths) \<or> r_closing r \<and> \<not> r_closed r"
    "k \<notin> set (restarters ths) \<or> r_restarting r" "k \<notin> set (droppeds ths) \<or> r_client r = None"
  shows "workers_ok (rs[k := r]) ths"
proof -
  have at: "j < length (rs[k := r]) \<longleftrightarrow> j < length rs" "(rs[k := r]) ! j = (if k = j \<and> k < length rs then r else rs ! j)" for j
    by simp (cases "k = j"; cases "k < length rs"; simp add: list_update_beyond)
  have "\<forall>x\<in>set (rs[k := r]). runner_ok x"
    using assms(1,2) set_update_subset_insert [of rs k r] by (auto simp: workers_ok_def)
  then show ?thesis
    using assms unfolding workers_ok_def at by auto
qed

lemma workers_append: "workers_ok rs ths \<Longrightarrow> runner_ok r \<Longrightarrow> workers_ok (rs @ [r]) ths"
proof -
  assume w: "workers_ok rs ths" and r: "runner_ok r"
  have at: "k < length (rs @ [r]) \<and> (rs @ [r]) ! k = rs ! k" if "k < length rs" for k
    using that by (simp add: nth_append)
  show ?thesis
    using w r at unfolding workers_ok_def by (simp add: less_SucI)
qed

lemma last_worker:
  "workers_ok rs (xs @ th # ys) \<Longrightarrow> k \<in> set (closer th) \<Longrightarrow> k \<notin> set (closers (xs @ ys))"
  "workers_ok rs (xs @ th # ys) \<Longrightarrow> k \<in> set (restarter th) \<Longrightarrow>
     k \<notin> set (restarters (xs @ ys)) \<and> k \<notin> set (droppeds (xs @ ys))"
  using droppeds_restarters [of "xs @ ys"] by (auto simp: workers_ok_def)

lemma workers_at:
  assumes "workers_ok rs (xs @ th # ys)"
  shows "k \<in> set (closer th) \<Longrightarrow> k < length rs \<and> r_closing (rs ! k) \<and> \<not> r_closed (rs ! k)"
    "k \<in> set (restarter th) \<Longrightarrow> k < length rs \<and> r_restarting (rs ! k)"
    "k \<in> set (dropped th) \<Longrightarrow> r_client (rs ! k) = None"
    "k < length rs \<Longrightarrow> runner_ok (rs ! k)"
  using assms by (auto simp: workers_ok_def)

lemma restart_done_simps [simp]:
  "runner_ok (restart_done r) = runner_ok r" "runner_ok (restart_failed r) = runner_ok r"
  "r_closing (restart_done r) = r_closing r" "r_closing (restart_failed r) = r_closing r"
  "r_closed (restart_done r) = r_closed r" "r_closed (restart_failed r) = r_closed r"
  "r_client (restart_done r) = r_client r" "r_release (restart_done r) = r_release r"
  "r_release (restart_failed r) = r_release r"
  by (simp_all add: restart_done_def restart_failed_def runner_ok_def Let_def)

fun on_runners :: "thread \<Rightarrow> bool" where
  "on_runners (BindChild c pooled) = True"
| "on_runners (RunnerClose k) = True"
| "on_runners (RestartDrop k) = True"
| "on_runners (RestartWait k n) = True"
| "on_runners (RestartInstall k c) = True"
| "on_runners (StopChildren cs nx) = True"
| "on_runners _ = False"

lemma section_passes:
  "pool_section inp th s = (s', new) \<Longrightarrow> \<not> on_runners th \<Longrightarrow> ps_runners s' = ps_runners s \<and> passes_on th new"
  by (cases th) (simp_all add: pool_passes, auto simp: passes_on_def)

lemma section_workers:
  assumes r: "pool_section inp th s = (s', new)" and w: "workers_ok (ps_runners s) (xs @ th # ys)"
  shows "workers_ok (ps_runners s') (xs @ new @ ys)"
proof -
  note keep = passes_keeps [OF _ w]
  have ends: "workers_ok ((ps_runners s)[k := f (ps_runners s ! k)]) (xs @ new @ ys)"
    if "k \<in> set (restarter th)" "closers new = []" "restarters new = []" "list_all nested_ok new"
      "\<And>r. runner_ok r \<Longrightarrow> runner_ok (f r)" "\<And>r. r_closing (f r) = r_closing r \<and> r_closed (f r) = r_closed r" for k f
  proof (rule workers_update)
    show "workers_ok (ps_runners s) (xs @ new @ ys)" using workers_drop [OF w that(4,2,3)] .
    show "runner_ok (f (ps_runners s ! k))"
      using that(5) workers_at(4) [OF w] workers_at(2) [OF w that(1)] by blast
    have "closer th = []" using that(1) by (cases th) auto
    then show "k \<notin> set (closers (xs @ new @ ys)) \<or> r_closing (f (ps_runners s ! k)) \<and> \<not> r_closed (f (ps_runners s ! k))"
      using w that(2,6) by (auto simp: workers_ok_def)
    show "k \<notin> set (restarters (xs @ new @ ys)) \<or> r_restarting (f (ps_runners s ! k))"
      "k \<notin> set (droppeds (xs @ new @ ys)) \<or> r_client (f (ps_runners s ! k)) = None"
      using last_worker(2) [OF w that(1)] that(3) droppeds_restarters [of new] by auto
  qed
  show ?thesis
  proof (cases th)
    case (BindChild c pooled)
    have "workers_ok (ps_runners s @ [NewRemoteRunner c pooled]) (xs @ th # ys)"
      by (rule workers_append [OF w]) (simp add: runner_ok_def NewRemoteRunner_def)
    from workers_drop [OF this, of "[SignalWarm]"] workers_drop [OF w, of "[DropSlot]"] workers_drop [OF w, of "[]"]
    show ?thesis using r BindChild by (auto simp: bind_child_def split: if_splits)
  next
    case (RunnerClose k)
    note at = workers_at(1) [OF w, of k, unfolded RunnerClose, simplified]
    let ?f = "\<lambda>r. r\<lparr>r_client := None, r_dead := True, r_closed := True\<rparr>"
    from r RunnerClose at have rs: "ps_runners s' = (ps_runners s)[k := ?f (ps_runners s ! k)]"
      and new: "closers new = []" "restarters new = []" "list_all nested_ok new"
      by (auto simp: runner_close_def Let_def runners_on_runner split: if_splits)
    have "k \<notin> set (closers (xs @ new @ ys))"
      using last_worker(1) [OF w, of k] new(1) RunnerClose by simp
    moreover have "k \<notin> set (restarters (xs @ new @ ys)) \<or> r_restarting (?f (ps_runners s ! k))"
      using w new(2) RunnerClose by (auto simp: workers_ok_def)
    moreover have "runner_ok (?f (ps_runners s ! k))" using at by (simp add: runner_ok_def)
    ultimately show ?thesis
      unfolding rs by (intro workers_update workers_drop [OF w new(3,1,2)]) auto
  next
    case (RestartDrop k)
    note at = workers_at(2) [OF w, of k, unfolded RestartDrop, simplified]
    show ?thesis
    proof (cases "r_closed (ps_runners s ! k)")
      case True
      then have "ps_runners s' = (ps_runners s)[k := restart_done (ps_runners s ! k)]" "new = []"
        using r RestartDrop at by (auto simp: restart_drop_def Let_def runners_on_runner)
      then show ?thesis using ends [of k restart_done] RestartDrop by simp
    next
      case False
      let ?f = "\<lambda>r. r\<lparr>r_client := None, r_dead := True, r_bound := False\<rparr>"
      have n: "ps_runners s' = (ps_runners s)[k := ?f (ps_runners s ! k)]"
        "new = [RestartStop k (r_client (ps_runners s ! k))]"
        using r RestartDrop at False by (auto simp: restart_drop_def Let_def runners_on_runner)
      have "workers_ok ((ps_runners s)[k := ?f (ps_runners s ! k)]) (xs @ th # ys)"
        by (rule workers_update [OF w]) (use w at False RestartDrop in \<open>auto simp: workers_ok_def runner_ok_def\<close>)
      then show ?thesis using at unfolding n RestartDrop by (auto simp: workers_ok_def)
    qed
  next
    case (RestartWait k n)
    note at = workers_at(2) [OF w, of k, unfolded RestartWait, simplified]
    show ?thesis
      using r RestartWait at ends [of k restart_failed] ends [of k restart_done] keep [of new]
      by (auto simp: restart_wait_def runners_on_runner passes_on_def split: if_splits)
  next
    case (RestartInstall k c)
    note at = workers_at(2) [OF w, of k, unfolded RestartInstall, simplified]
    show ?thesis
    proof (cases "r_closed (ps_runners s ! k)")
      case True
      then show ?thesis
        using r RestartInstall at ends [of k restart_done] by (auto simp: restart_install_def runners_on_runner)
    next
      case False
      let ?f = "\<lambda>r. restart_done (r\<lparr>r_client := Some c, r_dead := False, r_bound := False\<rparr>)"
      have n: "ps_runners s' = (ps_runners s)[k := ?f (ps_runners s ! k)]" "new = []"
        using r RestartInstall at False by (auto simp: restart_install_def runners_on_runner)
      show ?thesis unfolding n
      proof (rule workers_update)
        show "workers_ok (ps_runners s) (xs @ [] @ ys)" using workers_drop [OF w, of "[]"] by simp
        show "runner_ok (?f (ps_runners s ! k))" using False by (simp add: runner_ok_def)
        show "k \<notin> set (closers (xs @ [] @ ys)) \<or> r_closing (?f (ps_runners s ! k)) \<and> \<not> r_closed (?f (ps_runners s ! k))"
          using w by (auto simp: workers_ok_def)
        show "k \<notin> set (restarters (xs @ [] @ ys)) \<or> r_restarting (?f (ps_runners s ! k))"
          "k \<notin> set (droppeds (xs @ [] @ ys)) \<or> r_client (?f (ps_runners s ! k)) = None"
          using last_worker(2) [OF w, of k] RestartInstall by auto
      qed
    qed
  next
    case (StopChildren cs nx)
    have n: "nested_ok (StopChildren cs nx)" using w StopChildren by (simp add: workers_ok_def)
    have d: "restarter t = [] \<Longrightarrow> dropped t = []" for t by (cases t) simp_all
    have "passes_on th new \<and> ps_runners s' = ps_runners s"
      using r n d unfolding StopChildren by (cases cs; cases nx) (auto simp: passes_on_def)
    then show ?thesis using keep by simp
  qed (use section_passes [OF r] keep in simp_all)
qed


lemma event_workers:
  "workers_ok (ps_runners s) (ps_threads s) \<Longrightarrow>
   workers_ok (ps_runners (spawned (RunnerClose_call k s))) (ps_threads (spawned (RunnerClose_call k s)))"
  "k < length (ps_runners s) \<Longrightarrow> workers_ok (ps_runners s) (ps_threads s) \<Longrightarrow>
   workers_ok (ps_runners (spawned (watch_ping ok k s))) (ps_threads (spawned (watch_ping ok k s)))"
proof -
  assume w: "workers_ok (ps_runners s) (ps_threads s)"
  let ?r = "ps_runners s ! k"
  show "workers_ok (ps_runners (spawned (RunnerClose_call k s))) (ps_threads (spawned (RunnerClose_call k s)))"
  proof (cases "k < length (ps_runners s) \<and> \<not> r_closing ?r")
    case True
    let ?f = "\<lambda>r. r\<lparr>r_closing := True, r_watching := False\<rparr>"
    have ok: "runner_ok ?r" "\<not> r_closed ?r" using w True by (auto simp: workers_ok_def runner_ok_def split: if_splits)
    have k: "k \<notin> set (closers (ps_threads s))" using w True by (auto simp: workers_ok_def)
    have "workers_ok ((ps_runners s)[k := ?f ?r]) (ps_threads s)"
      by (rule workers_update [OF w]) (use w ok k in \<open>auto simp: workers_ok_def runner_ok_def\<close>)
    then show ?thesis using True k ok
      by (auto simp: RunnerClose_call_def spawned_def runners_on_runner workers_ok_def)
  qed (use w in \<open>auto simp: RunnerClose_call_def spawned_def\<close>)
next
  assume k: "k < length (ps_runners s)" and w: "workers_ok (ps_runners s) (ps_threads s)"
  let ?r = "ps_runners s ! k"
  have ok: "runner_ok ?r" using w k by (simp add: workers_ok_def)
  have upd: "workers_ok ((ps_runners s)[k := ?r\<lparr>r_failures := n, r_restarting := b\<rparr>]) (ps_threads s)" if "b \<or> \<not> r_restarting ?r" for n b
  proof (rule workers_update [OF w])
    show "runner_ok (?r\<lparr>r_failures := n, r_restarting := b\<rparr>)" using ok by (simp add: runner_ok_def)
    show "k \<notin> set (restarters (ps_threads s)) \<or> r_restarting (?r\<lparr>r_failures := n, r_restarting := b\<rparr>)"
      using that w by (auto simp: workers_ok_def)
  qed (use w in \<open>auto simp: workers_ok_def\<close>)
  have same: "?r\<lparr>r_failures := n, r_restarting := r_restarting ?r\<rparr> = ?r\<lparr>r_failures := n\<rparr>" for n by simp
  have free: "\<not> r_restarting ?r \<Longrightarrow> k \<notin> set (restarters (ps_threads s))" using w by (auto simp: workers_ok_def)
  show "workers_ok (ps_runners (spawned (watch_ping ok k s))) (ps_threads (spawned (watch_ping ok k s)))"
  proof (cases "r_watching ?r \<and> \<not> r_restarting ?r")
    case True
    note idle = upd [of "r_restarting ?r", unfolded same]
    show ?thesis
    proof (cases "ok \<and> is_ok (available ?r) \<or> Suc (r_failures ?r) < watchdogMaxFailures")
      case True
      then show ?thesis using k idle \<open>r_watching ?r \<and> \<not> r_restarting ?r\<close>
        by (auto simp: watch_ping_def spawned_def runners_on_runner Let_def)
    next
      case False
      then have e: "ps_runners (spawned (watch_ping ok k s)) = (ps_runners s)[k := ?r\<lparr>r_failures := 0, r_restarting := True\<rparr>]"
        "ps_threads (spawned (watch_ping ok k s)) = ps_threads s @ [RestartDrop k]"
        using k True by (auto simp: watch_ping_def spawned_def runners_on_runner Let_def)
      show ?thesis unfolding e using upd [of True 0] free True k by (auto simp: workers_ok_def)
    qed
  qed (use w in \<open>auto simp: watch_ping_def spawned_def Let_def\<close>)
qed


subsection \<open>No child is lost, none is shared\<close>

definition own_ok :: "pool_sys \<Rightarrow> bool" where
  "own_ok s \<longleftrightarrow>
     (\<forall>c. count (owned s) c \<le> 1) \<and> set_mset (owned s) \<subseteq> {..<ps_next s} \<and>
     {..<ps_next s} \<subseteq> set_mset (owned s) \<union> ps_stopped s \<union> dooms (ps_threads s)"

lemma count_upt_le: "count (mset [a..<b]) c \<le> 1" for a b c :: nat
  by (cases "c \<in> {a..<b}") simp_all

lemma books_own:
  assumes b: "books th s new s'" and t: "ps_threads s = xs @ th # ys" and ok: "own_ok s"
  shows "own_ok (s'\<lparr>ps_threads := xs @ new @ ys\<rparr>)"
proof -
  let ?s = "s'\<lparr>ps_threads := xs @ new @ ys\<rparr>"
  from b obtain gone where g: "idle_ms s' + toks (ps_runners s') + hands_ms new + gone =
        idle_ms s + toks (ps_runners s) + mset (hands th) + mset [ps_next s..<ps_next s']"
    and out: "set_mset gone \<subseteq> ps_stopped s' \<union> dooms new" and n: "ps_next s \<le> ps_next s'"
    and st: "ps_stopped s \<subseteq> ps_stopped s'" and dm: "set (doomed th) \<subseteq> ps_stopped s' \<union> dooms new"
    unfolding books_def by blast
  have sys: "ps_next ?s = ps_next s'" "ps_stopped ?s = ps_stopped s'"
    "dooms (ps_threads ?s) = dooms xs \<union> dooms new \<union> dooms ys" by auto
  have "owned ?s + gone = (idle_ms s' + toks (ps_runners s') + hands_ms new + gone) + hands_ms xs + hands_ms ys"
    by (simp add: owned_def idle_ms_def ac_simps)
  also have "\<dots> = owned s + mset [ps_next s..<ps_next s']"
    unfolding g by (simp add: owned_def t ac_simps)
  finally have eq: "owned ?s + gone = owned s + mset [ps_next s..<ps_next s']" .
  have one: "count (owned s + mset [ps_next s..<ps_next s']) c \<le> 1" for c
  proof (cases "c < ps_next s")
    case True
    then have "count (mset [ps_next s..<ps_next s']) c = 0" by simp
    then show ?thesis using ok by (simp only: own_ok_def count_union) simp
  next
    case False
    then have "count (owned s) c = 0" using ok by (auto simp: own_ok_def count_eq_zero_iff)
    then show ?thesis using count_upt_le [of "ps_next s" "ps_next s'" c] by (simp only: count_union)
  qed
  have "set_mset (owned ?s + gone) = set_mset (owned s + mset [ps_next s..<ps_next s'])" by (simp only: eq)
  then have set_eq: "set_mset (owned ?s) \<union> set_mset gone = set_mset (owned s) \<union> {ps_next s..<ps_next s'}"
    by (simp only: set_mset_union set_mset_mset set_upt)
  show ?thesis
    unfolding own_ok_def sys
  proof (intro conjI allI)
    fix c
    have "count (owned ?s) c \<le> count (owned ?s + gone) c" by simp
    also have "\<dots> \<le> 1" unfolding eq by (rule one)
    finally show "count (owned ?s) c \<le> 1" .
    have "set_mset (owned ?s) \<subseteq> set_mset (owned s) \<union> {ps_next s..<ps_next s'}" using set_eq by blast
    also have "\<dots> \<subseteq> {..<ps_next s'}" using ok n by (auto simp: own_ok_def)
    finally show "set_mset (owned ?s) \<subseteq> {..<ps_next s'}" .
    show "{..<ps_next s'} \<subseteq> set_mset (owned ?s) \<union> ps_stopped s' \<union> (dooms xs \<union> dooms new \<union> dooms ys)"
    proof
      fix d assume d: "d \<in> {..<ps_next s'}"
      show "d \<in> set_mset (owned ?s) \<union> ps_stopped s' \<union> (dooms xs \<union> dooms new \<union> dooms ys)"
      proof (cases "d \<in> set_mset (owned s) \<union> {ps_next s..<ps_next s'}")
        case True
        then show ?thesis using set_eq out by blast
      next
        case False
        then have "d \<in> {..<ps_next s}" "d \<notin> set_mset (owned s)" using d by auto
        then have "d \<in> ps_stopped s \<union> dooms (ps_threads s)" using ok unfolding own_ok_def by blast
        then show ?thesis using st dm by (auto simp: t)
      qed
    qed
  qed
qed

lemma section_books:
  assumes r: "pool_section inp th s = (s', new)" and t: "ps_threads s = xs @ th # ys"
    and w: "workers_ok (ps_runners s) (ps_threads s)" and ok: "own_ok s"
  shows "books th s new s'"
proof (cases th)
  case (RestartInstall k c)
  note at = workers_at [OF w [unfolded t], of k, unfolded RestartInstall, simplified]
  let ?r = "ps_runners s ! k"
  have "c \<noteq> r_leased ?r" if "r_release ?r" "\<not> r_closed ?r"
  proof
    assume c: "c = r_leased ?r"
    have "r_leased ?r \<in> set (tokens ?r)" using that at(3) by (auto simp: tokens_def)
    then have "c \<in># toks (ps_runners s)" using at(2) c by (auto simp: toks_def)
    moreover have "c \<in># hands_ms (ps_threads s)" using RestartInstall t by simp
    ultimately have "1 < count (owned s) c"
      by (simp add: owned_def flip: count_greater_zero_iff)
    then show False using ok by (simp add: own_ok_def flip: not_less)
  qed
  then show ?thesis
    using r restart_books(7) [of k s c s' new] at unfolding RestartInstall by simp
next
  case (StopChildren cs nx)
  then show ?thesis using r
    by (cases cs; cases nx)
      (auto intro: booksI [where gone = "{#}"] booksI [where gone = "{#hd cs#}"])
next
  case (RunnerClose k)
  note at = workers_at [OF w [unfolded t], of k, unfolded RunnerClose, simplified]
  then show ?thesis using r restart_books(1) RunnerClose by simp
next
  case (RestartDrop k)
  show ?thesis using r restart_books(2) workers_at(2) [OF w [unfolded t], of k] RestartDrop by simp
next
  case (RestartStop k c)
  show ?thesis using r restart_books(3) workers_at(2) [OF w [unfolded t], of k] RestartStop by simp
next
  case (RestartWait k n)
  show ?thesis using r restart_books(4) workers_at(2) [OF w [unfolded t], of k] RestartWait by simp
next
  case (RestartLaunch k n)
  show ?thesis using r restart_books(5) workers_at(2) [OF w [unfolded t], of k] RestartLaunch by simp
next
  case (RestartProbe k n c)
  show ?thesis using r restart_books(6) workers_at(2) [OF w [unfolded t], of k] RestartProbe by simp
next
  case DropSlot
  then show ?thesis using r by (auto intro!: booksI [where gone = "{#}"] simp: idle_ms_def)
next
  case SignalWarm
  then show ?thesis using r by (auto intro!: booksI [where gone = "{#}"] simp: idle_ms_def)
next
  case SettingsSignal
  then show ?thesis using r by (auto intro!: booksI [where gone = "{#}"] simp: idle_ms_def)
qed (use r in \<open>simp_all add: pool_books loop_books\<close>)

text \<open>API calls launch and stop nothing.\<close>

lemma quiet_own:
  assumes "own_ok s" "idle_ms s' = idle_ms s" "toks (ps_runners s') = toks (ps_runners s)"
    "ps_next s' = ps_next s" "ps_stopped s' = ps_stopped s"
    "ps_threads s' = ps_threads s @ new" "hands_ms new = {#}"
  shows "own_ok s'"
proof -
  have "owned s' = owned s" using assms by (simp add: owned_def)
  then show ?thesis using assms by (auto simp: own_ok_def)
qed

lemma watch_own:
  assumes "own_ok s" "k < length (ps_runners s)"
  shows "own_ok (spawned (watch_ping ok k s))"
  using assms toks_same [OF assms(2)] runners_on_runner [OF assms(2)]
  by (auto simp: watch_ping_def spawned_def Let_def intro!: quiet_own [OF assms(1)])

lemma closing_own:
  assumes "own_ok s"
  shows "own_ok (spawned (RunnerClose_call k s))"
proof (cases "k < length (ps_runners s)")
  case True
  show ?thesis
    using assms toks_same [OF True] runners_on_runner [OF True]
    by (auto simp: RunnerClose_call_def spawned_def intro!: quiet_own [OF assms])
qed (use assms in \<open>simp add: RunnerClose_call_def spawned_def\<close>)

definition pool_ok :: "pool_sys \<Rightarrow> bool" where
  "pool_ok s \<longleftrightarrow> workers_ok (ps_runners s) (ps_threads s) \<and> own_ok s"

lemma pool_keeps: "pool_ok s \<Longrightarrow> pool_ok (pool_step ev s)"
proof -
  assume ok: "pool_ok s"
  then have w: "workers_ok (ps_runners s) (ps_threads s)" and o: "own_ok s" by (simp_all add: pool_ok_def)
  have quiet: "pool_ok (spawned (on_pool f s, new))"
    if "p_idle (f (ps_pool s)) = p_idle (ps_pool s)" "hands_ms new = {#}" "closers new = []" "restarters new = []"
      "list_all nested_ok new" for f new
  proof -
    have "own_ok (spawned (on_pool f s, new))"
      by (rule quiet_own [OF o, where new = new]) (use that in \<open>simp_all add: spawned_def idle_ms_def\<close>)
    moreover have "workers_ok (ps_runners s) (ps_threads s @ new)"
      using w that droppeds_restarters [of new] by (auto simp: workers_ok_def)
    ultimately show ?thesis by (simp add: pool_ok_def spawned_def)
  qed
  show ?thesis
  proof (cases ev)
    case CallLease
    have same: "on_pool (\<lambda>p. p) s = s" by (simp add: on_pool_def)
    show ?thesis using quiet [of "\<lambda>p. p" "[AcquireLoop]", unfolded same] CallLease by simp
  next
    case (CallRunnerClose k)
    then show ?thesis using event_workers(1) [OF w, of k] closing_own [OF o, of k] by (simp add: pool_ok_def)
  next
    case (CallSetSettings st)
    then show ?thesis using quiet [of "\<lambda>p. p\<lparr>p_settings := NormalizePoolSettings st\<rparr>"] by (simp add: SetSettings_def)
  next
    case CallPoolClose
    have same: "on_pool (\<lambda>p. p) s = s" by (simp add: on_pool_def)
    show ?thesis using quiet [of "\<lambda>p. p" "[]", unfolded same] quiet [of "\<lambda>p. p\<lparr>p_stopCh := True\<rparr>" "[CloseLock]"] CallPoolClose
      by (simp add: PoolClose_call_def)
  next
    case (WatchTick k b)
    then show ?thesis using ok event_workers(2) [OF _ w, of k b] watch_own [OF o, of k b] by (simp add: pool_ok_def)
  next
    case (Go j inp)
    show ?thesis
    proof (cases "j < length (ps_threads s)")
      case True
      let ?xs = "take j (ps_threads s)" and ?th = "ps_threads s ! j" and ?ys = "drop (Suc j) (ps_threads s)"
      obtain s' new where r: "pool_section inp ?th s = (s', new)" by fastforce
      have t: "ps_threads s = ?xs @ ?th # ?ys" using True by (rule id_take_nth_drop)
      have "pool_step ev s = s'\<lparr>ps_threads := ?xs @ new @ ?ys\<rparr>" using True r Go by simp
      moreover have "workers_ok (ps_runners s') (?xs @ new @ ?ys)" using section_workers [OF r] w t by metis
      moreover have "own_ok (s'\<lparr>ps_threads := ?xs @ new @ ?ys\<rparr>)"
        by (rule books_own [OF section_books [OF r t w o] t o])
      ultimately show ?thesis by (simp add: pool_ok_def)
    qed (use ok Go in simp)
  qed
qed

interpretation pool: call_system pool_step pool_ok
  by unfold_locales (rule pool_keeps)

lemma NewPool_ok: "pool_ok (NewPool st)"
  by (simp add: NewPool_def pool_ok_def own_ok_def workers_ok_def owned_def idle_ms_def)


subsection \<open>Slots\<close>

fun slot :: "thread \<Rightarrow> nat" where
  "slot LaunchPooled = 1"
| "slot (BindChild c pooled) = (if pooled then 1 else 0)"
| "slot DropSlot = 1"
| "slot (ReleaseStart c) = 1"
| "slot (StopChildren cs (Some th)) = slot th"
| "slot _ = 0"

definition slots :: "thread list \<Rightarrow> nat" where "slots ths = sum_list (map slot ths)"

definition is_lease :: "RemoteRunner \<Rightarrow> bool" where
  "is_lease r \<longleftrightarrow> r_release r \<and> \<not> r_closed r"

definition leases :: "RemoteRunner list \<Rightarrow> nat" where "leases rs = length (filter is_lease rs)"

lemma slots_simps [simp]:
  "slots [] = 0" "slots (t # ts) = slot t + slots ts" "slots (xs @ ys) = slots xs + slots ys"
  "leases [] = 0" "leases (r # rs) = (if is_lease r then Suc (leases rs) else leases rs)"
  "leases (rs @ rs') = leases rs + leases rs'"
  by (simp_all add: slots_def leases_def)

lemma leases_update:
  "k < length rs \<Longrightarrow> leases (rs[k := r]) + (if is_lease (rs ! k) then 1 else 0) = leases rs + (if is_lease r then 1 else 0)"
proof -
  assume k: "k < length rs"
  then have "leases rs = leases (take k rs @ rs ! k # drop (Suc k) rs)" by (simp flip: id_take_nth_drop)
  then show ?thesis using k by (simp add: upd_conv_take_nth_drop)
qed

definition slot_ok :: "pool_sys \<Rightarrow> bool" where
  "slot_ok s \<longleftrightarrow> p_active (ps_pool s) = int (slots (ps_threads s) + leases (ps_runners s))"

definition slot_books :: "thread \<Rightarrow> pool_sys \<Rightarrow> thread list \<Rightarrow> pool_sys \<Rightarrow> bool" where
  "slot_books th s new s' \<longleftrightarrow>
     p_active (ps_pool s') + int (slot th + leases (ps_runners s)) =
     p_active (ps_pool s) + int (slots new + leases (ps_runners s'))"

lemma is_lease_simps [simp]:
  "is_lease (restart_done r) = is_lease r" "is_lease (restart_failed r) = is_lease r"
  "is_lease (r\<lparr>r_failures := n\<rparr>) = is_lease r" "is_lease (r\<lparr>r_restarting := b\<rparr>) = is_lease r"
  "is_lease (r\<lparr>r_closing := b\<rparr>) = is_lease r" "is_lease (r\<lparr>r_watching := b\<rparr>) = is_lease r"
  "is_lease (r\<lparr>r_bound := b\<rparr>) = is_lease r" "is_lease (r\<lparr>r_dead := b\<rparr>) = is_lease r"
  "is_lease (r\<lparr>r_client := c\<rparr>) = is_lease r" "\<not> is_lease (r\<lparr>r_closed := True\<rparr>)"
  "is_lease (NewRemoteRunner d pooled) = pooled"
  by (simp_all add: is_lease_def restart_done_def restart_failed_def Let_def NewRemoteRunner_def)

lemma leases_same: "k < length rs \<Longrightarrow> is_lease r = is_lease (rs ! k) \<Longrightarrow> leases (rs[k := r]) = leases rs"
  using leases_update [of k rs r] by simp

lemma section_slots:
  assumes r: "pool_section inp th s = (s', new)" and t: "ps_threads s = xs @ th # ys"
    and w: "workers_ok (ps_runners s) (ps_threads s)" and ok: "slot_ok s"
  shows "slot_books th s new s'"
proof -
  have pos: "int (slot th) \<le> p_active (ps_pool s)" using ok by (simp add: slot_ok_def t)
  note at = workers_at [OF w [unfolded t]]
  note drop = drop_active_def slot_books_def
  show ?thesis
  proof (cases th)
    case (RunnerClose k)
    then have k: "k < length (ps_runners s)" "\<not> r_closed (ps_runners s ! k)" using at(1) [of k] by auto
    show ?thesis
      using r leases_update [OF k(1), of "(ps_runners s ! k)\<lparr>r_client := None, r_dead := True, r_closed := True\<rparr>"] k
      unfolding RunnerClose
      by (auto simp: runner_close_def Let_def runners_on_runner slot_books_def is_lease_def split: if_splits)
  next
    case (RestartDrop k)
    then have k: "k < length (ps_runners s)" using at(2) [of k] by auto
    show ?thesis using r leases_same [OF k] k unfolding RestartDrop
      by (auto simp: restart_drop_def Let_def runners_on_runner slot_books_def split: if_splits)
  next
    case (RestartWait k n)
    then have k: "k < length (ps_runners s)" using at(2) [of k] by auto
    show ?thesis using r leases_same [OF k] k unfolding RestartWait
      by (auto simp: restart_wait_def Let_def runners_on_runner slot_books_def split: if_splits)
  next
    case (RestartInstall k c)
    then have k: "k < length (ps_runners s)" using at(2) [of k] by auto
    show ?thesis using r leases_same [OF k] k unfolding RestartInstall
      by (auto simp: restart_install_def Let_def runners_on_runner slot_books_def split: if_splits)
  next
    case (StopChildren cs nx)
    then show ?thesis using r by (cases cs; cases nx) (auto simp: slot_books_def)
  next
    case DropSlot
    then show ?thesis using r pos by (auto simp: drop)
  next
    case (ReleaseStart c)
    then show ?thesis using r pos by (auto simp: drop release_start_def Let_def split: if_splits)
  next
    case (BindChild c pooled)
    then show ?thesis using r by (auto simp: slot_books_def bind_child_def split: if_splits)
  qed (use r in \<open>auto simp: slot_books_def acquire_loop_def acquire_check_def acquire_take_def launch_lease_def launch_def
      release_check_def release_put_def loop_wait_def trim_idle_def reap_idle_def prewarm_def launchBackground_def
      prewarm_put_def close_lock_def restart_stop_def restart_launch_def restart_probe_def Let_def
      split: if_splits option.splits\<close>)
qed

subsection \<open>Idle children\<close>

definition trim_pending :: "pool_sys \<Rightarrow> bool" where
  "trim_pending s \<longleftrightarrow>
     p_settingsCh (ps_pool s) \<or> LoopTrim \<in> set (ps_threads s) \<or> SettingsSignal \<in> set (ps_threads s)"

definition idle_ok :: "pool_sys \<Rightarrow> bool" where
  "idle_ok s \<longleftrightarrow>
     (let p = ps_pool s in
      (\<not> p_closed p \<or> p_idle p = []) \<and> settings_ok (p_settings p) \<and>
      (int (length (p_idle p)) \<le> MaxIdle (p_settings p) \<or> trim_pending s))"

lemma section_idle:
  assumes r: "pool_section inp th s = (s', new)" and t: "ps_threads s = xs @ th # ys" and ok: "idle_ok s"
  shows "idle_ok (s'\<lparr>ps_threads := xs @ new @ ys\<rparr>)"
proof -
  have pos: "0 \<le> MaxIdle (p_settings (ps_pool s))" using ok by (simp add: idle_ok_def settings_ok_def Let_def)
  have le: "length (filter P (List.enumerate 0 zs)) \<le> length zs" for P and zs :: "idleChild list"
    using length_filter_le [of P "List.enumerate 0 zs"] by simp
  show ?thesis
  proof (cases th)
    case (StopChildren cs nx)
    then show ?thesis using r ok t by (cases cs; cases nx) (auto simp: idle_ok_def trim_pending_def Let_def)
  next
    case LoopReap
    then show ?thesis
      using r ok t le [of "reap_kept (p_settings (ps_pool s)) (o_now inp)" "p_idle (ps_pool s)"]
      by (auto simp: reap_idle_def idle_ok_def trim_pending_def Let_def)
  next
    case (RunnerClose k)
    then show ?thesis using r ok t by (auto simp: runner_close_def idle_ok_def trim_pending_def Let_def split: if_splits)
  next
    case (RestartDrop k)
    then show ?thesis using r ok t by (auto simp: restart_drop_def idle_ok_def trim_pending_def Let_def split: if_splits)
  next
    case (RestartWait k n)
    then show ?thesis using r ok t by (auto simp: restart_wait_def idle_ok_def trim_pending_def Let_def split: if_splits)
  next
    case (RestartInstall k n)
    then show ?thesis using r ok t by (auto simp: restart_install_def idle_ok_def trim_pending_def Let_def split: if_splits)
  qed (use r ok t pos in \<open>auto simp: idle_ok_def trim_pending_def acquire_loop_def acquire_check_def acquire_take_def
      launch_lease_def launch_def bind_child_def release_start_def drop_active_def idle_full_def
      release_check_def release_put_def loop_wait_def trim_idle_def prewarm_def launchBackground_def
      prewarm_put_def close_lock_def restart_stop_def restart_launch_def restart_probe_def Let_def
      split: if_splits option.splits\<close>)
qed


subsection \<open>The invariants of every interleaving\<close>

definition pool_inv :: "pool_sys \<Rightarrow> bool" where
  "pool_inv s \<longleftrightarrow> pool_ok s \<and> slot_ok s \<and> idle_ok s"

text \<open>An API call starts goroutines that hold no slot, and may change the settings.\<close>

lemma call_inv:
  assumes "slot_ok s" "idle_ok s" "slots new = 0" "leases (ps_runners s') = leases (ps_runners s)"
    "p_active (ps_pool s') = p_active (ps_pool s)" "ps_threads s' = ps_threads s"
    "p_idle (ps_pool s') = p_idle (ps_pool s)" "p_closed (ps_pool s') = p_closed (ps_pool s)"
    "p_settingsCh (ps_pool s') = p_settingsCh (ps_pool s)"
    "p_settings (ps_pool s') = p_settings (ps_pool s) \<or>
     settings_ok (p_settings (ps_pool s')) \<and> (p_closed (ps_pool s) \<or> SettingsSignal \<in> set new)"
  shows "slot_ok (spawned (s', new)) \<and> idle_ok (spawned (s', new))"
  using assms by (auto simp: slot_ok_def idle_ok_def trim_pending_def spawned_def Let_def settings_ok_def)

lemma watch_inv:
  assumes "slot_ok s" "idle_ok s" "k < length (ps_runners s)"
  shows "slot_ok (spawned (watch_ping ok k s)) \<and> idle_ok (spawned (watch_ping ok k s))"
proof -
  let ?s = "fst (watch_ping ok k s)" and ?new = "snd (watch_ping ok k s)"
  have "slots ?new = 0" "leases (ps_runners ?s) = leases (ps_runners s)" "ps_pool ?s = ps_pool s"
    "ps_threads ?s = ps_threads s"
    using leases_same [OF assms(3)] runners_on_runner [OF assms(3)]
    by (simp_all add: watch_ping_def Let_def)
  then show ?thesis using call_inv [OF assms(1,2), of ?new ?s] by simp
qed

lemma closing_inv:
  assumes "slot_ok s" "idle_ok s"
  shows "slot_ok (spawned (RunnerClose_call k s)) \<and> idle_ok (spawned (RunnerClose_call k s))"
proof -
  let ?s = "fst (RunnerClose_call k s)" and ?new = "snd (RunnerClose_call k s)"
  have "slots ?new = 0" "leases (ps_runners ?s) = leases (ps_runners s)" "ps_pool ?s = ps_pool s"
    "ps_threads ?s = ps_threads s"
    by (simp_all add: RunnerClose_call_def leases_same runners_on_runner)
  then show ?thesis using call_inv [OF assms, of ?new ?s] by simp
qed

lemma inv_keeps: "pool_inv s \<Longrightarrow> pool_inv (pool_step ev s)"
proof -
  assume inv: "pool_inv s"
  then have p: "pool_ok s" and sl: "slot_ok s" and id: "idle_ok s" by (simp_all add: pool_inv_def)
  have "slot_ok (pool_step ev s) \<and> idle_ok (pool_step ev s)"
  proof (cases ev)
    case CallLease
    then show ?thesis using call_inv [OF sl id, of "[AcquireLoop]" s] by simp
  next
    case (CallRunnerClose k)
    then show ?thesis using closing_inv [OF sl id] by simp
  next
    case (CallSetSettings st)
    then show ?thesis
      using call_inv [OF sl id, of "snd (SetSettings st s)" "fst (SetSettings st s)"] normalize_ok [of st]
      by (simp add: SetSettings_def split: if_splits)
  next
    case CallPoolClose
    then show ?thesis
      using call_inv [OF sl id, of "snd (PoolClose_call s)" "fst (PoolClose_call s)"]
      by (simp add: PoolClose_call_def split: if_splits)
  next
    case (WatchTick k b)
    then show ?thesis using watch_inv [OF sl id] sl id by simp
  next
    case (Go j inp)
    show ?thesis
    proof (cases "j < length (ps_threads s)")
      case True
      let ?xs = "take j (ps_threads s)" and ?th = "ps_threads s ! j" and ?ys = "drop (Suc j) (ps_threads s)"
      obtain s' new where r: "pool_section inp ?th s = (s', new)" by fastforce
      have t: "ps_threads s = ?xs @ ?th # ?ys" using True by (rule id_take_nth_drop)
      have w: "workers_ok (ps_runners s) (ps_threads s)" using p by (simp add: pool_ok_def)
      have e: "pool_step ev s = s'\<lparr>ps_threads := ?xs @ new @ ?ys\<rparr>" using True r Go by simp
      have "slots (ps_threads s) = slots ?xs + slot ?th + slots ?ys" by (subst t) simp
      then have "slot_ok (s'\<lparr>ps_threads := ?xs @ new @ ?ys\<rparr>)"
        using section_slots [OF r t w sl] sl by (simp add: slot_ok_def slot_books_def)
      then show ?thesis using section_idle [OF r t id] by (simp add: e)
    qed (use sl id Go in simp)
  qed
  then show ?thesis using pool_keeps [OF p] by (simp add: pool_inv_def)
qed

interpretation pool_hist: call_system pool_step pool_inv
  by unfold_locales (rule inv_keeps)

lemma NewPool_inv: "pool_inv (NewPool st)"
  using NewPool_ok [of st] normalize_ok [of st]
  by (simp add: pool_inv_def NewPool_def slot_ok_def idle_ok_def Let_def settings_ok_def)

definition pool_run :: "PoolSettings \<Rightarrow> pool_event list \<Rightarrow> pool_sys" where
  "pool_run st evs = run_calls pool_step evs (NewPool st)"

lemma run_inv: "pool_inv (pool_run st evs)"
  unfolding pool_run_def by (rule pool_hist.history_keeps [OF NewPool_inv])

definition all_quiet :: "pool_sys \<Rightarrow> bool" where
  "all_quiet s \<longleftrightarrow> p_closed (ps_pool s) \<and> ps_threads s = [] \<and> list_all r_closed (ps_runners s)"

lemma closed_tokens: "\<forall>r\<in>set rs. runner_ok r \<Longrightarrow> list_all r_closed rs \<Longrightarrow> toks rs = {#}"
  by (induction rs) (auto simp: tokens_def runner_ok_def)

lemma quiet_pool_clean:
  assumes "pool_inv s" "all_quiet s"
  shows "{..<ps_next s} \<subseteq> ps_stopped s \<and> p_active (ps_pool s) = 0"
proof -
  have w: "\<forall>r\<in>set (ps_runners s). runner_ok r" and q: "ps_threads s = []" "list_all r_closed (ps_runners s)"
    and idle: "p_idle (ps_pool s) = []"
    using assms by (auto simp: pool_inv_def pool_ok_def workers_ok_def all_quiet_def idle_ok_def Let_def)
  have "owned s = {#}" using closed_tokens [OF w q(2)] q idle by (simp add: owned_def idle_ms_def)
  moreover have "leases (ps_runners s) = 0" using q(2) by (induction "ps_runners s") (auto simp: leases_def is_lease_def list_all_iff)
  ultimately show ?thesis using assms q by (simp add: pool_inv_def pool_ok_def own_ok_def slot_ok_def)
qed


subsection \<open>The properties\<close>

text \<open>
  Whatever settings the pool is created with and is given later, the settings in force are within
  the documented ranges, and settings already in range are kept as they are.
\<close>

theorem pool_settings_in_range:
  "settings_ok (p_settings (ps_pool (pool_run st evs))) \<and>
   (if settings_ok st' then NormalizePoolSettings st' = st' else settings_ok (NormalizePoolSettings st'))"
  using run_inv [of st evs] normalize_id [of st'] normalize_ok [of st']
  by (simp add: pool_inv_def idle_ok_def Let_def)


text \<open>
  C35: Once the pool is closed, every runner is closed and every goroutine has ended, every child ever
  launched has been stopped and no slot is counted as active: shutdown leaves no process behind.
\<close>

theorem shutdown_stops_every_child:
  assumes "all_quiet (pool_run st evs)"
  shows "{..<ps_next (pool_run st evs)} \<subseteq> ps_stopped (pool_run st evs) \<and>
    Pool_Stats (ps_pool (pool_run st evs)) = (0, 0)"
  using quiet_pool_clean [OF run_inv assms] assms run_inv [of st evs]
  by (auto simp: Pool_Stats_def pool_inv_def idle_ok_def Let_def all_quiet_def)

text \<open>
  C36: The active count is exactly the number of open pooled leases plus the goroutines that hold a
  slot on their way into or out of one: no failed launch, failed bind or close loses or doubles a slot.
\<close>

theorem active_counts_the_slots:
  "let s = pool_run st evs in
   p_active (ps_pool s) = int (slots (ps_threads s) + leases (ps_runners s))"
  using run_inv [of st evs] by (simp add: pool_inv_def slot_ok_def Let_def)

text \<open>
  C37: The idle list never exceeds the maximum in force unless the trim that a settings change asked
  for is still to come, and a closed pool keeps no idle child.
\<close>

theorem idle_children_are_bounded:
  "let s = pool_run st evs; p = ps_pool s in
   (int (length (p_idle p)) \<le> MaxIdle (p_settings p) \<or> trim_pending s) \<and>
   (if p_closed p then p_idle p = [] else True)"
  using run_inv [of st evs] by (simp add: pool_inv_def idle_ok_def Let_def)

subsection \<open>Traces\<close>

definition ok_at :: "instant \<Rightarrow> outside" where "ok_at t = \<lparr>o_now = t, o_ok = True, o_case = 2\<rparr>"

definition lease_trace :: "nat \<Rightarrow> pool_event list" where
  "lease_trace n = CallLease # replicate n (Go 1 (ok_at 0))"

definition release_trace :: "nat \<Rightarrow> pool_event list" where
  "release_trace k = CallRunnerClose k # replicate 5 (Go 1 (ok_at 0))"

definition shutdown_trace :: "pool_event list" where
  "shutdown_trace =
     lease_trace 4 @ release_trace 0 @ [CallPoolClose, Go 0 ((ok_at 0)\<lparr>o_case := 0\<rparr>)] @
     replicate 3 (Go 0 (ok_at 0))"

theorem shutdown_stops_every_child_witness:
  "all_quiet (pool_run DefaultPoolSettings shutdown_trace) \<and>
   {..<ps_next (pool_run DefaultPoolSettings shutdown_trace)}
     \<subseteq> ps_stopped (pool_run DefaultPoolSettings shutdown_trace)"
proof -
  have q: "all_quiet (pool_run DefaultPoolSettings shutdown_trace)" by code_simp
  show ?thesis using q shutdown_stops_every_child [OF q] by blast
qed

definition small_pool :: PoolSettings where
  "small_pool = \<lparr>Prewarm = 2, MaxIdle = 2, MaxActive = 1, IdleTTL = 5 * minute_ns\<rparr>"

definition cap_trace :: "pool_event list" where
  "cap_trace = lease_trace 4 @ release_trace 0 @ replicate 5 (Go 0 (ok_at 0)) @ lease_trace 5 @ lease_trace 5"

text \<open>
  The cap on active leases is checked only when the idle list is empty: with a cap of one and two
  idle children, one workspace after the other gets a pooled child and two leases are active at once,
  although the settings are in range.
\<close>

theorem idle_leases_pass_the_cap:
  "settings_ok small_pool \<and>
   MaxActive (p_settings (ps_pool (pool_run small_pool cap_trace))) = 1 \<and>
   Pool_Stats (ps_pool (pool_run small_pool cap_trace)) = (0, 2) \<and>
   leases (ps_runners (pool_run small_pool cap_trace)) = 2 \<and>
   ps_threads (pool_run small_pool cap_trace) = [LoopWait]"
  by code_simp

end
