(* ===== verification/Replay.thy ===== *)
theory Replay
  imports GoUtf8 "HOL-Library.Word"
begin

text \<open>
  What the model reads of a conversation, from \<open>src/internal/capabilities/worldstate/\<close>: the replay of
  the stored rows (\<open>replayHistory\<close>), which puts a recorded fold in place of the rows it covers
  (\<open>fold.go\<close>), shortens old tool output (\<open>prune.go\<close>) and pairs every tool call with a result
  (\<open>structured_context.go\<close>); the handoff of the replay and of its row numbers to the graph's nodes,
  the merge onto the channel (\<open>merge.go\<close>, \<open>tailblock.go\<close>), and the fold of a channel range with the
  durable record of it. The message library of the agent core is a parameter: what \<open>Content.Text\<close>
  reads and which parts \<open>NormalizePart\<close> accepts.
\<close>

subsection \<open>Messages and rows\<close>

datatype part =
    TextPart string
  | ImagePart string
  | ToolCallPart string string
  | ToolResultPart string "part list" bool
  | OtherPart string

record Message =
  msg_Role :: string
  msg_Parts :: "part list"

definition RoleUser :: string where "RoleUser = ''user''"
definition RoleAssistant :: string where "RoleAssistant = ''assistant''"
definition RoleTool :: string where "RoleTool = ''tool''"

definition NewTextMessage :: "string \<Rightarrow> string \<Rightarrow> Message" where
  "NewTextMessage role text = \<lparr>msg_Role = role, msg_Parts = [TextPart text]\<rparr>"

record msg_lib =
  ml_Text :: "part list \<Rightarrow> string"
  ml_NormalizePart :: "part \<Rightarrow> part option"

record ContextItem =
  ci_Raw :: bool
  ci_Role :: string
  ci_Parts :: "part list"
  ci_Sequence :: "64 word"

text \<open>\<open>int64(item.Sequence)\<close> and \<open>uint64(seq)\<close>.\<close>

definition item_seq :: "ContextItem \<Rightarrow> int" where
  "item_seq item = sint (ci_Sequence item)"

definition uint64 :: "int \<Rightarrow> 64 word" where
  "uint64 n = word_of_int n"

subsection \<open>The bounded registries keyed by board\<close>

type_synonym board_id = nat

record 'v registry =
  rg_depth :: nat
  rg_order :: "board_id list"
  rg_items :: "board_id \<rightharpoonup> 'v"

definition new_registry :: "nat \<Rightarrow> 'v registry" where
  "new_registry depth = \<lparr>rg_depth = depth, rg_order = [], rg_items = Map.empty\<rparr>"

fun evict :: "nat \<Rightarrow> board_id list \<Rightarrow> (board_id \<rightharpoonup> 'v) \<Rightarrow> board_id list \<times> (board_id \<rightharpoonup> 'v)" where
  "evict depth [] items = ([], items)"
| "evict depth (b # order) items =
     (if length (b # order) > depth then evict depth order (items(b := None)) else (b # order, items))"

definition registry_put :: "board_id \<Rightarrow> 'v \<Rightarrow> 'v registry \<Rightarrow> 'v registry" where
  "registry_put b v r =
     (let order = (if rg_items r b = None then rg_order r @ [b] else rg_order r) in
      case evict (rg_depth r) order ((rg_items r)(b \<mapsto> v)) of
        (order', items') \<Rightarrow> r\<lparr>rg_order := order', rg_items := items'\<rparr>)"

definition foldSeqsDepth :: nat where "foldSeqsDepth = 4"
definition pendingHistoryDepth :: nat where "pendingHistoryDepth = 4"

text \<open>\<open>stashReplaySeqs\<close> and \<open>historyHandoff.put\<close>; a nil board is \<open>None\<close>.\<close>

record foldEntry =
  fe_seqs :: "int list"
  fe_store :: bool

definition stashReplaySeqs ::
  "board_id option \<Rightarrow> bool \<Rightarrow> int list \<Rightarrow> foldEntry registry \<Rightarrow> foldEntry registry" where
  "stashReplaySeqs board store seqs r =
     (case board of
        None \<Rightarrow> r
      | Some b \<Rightarrow>
          (if seqs = [] then r else registry_put b \<lparr>fe_seqs = seqs, fe_store = store\<rparr> r))"

definition foldStash_get :: "board_id option \<Rightarrow> foldEntry registry \<Rightarrow> foldEntry option" where
  "foldStash_get board r = (case board of None \<Rightarrow> None | Some b \<Rightarrow> rg_items r b)"

definition history_put ::
  "board_id option \<Rightarrow> Message list \<Rightarrow> Message list registry \<Rightarrow> Message list registry" where
  "history_put board history r =
     (case board of
        None \<Rightarrow> r
      | Some b \<Rightarrow> (if history = [] then r else registry_put b history r))"

definition history_take ::
  "board_id option \<Rightarrow> Message list registry \<Rightarrow> Message list option \<times> Message list registry" where
  "history_take board r =
     (case board of
        None \<Rightarrow> (None, r)
      | Some b \<Rightarrow>
          (case rg_items r b of
             None \<Rightarrow> (None, r)
           | Some history \<Rightarrow>
               (Some history, r\<lparr>rg_items := (rg_items r)(b := None), rg_order := remove1 b (rg_order r)\<rparr>)))"

subsection \<open>The durable fold\<close>

record foldDocument =
  fd_Version :: int
  fd_AtSeq :: int
  fd_CoveredFrom :: int
  fd_CoveredTo :: int
  fd_Rows :: int
  fd_Summary :: string

datatype fold_error =
    NoPairing
  | RangeOutside int int nat
  | RangeBeforeHistory int int
  | NoSummary int
  | WriteFailed

definition seqRange ::
  "foldEntry registry \<Rightarrow> board_id option \<Rightarrow> int \<Rightarrow> int \<Rightarrow> int \<Rightarrow> fold_error + (int \<times> int)" where
  "seqRange r board sectionsCount start end' =
     (case foldStash_get board r of
        None \<Rightarrow> Inl NoPairing
      | Some entry \<Rightarrow>
          (if fe_seqs entry = [] then Inl NoPairing
           else
             (let from = start - sectionsCount; to = end' - sectionsCount in
              if from < 0 \<or> to > int (length (fe_seqs entry)) \<or> to \<le> from
              then Inl (RangeOutside start end' (length (fe_seqs entry)))
              else Inr (fe_seqs entry ! nat from, fe_seqs entry ! nat (to - 1)))))"

text \<open>
  The state files of the session store: a fold document per conversation; \<open>write_ok\<close> says whether the
  write succeeds. The result of \<open>recordFold\<close> is \<open>Inr docs\<close> when the code returns nil.
\<close>

type_synonym fold_docs = "string \<rightharpoonup> foldDocument"

definition recordFold ::
  "bool \<Rightarrow> foldEntry registry \<Rightarrow> board_id option \<Rightarrow> string \<Rightarrow> int \<Rightarrow> int \<Rightarrow> int \<Rightarrow> string
   \<Rightarrow> fold_docs \<Rightarrow> fold_error + fold_docs" where
  "recordFold write_ok r board conversationID sectionsCount start end' summary0 docs =
     (case foldStash_get board r of
        None \<Rightarrow> Inr docs
      | Some entry \<Rightarrow>
          (if \<not> fe_store entry then Inr docs
           else if start < sectionsCount \<or> end' \<le> start then Inl (RangeBeforeHistory start end')
           else
             (let from = start - sectionsCount; to = end' - sectionsCount; seqs = fe_seqs entry in
              if to > int (length seqs) \<or> to \<le> from then Inl (RangeOutside start end' (length seqs))
              else
                (let summary = trim_space summary0 in
                 if summary = '''' then Inl (NoSummary (to - from))
                 else if \<not> write_ok then Inl WriteFailed
                 else Inr (docs(conversationID \<mapsto>
                   \<lparr>fd_Version = 1, fd_AtSeq = last seqs, fd_CoveredFrom = seqs ! nat from,
                     fd_CoveredTo = seqs ! nat (to - 1), fd_Rows = to - from, fd_Summary = summary\<rparr>))))))"

definition SummaryPrefix :: string where
  "SummaryPrefix = ''Another language model started to solve this problem and produced a summary of its thinking process.''"

definition foldSummaryItem :: "foldDocument \<Rightarrow> ContextItem" where
  "foldSummaryItem doc =
     \<lparr>ci_Raw = True, ci_Role = RoleUser, ci_Parts = [TextPart (SummaryPrefix @ [CHR 0x0A] @ fd_Summary doc)],
      ci_Sequence = uint64 (fd_CoveredFrom doc)\<rparr>"

definition covered :: "foldDocument \<Rightarrow> int \<Rightarrow> bool" where
  "covered doc seq \<longleftrightarrow> seq \<ge> fd_CoveredFrom doc \<and> seq \<le> fd_CoveredTo doc"

text \<open>The loop of \<open>applyFold\<close>: the output so far, whether the summary is in it, the rows removed.\<close>

fun fold_loop ::
  "foldDocument \<Rightarrow> ContextItem list \<Rightarrow> ContextItem list \<Rightarrow> bool \<Rightarrow> nat
   \<Rightarrow> ContextItem list \<times> bool \<times> nat" where
  "fold_loop doc [] out inserted removed = (out, inserted, removed)"
| "fold_loop doc (item # items) out inserted removed =
     (let seq = item_seq item in
      if covered doc seq
      then fold_loop doc items (if inserted then out else out @ [foldSummaryItem doc]) True (removed + 1)
      else if \<not> inserted \<and> seq > fd_CoveredTo doc
      then fold_loop doc items (out @ [foldSummaryItem doc] @ [item]) True removed
      else fold_loop doc items (out @ [item]) inserted removed)"

definition doc_wellformed :: "foldDocument \<Rightarrow> bool" where
  "doc_wellformed doc \<longleftrightarrow>
     \<not> (fd_Version doc \<noteq> 1 \<or> fd_CoveredTo doc < fd_CoveredFrom doc \<or> fd_Summary doc = '''')"

text \<open>\<open>applyFold\<close>; no store is \<open>None\<close>, a document that cannot be read is one the map does not hold.\<close>

definition applyFold :: "fold_docs option \<Rightarrow> string \<Rightarrow> ContextItem list \<Rightarrow> ContextItem list" where
  "applyFold store conversationID raws =
     (case store of
        None \<Rightarrow> raws
      | Some docs \<Rightarrow>
          (if raws = [] then raws
           else
             (case docs conversationID of
                None \<Rightarrow> raws
              | Some doc \<Rightarrow>
                  (if \<not> doc_wellformed doc then raws
                   else
                     (case fold_loop doc raws [] False 0 of
                        (out, inserted, removed) \<Rightarrow>
                          (if \<not> inserted \<and> removed = 0 then raws else out))))))"

subsection \<open>Old tool output\<close>

definition keepToolResultsVerbatim :: nat where "keepToolResultsVerbatim = 8"
definition maxOldToolResultChars :: nat where "maxOldToolResultChars = 2000"

fun is_tool_result :: "part \<Rightarrow> bool" where
  "is_tool_result (ToolResultPart cid ps err) = True"
| "is_tool_result _ = False"

definition hasToolOutput :: "part list \<Rightarrow> bool" where
  "hasToolOutput parts \<longleftrightarrow> list_ex is_tool_result parts"

definition newline :: string where "newline = [CHR 0x0A]"
definition ellipsis :: string where "ellipsis = [CHR 0xE2, CHR 0x80, CHR 0xA6]"

definition pruneText :: "string \<Rightarrow> string" where
  "pruneText text =
     (let rs = runes text in
      if length rs \<le> maxOldToolResultChars then text
      else
        (let half = maxOldToolResultChars div 2;
             head = trim_right_char (CHR 0x0A) (of_runes (take half rs));
             tail = dropWhile (\<lambda>c. c = CHR 0x0A) (of_runes (drop (length rs - half) rs))
         in head @ newline @ ellipsis @ newline @ tail @ newline @ ''[tool output truncated: '' @
            dec_nat (length rs - 2 * half) @ '' of '' @ dec_nat (length rs) @
            '' characters elided; the transcript keeps all of it]''))"

fun prune_part :: "part \<Rightarrow> part" where
  "prune_part (ToolResultPart cid content err) = ToolResultPart cid (map prune_part content) err"
| "prune_part (TextPart text) = TextPart (pruneText text)"
| "prune_part (ImagePart src) = TextPart ''[image omitted from an older tool result]''"
| "prune_part p = p"

definition pruneContent :: "part list \<Rightarrow> part list" where
  "pruneContent parts = map prune_part parts"

text \<open>The loop of \<open>pruneOldToolResults\<close> runs from the last item to the first; \<open>seen\<close> counts.\<close>

fun prune_rev :: "nat \<Rightarrow> ContextItem list \<Rightarrow> ContextItem list" where
  "prune_rev seen [] = []"
| "prune_rev seen (item # earlier) =
     (if \<not> hasToolOutput (ci_Parts item) then item # prune_rev seen earlier
      else if seen + 1 \<le> keepToolResultsVerbatim then item # prune_rev (seen + 1) earlier
      else item\<lparr>ci_Parts := pruneContent (ci_Parts item)\<rparr> # prune_rev (seen + 1) earlier)"

definition pruneOldToolResults :: "ContextItem list \<Rightarrow> ContextItem list" where
  "pruneOldToolResults items = rev (prune_rev 0 (rev items))"

subsection \<open>Provider-valid history\<close>

record rawContext =
  rc_msg :: Message
  rc_calls :: "string list"
  rc_needs :: "string list"

definition abortedToolResult :: "part list" where
  "abortedToolResult = [TextPart ''aborted'']"

text \<open>\<open>sanitizeToolResult\<close>, on the content and the error flag of a result.\<close>

definition sanitizeToolResult :: "msg_lib \<Rightarrow> part list \<Rightarrow> bool \<Rightarrow> part list" where
  "sanitizeToolResult lib content is_error =
     (if is_error \<and> trim_space (ml_Text lib content) = '''' then abortedToolResult else content)"

text \<open>The two loops of \<open>rawContextFor\<close>: the calls or results among the parts, with their ids.\<close>

fun call_parts :: "msg_lib \<Rightarrow> part list \<Rightarrow> (part \<times> string) list" where
  "call_parts lib [] = []"
| "call_parts lib (p # ps) =
     (case ml_NormalizePart lib p of
        Some (ToolCallPart cid payload) \<Rightarrow> (ToolCallPart cid payload, cid) # call_parts lib ps
      | _ \<Rightarrow> call_parts lib ps)"

fun result_parts :: "msg_lib \<Rightarrow> part list \<Rightarrow> (part \<times> string) list" where
  "result_parts lib [] = []"
| "result_parts lib (p # ps) =
     (case ml_NormalizePart lib p of
        Some (ToolResultPart cid content err) \<Rightarrow>
          (ToolResultPart cid (sanitizeToolResult lib content err) err, cid) # result_parts lib ps
      | _ \<Rightarrow> result_parts lib ps)"

definition rawContextFor :: "msg_lib \<Rightarrow> ContextItem \<Rightarrow> rawContext" where
  "rawContextFor lib item =
     (let role = ci_Role item; text = ml_Text lib (ci_Parts item) in
      if role = RoleAssistant then
        (let calls = call_parts lib (ci_Parts item) in
         if calls \<noteq> []
         then \<lparr>rc_msg = \<lparr>msg_Role = RoleAssistant, msg_Parts = map fst calls\<rparr>,
                rc_calls = map snd calls, rc_needs = []\<rparr>
         else \<lparr>rc_msg = NewTextMessage RoleAssistant text, rc_calls = [], rc_needs = []\<rparr>)
      else if role = RoleTool then
        (let results = result_parts lib (ci_Parts item) in
         \<lparr>rc_msg = \<lparr>msg_Role = RoleTool, msg_Parts = map fst results\<rparr>,
           rc_calls = [], rc_needs = map snd results\<rparr>)
      else \<lparr>rc_msg = NewTextMessage RoleUser text, rc_calls = [], rc_needs = []\<rparr>)"

definition allAvailable :: "string list \<Rightarrow> string list \<Rightarrow> bool" where
  "allAvailable needs available \<longleftrightarrow> list_all (\<lambda>cid. List.member available cid) needs"

record pendingCall =
  pc_id :: string
  pc_at :: nat
  pc_seq :: int

definition removePending :: "string \<Rightarrow> pendingCall list \<Rightarrow> pendingCall list" where
  "removePending cid pending = filter (\<lambda>p. pc_id p \<noteq> cid) pending"

record norm_state =
  ns_out :: "Message list"
  ns_seqs :: "int list"
  ns_available :: "string list"
  ns_pending :: "pendingCall list"

definition appendMsg :: "Message \<Rightarrow> int \<Rightarrow> norm_state \<Rightarrow> norm_state" where
  "appendMsg msg seq ns = ns\<lparr>ns_out := ns_out ns @ [msg], ns_seqs := ns_seqs ns @ [seq]\<rparr>"

definition normalize_item :: "msg_lib \<Rightarrow> ContextItem \<Rightarrow> norm_state \<Rightarrow> norm_state" where
  "normalize_item lib item ns =
     (let seq = item_seq item; rc = rawContextFor lib item; msg = rc_msg rc in
      if msg_Role msg = RoleAssistant then
        (if rc_calls rc = [] then
           (if ml_Text lib (msg_Parts msg) = '''' then ns else appendMsg msg seq ns)
         else
           (let at = length (ns_out ns) in
            appendMsg msg seq
              (ns\<lparr>ns_available := ns_available ns @ rc_calls rc,
                  ns_pending := ns_pending ns @
                    map (\<lambda>cid. \<lparr>pc_id = cid, pc_at = at, pc_seq = seq\<rparr>) (rc_calls rc)\<rparr>)))
      else if msg_Role msg = RoleTool then
        (if msg_Parts msg = [] \<or> \<not> allAvailable (rc_needs rc) (ns_available ns) then ns
         else appendMsg msg seq (ns\<lparr>ns_pending := fold removePending (rc_needs rc) (ns_pending ns)\<rparr>))
      else (if ml_Text lib (msg_Parts msg) = '''' then ns else appendMsg msg seq ns))"

definition synthetic_result :: "string \<Rightarrow> Message" where
  "synthetic_result cid = \<lparr>msg_Role = RoleTool, msg_Parts = [ToolResultPart cid abortedToolResult False]\<rparr>"

definition insert_at :: "nat \<Rightarrow> 'a \<Rightarrow> 'a list \<Rightarrow> 'a list" where
  "insert_at n x xs = take n xs @ [x] @ drop n xs"

text \<open>The loop over the pending calls, from the last to the first.\<close>

fun insert_aborted :: "pendingCall list \<Rightarrow> Message list \<Rightarrow> int list \<Rightarrow> Message list \<times> int list" where
  "insert_aborted [] out seqs = (out, seqs)"
| "insert_aborted (p # ps) out seqs =
     (let insertAt = (if pc_at p + 1 > length out then length out else pc_at p + 1) in
      insert_aborted ps (insert_at insertAt (synthetic_result (pc_id p)) out) (insert_at insertAt (pc_seq p) seqs))"

definition normalizeRawItemsWithSeqs :: "msg_lib \<Rightarrow> ContextItem list \<Rightarrow> Message list \<times> int list" where
  "normalizeRawItemsWithSeqs lib items =
     (let ns = fold (normalize_item lib) items
                 \<lparr>ns_out = [], ns_seqs = [], ns_available = [], ns_pending = []\<rparr>
      in insert_aborted (rev (ns_pending ns)) (ns_out ns) (ns_seqs ns))"

text \<open>\<open>replayHistory\<close>; a failing memory provider is \<open>None\<close>.\<close>

definition replayHistory ::
  "msg_lib \<Rightarrow> fold_docs option \<Rightarrow> string \<Rightarrow> ContextItem list option \<Rightarrow> Message list \<times> int list" where
  "replayHistory lib store contextID res =
     (case res of
        None \<Rightarrow> ([], [])
      | Some items \<Rightarrow>
          normalizeRawItemsWithSeqs lib
            (pruneOldToolResults (applyFold store contextID (filter ci_Raw items))))"

subsection \<open>The board\<close>

record Section =
  sec_ID :: string
  sec_msg :: Message

text \<open>The board variables the world node reads and writes, and the main channel.\<close>

record Board =
  bd_sections :: string
  bd_history :: string
  bd_tail_block :: string
  bd_sections_count :: "int option"
  bd_history_count :: "int option"
  bd_main :: "Message list"

record MergeCounts =
  mc_Sections :: nat
  mc_History :: nat

datatype merge_error = BoardNil | BadSections | BadHistory

definition decodeVar :: "(string \<Rightarrow> 'a list option) \<Rightarrow> merge_error \<Rightarrow> string \<Rightarrow> merge_error + 'a list" where
  "decodeVar dec e raw =
     (if raw = '''' then Inr [] else (case dec raw of None \<Rightarrow> Inl e | Some v \<Rightarrow> Inr v))"

text \<open>The channel \<open>Merge\<close> writes: the tail block rides the turn's own message when it is the user's.\<close>

definition with_tail :: "string \<Rightarrow> Message list \<Rightarrow> Message list" where
  "with_tail tail rest =
     (if tail = '''' then rest
      else if rest \<noteq> [] \<and> msg_Role (last rest) = RoleUser
      then butlast rest @ [(last rest)\<lparr>msg_Parts := msg_Parts (last rest) @ [TextPart tail]\<rparr>]
      else rest @ [NewTextMessage RoleUser tail])"

definition Merge ::
  "(string \<Rightarrow> Section list option) \<Rightarrow> (string \<Rightarrow> Message list option) \<Rightarrow> board_id option \<Rightarrow> Board
   \<Rightarrow> Message list registry \<Rightarrow> (merge_error + MergeCounts) \<times> Board \<times> Message list registry" where
  "Merge dec_sections dec_history board bd pendingHistory =
     (if board = None then (Inl BoardNil, bd, pendingHistory)
      else
        (case decodeVar dec_sections BadSections (bd_sections bd) of
           Inl e \<Rightarrow> (Inl e, bd, pendingHistory)
         | Inr sections \<Rightarrow>
             (case history_take board pendingHistory of
                (taken, pendingHistory') \<Rightarrow>
                  (case (case taken of
                           Some history \<Rightarrow> Inr history
                         | None \<Rightarrow> decodeVar dec_history BadHistory (bd_history bd)) of
                     Inl e \<Rightarrow> (Inl e, bd, pendingHistory')
                   | Inr history \<Rightarrow>
                       (Inr \<lparr>mc_Sections = length sections, mc_History = length history\<rparr>,
                        bd\<lparr>bd_sections_count := Some (int (length sections)),
                           bd_history_count := Some (int (length history)),
                           bd_main := map sec_msg sections @ history @ with_tail (bd_tail_block bd) (bd_main bd)\<rparr>,
                        pendingHistory')))))"

definition sectionsCount :: "Board \<Rightarrow> int" where
  "sectionsCount bd = (case bd_sections_count bd of None \<Rightarrow> 0 | Some n \<Rightarrow> n)"

text \<open>The tail block of \<open>renderTailBlock\<close>.\<close>

definition tailBlockHeader :: string where
  "tailBlockHeader = ''<opencraft-context>'' @ newline @
     ''Injected context for this turn. It is not part of the user'' @ [CHR 0x27] @
     ''s message: the user'' @ [CHR 0x27] @ ''s request is the text before this block.'' @ newline @ newline"

definition tailBlockFooter :: string where
  "tailBlockFooter = newline @ ''</opencraft-context>''"

fun tail_texts :: "msg_lib \<Rightarrow> Section list \<Rightarrow> string \<Rightarrow> string" where
  "tail_texts lib [] b = b"
| "tail_texts lib (sec # secs) b =
     (let text = trim_space (ml_Text lib (msg_Parts (sec_msg sec))) in
      if text = '''' then tail_texts lib secs b
      else tail_texts lib secs ((if b \<noteq> '''' then b @ newline @ newline else b) @ text))"

definition renderTailBlock :: "msg_lib \<Rightarrow> Section list \<Rightarrow> string" where
  "renderTailBlock lib sections =
     (let b = tail_texts lib sections '''' in
      if b = '''' then '''' else tailBlockHeader @ b @ tailBlockFooter)"

text \<open>What \<open>RenderTurn\<close> hands over: the messages for the world node, the rows behind them for the fold.\<close>

definition render_replay ::
  "msg_lib \<Rightarrow> fold_docs option \<Rightarrow> board_id option \<Rightarrow> string \<Rightarrow> ContextItem list option
   \<Rightarrow> Message list registry \<times> foldEntry registry \<Rightarrow> Message list registry \<times> foldEntry registry" where
  "render_replay lib store board conversationID res rs =
     (case replayHistory lib store conversationID res of
        (history, seqs) \<Rightarrow>
          (if history \<noteq> []
           then (history_put board history (fst rs), stashReplaySeqs board (store \<noteq> None) seqs (snd rs))
           else rs))"

subsection \<open>The graph's fold\<close>

text \<open>
  The compaction node, \<open>compact.js\<close>: the channel range a fold covers (\<open>retain\<close> is what \<open>retainTail\<close>
  returns for the start), and the channel after a fold was applied. \<open>base\<close> is the channel without the
  synthetic call and its result.
\<close>

fun js_text :: "part list \<Rightarrow> string" where
  "js_text [] = ''''"
| "js_text (TextPart t # ps) = t @ js_text ps"
| "js_text (p # ps) = js_text ps"

definition messageText :: "Message \<Rightarrow> string" where
  "messageText m = js_text (msg_Parts m)"

definition isSummary :: "Message \<Rightarrow> string \<Rightarrow> bool" where
  "isSummary m prevSummary \<longleftrightarrow>
     prevSummary \<noteq> '''' \<and> msg_Role m = RoleUser \<and>
     has_prefix (messageText m) (takeWhile (\<lambda>c. c \<noteq> CHR 0x0A) prevSummary @ newline)"

fun step_back :: "Message list \<Rightarrow> nat \<Rightarrow> nat \<Rightarrow> nat" where
  "step_back msgs foldStart 0 = 0"
| "step_back msgs foldStart (Suc n) =
     (if Suc n > foldStart \<and> Suc n < length msgs \<and> msg_Role (msgs ! Suc n) = RoleTool
      then step_back msgs foldStart n else Suc n)"

definition fold_range :: "nat \<Rightarrow> nat \<Rightarrow> (nat \<Rightarrow> nat) \<Rightarrow> Message list \<Rightarrow> nat \<times> nat" where
  "fold_range count turnStart retain msgs =
     (let foldStart = (if turnStart = count then count + 1 else count);
          foldEnd = retain foldStart;
          foldEnd' = (if turnStart > foldStart \<and> turnStart < foldEnd then turnStart else foldEnd)
      in (foldStart, step_back msgs foldStart foldEnd'))"

text \<open>The applied fold: the messages moved to the side channel, and the main channel.\<close>

definition compact_apply ::
  "nat \<Rightarrow> nat \<Rightarrow> nat \<Rightarrow> string \<Rightarrow> Message \<Rightarrow> Message list \<Rightarrow> (Message list \<times> Message list) option" where
  "compact_apply count foldStart foldEnd prevSummary patch base =
     (if foldStart \<ge> count \<and> foldEnd > foldStart \<and> foldEnd \<le> length base
      then
        (let kept = (\<lambda>m. \<not> isSummary m prevSummary) in
         Some (filter kept (take (foldEnd - foldStart) (drop foldStart base)),
               take foldStart base @ filter kept (drop foldEnd base) @ [patch]))
      else None)"

end
