(* ===== verification/ReplayLaws.thy ===== *)
theory ReplayLaws
  imports Replay
begin

text \<open>
  The replay is provider-valid and aligned with the transcript rows; a recorded fold replays as its
  specification \<open>folded_view\<close> says and a later covering fold reads the same from the view as from the
  rows; the registries that hand the replay to the graph stay bounded and keep a fresh pairing; the
  channel positions of a turn name the right rows. Two traces show folds after which rows that had
  been folded away are read again.
\<close>

subsection \<open>The registries\<close>

definition registry_ok :: "'v registry \<Rightarrow> bool" where
  "registry_ok r \<longleftrightarrow>
     distinct (rg_order r) \<and> set (rg_order r) = dom (rg_items r) \<and> length (rg_order r) \<le> rg_depth r"

lemma evict_result:
  assumes "distinct order" "set order = dom items"
  shows "evict d order items =
    (drop (length order - d) order, items |` set (drop (length order - d) order))"
  using assms
proof (induction order arbitrary: items)
  case Nil
  then show ?case by auto
next
  case (Cons b order)
  show ?case
  proof (cases "length (b # order) > d")
    case True
    have "set order = dom (items(b := None))" using Cons.prems by auto
    then have "evict d (b # order) items = (drop (length order - d) order, (items(b := None)) |` set (drop (length order - d) order))"
      using True Cons by simp
    moreover have "b \<notin> set (drop (length order - d) order)" using Cons.prems(1) by (auto dest: in_set_dropD)
    then have "(items(b := None)) |` set (drop (length order - d) order) = items |` set (drop (length order - d) order)"
      by (auto simp: restrict_map_def fun_eq_iff)
    ultimately show ?thesis using True by (simp add: Suc_diff_le)
  next
    case False
    have "items |` set (b # order) = items"
      unfolding Cons.prems(2) by (auto simp: restrict_map_def fun_eq_iff domIff)
    then show ?thesis using False by simp
  qed
qed

definition put_order :: "board_id \<Rightarrow> 'v registry \<Rightarrow> board_id list" where
  "put_order b r = (if b \<in> set (rg_order r) then rg_order r else rg_order r @ [b])"

lemma registry_put_result:
  assumes "registry_ok r"
  shows "registry_put b v r =
    (let keep = drop (length (put_order b r) - rg_depth r) (put_order b r)
     in r\<lparr>rg_order := keep, rg_items := ((rg_items r)(b \<mapsto> v)) |` set keep\<rparr>)"
proof -
  have mem: "rg_items r b = None \<longleftrightarrow> b \<notin> set (rg_order r)" using assms by (auto simp: registry_ok_def)
  then have o: "(if rg_items r b = None then rg_order r @ [b] else rg_order r) = put_order b r"
    by (simp add: put_order_def)
  have d: "distinct (put_order b r)" "set (put_order b r) = dom ((rg_items r)(b \<mapsto> v))"
    using assms by (auto simp: put_order_def registry_ok_def)
  show ?thesis unfolding registry_put_def o Let_def evict_result [OF d] by simp
qed

lemma registry_put_ok: "registry_ok r \<Longrightarrow> registry_ok (registry_put b v r)"
proof -
  assume ok: "registry_ok r"
  let ?o = "put_order b r"
  have d: "distinct ?o" "set ?o = insert b (dom (rg_items r))" using ok by (auto simp: put_order_def registry_ok_def)
  have sub: "set (drop n ?o) \<subseteq> insert b (dom (rg_items r))" for n using d(2) set_drop_subset [of n ?o] by simp
  show ?thesis
    unfolding registry_put_result [OF ok] registry_ok_def
    using d(1) sub [of "length ?o - rg_depth r"] by (auto simp: Let_def)
qed

lemma history_take_ok: "registry_ok r \<Longrightarrow> registry_ok (snd (history_take board r))"
proof (cases board)
  case (Some b)
  assume ok: "registry_ok r"
  have len: "length (remove1 b (rg_order r)) \<le> rg_depth r"
    using ok by (auto simp: registry_ok_def length_remove1)
  show ?thesis
  proof (cases "rg_items r b")
    case (Some h)
    then show ?thesis using ok len \<open>board = Some b\<close>
      by (simp add: history_take_def registry_ok_def)
  qed (use ok \<open>board = Some b\<close> in \<open>simp add: history_take_def\<close>)
qed (simp add: history_take_def)

lemma registry_put_depth [simp]: "rg_depth (registry_put b v r) = rg_depth r"
  by (simp add: registry_put_def Let_def split: prod.splits)

lemma put_get:
  assumes "registry_ok r" "0 < rg_depth r"
  shows "rg_items (registry_put b v r) b = Some v"
proof -
  have "b \<in> set (drop (length (put_order b r) - rg_depth r) (put_order b r))"
  proof (cases "b \<in> set (rg_order r)")
    case True
    then show ?thesis using assms by (simp add: put_order_def registry_ok_def)
  next
    case False
    then have "put_order b r = rg_order r @ [b]" "length (rg_order r) + 1 - rg_depth r \<le> length (rg_order r)"
      using assms by (auto simp: put_order_def)
    then show ?thesis by simp
  qed
  then show ?thesis by (simp add: registry_put_result [OF assms(1)] Let_def)
qed

text \<open>An entry with few younger ones survives a put of another board.\<close>

definition younger :: "nat \<Rightarrow> board_id \<Rightarrow> 'v \<Rightarrow> 'v registry \<Rightarrow> bool" where
  "younger n b v r \<longleftrightarrow>
     rg_items r b = Some v \<and> (\<exists>xs ys. rg_order r = xs @ b # ys \<and> length ys \<le> n)"

lemma younger_put:
  assumes "registry_ok r" "0 < rg_depth r" "b \<notin> set (rg_order r)"
  shows "younger 0 b v (registry_put b v r)"
proof -
  have p: "put_order b r = rg_order r @ [b]" using assms(3) by (simp add: put_order_def)
  have "length (put_order b r) - rg_depth r \<le> length (rg_order r)" using assms(2) p by simp
  then have "rg_order (registry_put b v r) = drop (length (put_order b r) - rg_depth r) (rg_order r) @ [b]"
    by (simp add: registry_put_result [OF assms(1)] Let_def p)
  then show ?thesis using put_get [OF assms(1,2), of b v] by (auto simp: younger_def)
qed

lemma younger_survives:
  assumes ok: "registry_ok r" and y: "younger n b v r" and n: "n + 2 \<le> rg_depth r" and c: "c \<noteq> b"
  shows "younger (n + 1) b v (registry_put c w r)"
proof -
  obtain xs ys where o: "rg_order r = xs @ b # ys" and l: "length ys \<le> n" and i: "rg_items r b = Some v"
    using y by (auto simp: younger_def)
  obtain zs where p: "put_order c r = xs @ b # ys @ zs" and z: "length zs \<le> 1"
    using o by (cases "c \<in> set (rg_order r)") (auto simp: put_order_def)
  let ?k = "length (put_order c r) - rg_depth r"
  have k: "?k \<le> length xs" using p z l n by auto
  then have d: "drop ?k (put_order c r) = drop ?k xs @ b # ys @ zs" by (simp add: p)
  have "rg_order (registry_put c w r) = drop ?k xs @ b # (ys @ zs)"
    "rg_items (registry_put c w r) b = Some v"
    using i c by (auto simp: registry_put_result [OF ok] Let_def d)
  then show ?thesis unfolding younger_def using l z
    by (intro conjI exI [of _ "drop ?k xs"] exI [of _ "ys @ zs"]) auto
qed


subsection \<open>The folded view\<close>

definition ordered_rows :: "ContextItem list \<Rightarrow> bool" where
  "ordered_rows items \<longleftrightarrow> sorted (map item_seq items)"

definition before_fold :: "foldDocument \<Rightarrow> ContextItem list \<Rightarrow> ContextItem list" where
  "before_fold doc items = filter (\<lambda>i. item_seq i < fd_CoveredFrom doc) items"

definition behind_fold :: "foldDocument \<Rightarrow> ContextItem list \<Rightarrow> ContextItem list" where
  "behind_fold doc items = filter (\<lambda>i. fd_CoveredTo doc < item_seq i) items"

text \<open>The specification: what is before the covered rows, their summary, what is behind them.\<close>

definition folded_view :: "foldDocument \<Rightarrow> ContextItem list \<Rightarrow> ContextItem list" where
  "folded_view doc items =
     (if list_ex (\<lambda>i. fd_CoveredFrom doc \<le> item_seq i) items
      then before_fold doc items @ [foldSummaryItem doc] @ behind_fold doc items
      else items)"

definition rows_hidden :: "foldDocument \<Rightarrow> ContextItem list \<Rightarrow> nat" where
  "rows_hidden doc items = length (filter (\<lambda>i. covered doc (item_seq i)) items)"

lemma fold_loop_inserted:
  assumes "ordered_rows items" "\<forall>i\<in>set items. fd_CoveredFrom doc \<le> item_seq i"
  shows "fold_loop doc items out True r = (out @ behind_fold doc items, True, r + rows_hidden doc items)"
  using assms
proof (induction items arbitrary: out r)
  case (Cons i items)
  have "ordered_rows items" using Cons.prems by (simp add: ordered_rows_def)
  then show ?case using Cons by (simp add: behind_fold_def rows_hidden_def covered_def Let_def)
qed (simp add: behind_fold_def rows_hidden_def)

lemma fold_loop_view:
  assumes "ordered_rows items" "fd_CoveredFrom doc \<le> fd_CoveredTo doc"
  shows "fold_loop doc items out False r =
     (out @ folded_view doc items, list_ex (\<lambda>i. fd_CoveredFrom doc \<le> item_seq i) items, r + rows_hidden doc items)"
  using assms
proof (induction items arbitrary: out r)
  case (Cons i items)
  have o: "ordered_rows items" and le: "\<forall>j\<in>set items. item_seq i \<le> item_seq j"
    using Cons.prems by (auto simp: ordered_rows_def)
  show ?case
  proof (cases "fd_CoveredFrom doc \<le> item_seq i")
    case True
    then have all: "\<forall>j\<in>set items. fd_CoveredFrom doc \<le> item_seq j" using le by force
    then have "before_fold doc (i # items) = []" using True by (auto simp: before_fold_def filter_empty_conv)
    then show ?thesis
      using True fold_loop_inserted [OF o all]
      by (simp add: folded_view_def behind_fold_def rows_hidden_def covered_def Let_def)
  next
    case False
    then have step: "fold_loop doc (i # items) out False r = fold_loop doc items (out @ [i]) False r"
      using Cons.prems(2) by (simp add: covered_def Let_def)
    have "rows_hidden doc (i # items) = rows_hidden doc items" "i # folded_view doc items = folded_view doc (i # items)"
      using False Cons.prems(2) by (auto simp: rows_hidden_def covered_def folded_view_def before_fold_def behind_fold_def)
    then show ?thesis using Cons.IH [OF o Cons.prems(2)] False unfolding step by simp
  qed
qed (simp add: folded_view_def rows_hidden_def)

lemma applyFold_view:
  assumes "ordered_rows raws" "docs conv = Some doc" "doc_wellformed doc"
  shows "applyFold (Some docs) conv raws = folded_view doc raws"
proof -
  have "fd_CoveredFrom doc \<le> fd_CoveredTo doc" using assms(3) by (simp add: doc_wellformed_def)
  from fold_loop_view [OF assms(1) this, of "[]" 0] show ?thesis
    using assms by (auto simp: applyFold_def folded_view_def split: if_splits)
qed

definition int64 :: "int \<Rightarrow> bool" where
  "int64 n \<longleftrightarrow> - (2 ^ 63) \<le> n \<and> n < 2 ^ 63"

lemma item_seq_int64: "int64 (item_seq i)"
  using sint_ge [of "ci_Sequence i"] sint_lt [of "ci_Sequence i"] by (simp add: int64_def item_seq_def)

lemma summary_seq: "int64 (fd_CoveredFrom doc) \<Longrightarrow> item_seq (foldSummaryItem doc) = fd_CoveredFrom doc"
  by (simp add: item_seq_def foldSummaryItem_def uint64_def int64_def sint_sbintrunc' signed_take_bit_int_eq_self)

lemma folded_view_ordered:
  assumes "ordered_rows items" "doc_wellformed doc" "int64 (fd_CoveredFrom doc)"
  shows "ordered_rows (folded_view doc items)"
proof -
  have "sorted (map item_seq (filter P items))" for P
    using assms(1) by (simp add: ordered_rows_def sorted_filter)
  then show ?thesis
    using assms summary_seq [OF assms(3)]
    by (auto simp: folded_view_def ordered_rows_def sorted_append before_fold_def behind_fold_def doc_wellformed_def)
qed

text \<open>A later fold that covers an earlier one reads the same from the folded view and from the rows.\<close>

lemma refold_view:
  assumes "doc_wellformed doc" "doc_wellformed doc'"
    and r: "int64 (fd_CoveredFrom doc)"
    and c: "fd_CoveredFrom doc' \<le> fd_CoveredFrom doc" "fd_CoveredTo doc \<le> fd_CoveredTo doc'"
  shows "folded_view doc' (folded_view doc items) = folded_view doc' items"
proof (cases "list_ex (\<lambda>i. fd_CoveredFrom doc \<le> item_seq i) items")
  case True
  have wf: "fd_CoveredFrom doc \<le> fd_CoveredTo doc" using assms(1) by (simp add: doc_wellformed_def)
  note s = summary_seq [OF r]
  have ex: "list_ex (\<lambda>i. fd_CoveredFrom doc' \<le> item_seq i) items" using True c(1) unfolding list_ex_iff by (meson order_trans)
  have b: "before_fold doc' (before_fold doc items) = before_fold doc' items"
    "before_fold doc' (behind_fold doc items) = []"
    using c wf by (auto simp: before_fold_def behind_fold_def filter_empty_conv intro!: filter_cong)
  have h: "behind_fold doc' (behind_fold doc items) = behind_fold doc' items"
    "behind_fold doc' (before_fold doc items) = []"
    using c wf by (auto simp: before_fold_def behind_fold_def filter_empty_conv intro!: filter_cong)
  have "list_ex (\<lambda>i. fd_CoveredFrom doc' \<le> item_seq i) (folded_view doc items)"
    using True c(1) s by (auto simp: folded_view_def)
  moreover have "before_fold doc' (folded_view doc items) = before_fold doc' items"
    using True b s c(1) by (simp add: folded_view_def before_fold_def)
  moreover have "behind_fold doc' (folded_view doc items) = behind_fold doc' items"
    using True h s c wf by (simp add: folded_view_def behind_fold_def)
  ultimately show ?thesis using ex by (simp add: folded_view_def [of doc'])
qed (simp add: folded_view_def)


subsection \<open>Old tool output\<close>

definition outputs :: "ContextItem list \<Rightarrow> nat" where
  "outputs items = length (filter (\<lambda>i. hasToolOutput (ci_Parts i)) items)"

text \<open>The specification: a result with eight or more newer results behind it is shortened.\<close>

fun pruned :: "ContextItem list \<Rightarrow> ContextItem list" where
  "pruned [] = []"
| "pruned (i # items) =
     (if hasToolOutput (ci_Parts i) \<and> keepToolResultsVerbatim \<le> outputs items
      then i\<lparr>ci_Parts := pruneContent (ci_Parts i)\<rparr> else i) # pruned items"

lemma outputs_simps [simp]:
  "outputs [] = 0" "outputs (i # items) = (if hasToolOutput (ci_Parts i) then Suc (outputs items) else outputs items)"
  "outputs (xs @ ys) = outputs xs + outputs ys" "outputs (rev xs) = outputs xs"
  by (simp_all add: outputs_def rev_filter [symmetric])

lemma prune_rev_append: "prune_rev n (xs @ ys) = prune_rev n xs @ prune_rev (n + outputs xs) ys"
  by (induction xs arbitrary: n) simp_all

lemma prune_pruned: "pruneOldToolResults items = pruned items"
proof (induction items)
  case (Cons i items)
  have "pruneOldToolResults (i # items) = rev (prune_rev (outputs items) [i]) @ pruneOldToolResults items"
    by (simp only: pruneOldToolResults_def rev.simps(2) prune_rev_append rev_append) simp
  then show ?case using Cons by simp
qed (simp add: pruneOldToolResults_def)

lemma pruned_rows: "map item_seq (pruned items) = map item_seq items"
  by (induction items) (auto simp: item_seq_def)

lemma pruned_length [simp]: "length (pruned items) = length items"
  by (induction items) auto

subsection \<open>Provider-valid history\<close>

fun part_calls :: "part \<Rightarrow> string list" where
  "part_calls (ToolCallPart cid payload) = [cid]"
| "part_calls _ = []"

fun part_answers :: "part \<Rightarrow> string list" where
  "part_answers (ToolResultPart cid content err) = [cid]"
| "part_answers _ = []"

definition calls_of :: "Message \<Rightarrow> string set" where
  "calls_of m = set (concat (map part_calls (msg_Parts m)))"

definition answers_of :: "Message \<Rightarrow> string set" where
  "answers_of m = set (concat (map part_answers (msg_Parts m)))"

text \<open>Every result answers a call made earlier; the calls a history leaves open.\<close>

fun answers_known :: "string set \<Rightarrow> Message list \<Rightarrow> bool" where
  "answers_known known [] = True"
| "answers_known known (m # ms) = (answers_of m \<subseteq> known \<and> answers_known (known \<union> calls_of m) ms)"

fun open_calls :: "Message list \<Rightarrow> string set" where
  "open_calls [] = {}"
| "open_calls (m # ms) = (calls_of m - \<Union> (answers_of ` set ms)) \<union> open_calls ms"

definition all_answers :: "Message list \<Rightarrow> string set" where
  "all_answers ms = \<Union> (answers_of ` set ms)"

definition all_calls :: "Message list \<Rightarrow> string set" where
  "all_calls ms = \<Union> (calls_of ` set ms)"

lemma answers_known_append:
  "answers_known k (xs @ ys) \<longleftrightarrow> answers_known k xs \<and> answers_known (k \<union> all_calls xs) ys"
  by (induction xs arbitrary: k) (auto simp: all_calls_def Un_assoc)

lemma answers_known_mono: "answers_known k ms \<Longrightarrow> k \<subseteq> k' \<Longrightarrow> answers_known k' ms"
  by (induction ms arbitrary: k k') (auto, blast)

lemma open_calls_append: "open_calls (xs @ ys) = (open_calls xs - all_answers ys) \<union> open_calls ys"
  by (induction xs) (auto simp: all_answers_def)

lemma all_simps [simp]:
  "all_calls [] = {}" "all_answers [] = {}"
  "all_calls (m # ms) = calls_of m \<union> all_calls ms" "all_answers (m # ms) = answers_of m \<union> all_answers ms"
  "all_calls (xs @ ys) = all_calls xs \<union> all_calls ys" "all_answers (xs @ ys) = all_answers xs \<union> all_answers ys"
  by (auto simp: all_calls_def all_answers_def)


text \<open>What \<open>rawContextFor\<close> gives: its ids are the ids of the parts it keeps.\<close>

lemma call_parts_ids: "concat (map part_calls (map fst (call_parts lib ps))) = map snd (call_parts lib ps)"
  "concat (map part_answers (map fst (call_parts lib ps))) = []"
  by (induction ps) (auto split: option.splits part.splits)

lemma result_parts_ids: "concat (map part_answers (map fst (result_parts lib ps))) = map snd (result_parts lib ps)"
  "concat (map part_calls (map fst (result_parts lib ps))) = []"
  by (induction ps) (auto split: option.splits part.splits)

lemma rawContext_id_lists:
  "concat (map part_calls (msg_Parts (rc_msg (rawContextFor lib item)))) = rc_calls (rawContextFor lib item)"
  "concat (map part_answers (msg_Parts (rc_msg (rawContextFor lib item)))) = rc_needs (rawContextFor lib item)"
  by (simp_all add: rawContextFor_def Let_def NewTextMessage_def call_parts_ids result_parts_ids
      del: map_map concat_eq_Nil_conv)

lemma rawContext_ids:
  "calls_of (rc_msg (rawContextFor lib item)) = set (rc_calls (rawContextFor lib item))"
  "answers_of (rc_msg (rawContextFor lib item)) = set (rc_needs (rawContextFor lib item))"
  by (simp_all only: calls_of_def answers_of_def rawContext_id_lists)

lemma rawContext_roles:
  "msg_Role (rc_msg (rawContextFor lib item)) = RoleAssistant \<Longrightarrow> rc_needs (rawContextFor lib item) = []"
  "msg_Role (rc_msg (rawContextFor lib item)) \<noteq> RoleAssistant \<Longrightarrow> rc_calls (rawContextFor lib item) = []"
  "msg_Role (rc_msg (rawContextFor lib item)) \<noteq> RoleTool \<Longrightarrow> rc_needs (rawContextFor lib item) = []"
  by (auto simp: rawContextFor_def Let_def NewTextMessage_def RoleAssistant_def RoleTool_def RoleUser_def)

lemma synthetic_ids [simp]: "calls_of (synthetic_result cid) = {}" "answers_of (synthetic_result cid) = {cid}"
  by (simp_all add: calls_of_def answers_of_def synthetic_result_def)

text \<open>Where a rendered message and its row number come from.\<close>

definition from_row :: "msg_lib \<Rightarrow> ContextItem list \<Rightarrow> Message \<Rightarrow> int \<Rightarrow> bool" where
  "from_row lib items m seq \<longleftrightarrow>
     (\<exists>it\<in>set items. seq = item_seq it \<and>
        (m = rc_msg (rawContextFor lib it) \<or>
         (\<exists>cid\<in>set (rc_calls (rawContextFor lib it)). m = synthetic_result cid)))"

definition call_row :: "msg_lib \<Rightarrow> ContextItem list \<Rightarrow> pendingCall \<Rightarrow> bool" where
  "call_row lib items p \<longleftrightarrow>
     (\<exists>it\<in>set items. pc_seq p = item_seq it \<and> pc_id p \<in> set (rc_calls (rawContextFor lib it)))"

definition waiting :: "pendingCall list \<Rightarrow> nat \<Rightarrow> string set" where
  "waiting ps k = pc_id ` {p \<in> set ps. k \<le> pc_at p}"

definition history_inv :: "msg_lib \<Rightarrow> ContextItem list \<Rightarrow> Message list \<Rightarrow> int list \<Rightarrow> pendingCall list \<Rightarrow> bool" where
  "history_inv lib items out seqs ps \<longleftrightarrow>
     answers_known {} out \<and> list_all2 (from_row lib items) out seqs \<and>
     (\<forall>p\<in>set ps. pc_at p < length out \<and> pc_id p \<in> calls_of (out ! pc_at p) \<and>
        pc_seq p = seqs ! pc_at p \<and> call_row lib items p) \<and>
     sorted (map pc_at ps) \<and> (\<forall>k. open_calls (drop k out) \<subseteq> waiting ps k)"

lemma open_drop_snoc:
  "open_calls (drop k (out @ [m])) \<subseteq> (open_calls (drop k out) - answers_of m) \<union> (if k \<le> length out then calls_of m else {})"
  by (cases "k \<le> length out") (auto simp: open_calls_append)

lemma history_append:
  assumes inv: "history_inv lib items out seqs ps"
    and f: "from_row lib items m seq" and a: "answers_of m \<subseteq> all_calls out"
    and ps: "\<forall>p\<in>set qs. pc_at p = length out \<and> pc_id p \<in> calls_of m \<and> pc_seq p = seq \<and> call_row lib items p"
    and c: "calls_of m \<subseteq> pc_id ` set qs"
  shows "history_inv lib items (out @ [m]) (seqs @ [seq]) (filter (\<lambda>p. pc_id p \<notin> answers_of m) ps @ qs)"
proof -
  have l: "length out = length seqs" using inv by (auto simp: history_inv_def dest: list_all2_lengthD)
  have known: "answers_known {} (out @ [m])" using inv a by (simp add: history_inv_def answers_known_append)
  have rows: "list_all2 (from_row lib items) (out @ [m]) (seqs @ [seq])"
    using inv f by (simp add: history_inv_def list_all2_appendI)
  have at: "\<forall>p\<in>set ps. pc_at p < length out" using inv by (simp add: history_inv_def)
  have pend: "\<forall>p\<in>set (filter (\<lambda>p. pc_id p \<notin> answers_of m) ps @ qs).
      pc_at p < length (out @ [m]) \<and> pc_id p \<in> calls_of ((out @ [m]) ! pc_at p) \<and>
      pc_seq p = (seqs @ [seq]) ! pc_at p \<and> call_row lib items p"
    using inv ps l by (auto simp: history_inv_def nth_append)
  have sort: "sorted (map pc_at (filter (\<lambda>p. pc_id p \<notin> answers_of m) ps @ qs))"
  proof -
    have "map pc_at qs = replicate (length qs) (length out)" using ps by (simp add: map_replicate_const [symmetric])
    then show ?thesis using inv at by (auto simp: history_inv_def sorted_append sorted_filter less_imp_le)
  qed
  have "open_calls (drop k (out @ [m])) \<subseteq> waiting (filter (\<lambda>p. pc_id p \<notin> answers_of m) ps @ qs) k" for k
  proof -
    have "open_calls (drop k out) - answers_of m \<subseteq> waiting (filter (\<lambda>p. pc_id p \<notin> answers_of m) ps @ qs) k"
    proof
      fix x assume x: "x \<in> open_calls (drop k out) - answers_of m"
      then have "x \<in> waiting ps k" using inv by (auto simp: history_inv_def)
      then show "x \<in> waiting (filter (\<lambda>p. pc_id p \<notin> answers_of m) ps @ qs) k" using x by (auto simp: waiting_def)
    qed
    moreover have "k \<le> length out \<Longrightarrow> calls_of m \<subseteq> waiting (filter (\<lambda>p. pc_id p \<notin> answers_of m) ps @ qs) k"
      using c ps by (auto simp: waiting_def)
    ultimately show ?thesis using open_drop_snoc [of k out m] by (auto split: if_splits)
  qed
  then show ?thesis using known rows pend sort by (simp add: history_inv_def)
qed

lemma fold_removePending: "fold removePending ids ps = filter (\<lambda>p. pc_id p \<notin> set ids) ps"
  by (induction ids arbitrary: ps) (auto simp: removePending_def intro!: filter_cong)

definition norm_inv :: "msg_lib \<Rightarrow> ContextItem list \<Rightarrow> norm_state \<Rightarrow> bool" where
  "norm_inv lib items ns \<longleftrightarrow>
     history_inv lib items (ns_out ns) (ns_seqs ns) (ns_pending ns) \<and> set (ns_available ns) = all_calls (ns_out ns)"

lemma norm_step:
  assumes inv: "norm_inv lib items ns" and i: "item \<in> set items"
  shows "norm_inv lib items (normalize_item lib item ns)"
proof -
  let ?rc = "rawContextFor lib item" and ?m = "rc_msg (rawContextFor lib item)"
  have h: "history_inv lib items (ns_out ns) (ns_seqs ns) (ns_pending ns)"
    and av: "set (ns_available ns) = all_calls (ns_out ns)" using inv by (simp_all add: norm_inv_def)
  have f: "from_row lib items ?m (item_seq item)" using i by (auto simp: from_row_def)
  note ids = rawContext_ids [of lib item]
  have quiet: "norm_inv lib items (appendMsg ?m (item_seq item) ns)" if "rc_calls ?rc = []" "rc_needs ?rc = []"
    using history_append [OF h f, of "[]"] av that ids by (simp add: norm_inv_def appendMsg_def)
  consider (calls) "msg_Role ?m = RoleAssistant" "rc_calls ?rc \<noteq> []" | (results) "msg_Role ?m = RoleTool"
    | (plain) "msg_Role ?m = RoleAssistant" "rc_calls ?rc = []" | (user) "msg_Role ?m \<noteq> RoleAssistant" "msg_Role ?m \<noteq> RoleTool"
    by blast
  then show ?thesis
  proof cases
    case calls
    let ?qs = "map (\<lambda>cid. \<lparr>pc_id = cid, pc_at = length (ns_out ns), pc_seq = item_seq item\<rparr>) (rc_calls ?rc)"
    have n: "answers_of ?m = {}" using rawContext_roles(1) [OF calls(1)] ids by simp
    have row: "\<forall>p\<in>set ?qs. call_row lib items p" using i by (auto simp: call_row_def)
    have "history_inv lib items (ns_out ns @ [?m]) (ns_seqs ns @ [item_seq item]) (ns_pending ns @ ?qs)"
      using history_append [OF h f, of ?qs] n ids row by (auto simp: image_image)
    then show ?thesis using calls av ids by (simp add: norm_inv_def normalize_item_def appendMsg_def Let_def)
  next
    case results
    have "RoleTool \<noteq> RoleAssistant" by (simp add: RoleTool_def RoleAssistant_def)
    then have c: "rc_calls ?rc = []" using rawContext_roles(2) [of lib item] results by simp
    show ?thesis
    proof (cases "msg_Parts ?m = [] \<or> \<not> allAvailable (rc_needs ?rc) (ns_available ns)")
      case False
      then have "answers_of ?m \<subseteq> all_calls (ns_out ns)"
        using av ids by (auto simp: allAvailable_def list_all_iff)
      then have "history_inv lib items (ns_out ns @ [?m]) (ns_seqs ns @ [item_seq item])
          (fold removePending (rc_needs ?rc) (ns_pending ns))"
        using history_append [OF h f, of "[]"] c ids by (simp add: fold_removePending)
      then show ?thesis using False results av ids c \<open>RoleTool \<noteq> RoleAssistant\<close>
        by (simp add: norm_inv_def normalize_item_def appendMsg_def Let_def)
    qed (use inv results \<open>RoleTool \<noteq> RoleAssistant\<close> in \<open>simp add: normalize_item_def Let_def\<close>)
  next
    case plain
    then show ?thesis using quiet inv rawContext_roles(1) [OF plain(1)] by (simp add: normalize_item_def Let_def)
  next
    case user
    then show ?thesis using quiet inv rawContext_roles(2,3) [of lib item] by (simp add: normalize_item_def Let_def)
  qed
qed


lemma norm_fold: "norm_inv lib items ns \<Longrightarrow> set xs \<subseteq> set items \<Longrightarrow> norm_inv lib items (fold (normalize_item lib) xs ns)"
  by (induction xs arbitrary: ns) (simp_all add: norm_step)

lemma open_insert:
  assumes "open_calls B = {}"
  shows "open_calls (A @ [synthetic_result cid] @ B) \<subseteq> open_calls (A @ B) - {cid}"
  using assms by (auto simp: open_calls_append)

lemma history_insert:
  assumes inv: "history_inv lib items out seqs (ps @ [p])"
  shows "history_inv lib items (insert_at (pc_at p + 1) (synthetic_result (pc_id p)) out)
           (insert_at (pc_at p + 1) (pc_seq p) seqs) ps"
proof -
  let ?n = "pc_at p + 1"
  let ?A = "take ?n out" and ?B = "drop ?n out" and ?s = "synthetic_result (pc_id p)"
  have rows: "list_all2 (from_row lib items) out seqs" and known: "answers_known {} out"
    and p: "pc_at p < length out" "pc_id p \<in> calls_of (out ! pc_at p)" "call_row lib items p"
    and ps: "\<forall>q\<in>set ps. pc_at q < length out \<and> pc_id q \<in> calls_of (out ! pc_at q) \<and>
        pc_seq q = seqs ! pc_at q \<and> call_row lib items q"
    and sort: "sorted (map pc_at ps)" "\<forall>q\<in>set ps. pc_at q \<le> pc_at p"
    and op: "open_calls (drop k out) \<subseteq> waiting (ps @ [p]) k" for k
    using inv by (auto simp: history_inv_def sorted_append)
  have len: "length out = length seqs" by (rule list_all2_lengthD [OF rows])
  have split: "out = ?A @ ?B" by simp
  have none: "open_calls (drop k out) = {}" if "?n \<le> k" for k
  proof -
    have "waiting (ps @ [p]) k = {}" using sort(2) that by (force simp: waiting_def)
    then show ?thesis using op [of k] by simp
  qed
  have call: "pc_id p \<in> all_calls ?A"
    using p by (auto simp: all_calls_def take_Suc_conv_app_nth)
  have nth: "insert_at ?n x xs ! i = xs ! i" if "i \<le> pc_at p" "pc_at p < length xs" for x :: 'b and xs i
    using that by (simp add: insert_at_def nth_append)
  have "answers_known {} (?A @ ?B)" using known by simp
  then have k': "answers_known {} (insert_at ?n ?s out)"
    using call by (simp add: insert_at_def answers_known_append del: append_take_drop_id)
  have "from_row lib items ?s (pc_seq p)" using p(3) by (auto simp: from_row_def call_row_def)
  then have r': "list_all2 (from_row lib items) (insert_at ?n ?s out) (insert_at ?n (pc_seq p) seqs)"
    using rows by (simp add: insert_at_def list_all2_appendI list_all2_takeI list_all2_dropI)
  have ps': "\<forall>q\<in>set ps. pc_at q < length (insert_at ?n ?s out) \<and>
      pc_id q \<in> calls_of (insert_at ?n ?s out ! pc_at q) \<and>
      pc_seq q = insert_at ?n (pc_seq p) seqs ! pc_at q \<and> call_row lib items q"
  proof
    fix q assume "q \<in> set ps"
    moreover from this have "pc_at q \<le> pc_at p" using sort(2) by blast
    ultimately show "pc_at q < length (insert_at ?n ?s out) \<and> pc_id q \<in> calls_of (insert_at ?n ?s out ! pc_at q) \<and>
      pc_seq q = insert_at ?n (pc_seq p) seqs ! pc_at q \<and> call_row lib items q"
      using ps nth [of "pc_at q" out] nth [of "pc_at q" seqs] p(1) len by (auto simp: insert_at_def)
  qed
  have "open_calls (drop k (insert_at ?n ?s out)) \<subseteq> waiting ps k" for k
  proof (cases "k \<le> ?n")
    case True
    have "drop k out = drop k ?A @ ?B" using True p(1) by (subst split, subst drop_append) simp
    moreover have "drop k (insert_at ?n ?s out) = drop k ?A @ [?s] @ ?B" using True p(1) by (simp add: insert_at_def)
    ultimately have "open_calls (drop k (insert_at ?n ?s out)) \<subseteq> open_calls (drop k out) - {pc_id p}"
      using open_insert [OF none [of ?n], of "drop k ?A"] by simp
    also have "\<dots> \<subseteq> waiting ps k" using op [of k] by (auto simp: waiting_def)
    finally show ?thesis .
  next
    case False
    then obtain d where "k = ?n + 1 + d" using le_Suc_ex [of "?n + 1" k] by auto
    then have "drop k (insert_at ?n ?s out) = drop (k - 1) out" using p(1) by (simp add: insert_at_def add.commute)
    then show ?thesis using none [of "k - 1"] False by simp
  qed
  then show ?thesis using k' r' ps' sort(1) by (simp add: history_inv_def)
qed

lemma insert_aborted_inv:
  "history_inv lib items out seqs (rev rs) \<Longrightarrow>
   history_inv lib items (fst (insert_aborted rs out seqs)) (snd (insert_aborted rs out seqs)) []"
proof (induction rs arbitrary: out seqs)
  case (Cons p rs)
  then have inv: "history_inv lib items out seqs (rev rs @ [p])" by simp
  then have "pc_at p < length out" by (simp add: history_inv_def)
  then have "insert_aborted (p # rs) out seqs =
      insert_aborted rs (insert_at (pc_at p + 1) (synthetic_result (pc_id p)) out) (insert_at (pc_at p + 1) (pc_seq p) seqs)"
    by (simp add: Let_def)
  then show ?case using Cons.IH [OF history_insert [OF inv]] by (simp only:)
qed simp

lemma normalize_inv:
  "history_inv lib items (fst (normalizeRawItemsWithSeqs lib items)) (snd (normalizeRawItemsWithSeqs lib items)) []"
proof -
  let ?ns = "fold (normalize_item lib) items \<lparr>ns_out = [], ns_seqs = [], ns_available = [], ns_pending = []\<rparr>"
  have "norm_inv lib items ?ns"
    by (rule norm_fold) (simp_all add: norm_inv_def history_inv_def)
  then have "history_inv lib items (ns_out ?ns) (ns_seqs ?ns) (ns_pending ?ns)" by (simp add: norm_inv_def)
  then show ?thesis unfolding normalizeRawItemsWithSeqs_def Let_def
    by (rule insert_aborted_inv [of lib items _ _ "rev (ns_pending ?ns)", unfolded rev_rev_ident])
qed

lemma normalize_valid:
  "answers_known {} (fst (normalizeRawItemsWithSeqs lib items))"
  "open_calls (fst (normalizeRawItemsWithSeqs lib items)) = {}"
  "list_all2 (from_row lib items) (fst (normalizeRawItemsWithSeqs lib items)) (snd (normalizeRawItemsWithSeqs lib items))"
proof -
  note inv = normalize_inv [of lib items, unfolded history_inv_def]
  show "answers_known {} (fst (normalizeRawItemsWithSeqs lib items))"
    "list_all2 (from_row lib items) (fst (normalizeRawItemsWithSeqs lib items)) (snd (normalizeRawItemsWithSeqs lib items))"
    using inv by simp_all
  have "open_calls (drop 0 (fst (normalizeRawItemsWithSeqs lib items))) \<subseteq> waiting [] 0" using inv by blast
  then show "open_calls (fst (normalizeRawItemsWithSeqs lib items)) = {}" by (simp add: waiting_def)
qed


text \<open>The row numbers of the rendered messages are in order when the rows are.\<close>

lemma step_seqs: "ns_seqs (normalize_item lib item ns) = ns_seqs ns \<or>
    ns_seqs (normalize_item lib item ns) = ns_seqs ns @ [item_seq item]"
  by (simp add: normalize_item_def appendMsg_def Let_def)

lemma fold_seqs_sorted:
  "sorted (ns_seqs ns @ map item_seq xs) \<Longrightarrow> sorted (ns_seqs (fold (normalize_item lib) xs ns))"
proof (induction xs arbitrary: ns)
  case (Cons x xs)
  have "sorted (ns_seqs (normalize_item lib x ns) @ map item_seq xs)"
    using Cons.prems step_seqs [of lib x ns] by (auto simp: sorted_append)
  then show ?case using Cons.IH by simp
qed simp

lemma insert_at_sorted: "sorted (xs :: int list) \<Longrightarrow> i < length xs \<Longrightarrow> sorted (insert_at (i + 1) (xs ! i) xs)"
proof -
  assume s: "sorted xs" and i: "i < length xs"
  have split: "take (i + 1) xs @ drop (i + 1) xs = xs" by simp
  have t: "take (i + 1) xs = take i xs @ [xs ! i]" using i by (simp add: take_Suc_conv_app_nth)
  have "sorted (take i xs @ [xs ! i] @ drop (i + 1) xs)" using s split t by (metis append.assoc)
  then show ?thesis unfolding insert_at_def t by (auto simp: sorted_append)
qed

lemma insert_aborted_sorted:
  "history_inv lib items out seqs (rev rs) \<Longrightarrow> sorted seqs \<Longrightarrow> sorted (snd (insert_aborted rs out seqs))"
proof (induction rs arbitrary: out seqs)
  case (Cons p rs)
  then have inv: "history_inv lib items out seqs (rev rs @ [p])" by simp
  then have p: "pc_at p < length out" "pc_seq p = seqs ! pc_at p" "length out = length seqs"
    by (auto simp: history_inv_def dest: list_all2_lengthD)
  then have "insert_aborted (p # rs) out seqs =
      insert_aborted rs (insert_at (pc_at p + 1) (synthetic_result (pc_id p)) out) (insert_at (pc_at p + 1) (pc_seq p) seqs)"
    by (simp add: Let_def)
  then show ?case
    using Cons.IH [OF history_insert [OF inv]] insert_at_sorted [OF Cons.prems(2), of "pc_at p"] p by simp
qed simp

lemma normalize_sorted:
  assumes "ordered_rows items"
  shows "sorted (snd (normalizeRawItemsWithSeqs lib items))"
proof -
  let ?s0 = "\<lparr>ns_out = [], ns_seqs = [], ns_available = [], ns_pending = []\<rparr>"
  let ?ns = "fold (normalize_item lib) items ?s0"
  have "norm_inv lib items ?ns" by (rule norm_fold) (simp_all add: norm_inv_def history_inv_def)
  then have "history_inv lib items (ns_out ?ns) (ns_seqs ?ns) (rev (rev (ns_pending ?ns)))" by (simp add: norm_inv_def)
  moreover have "sorted (ns_seqs ?ns)"
    by (rule fold_seqs_sorted) (use assms in \<open>simp add: ordered_rows_def\<close>)
  ultimately show ?thesis unfolding normalizeRawItemsWithSeqs_def Let_def by (rule insert_aborted_sorted)
qed

subsection \<open>From the replay to the fold\<close>

lemma replay_rows:
  "list_all2 (from_row lib (pruned (applyFold store conv (filter ci_Raw items))))
     (fst (replayHistory lib store conv (Some items))) (snd (replayHistory lib store conv (Some items)))"
  by (simp add: replayHistory_def prune_pruned normalize_valid)

lemma replay_length: "length (fst (replayHistory lib store conv res)) = length (snd (replayHistory lib store conv res))"
  by (cases res) (simp add: replayHistory_def, metis list_all2_lengthD replay_rows)

lemma render_result:
  assumes ok: "registry_ok pend" "registry_ok stash" "0 < rg_depth pend" "0 < rg_depth stash"
    and r: "replayHistory lib store conv res = (history, seqs)" and h: "history \<noteq> []"
    and rr: "render_replay lib store (Some b) conv res (pend, stash) = (pend', stash')"
  shows "rg_items pend' b = Some history" "rg_items stash' b = Some \<lparr>fe_seqs = seqs, fe_store = (store \<noteq> None)\<rparr>"
    "registry_ok pend'" "registry_ok stash'"
proof -
  have "seqs \<noteq> []" using replay_length [of lib store conv res] h r by auto
  then have e: "pend' = registry_put b history pend"
    "stash' = registry_put b \<lparr>fe_seqs = seqs, fe_store = (store \<noteq> None)\<rparr> stash"
    using rr r h by (simp_all add: render_replay_def history_put_def stashReplaySeqs_def)
  show "rg_items pend' b = Some history" "rg_items stash' b = Some \<lparr>fe_seqs = seqs, fe_store = (store \<noteq> None)\<rparr>"
    "registry_ok pend'" "registry_ok stash'"
    unfolding e using ok by (simp_all add: put_get registry_put_ok)
qed

lemma merge_result:
  assumes m: "Merge ds dh (Some b) bd pend = (Inr counts, bd', pend')" and i: "rg_items pend b = Some history"
  shows "\<exists>sections. mc_Sections counts = length sections \<and> mc_History counts = length history \<and>
    sectionsCount bd' = int (length sections) \<and> decodeVar ds BadSections (bd_sections bd) = Inr sections \<and>
    bd_main bd' = map sec_msg sections @ history @ with_tail (bd_tail_block bd) (bd_main bd)"
  using m i by (auto simp: Merge_def history_take_def sectionsCount_def split: sum.splits)

lemma seqRange_entry:
  assumes "rg_items stash b = Some e" "i < j" "j \<le> length (fe_seqs e)"
  shows "seqRange stash (Some b) (int n) (int (n + i)) (int (n + j)) = Inr (fe_seqs e ! i, fe_seqs e ! (j - 1))"
proof -
  have "nat (int j - 1) = j - 1" using assms(2) by simp
  then show ?thesis using assms by (auto simp: seqRange_def foldStash_get_def Let_def)
qed


subsection \<open>The registries over a history\<close>

text \<open>A put into either registry, and the world node's take.\<close>

datatype 'v registry_call = Put board_id 'v | Take board_id

fun registry_step :: "Message list registry_call \<Rightarrow> Message list registry \<Rightarrow> Message list registry" where
  "registry_step (Put b h) r = history_put (Some b) h r"
| "registry_step (Take b) r = snd (history_take (Some b) r)"

fun stash_step :: "board_id \<times> bool \<times> int list \<Rightarrow> foldEntry registry \<Rightarrow> foldEntry registry" where
  "stash_step (b, store, seqs) r = stashReplaySeqs (Some b) store seqs r"

lemma registry_step_ok: "registry_ok r \<Longrightarrow> registry_ok (registry_step c r)"
  by (cases c) (simp_all add: history_put_def registry_put_ok history_take_ok)

interpretation handoff: call_system registry_step registry_ok
  by unfold_locales (rule registry_step_ok)

interpretation stash: call_system stash_step registry_ok
  by unfold_locales (auto simp: stashReplaySeqs_def registry_put_ok)

lemma new_registry_ok: "registry_ok (new_registry d)"
  by (simp add: registry_ok_def new_registry_def)

lemma stash_depth [simp]: "rg_depth (stash_step c r) = rg_depth r"
  by (cases c) (simp add: stashReplaySeqs_def)

lemma stash_survives:
  assumes "registry_ok r" "younger n b e r" "list_all (\<lambda>c. fst c \<noteq> b) cs" "n + length cs < rg_depth r"
  shows "rg_items (run_calls stash_step cs r) b = Some e"
  using assms
proof (induction cs arbitrary: r n)
  case (Cons c cs)
  obtain b' st qs where c: "c = (b', st, qs)" by (cases c)
  have "younger (n + 1) b e (stash_step c r)"
  proof (cases "qs = []")
    case True
    then show ?thesis using Cons.prems(2) c by (auto simp: stashReplaySeqs_def younger_def intro: le_SucI)
  next
    case False
    then show ?thesis using younger_survives [OF Cons.prems(1,2)] Cons.prems(3,4) c by (simp add: stashReplaySeqs_def)
  qed
  moreover have "registry_ok (stash_step c r)" using Cons.prems(1) by (rule stash.step_keeps)
  ultimately show ?case using Cons.IH [of "stash_step c r" "n + 1"] Cons.prems(3,4) by simp
qed (simp add: younger_def)

subsection \<open>The properties\<close>

text \<open>
  C38: Whatever the archive holds, the replayed history is one a provider accepts: every tool result
  answers a call made before it, every call has a result behind it, and the row numbers handed to the
  fold are aligned with the messages and name the row each message was rendered from; they are in
  order when the rows are.
\<close>

theorem replay_is_provider_valid:
  "let view = pruneOldToolResults (applyFold store conv (filter ci_Raw items));
       history = fst (replayHistory lib store conv (Some items));
       seqs = snd (replayHistory lib store conv (Some items))
   in answers_known {} history \<and> open_calls history = {} \<and> list_all2 (from_row lib view) history seqs \<and>
      (if ordered_rows view then sorted seqs else True)"
  by (simp add: replayHistory_def normalize_valid normalize_sorted Let_def)

text \<open>
  C39: A recorded fold replays as the rows before the covered range, one summary, the rows behind the
  range. A later fold whose range covers an earlier one gives the same history from the folded view
  the model had read as from the rows of the archive, so folding again does not bring rows back.
\<close>

theorem later_fold_reads_the_same_view:
  assumes "ordered_rows raws" "docs conv = Some doc" "docs' conv = Some doc'"
    and "doc_wellformed doc" "doc_wellformed doc'" "int64 (fd_CoveredFrom doc)"
    and "fd_CoveredFrom doc' \<le> fd_CoveredFrom doc" "fd_CoveredTo doc \<le> fd_CoveredTo doc'"
  shows "applyFold (Some docs) conv raws = folded_view doc raws \<and>
    applyFold (Some docs') conv (applyFold (Some docs) conv raws) = applyFold (Some docs') conv raws"
proof -
  have v: "applyFold (Some docs) conv raws = folded_view doc raws"
    by (rule applyFold_view [where docs = docs, OF assms(1,2,4)])
  have o: "ordered_rows (folded_view doc raws)"
    by (rule folded_view_ordered [OF assms(1,4,6)])
  show ?thesis
    unfolding v applyFold_view [where docs = docs', OF o assms(3,5)] applyFold_view [where docs = docs', OF assms(1,3,5)]
    using refold_view [OF assms(4,5,6,7,8)] by simp
qed

definition doc_of :: "int \<Rightarrow> int \<Rightarrow> foldDocument" where
  "doc_of from to = \<lparr>fd_Version = 1, fd_AtSeq = to, fd_CoveredFrom = from, fd_CoveredTo = to,
     fd_Rows = to - from + 1, fd_Summary = ''s''\<rparr>"

definition plain_row :: "int \<Rightarrow> string \<Rightarrow> ContextItem" where
  "plain_row n role = \<lparr>ci_Raw = True, ci_Role = role, ci_Parts = [TextPart ''t''], ci_Sequence = uint64 n\<rparr>"

definition plain_rows :: "ContextItem list" where
  "plain_rows = map (\<lambda>n. plain_row n RoleUser) [1, 2, 3, 4, 5, 6]"

theorem later_fold_reads_the_same_view_witness:
  "applyFold (Some [''c'' \<mapsto> doc_of 1 5]) ''c'' (applyFold (Some [''c'' \<mapsto> doc_of 2 3]) ''c'' plain_rows) =
   applyFold (Some [''c'' \<mapsto> doc_of 1 5]) ''c'' plain_rows \<and>
   map item_seq (applyFold (Some [''c'' \<mapsto> doc_of 1 5]) ''c'' plain_rows) = [1, 6]"
proof -
  have o: "ordered_rows plain_rows" by code_simp
  have w: "doc_wellformed (doc_of 2 3)" "doc_wellformed (doc_of 1 5)" by code_simp+
  have r: "int64 (fd_CoveredFrom (doc_of 2 3))" by code_simp
  have c: "fd_CoveredFrom (doc_of 1 5) \<le> fd_CoveredFrom (doc_of 2 3)" "fd_CoveredTo (doc_of 2 3) \<le> fd_CoveredTo (doc_of 1 5)"
    by code_simp+
  have s: "map item_seq (applyFold (Some [''c'' \<mapsto> doc_of 1 5]) ''c'' plain_rows) = [1, 6]" by code_simp
  show ?thesis
    by (rule conjI [OF conjunct2 [OF later_fold_reads_the_same_view [where docs = "[''c'' \<mapsto> doc_of 2 3]"
        and docs' = "[''c'' \<mapsto> doc_of 1 5]" and conv = "''c''", OF o _ _ w r c]] s]) simp_all
qed

text \<open>
  Within one turn the channel positions, the rendered messages and the transcript rows agree: after
  the replay was handed over and merged, the history stands on the channel behind the sections, the
  rows the fold tool gets for a channel range are those of its first and last message, and once the
  fold is recorded the next turn reads that range of rows as its summary.
\<close>

theorem channel_range_folds_its_rows:
  assumes ok: "registry_ok pend" "registry_ok stash" "0 < rg_depth pend" "0 < rg_depth stash"
    and r: "replayHistory lib (Some docs) conv (Some items) = (history, seqs)" "history \<noteq> []"
    and o: "ordered_rows (applyFold (Some docs) conv (filter ci_Raw items))"
    and rr: "render_replay lib (Some docs) (Some b) conv (Some items) (pend, stash) = (pend', stash')"
    and m: "Merge ds dh (Some b) bd pend' = (Inr counts, bd', pend'')"
    and ij: "i < j" "j \<le> length history" and s: "trim_space summary \<noteq> ''''"
    and next_rows: "ordered_rows raws"
  shows "let start = mc_Sections counts + i; end' = mc_Sections counts + j;
             rec = recordFold True stash' (Some b) conv (sectionsCount bd') (int start) (int end') summary docs
         in take (j - i) (drop start (bd_main bd')) = take (j - i) (drop i history) \<and>
            seqRange stash' (Some b) (sectionsCount bd') (int start) (int end') = Inr (seqs ! i, seqs ! (j - 1)) \<and>
            is_ok rec \<and>
            applyFold (Some (projr rec)) conv raws =
              folded_view \<lparr>fd_Version = 1, fd_AtSeq = last seqs, fd_CoveredFrom = seqs ! i,
                fd_CoveredTo = seqs ! (j - 1), fd_Rows = int (j - i), fd_Summary = trim_space summary\<rparr> raws"
proof -
  note e = render_result [OF ok r rr]
  obtain sections :: "Section list" where c: "mc_Sections counts = length sections" "sectionsCount bd' = int (length sections)"
    "bd_main bd' = map sec_msg sections @ history @ with_tail (bd_tail_block bd) (bd_main bd)"
    using merge_result [OF m e(1)] by metis
  have len: "length history = length seqs" using replay_length [of lib "Some docs" conv "Some items"] r(1) by simp
  let ?doc = "\<lparr>fd_Version = 1, fd_AtSeq = last seqs, fd_CoveredFrom = seqs ! i,
      fd_CoveredTo = seqs ! (j - 1), fd_Rows = int (j - i), fd_Summary = trim_space summary\<rparr>"
  have "ordered_rows (pruned (applyFold (Some docs) conv (filter ci_Raw items)))"
    using o by (simp add: ordered_rows_def pruned_rows)
  then have "sorted seqs" using normalize_sorted [of "pruned (applyFold (Some docs) conv (filter ci_Raw items))" lib] r(1)
    by (simp add: replayHistory_def prune_pruned)
  then have "seqs ! i \<le> seqs ! (j - 1)" using ij len by (intro sorted_nth_mono) auto
  then have wf: "doc_wellformed ?doc" using s by (simp add: doc_wellformed_def)
  have n: "nat (int j - 1) = j - 1" using ij(1) by simp
  have rec: "recordFold True stash' (Some b) conv (int (length sections)) (int (length sections + i))
      (int (length sections + j)) summary docs = Inr (docs(conv \<mapsto> ?doc))"
    using e(2) ij len s n by (simp add: recordFold_def foldStash_get_def Let_def of_nat_diff)
  have rng: "seqRange stash' (Some b) (int (length sections)) (int (length sections + i)) (int (length sections + j))
      = Inr (seqs ! i, seqs ! (j - 1))"
    using seqRange_entry [OF e(2), of i j "length sections"] ij len by simp
  have chan: "take (j - i) (drop (length sections + i) (bd_main bd')) = take (j - i) (drop i history)"
    using ij by (simp add: c(3))
  have "applyFold (Some (docs(conv \<mapsto> ?doc))) conv raws = folded_view ?doc raws"
    by (rule applyFold_view [OF next_rows _ wf]) simp
  then show ?thesis unfolding Let_def c(1,2) rec using chan rng by simp
qed


text \<open>A conversation of six plain rows, one section in front, and the turn's own message.\<close>

definition plain_lib :: msg_lib where
  "plain_lib = \<lparr>ml_Text = js_text, ml_NormalizePart = Some\<rparr>"

definition one_section :: "string \<Rightarrow> Section list option" where
  "one_section raw = Some [\<lparr>sec_ID = ''base'', sec_msg = NewTextMessage ''system'' raw\<rparr>]"

definition turn_board :: Board where
  "turn_board = \<lparr>bd_sections = ''s'', bd_history = '''', bd_tail_block = ''t'', bd_sections_count = None,
     bd_history_count = None, bd_main = [NewTextMessage RoleUser ''ask'']\<rparr>"

definition turn_start ::
  "fold_docs \<Rightarrow> ContextItem list \<Rightarrow> Message list registry \<times> foldEntry registry" where
  "turn_start docs rows = render_replay plain_lib (Some docs) (Some 7) ''c'' (Some rows)
     (new_registry pendingHistoryDepth, new_registry foldSeqsDepth)"

definition turn_merged ::
  "fold_docs \<Rightarrow> ContextItem list \<Rightarrow> (merge_error + MergeCounts) \<times> Board \<times> Message list registry" where
  "turn_merged docs rows = Merge one_section (\<lambda>_. None) (Some 7) turn_board (fst (turn_start docs rows))"

definition turn_channel :: "fold_docs \<Rightarrow> ContextItem list \<Rightarrow> Message list" where
  "turn_channel docs rows = bd_main (fst (snd (turn_merged docs rows)))"

lemma registries_ready:
  "registry_ok (new_registry pendingHistoryDepth)" "registry_ok (new_registry foldSeqsDepth)"
  "0 < rg_depth (new_registry pendingHistoryDepth :: Message list registry)"
  "0 < rg_depth (new_registry foldSeqsDepth :: foldEntry registry)"
  by (simp_all add: new_registry_ok) (simp_all add: new_registry_def pendingHistoryDepth_def foldSeqsDepth_def)

theorem channel_range_folds_its_rows_witness:
  "take 3 (drop 1 (turn_channel Map.empty plain_rows)) =
     take 3 (fst (replayHistory plain_lib (Some Map.empty) ''c'' (Some plain_rows)))"
proof -
  let ?h = "fst (replayHistory plain_lib (Some Map.empty) ''c'' (Some plain_rows))"
  let ?q = "snd (replayHistory plain_lib (Some Map.empty) ''c'' (Some plain_rows))"
  have h: "?h \<noteq> []" "(3::nat) \<le> length ?h" by code_simp+
  have o: "ordered_rows (applyFold (Some Map.empty) ''c'' (filter ci_Raw plain_rows))" by code_simp
  have rr: "render_replay plain_lib (Some Map.empty) (Some 7) ''c'' (Some plain_rows)
      (new_registry pendingHistoryDepth, new_registry foldSeqsDepth) =
      (fst (turn_start Map.empty plain_rows), snd (turn_start Map.empty plain_rows))"
    by (simp add: turn_start_def)
  have c: "fst (turn_merged Map.empty plain_rows) = Inr \<lparr>mc_Sections = 1, mc_History = 6\<rparr>" by code_simp
  then have m: "Merge one_section (\<lambda>_. None) (Some 7) turn_board (fst (turn_start Map.empty plain_rows)) =
      (Inr \<lparr>mc_Sections = 1, mc_History = 6\<rparr>, fst (snd (turn_merged Map.empty plain_rows)),
       snd (snd (turn_merged Map.empty plain_rows)))"
    by (metis prod.collapse turn_merged_def)
  have s: "trim_space ''sum'' \<noteq> ''''" by code_simp
  have n: "ordered_rows plain_rows" by code_simp
  show ?thesis
    using channel_range_folds_its_rows [OF registries_ready prod.collapse [symmetric] h(1) o rr m _ h(2) s n, of 0]
    by (simp add: Let_def turn_channel_def)
qed

text \<open>
  The row pairing of a turn outlives the turns of other conversations that start next, as long as
  they are fewer than the registry's depth: a fold in this turn still finds its rows.
\<close>

theorem pairing_survives_other_turns:
  assumes "registry_ok r" "0 < rg_depth r" "b \<notin> set (rg_order r)" "seqs \<noteq> []"
    and "list_all (\<lambda>c. fst c \<noteq> b) others" "length others < rg_depth r"
  shows "foldStash_get (Some b) (run_calls stash_step others (stashReplaySeqs (Some b) store seqs r)) =
      Some \<lparr>fe_seqs = seqs, fe_store = store\<rparr> \<and>
    registry_ok (run_calls stash_step others (stashReplaySeqs (Some b) store seqs r))"
proof -
  have p: "stashReplaySeqs (Some b) store seqs r = registry_put b \<lparr>fe_seqs = seqs, fe_store = store\<rparr> r"
    using assms(4) by (simp add: stashReplaySeqs_def)
  have ok: "registry_ok (registry_put b \<lparr>fe_seqs = seqs, fe_store = store\<rparr> r)"
    using assms(1) by (rule registry_put_ok)
  show ?thesis
    unfolding p using stash_survives [OF ok younger_put [OF assms(1-3)] assms(5)] assms(6)
      stash.history_keeps [OF ok] by (simp add: foldStash_get_def)
qed

theorem pairing_survives_other_turns_witness:
  "foldStash_get (Some 7) (run_calls stash_step [(1, True, [1]), (2, True, [2]), (3, False, [3])]
      (stashReplaySeqs (Some 7) True [5, 6] (new_registry foldSeqsDepth))) =
    Some \<lparr>fe_seqs = [5, 6], fe_store = True\<rparr>"
proof -
  let ?r = "new_registry foldSeqsDepth :: foldEntry registry"
  have n: "7 \<notin> set (rg_order ?r)" "[5, 6 :: int] \<noteq> []"
    "list_all (\<lambda>c. fst c \<noteq> (7 :: nat)) [(1, True, [1 :: int]), (2, True, [2]), (3, False, [3])]"
    "length [(1 :: nat, True, [1 :: int]), (2, True, [2]), (3, False, [3])] < rg_depth ?r"
    by (simp_all add: new_registry_def foldSeqsDepth_def)
  show ?thesis
    by (rule conjunct1 [OF pairing_survives_other_turns [OF registries_ready(2,4) n]])
qed

text \<open>
  Old tool output is shortened in the view only where eight newer results follow it; everything
  else reaches the provider as it was stored.
\<close>

theorem only_old_results_are_pruned:
  "pruneOldToolResults items = pruned items \<and> map item_seq (pruneOldToolResults items) = map item_seq items"
  by (simp add: prune_pruned pruned_rows)

subsection \<open>Folds that lose rows\<close>

text \<open>The documents after a fold in a turn that started with \<open>docs0\<close>.\<close>

definition fold_after :: "fold_docs \<Rightarrow> ContextItem list \<Rightarrow> nat \<times> nat \<Rightarrow> fold_docs \<Rightarrow> fold_docs" where
  "fold_after docs0 rows rng docs =
     projr (recordFold True (snd (turn_start docs0 rows)) (Some 7) ''c'' 1 (int (fst rng)) (int (snd rng)) ''s'' docs)"

text \<open>
  C0: A second fold in one turn is mapped through the pairing of the replay the turn started with,
  although the first fold has moved the channel: it covers the messages of rows four and five, the
  tool is sent to summarise rows one and two, the record names those, and the next turn reads row
  three again, which the first fold had replaced.
\<close>

theorem second_fold_names_stale_rows:
  "let chan = turn_channel Map.empty plain_rows;
       r1 = fold_range 1 7 (\<lambda>_. 4) chan;
       patch = NewTextMessage RoleUser (SummaryPrefix @ newline @ ''s'');
       chan2 = snd (the (compact_apply 1 (fst r1) (snd r1) '''' patch chan));
       docs1 = fold_after Map.empty plain_rows r1 Map.empty;
       r2 = fold_range 1 4 (\<lambda>_. 3) chan2
   in r1 = (1, 4) \<and> map item_seq (applyFold (Some docs1) ''c'' plain_rows) = [1, 4, 5, 6] \<and>
      r2 = (1, 3) \<and> take 2 (drop 1 chan2) = take 2 (drop 4 chan) \<and>
      seqRange (snd (turn_start Map.empty plain_rows)) (Some 7) 1 1 3 = Inr (1, 2) \<and>
      map item_seq (applyFold (Some (fold_after Map.empty plain_rows r2 docs1)) ''c'' plain_rows) = [1, 3, 4, 5, 6]"
  by code_simp

definition call_rows :: "ContextItem list" where
  "call_rows =
     [plain_row 1 RoleUser, plain_row 2 RoleAssistant,
      \<lparr>ci_Raw = True, ci_Role = RoleAssistant, ci_Parts = [ToolCallPart ''x'' ''a'', ToolCallPart ''y'' ''b''],
        ci_Sequence = 3\<rparr>,
      \<lparr>ci_Raw = True, ci_Role = RoleTool, ci_Parts = [ToolResultPart ''x'' [TextPart ''r''] False], ci_Sequence = 4\<rparr>,
      \<lparr>ci_Raw = True, ci_Role = RoleTool, ci_Parts = [ToolResultPart ''y'' [TextPart ''r''] False], ci_Sequence = 5\<rparr>]"

text \<open>
  C0: A summary carries only the number of the first row it covers. When the boundary of a later fold
  is pushed back over the results of the first call behind the summary, the range holds the summary
  alone, the record covers that one row, and the rows the summary stood for are read again.
\<close>

theorem folding_the_summary_brings_rows_back:
  "let docs = [''c'' \<mapsto> doc_of 1 2];
       rng = fold_range 1 5 (\<lambda>_. 4) (turn_channel docs call_rows)
   in map item_seq (applyFold (Some docs) ''c'' call_rows) = [1, 3, 4, 5] \<and> rng = (1, 2) \<and>
      map item_seq (applyFold (Some (fold_after docs call_rows rng docs)) ''c'' call_rows) = [1, 2, 3, 4, 5]"
  by code_simp

end
