(* ===== verification/HostPool.thy ===== *)
theory HostPool
  imports GoPrelude
begin

text \<open>
  The pool of workspace runtimes: \<open>pool.go\<close>, \<open>build.go\<close>, \<open>replacement.go\<close> and the lifecycle part of
  \<open>handle.go\<close> and \<open>run.go\<close> in \<open>src/internal/orchestration/host/\<close>. A Host and an assembly call are
  numbers, a workspace is its path after \<open>filepath.Clean\<close>. Goroutines interleave between the critical
  sections of \<open>Manager.mu\<close> and \<open>Host.mu\<close>; a goroutine is its program counter with its locals and
  \<open>host_section\<close> runs it through its next section. A goroutine whose wait is not over stays where it
  is. What a section reads from outside (whether the build succeeds, whether the caller's context is
  cancelled, whether the adapter still wants the workspace) is its \<open>outside\<close> argument. The engine's
  drain is library code under a time budget: it may return at any time. \<open>hp_doc\<close> counts the versions of
  the configuration document, and a Host remembers the one its build has read.
\<close>

subsection \<open>State\<close>

type_synonym workspace = string
type_synonym host_id = nat
type_synonym run_id = nat

record Host =
  h_workDir :: workspace
  h_runs :: "run_id set"
  h_stale :: bool
  h_closing :: bool
  h_closed :: bool
  h_closeDone :: bool
  h_doc :: nat

record hostRef =
  hr_host :: host_id
  hr_refs :: int
  hr_stale :: bool
  hr_configured :: bool

datatype assembly_error = Cancelled | BuildFailed

record assemblyCall =
  ac_done :: bool
  ac_err :: "assembly_error option"

text \<open>
  A goroutine of \<open>Acquire\<close> or \<open>Ensure\<close> carries the workspace whose deferred replacement it works for,
  if any.
\<close>

type_synonym watcher = "workspace option"

datatype thread =
    EnsureCheck watcher workspace
  | EnsureClosing watcher workspace host_id
  | AcquireLoop watcher workspace
  | AcquireWaitClosed watcher workspace host_id
  | AcquireWaitCall watcher workspace nat
  | AssembleRead watcher workspace nat
  | AssembleBuild watcher workspace nat nat
  | AssemblePublish watcher workspace nat host_id
  | AssembleEnd watcher workspace nat "assembly_error + host_id"
  | Configure watcher host_id
  | InvalidateEach "workspace list"
  | BeginClose host_id
  | Drain host_id
  | DoClose host_id
  | TearDown host_id
  | HostClosed host_id
  | HostIdle host_id
  | StartCheck host_id run_id
  | StartTurn host_id run_id
  | StartRegister host_id run_id
  | ReplaceCheck workspace
  | ReplaceWait workspace host_id
  | ReplaceWanted workspace
  | Disarm workspace

record outside =
  o_ok :: bool
  o_cancelled :: bool

record host_sys =
  hp_hosts :: "workspace \<rightharpoonup> hostRef"
  hp_retiring :: "workspace \<rightharpoonup> host_id"
  hp_assembling :: "workspace \<rightharpoonup> nat"
  hp_armed :: "workspace set"
  hp_built :: "Host list"
  hp_calls :: "assemblyCall list"
  hp_doc :: nat
  hp_threads :: "thread list"

definition NewManager :: "host_sys" where
  "NewManager = \<lparr>hp_hosts = Map.empty, hp_retiring = Map.empty, hp_assembling = Map.empty, hp_armed = {},
     hp_built = [], hp_calls = [], hp_doc = 0, hp_threads = []\<rparr>"

definition new_host :: "workspace \<Rightarrow> nat \<Rightarrow> Host" where
  "new_host wd doc = \<lparr>h_workDir = wd, h_runs = {}, h_stale = False, h_closing = False, h_closed = False,
     h_closeDone = False, h_doc = doc\<rparr>"

definition on_host :: "host_id \<Rightarrow> (Host \<Rightarrow> Host) \<Rightarrow> host_sys \<Rightarrow> host_sys" where
  "on_host h f s = s\<lparr>hp_built := (hp_built s)[h := f (hp_built s ! h)]\<rparr>"

definition hasActiveRuns :: "host_sys \<Rightarrow> host_id \<Rightarrow> bool" where
  "hasActiveRuns s h \<longleftrightarrow> h_runs (hp_built s ! h) \<noteq> {}"

definition IsClosing :: "host_sys \<Rightarrow> host_id \<Rightarrow> bool" where
  "IsClosing s h \<longleftrightarrow> h_closing (hp_built s ! h) \<or> h_closed (hp_built s ! h)"

definition IsStale :: "host_sys \<Rightarrow> host_id \<Rightarrow> bool" where
  "IsStale s h \<longleftrightarrow> h_stale (hp_built s ! h)"

text \<open>\<open>WaitClosed\<close> returns nil once this holds.\<close>

definition wait_over :: "host_sys \<Rightarrow> host_id \<Rightarrow> bool" where
  "wait_over s h \<longleftrightarrow> h_closed (hp_built s ! h) \<or> h_closeDone (hp_built s ! h)"

definition Current :: "host_sys \<Rightarrow> workspace \<Rightarrow> host_id option" where
  "Current s wd = (case hp_hosts s wd of Some ref \<Rightarrow> Some (hr_host ref) | None \<Rightarrow> hp_retiring s wd)"

subsection \<open>Acquire and Ensure\<close>

definition returned :: "watcher \<Rightarrow> thread list" where
  "returned w = (case w of None \<Rightarrow> [] | Some wd \<Rightarrow> [Disarm wd])"

definition acquire_loop :: "watcher \<Rightarrow> workspace \<Rightarrow> host_sys \<Rightarrow> host_sys \<times> thread list" where
  "acquire_loop w wd s =
     (case hp_hosts s wd of
        Some ref \<Rightarrow>
          (s\<lparr>hp_hosts := (hp_hosts s)(wd \<mapsto> ref\<lparr>hr_refs := hr_refs ref + 1\<rparr>)\<rparr>, [Configure w (hr_host ref)])
      | None \<Rightarrow>
          (case hp_retiring s wd of
             Some h \<Rightarrow> (s, [AcquireWaitClosed w wd h])
           | None \<Rightarrow>
               (case hp_assembling s wd of
                  Some c \<Rightarrow> (s, [AcquireWaitCall w wd c])
                | None \<Rightarrow>
                    (let c = length (hp_calls s) in
                     (s\<lparr>hp_assembling := (hp_assembling s)(wd \<mapsto> c),
                        hp_calls := hp_calls s @ [\<lparr>ac_done = False, ac_err = None\<rparr>]\<rparr>,
                      [AssembleRead w wd c])))))"

definition acquire_wait_closed ::
  "outside \<Rightarrow> watcher \<Rightarrow> workspace \<Rightarrow> host_id \<Rightarrow> host_sys \<Rightarrow> host_sys \<times> thread list" where
  "acquire_wait_closed inp w wd h s =
     (if wait_over s h then (s, [AcquireLoop w wd])
      else if o_cancelled inp then (s, returned w)
      else (s, [AcquireWaitClosed w wd h]))"

definition acquire_wait_call ::
  "outside \<Rightarrow> watcher \<Rightarrow> workspace \<Rightarrow> nat \<Rightarrow> host_sys \<Rightarrow> host_sys \<times> thread list" where
  "acquire_wait_call inp w wd c s =
     (let call = hp_calls s ! c in
      if ac_done call then
        (case ac_err call of
           None \<Rightarrow> (s, [AcquireLoop w wd])
         | Some e \<Rightarrow>
             (if o_cancelled inp then (s, returned w)
              else if e \<noteq> Cancelled then (s, returned w)
              else (s, [AcquireLoop w wd])))
      else if o_cancelled inp then (s, returned w)
      else (s, [AcquireWaitCall w wd c]))"

text \<open>\<open>assembleShared\<close>: \<open>buildHost\<close> reads the document first and assembles from it.\<close>

definition assemble_read :: "watcher \<Rightarrow> workspace \<Rightarrow> nat \<Rightarrow> host_sys \<Rightarrow> host_sys \<times> thread list" where
  "assemble_read w wd c s = (s, [AssembleBuild w wd c (hp_doc s)])"

definition assemble_build ::
  "outside \<Rightarrow> watcher \<Rightarrow> workspace \<Rightarrow> nat \<Rightarrow> nat \<Rightarrow> host_sys \<Rightarrow> host_sys \<times> thread list" where
  "assemble_build inp w wd c doc s =
     (if o_ok inp
      then (s\<lparr>hp_built := hp_built s @ [new_host wd doc]\<rparr>, [AssemblePublish w wd c (length (hp_built s))])
      else (s, [AssembleEnd w wd c (Inl (if o_cancelled inp then Cancelled else BuildFailed))]))"

definition assemble_publish ::
  "watcher \<Rightarrow> workspace \<Rightarrow> nat \<Rightarrow> host_id \<Rightarrow> host_sys \<Rightarrow> host_sys \<times> thread list" where
  "assemble_publish w wd c h s =
     (case hp_hosts s wd of
        Some ref \<Rightarrow>
          (s\<lparr>hp_hosts := (hp_hosts s)(wd \<mapsto> ref\<lparr>hr_refs := hr_refs ref + 1\<rparr>)\<rparr>,
           [DoClose h, AssembleEnd w wd c (Inr (hr_host ref))])
      | None \<Rightarrow>
          (s\<lparr>hp_hosts := (hp_hosts s)(wd \<mapsto>
               \<lparr>hr_host = h, hr_refs = 1, hr_stale = False, hr_configured = False\<rparr>)\<rparr>,
           [AssembleEnd w wd c (Inr h)]))"

definition assemble_end ::
  "watcher \<Rightarrow> workspace \<Rightarrow> nat \<Rightarrow> assembly_error + host_id \<Rightarrow> host_sys \<Rightarrow> host_sys \<times> thread list" where
  "assemble_end w wd c r s =
     (s\<lparr>hp_assembling := (hp_assembling s)(wd := None),
        hp_calls := (hp_calls s)[c := \<lparr>ac_done = True, ac_err = (case r of Inl e \<Rightarrow> Some e | Inr h \<Rightarrow> None)\<rparr>]\<rparr>,
      case r of Inl e \<Rightarrow> returned w | Inr h \<Rightarrow> [Configure w h])"

definition configureHost :: "watcher \<Rightarrow> host_id \<Rightarrow> host_sys \<Rightarrow> host_sys \<times> thread list" where
  "configureHost w h s =
     (let wd = h_workDir (hp_built s ! h) in
      (case hp_hosts s wd of
         Some ref \<Rightarrow>
           (if hr_host ref \<noteq> h \<or> hr_configured ref then s
            else s\<lparr>hp_hosts := (hp_hosts s)(wd \<mapsto> ref\<lparr>hr_configured := True\<rparr>)\<rparr>)
       | None \<Rightarrow> s,
       returned w))"

definition ensure_check :: "watcher \<Rightarrow> workspace \<Rightarrow> host_sys \<Rightarrow> host_sys \<times> thread list" where
  "ensure_check w wd s =
     (case Current s wd of
        Some h \<Rightarrow> (s, [EnsureClosing w wd h])
      | None \<Rightarrow> (s, [AcquireLoop w wd]))"

definition ensure_closing :: "watcher \<Rightarrow> workspace \<Rightarrow> host_id \<Rightarrow> host_sys \<Rightarrow> host_sys \<times> thread list" where
  "ensure_closing w wd h s = (s, [if IsClosing s h then AcquireLoop w wd else Configure w h])"

subsection \<open>Retiring\<close>

definition trackRetiring :: "workspace \<Rightarrow> host_id \<Rightarrow> host_sys \<Rightarrow> bool \<times> host_sys" where
  "trackRetiring wd h s =
     (if hp_retiring s wd \<noteq> None then (False, s)
      else (True, s\<lparr>hp_retiring := (hp_retiring s)(wd \<mapsto> h)\<rparr>))"

definition Invalidate :: "workspace \<Rightarrow> host_sys \<Rightarrow> host_sys \<times> thread list" where
  "Invalidate wd s =
     (case hp_hosts s wd of
        None \<Rightarrow> (s, [])
      | Some ref \<Rightarrow>
          (let h = hr_host ref;
               s1 = on_host h (\<lambda>x. x\<lparr>h_stale := True\<rparr>)
                      (s\<lparr>hp_hosts := (hp_hosts s)(wd \<mapsto> ref\<lparr>hr_stale := True\<rparr>)\<rparr>)
           in if hasActiveRuns s1 h then (s1, [])
              else
                (case trackRetiring wd h (s1\<lparr>hp_hosts := (hp_hosts s1)(wd := None)\<rparr>) of
                   (closeNow, s2) \<Rightarrow> (s2, if closeNow then [BeginClose h] else []))))"

definition hostIdle :: "host_id \<Rightarrow> host_sys \<Rightarrow> host_sys \<times> thread list" where
  "hostIdle h s =
     (let wd = h_workDir (hp_built s ! h) in
      case hp_hosts s wd of
        None \<Rightarrow> (s, [])
      | Some ref \<Rightarrow>
          (if hr_host ref \<noteq> h \<or> \<not> hr_stale ref then (s, [])
           else
             (case trackRetiring wd h (s\<lparr>hp_hosts := (hp_hosts s)(wd := None)\<rparr>) of
                (closeNow, s2) \<Rightarrow> (s2, if closeNow then [BeginClose h] else []))))"

definition hostClosed :: "host_id \<Rightarrow> host_sys \<Rightarrow> host_sys \<times> thread list" where
  "hostClosed h s =
     (let wd = h_workDir (hp_built s ! h) in
      (if hp_retiring s wd = Some h then s\<lparr>hp_retiring := (hp_retiring s)(wd := None)\<rparr> else s, []))"

definition Host_Close :: "host_id \<Rightarrow> host_sys \<Rightarrow> host_sys \<times> thread list" where
  "Host_Close h s =
     (let wd = h_workDir (hp_built s ! h) in
      case hp_hosts s wd of
        Some ref \<Rightarrow>
          (if hr_host ref \<noteq> h then (s, [])
           else if hr_refs ref - 1 > 0
           then (s\<lparr>hp_hosts := (hp_hosts s)(wd \<mapsto> ref\<lparr>hr_refs := hr_refs ref - 1\<rparr>)\<rparr>, [])
           else (s\<lparr>hp_hosts := (hp_hosts s)(wd := None), hp_retiring := (hp_retiring s)(wd \<mapsto> h)\<rparr>, [BeginClose h]))
      | None \<Rightarrow> (s, [BeginClose h]))"

definition beginClose :: "host_id \<Rightarrow> host_sys \<Rightarrow> host_sys \<times> thread list" where
  "beginClose h s =
     (if IsClosing s h then (s, []) else (on_host h (\<lambda>x. x\<lparr>h_closing := True\<rparr>) s, [Drain h]))"

text \<open>\<open>doClose\<close>: it waits for the runs to end, then marks the Host closed before it releases anything.\<close>

definition doClose :: "host_id \<Rightarrow> host_sys \<Rightarrow> host_sys \<times> thread list" where
  "doClose h s =
     (if h_closed (hp_built s ! h) then (s, [])
      else if hasActiveRuns s h then (s, [DoClose h])
      else (on_host h (\<lambda>x. x\<lparr>h_closed := True\<rparr>) s, [TearDown h]))"

definition tear_down :: "host_id \<Rightarrow> host_sys \<Rightarrow> host_sys \<times> thread list" where
  "tear_down h s = (on_host h (\<lambda>x. x\<lparr>h_closeDone := True\<rparr>) s, [HostClosed h])"

subsection \<open>Runs\<close>

text \<open>
  \<open>StartRun\<close> looks at the Host's lifecycle first; once the engine has started the turn it registers the
  run.
\<close>

definition start_check :: "host_id \<Rightarrow> run_id \<Rightarrow> host_sys \<Rightarrow> host_sys \<times> thread list" where
  "start_check h r s = (s, if IsClosing s h then [] else [StartTurn h r])"

definition start_turn :: "outside \<Rightarrow> host_id \<Rightarrow> run_id \<Rightarrow> host_sys \<Rightarrow> host_sys \<times> thread list" where
  "start_turn inp h r s = (s, if o_ok inp then [StartRegister h r] else [])"

definition start_register :: "host_id \<Rightarrow> run_id \<Rightarrow> host_sys \<Rightarrow> host_sys \<times> thread list" where
  "start_register h r s = (on_host h (\<lambda>x. x\<lparr>h_runs := insert r (h_runs x)\<rparr>) s, [])"

definition dropRun :: "host_id \<Rightarrow> run_id \<Rightarrow> host_sys \<Rightarrow> host_sys \<times> thread list" where
  "dropRun h r s =
     (let s' = on_host h (\<lambda>x. x\<lparr>h_runs := h_runs x - {r}\<rparr>) s
      in (s', if hasActiveRuns s' h then [] else [HostIdle h]))"

subsection \<open>Deferred replacement\<close>

definition ScheduleReplacement :: "workspace \<Rightarrow> host_sys \<Rightarrow> host_sys \<times> thread list" where
  "ScheduleReplacement wd s =
     (if wd \<in> hp_armed s then (s, [])
      else (s\<lparr>hp_armed := insert wd (hp_armed s)\<rparr>, [ReplaceCheck wd]))"

definition replace_check :: "workspace \<Rightarrow> host_sys \<Rightarrow> host_sys \<times> thread list" where
  "replace_check wd s =
     (case Current s wd of
        Some old \<Rightarrow>
          (if \<not> IsStale s old \<and> \<not> IsClosing s old then (s, [Disarm wd]) else (s, [ReplaceWait wd old]))
      | None \<Rightarrow> (s, [ReplaceWanted wd]))"

definition replace_wait :: "workspace \<Rightarrow> host_id \<Rightarrow> host_sys \<Rightarrow> host_sys \<times> thread list" where
  "replace_wait wd old s = (s, [if wait_over s old then ReplaceWanted wd else ReplaceWait wd old])"

definition replace_wanted :: "outside \<Rightarrow> workspace \<Rightarrow> host_sys \<Rightarrow> host_sys \<times> thread list" where
  "replace_wanted inp wd s = (s, [if o_ok inp then EnsureCheck (Some wd) wd else Disarm wd])"

definition disarmReplacement :: "workspace \<Rightarrow> host_sys \<Rightarrow> host_sys \<times> thread list" where
  "disarmReplacement wd s = (s\<lparr>hp_armed := hp_armed s - {wd}\<rparr>, [])"

subsection \<open>Interleavings\<close>

fun host_section :: "outside \<Rightarrow> thread \<Rightarrow> host_sys \<Rightarrow> host_sys \<times> thread list" where
  "host_section inp (EnsureCheck w wd) s = ensure_check w wd s"
| "host_section inp (EnsureClosing w wd h) s = ensure_closing w wd h s"
| "host_section inp (AcquireLoop w wd) s = acquire_loop w wd s"
| "host_section inp (AcquireWaitClosed w wd h) s = acquire_wait_closed inp w wd h s"
| "host_section inp (AcquireWaitCall w wd c) s = acquire_wait_call inp w wd c s"
| "host_section inp (AssembleRead w wd c) s = assemble_read w wd c s"
| "host_section inp (AssembleBuild w wd c doc) s = assemble_build inp w wd c doc s"
| "host_section inp (AssemblePublish w wd c h) s = assemble_publish w wd c h s"
| "host_section inp (AssembleEnd w wd c r) s = assemble_end w wd c r s"
| "host_section inp (Configure w h) s = configureHost w h s"
| "host_section inp (InvalidateEach []) s = (s, [])"
| "host_section inp (InvalidateEach (wd # wds)) s =
     (case Invalidate wd s of (s', new) \<Rightarrow> (s', new @ [InvalidateEach wds]))"
| "host_section inp (BeginClose h) s = beginClose h s"
| "host_section inp (Drain h) s = (s, [DoClose h])"
| "host_section inp (DoClose h) s = doClose h s"
| "host_section inp (TearDown h) s = tear_down h s"
| "host_section inp (HostClosed h) s = hostClosed h s"
| "host_section inp (HostIdle h) s = hostIdle h s"
| "host_section inp (StartCheck h r) s = start_check h r s"
| "host_section inp (StartTurn h r) s = start_turn inp h r s"
| "host_section inp (StartRegister h r) s = start_register h r s"
| "host_section inp (ReplaceCheck wd) s = replace_check wd s"
| "host_section inp (ReplaceWait wd old) s = replace_wait wd old s"
| "host_section inp (ReplaceWanted wd) s = replace_wanted inp wd s"
| "host_section inp (Disarm wd) s = disarmReplacement wd s"

datatype host_event =
    CallAcquire workspace | CallEnsure workspace | CallInvalidateAll "workspace list"
  | CallSchedule workspace | CallStart host_id run_id | RunEnds host_id run_id | CallClose host_id
  | DocumentChanges | Go nat outside

definition spawned :: "host_sys \<times> thread list \<Rightarrow> host_sys" where
  "spawned x = (case x of (s, new) \<Rightarrow> s\<lparr>hp_threads := hp_threads s @ new\<rparr>)"

text \<open>A caller can only hold a Host the pool has published.\<close>

fun in_assembly :: "host_id \<Rightarrow> thread \<Rightarrow> bool" where
  "in_assembly h (AssemblePublish w wd c h') = (h = h')"
| "in_assembly h _ = False"

definition handed_out :: "host_sys \<Rightarrow> host_id \<Rightarrow> bool" where
  "handed_out s h \<longleftrightarrow> h < length (hp_built s) \<and> \<not> list_ex (in_assembly h) (hp_threads s)"

fun host_step :: "host_event \<Rightarrow> host_sys \<Rightarrow> host_sys" where
  "host_step (CallAcquire wd) s = spawned (s, [AcquireLoop None wd])"
| "host_step (CallEnsure wd) s = spawned (s, [EnsureCheck None wd])"
| "host_step (CallInvalidateAll wds) s = spawned (s, [InvalidateEach wds])"
| "host_step (CallSchedule wd) s = spawned (ScheduleReplacement wd s)"
| "host_step (CallStart h r) s = (if handed_out s h then spawned (s, [StartCheck h r]) else s)"
| "host_step (RunEnds h r) s = (if handed_out s h \<and> r \<in> h_runs (hp_built s ! h) then spawned (dropRun h r s) else s)"
| "host_step (CallClose h) s = (if handed_out s h then spawned (Host_Close h s) else s)"
| "host_step DocumentChanges s = s\<lparr>hp_doc := Suc (hp_doc s)\<rparr>"
| "host_step (Go j inp) s =
     (if j < length (hp_threads s) then
        (case host_section inp (hp_threads s ! j) s of
           (s', new) \<Rightarrow> s'\<lparr>hp_threads := take j (hp_threads s) @ new @ drop (Suc j) (hp_threads s)\<rparr>)
      else s)"

end
