(* ===== verification/Goroutines.thy ===== *)
theory Goroutines
  imports GoPrelude "HOL-Library.Multiset"
begin

text \<open>
  Goroutines as the concurrent components model them: the state holds a list of threads, each a program
  counter with its locals; a step runs one of them through its next section and puts what is left of
  it, and what it started, in its place. What all threads hold is collected by \<open>held\<close>. The contract
  \<open>interleaving\<close> lifts an invariant that each section keeps for a thread at the head of the list to
  the step that runs the thread at any position; \<open>given\<close> is what is known of the section's input.
\<close>

subsection \<open>What the threads hold\<close>

definition held :: "('th \<Rightarrow> 'a list) \<Rightarrow> 'th list \<Rightarrow> 'a list" where
  "held f ths = concat (map f ths)"

lemma held_simps [simp]:
  "held f [] = []" "held f (th # ths) = f th @ held f ths" "held f (xs @ ys) = held f xs @ held f ys"
  by (simp_all add: held_def)

lemma held_mset: "mset ths = mset ths' \<Longrightarrow> mset (held f ths) = mset (held f ths')"
proof -
  have "mset (held f ths) = sum_mset (image_mset (\<lambda>th. mset (f th)) (mset ths))" for ths
    by (induction ths) simp_all
  then show "mset ths = mset ths' \<Longrightarrow> mset (held f ths) = mset (held f ths')" by simp
qed

lemma held_set: "mset ths = mset ths' \<Longrightarrow> set (held f ths) = set (held f ths')"
  by (metis held_mset mset_eq_setD)

lemma held_distinct: "mset ths = mset ths' \<Longrightarrow> distinct (held f ths) = distinct (held f ths')"
  by (metis held_mset mset_eq_imp_distinct_iff)

lemma held_member: "x \<in> set (held f ths) \<longleftrightarrow> (\<exists>th\<in>set ths. x \<in> set (f th))"
  by (simp add: held_def)

subsection \<open>Running one of them\<close>

definition run_thread ::
  "('inp \<Rightarrow> 'th \<Rightarrow> 's \<Rightarrow> 's \<times> 'th list) \<Rightarrow> 'inp \<Rightarrow> nat \<Rightarrow> 's \<Rightarrow> 'th list \<Rightarrow> 's \<times> 'th list" where
  "run_thread sect inp j s ths =
     (case sect inp (ths ! j) s of (s', new) \<Rightarrow> (s', take j ths @ new @ drop (Suc j) ths))"

locale interleaving =
  fixes sect :: "'inp \<Rightarrow> 'th \<Rightarrow> 's \<Rightarrow> 's \<times> 'th list" and given :: "'inp \<Rightarrow> bool"
    and ok :: "'s \<Rightarrow> 'th list \<Rightarrow> bool"
  assumes any_order: "mset ths = mset ths' \<Longrightarrow> ok s ths \<Longrightarrow> ok s ths'"
    and section_keeps: "given inp \<Longrightarrow> ok s (th # ths) \<Longrightarrow> sect inp th s = (s', new) \<Longrightarrow> ok s' (new @ ths)"
begin

lemma splice_keeps:
  assumes "given inp" "ok s ths" "j < length ths" "sect inp (ths ! j) s = (s', new)"
  shows "ok s' (take j ths @ new @ drop (Suc j) ths)"
proof -
  let ?xs = "take j ths" and ?ys = "drop (Suc j) ths"
  have "ths = ?xs @ ths ! j # ?ys" using assms(3) by (rule id_take_nth_drop)
  then have "mset ths = mset (ths ! j # ?xs @ ?ys)" by (metis mset.simps(2) mset_append union_mset_add_mset_right)
  then have "ok s (ths ! j # ?xs @ ?ys)" using assms(2) any_order by blast
  then have "ok s' (new @ ?xs @ ?ys)" using section_keeps [OF assms(1)] assms(4) by blast
  then show ?thesis by (rule any_order [rotated]) simp
qed

lemma run_keeps: "given inp \<Longrightarrow> ok s ths \<Longrightarrow> j < length ths \<Longrightarrow> run_thread sect inp j s ths = (s', ths') \<Longrightarrow> ok s' ths'"
  using splice_keeps by (fastforce simp: run_thread_def split: prod.splits)

lemma start_keeps:
  assumes "ok s ths" and "\<And>th. th \<in> set new \<Longrightarrow> \<forall>ths. ok s ths \<longrightarrow> ok s (th # ths)"
  shows "ok s (ths @ new)"
proof -
  have "ok s (new @ ths)" using assms by (induction new) auto
  then show ?thesis by (rule any_order [rotated]) simp
qed

end

end
