(* ===== verification/HostPoolLaws.thy ===== *)
theory HostPoolLaws
  imports HostPool Goroutines
begin

text \<open>
  The pool of workspace runtimes under every interleaving: a workspace never has two runtimes that are
  not torn down, what is handed out is the one that serves, one replacement at most is on its way. The
  proof follows what each goroutine holds (an assembly, a Host on its way out, the watcher's slot) and
  sees of a Host only its workspace and how far its teardown is. Three traces show what the pool does
  not promise.
\<close>

subsection \<open>What a goroutine holds\<close>

fun asm :: "thread \<Rightarrow> (workspace \<times> nat) list" where
  "asm (AssembleRead w wd c) = [(wd, c)]"
| "asm (AssembleBuild w wd c doc) = [(wd, c)]"
| "asm (AssemblePublish w wd c h) = [(wd, c)]"
| "asm (AssembleEnd w wd c r) = [(wd, c)]"
| "asm _ = []"

fun unpublished :: "thread \<Rightarrow> workspace list" where
  "unpublished (AssembleRead w wd c) = [wd]"
| "unpublished (AssembleBuild w wd c doc) = [wd]"
| "unpublished (AssemblePublish w wd c h) = [wd]"
| "unpublished _ = []"

fun building :: "thread \<Rightarrow> (workspace \<times> host_id) list" where
  "building (AssemblePublish w wd c h) = [(wd, h)]"
| "building _ = []"

fun closer :: "thread \<Rightarrow> host_id list" where
  "closer (BeginClose h) = [h]"
| "closer (Drain h) = [h]"
| "closer (DoClose h) = [h]"
| "closer (TearDown h) = [h]"
| "closer (HostClosed h) = [h]"
| "closer _ = []"

fun torn :: "thread \<Rightarrow> host_id list" where
  "torn (HostClosed h) = [h]"
| "torn _ = []"

fun watching :: "thread \<Rightarrow> workspace list" where
  "watching (EnsureCheck w wd) = (case w of None \<Rightarrow> [] | Some v \<Rightarrow> [v])"
| "watching (EnsureClosing w wd h) = (case w of None \<Rightarrow> [] | Some v \<Rightarrow> [v])"
| "watching (AcquireLoop w wd) = (case w of None \<Rightarrow> [] | Some v \<Rightarrow> [v])"
| "watching (AcquireWaitClosed w wd h) = (case w of None \<Rightarrow> [] | Some v \<Rightarrow> [v])"
| "watching (AcquireWaitCall w wd c) = (case w of None \<Rightarrow> [] | Some v \<Rightarrow> [v])"
| "watching (AssembleRead w wd c) = (case w of None \<Rightarrow> [] | Some v \<Rightarrow> [v])"
| "watching (AssembleBuild w wd c doc) = (case w of None \<Rightarrow> [] | Some v \<Rightarrow> [v])"
| "watching (AssemblePublish w wd c h) = (case w of None \<Rightarrow> [] | Some v \<Rightarrow> [v])"
| "watching (AssembleEnd w wd c r) = (case w of None \<Rightarrow> [] | Some v \<Rightarrow> [v])"
| "watching (Configure w h) = (case w of None \<Rightarrow> [] | Some v \<Rightarrow> [v])"
| "watching (ReplaceCheck wd) = [wd]"
| "watching (ReplaceWait wd h) = [wd]"
| "watching (ReplaceWanted wd) = [wd]"
| "watching (Disarm wd) = [wd]"
| "watching _ = []"

subsection \<open>One live Host per workspace\<close>

text \<open>The invariant sees of a Host only its workspace and how far its teardown is.\<close>

definition life :: "Host \<Rightarrow> Host" where
  "life h = h\<lparr>h_runs := {}, h_stale := False, h_doc := 0\<rparr>"

definition pooled :: "host_sys \<Rightarrow> workspace \<rightharpoonup> host_id" where
  "pooled s = (\<lambda>wd. map_option hr_host (hp_hosts s wd))"

definition pooled_fresh :: "(workspace \<rightharpoonup> host_id) \<Rightarrow> (workspace \<rightharpoonup> host_id) \<Rightarrow> Host list \<Rightarrow> bool" where
  "pooled_fresh P R B \<longleftrightarrow> (\<forall>wd h. P wd = Some h \<longrightarrow> h < length B \<and> B ! h = new_host wd 0 \<and> R wd = None)"

definition retiring_built :: "(workspace \<rightharpoonup> host_id) \<Rightarrow> Host list \<Rightarrow> bool" where
  "retiring_built R B \<longleftrightarrow> (\<forall>wd h. R wd = Some h \<longrightarrow> h < length B \<and> h_workDir (B ! h) = wd)"

definition one_assembly :: "(workspace \<rightharpoonup> nat) \<Rightarrow> thread list \<Rightarrow> bool" where
  "one_assembly A ths \<longleftrightarrow>
     distinct (map fst (held asm ths)) \<and> (\<forall>wd c. A wd = Some c \<longleftrightarrow> (wd, c) \<in> set (held asm ths))"

definition builders_alone :: "(workspace \<rightharpoonup> host_id) \<Rightarrow> (workspace \<rightharpoonup> host_id) \<Rightarrow> thread list \<Rightarrow> bool" where
  "builders_alone P R ths \<longleftrightarrow> (\<forall>wd\<in>set (held unpublished ths). P wd = None \<and> R wd = None)"

definition builds_fresh :: "Host list \<Rightarrow> thread list \<Rightarrow> bool" where
  "builds_fresh B ths \<longleftrightarrow> (\<forall>wd h. (wd, h) \<in> set (held building ths) \<longrightarrow> h < length B \<and> B ! h = new_host wd 0)"

definition closers_retired :: "(workspace \<rightharpoonup> host_id) \<Rightarrow> Host list \<Rightarrow> thread list \<Rightarrow> bool" where
  "closers_retired P B ths \<longleftrightarrow>
     (\<forall>h\<in>set (held closer ths). h < length B \<and> (\<forall>wd. P wd \<noteq> Some h \<and> (wd, h) \<notin> set (held building ths)))"

definition live_known ::
  "(workspace \<rightharpoonup> host_id) \<Rightarrow> (workspace \<rightharpoonup> host_id) \<Rightarrow> Host list \<Rightarrow> thread list \<Rightarrow> bool" where
  "live_known P R B ths \<longleftrightarrow>
     (\<forall>h<length B. \<not> h_closeDone (B ! h) \<longrightarrow>
        P (h_workDir (B ! h)) = Some h \<or> R (h_workDir (B ! h)) = Some h \<or>
        (h_workDir (B ! h), h) \<in> set (held building ths))"

definition torn_done :: "Host list \<Rightarrow> thread list \<Rightarrow> bool" where
  "torn_done B ths \<longleftrightarrow> (\<forall>h\<in>set (held torn ths). h < length B \<and> h_closeDone (B ! h))"

definition pool_inv ::
  "(workspace \<rightharpoonup> host_id) \<Rightarrow> (workspace \<rightharpoonup> host_id) \<Rightarrow> (workspace \<rightharpoonup> nat) \<Rightarrow> Host list \<Rightarrow> thread list \<Rightarrow> bool" where
  "pool_inv P R A B ths \<longleftrightarrow>
     pooled_fresh P R B \<and> retiring_built R B \<and> one_assembly A ths \<and> builders_alone P R ths \<and>
     builds_fresh B ths \<and> closers_retired P B ths \<and> live_known P R B ths \<and> torn_done B ths"

lemmas pool_parts = pooled_fresh_def retiring_built_def one_assembly_def builders_alone_def builds_fresh_def
  closers_retired_def live_known_def torn_done_def

lemma pool_inv_perm:
  assumes "mset ths = mset ths'"
  shows "pool_inv P R A B ths = pool_inv P R A B ths'"
proof -
  have "held (\<lambda>th. map fst (asm th)) ths = map fst (held asm ths)" for ths
    by (induction ths) simp_all
  then have "distinct (map fst (held asm ths)) = distinct (map fst (held asm ths'))"
    using held_distinct [OF assms, of "\<lambda>th. map fst (asm th)"] by simp
  then show ?thesis
    unfolding pool_inv_def pool_parts held_set [OF assms, of asm] held_set [OF assms, of unpublished]
      held_set [OF assms, of building] held_set [OF assms, of closer] held_set [OF assms, of torn]
    by simp
qed

text \<open>A goroutine passes on what it holds.\<close>

definition same_held :: "thread \<Rightarrow> thread list \<Rightarrow> bool" where
  "same_held th new \<longleftrightarrow>
     held asm new = asm th \<and> held unpublished new = unpublished th \<and> held building new = building th \<and>
     held closer new = closer th \<and> held torn new = torn th"

lemma inv_quiet: "same_held th new \<Longrightarrow> pool_inv P R A B (th # ths) \<Longrightarrow> pool_inv P R A B (new @ ths)"
  by (simp add: same_held_def pool_inv_def pool_parts)

definition idle_thread :: "thread \<Rightarrow> bool" where
  "idle_thread th \<longleftrightarrow> asm th = [] \<and> unpublished th = [] \<and> building th = [] \<and> closer th = [] \<and> torn th = []"

lemma building_unpublished: "(wd, h) \<in> set (held building ths) \<Longrightarrow> wd \<in> set (held unpublished ths)"
proof (induction ths)
  case (Cons th ths)
  then show ?case by (cases th) auto
qed simp

text \<open>The steps of the pool, on what the invariant sees.\<close>

lemma inv_lead:
  assumes "pool_inv P R A B ths" "P wd = None" "R wd = None" "A wd = None"
  shows "pool_inv P R (A(wd \<mapsto> c)) B (AssembleRead w wd c # ths)"
proof -
  have "(wd, d) \<notin> set (held asm ths)" for d
    using assms(1,4) unfolding pool_inv_def one_assembly_def by (metis option.distinct(1))
  then have "wd \<notin> fst ` set (held asm ths)" by auto
  then have "one_assembly (A(wd \<mapsto> c)) (AssembleRead w wd c # ths)"
    using assms(1) unfolding pool_inv_def one_assembly_def by force
  then show ?thesis using assms by (simp add: pool_inv_def pool_parts)
qed

lemma inv_build:
  assumes inv: "pool_inv P R A B (AssembleBuild w wd c doc # ths)"
  shows "pool_inv P R A (B @ [new_host wd 0]) (AssemblePublish w wd c (length B) # ths)"
proof -
  have b: "builds_fresh B ths" and c: "closers_retired P B ths" and p: "pooled_fresh P R B" and r: "retiring_built R B"
    and l: "live_known P R B ths" and t: "torn_done B ths"
    using inv by (simp_all add: pool_inv_def pool_parts)
  have "builds_fresh (B @ [new_host wd 0]) (AssemblePublish w wd c (length B) # ths)"
    using b by (fastforce simp: builds_fresh_def nth_append intro: less_SucI)
  moreover have "closers_retired P (B @ [new_host wd 0]) (AssemblePublish w wd c (length B) # ths)"
    using c by (auto simp: closers_retired_def)
  moreover have "pooled_fresh P R (B @ [new_host wd 0])" "retiring_built R (B @ [new_host wd 0])"
    using p r by (fastforce simp: pooled_fresh_def retiring_built_def nth_append intro: less_SucI)+
  moreover have "live_known P R (B @ [new_host wd 0]) (AssemblePublish w wd c (length B) # ths)"
    using l by (auto simp: live_known_def nth_append less_Suc_eq new_host_def)
  moreover have "torn_done (B @ [new_host wd 0]) (AssemblePublish w wd c (length B) # ths)"
    using t by (auto simp: torn_done_def nth_append)
  ultimately show ?thesis using inv by (simp add: pool_inv_def one_assembly_def builders_alone_def)
qed

lemma inv_fail:
  assumes "pool_inv P R A B (AssembleBuild w wd c doc # ths)"
  shows "pool_inv P R A B (AssembleEnd w wd c r # ths)"
  using assms by (simp add: pool_inv_def pool_parts)

lemma inv_publish:
  assumes inv: "pool_inv P R A B (AssemblePublish w wd c h # ths)"
  shows "P wd = None" "pool_inv (P(wd \<mapsto> h)) R A B (AssembleEnd w wd c r # ths)"
proof -
  have u: "P wd = None" "R wd = None" "h < length B" "B ! h = new_host wd 0"
    using inv by (simp_all add: pool_inv_def builders_alone_def builds_fresh_def)
  then show "P wd = None" by simp
  have only: "(wd, d) \<notin> set (held asm ths)" for d
    using inv by (auto simp: pool_inv_def one_assembly_def image_iff)
  have asm_unpub: "v \<in> set (held unpublished ths) \<Longrightarrow> \<exists>d. (v, d) \<in> set (held asm ths)" for v
  proof (induction ths)
    case (Cons th ths)
    then show ?case by (cases th) auto
  qed simp
  have "builders_alone (P(wd \<mapsto> h)) R (AssembleEnd w wd c r # ths)"
    using inv only asm_unpub by (auto simp: pool_inv_def builders_alone_def)
  moreover have "closers_retired (P(wd \<mapsto> h)) B (AssembleEnd w wd c r # ths)"
    using inv by (auto simp: pool_inv_def closers_retired_def)
  moreover have "live_known (P(wd \<mapsto> h)) R B (AssembleEnd w wd c r # ths)"
    using inv u by (auto simp: pool_inv_def live_known_def new_host_def)
  ultimately show "pool_inv (P(wd \<mapsto> h)) R A B (AssembleEnd w wd c r # ths)"
    using inv u by (simp add: pool_inv_def pooled_fresh_def retiring_built_def one_assembly_def builds_fresh_def torn_done_def)
qed

lemma inv_end:
  assumes "pool_inv P R A B (AssembleEnd w wd c r # ths)"
  shows "pool_inv P R (A(wd := None)) B ths"
proof -
  have "one_assembly (A(wd := None)) ths"
    using assms unfolding pool_inv_def one_assembly_def by (auto simp: image_iff)
  then show ?thesis using assms by (simp add: pool_inv_def pool_parts)
qed

lemma inv_retire:
  assumes inv: "pool_inv P R A B ths" and h: "P wd = Some h"
  shows "pool_inv (P(wd := None)) (R(wd \<mapsto> h)) A B (BeginClose h # ths)"
proof -
  have f: "h < length B" "B ! h = new_host wd 0" "R wd = None"
    using inv h by (auto simp: pool_inv_def pooled_fresh_def)
  have wd: "wd \<notin> set (held unpublished ths)" using inv h by (auto simp: pool_inv_def builders_alone_def)
  have only: "v = wd" if "P v = Some h" for v
  proof -
    have "B ! h = new_host v 0" using inv that by (simp add: pool_inv_def pooled_fresh_def)
    then show ?thesis using f(2) by (simp add: new_host_def)
  qed
  have nb: "(v, h) \<notin> set (held building ths)" for v
  proof
    assume b: "(v, h) \<in> set (held building ths)"
    then have "B ! h = new_host v 0" using inv by (simp add: pool_inv_def builds_fresh_def)
    then have "v = wd" using f(2) by (simp add: new_host_def)
    then show False using wd building_unpublished [OF b] by simp
  qed
  have "pooled_fresh (P(wd := None)) (R(wd \<mapsto> h)) B" using inv f by (auto simp: pool_inv_def pooled_fresh_def)
  moreover have "retiring_built (R(wd \<mapsto> h)) B" using inv f by (auto simp: pool_inv_def retiring_built_def new_host_def)
  moreover have "builders_alone (P(wd := None)) (R(wd \<mapsto> h)) (BeginClose h # ths)"
    using inv wd by (auto simp: pool_inv_def builders_alone_def)
  moreover have "closers_retired (P(wd := None)) B (BeginClose h # ths)"
    using inv f nb only by (auto simp: pool_inv_def closers_retired_def)
  moreover have "live_known (P(wd := None)) (R(wd \<mapsto> h)) B (BeginClose h # ths)"
    unfolding live_known_def
  proof (intro allI impI)
    fix k assume k: "k < length B" "\<not> h_closeDone (B ! k)"
    then have "P (h_workDir (B ! k)) = Some k \<or> R (h_workDir (B ! k)) = Some k \<or>
        (h_workDir (B ! k), k) \<in> set (held building ths)"
      using inv by (simp add: pool_inv_def live_known_def)
    then show "(P(wd := None)) (h_workDir (B ! k)) = Some k \<or> (R(wd \<mapsto> h)) (h_workDir (B ! k)) = Some k \<or>
        (h_workDir (B ! k), k) \<in> set (held building (BeginClose h # ths))"
      using h f(3) by (cases "h_workDir (B ! k) = wd") auto
  qed
  ultimately show ?thesis
    using inv by (simp add: pool_inv_def one_assembly_def builds_fresh_def torn_done_def)
qed

text \<open>A Host moves through its teardown only when it left the pool.\<close>

lemma inv_advance:
  assumes inv: "pool_inv P R A B (th # ths)" and c: "closer th = [h]" "closer th' = [h]" "torn th = []"
    and q: "asm th = []" "unpublished th = []" "building th = []" "asm th' = []" "unpublished th' = []" "building th' = []"
    and f: "h_workDir (f (B ! h)) = h_workDir (B ! h)" "h_closeDone (B ! h) \<longrightarrow> h_closeDone (f (B ! h))"
    and t: "torn th' = [] \<or> torn th' = [h] \<and> h_closeDone (f (B ! h))"
  shows "pool_inv P R A (B[h := f (B ! h)]) (th' # ths)" "pool_inv P R A (B[h := f (B ! h)]) ths"
proof -
  let ?B = "B[h := f (B ! h)]"
  have h: "h < length B" "\<And>wd. P wd \<noteq> Some h" "\<And>wd. (wd, h) \<notin> set (held building ths)"
    using inv c q by (auto simp: pool_inv_def closers_retired_def)
  have same: "k \<noteq> h \<Longrightarrow> ?B ! k = B ! k" "h_workDir (?B ! k) = h_workDir (B ! k)"
    "h_closeDone (B ! k) \<Longrightarrow> h_closeDone (?B ! k)" for k
    using f h(1) by (auto simp: nth_list_update)
  have "pooled_fresh P R ?B"
    unfolding pooled_fresh_def
  proof (intro allI impI)
    fix wd k assume k: "P wd = Some k"
    then have "k < length B \<and> B ! k = new_host wd 0 \<and> R wd = None" using inv by (simp add: pool_inv_def pooled_fresh_def)
    moreover have "k \<noteq> h" using h(2) [of wd] k by auto
    ultimately show "k < length ?B \<and> ?B ! k = new_host wd 0 \<and> R wd = None" using same(1) by simp
  qed
  moreover have "retiring_built R ?B" using inv same(2) by (simp add: pool_inv_def retiring_built_def)
  moreover have "builds_fresh ?B ths"
    unfolding builds_fresh_def
  proof (intro allI impI)
    fix wd k assume k: "(wd, k) \<in> set (held building ths)"
    then have "k < length B \<and> B ! k = new_host wd 0" using inv q(3) by (simp add: pool_inv_def builds_fresh_def)
    moreover have "k \<noteq> h" using h(3) [of wd] k by auto
    ultimately show "k < length ?B \<and> ?B ! k = new_host wd 0" using same(1) by simp
  qed
  moreover from this have "builds_fresh ?B (th' # ths)" using q(6) by (simp add: builds_fresh_def)
  moreover have "closers_retired P ?B ths" "closers_retired P ?B (th' # ths)"
    using inv c q h by (auto simp: pool_inv_def closers_retired_def)
  moreover have "live_known P R ?B ths" "live_known P R ?B (th' # ths)"
    using inv q same(2,3) by (auto simp: pool_inv_def live_known_def)
  moreover have "torn_done ?B ths" "torn_done ?B (th' # ths)"
    using inv t same(3) h(1) by (auto simp: pool_inv_def torn_done_def)
  ultimately show "pool_inv P R A ?B (th' # ths)" "pool_inv P R A ?B ths"
    using inv q by (simp_all add: pool_inv_def one_assembly_def builders_alone_def)
qed

lemma inv_forget:
  assumes inv: "pool_inv P R A B (HostClosed h # ths)"
  shows "pool_inv P (if R (h_workDir (B ! h)) = Some h then R(h_workDir (B ! h) := None) else R) A B ths"
proof (cases "R (h_workDir (B ! h)) = Some h")
  case True
  let ?wd = "h_workDir (B ! h)"
  have d: "h_closeDone (B ! h)" using inv by (simp add: pool_inv_def torn_done_def)
  have "live_known P (R(?wd := None)) B ths"
    unfolding live_known_def
  proof (intro allI impI)
    fix k assume k: "k < length B" "\<not> h_closeDone (B ! k)"
    then have "k \<noteq> h" using d by auto
    then show "P (h_workDir (B ! k)) = Some k \<or> (R(?wd := None)) (h_workDir (B ! k)) = Some k \<or>
        (h_workDir (B ! k), k) \<in> set (held building ths)"
      using inv k True by (auto simp: pool_inv_def live_known_def)
  qed
  moreover have "pooled_fresh P (R(?wd := None)) B" using inv by (auto simp: pool_inv_def pooled_fresh_def)
  moreover have "retiring_built (R(?wd := None)) B" using inv by (simp add: pool_inv_def retiring_built_def)
  moreover have "builders_alone P (R(?wd := None)) ths" using inv by (simp add: pool_inv_def builders_alone_def)
  ultimately show ?thesis using inv True
    by (simp add: pool_inv_def one_assembly_def builds_fresh_def closers_retired_def torn_done_def)
qed (use inv in \<open>simp add: pool_inv_def pool_parts\<close>)


subsection \<open>Every interleaving keeps it\<close>

definition sys_inv :: "host_sys \<Rightarrow> thread list \<Rightarrow> bool" where
  "sys_inv s ths \<longleftrightarrow> pool_inv (pooled s) (hp_retiring s) (hp_assembling s) (map life (hp_built s)) ths"

definition same_view :: "host_sys \<Rightarrow> host_sys \<Rightarrow> bool" where
  "same_view s s' \<longleftrightarrow>
     pooled s' = pooled s \<and> hp_retiring s' = hp_retiring s \<and> hp_assembling s' = hp_assembling s \<and>
     map life (hp_built s') = map life (hp_built s)"

lemma same_view_refl [simp]: "same_view s s" by (simp add: same_view_def)

lemma sys_quiet: "same_view s s' \<Longrightarrow> same_held th new \<Longrightarrow> sys_inv s (th # rest) \<Longrightarrow> sys_inv s' (new @ rest)"
  using inv_quiet by (simp add: sys_inv_def same_view_def)

lemma life_simps [simp]:
  "life (x\<lparr>h_runs := r\<rparr>) = life x" "life (x\<lparr>h_stale := b\<rparr>) = life x"
  "life (x\<lparr>h_closing := b\<rparr>) = (life x)\<lparr>h_closing := b\<rparr>" "life (x\<lparr>h_closed := b\<rparr>) = (life x)\<lparr>h_closed := b\<rparr>"
  "life (x\<lparr>h_closeDone := b\<rparr>) = (life x)\<lparr>h_closeDone := b\<rparr>" "life (new_host wd d) = new_host wd 0"
  "h_workDir (life x) = h_workDir x" "h_closeDone (life x) = h_closeDone x" "h_closing (life x) = h_closing x"
  "h_closed (life x) = h_closed x"
  by (simp_all add: life_def new_host_def)

lemma on_host_simps [simp]:
  "hp_hosts (on_host h f s) = hp_hosts s" "hp_retiring (on_host h f s) = hp_retiring s"
  "hp_assembling (on_host h f s) = hp_assembling s" "hp_threads (on_host h f s) = hp_threads s"
  "hp_armed (on_host h f s) = hp_armed s" "pooled (on_host h f s) = pooled s"
  "length (hp_built (on_host h f s)) = length (hp_built s)"
  by (simp_all add: on_host_def pooled_def)

lemma on_host_view:
  "(\<And>x. life (f x) = life x) \<Longrightarrow> map life (hp_built (on_host h f s)) = map life (hp_built s)"
  by (simp add: on_host_def map_update) (metis list_update_id list_update_beyond map_update not_less nth_map length_map)

lemma pooled_upd [simp]:
  "pooled (s\<lparr>hp_hosts := (hp_hosts s)(wd \<mapsto> ref)\<rparr>) = (pooled s)(wd \<mapsto> hr_host ref)"
  "pooled (s\<lparr>hp_hosts := (hp_hosts s)(wd := None)\<rparr>) = (pooled s)(wd := None)"
  "pooled (s\<lparr>hp_retiring := r\<rparr>) = pooled s" "pooled (s\<lparr>hp_assembling := a\<rparr>) = pooled s"
  "pooled (s\<lparr>hp_built := b\<rparr>) = pooled s" "pooled (s\<lparr>hp_calls := cs\<rparr>) = pooled s"
  "pooled (s\<lparr>hp_armed := w\<rparr>) = pooled s" "pooled (s\<lparr>hp_threads := ths\<rparr>) = pooled s"
  "pooled (s\<lparr>hp_hosts := m, hp_retiring := r\<rparr>) = pooled (s\<lparr>hp_hosts := m\<rparr>)"
  by (simp_all add: pooled_def fun_eq_iff)

lemma pooled_same: "hp_hosts s wd = Some ref \<Longrightarrow> (pooled s)(wd \<mapsto> hr_host ref) = pooled s"
  by (simp add: pooled_def fun_eq_iff)

lemma idle_returned: "x \<in> set (returned w) \<Longrightarrow> idle_thread x"
  by (auto simp: returned_def idle_thread_def split: option.splits)

lemma held_returned [simp]:
  "held asm (returned w) = []" "held unpublished (returned w) = []" "held building (returned w) = []"
  "held closer (returned w) = []" "held torn (returned w) = []"
  by (simp_all add: returned_def split: option.split)

text \<open>An idle goroutine may go, and idle ones may come.\<close>

lemma inv_drop: "pool_inv P R A B (th # ths) \<Longrightarrow> idle_thread th \<Longrightarrow> pool_inv P R A B ths"
  by (simp add: pool_inv_def pool_parts idle_thread_def)

lemma inv_drop_closer: "pool_inv P R A B (BeginClose h # ths) \<Longrightarrow> pool_inv P R A B ths"
  "pool_inv P R A B (DoClose h # ths) \<Longrightarrow> pool_inv P R A B ths"
  by (simp_all add: pool_inv_def pool_parts)

lemma inv_add: "pool_inv P R A B ths \<Longrightarrow> \<forall>x\<in>set new. idle_thread x \<Longrightarrow> pool_inv P R A B (new @ ths)"
proof -
  assume inv: "pool_inv P R A B ths" and i: "\<forall>x\<in>set new. idle_thread x"
  have "held asm new = []" "held unpublished new = []" "held building new = []" "held closer new = []" "held torn new = []"
    using i by (induction new) (auto simp: idle_thread_def)
  then show ?thesis using inv by (simp add: pool_inv_def pool_parts)
qed

lemma inv_add_closer:
  assumes "pool_inv P R A B ths" "h < length B" "\<forall>wd. P wd \<noteq> Some h" "\<forall>wd. (wd, h) \<notin> set (held building ths)"
  shows "pool_inv P R A B (BeginClose h # ths)"
  using assms by (simp add: pool_inv_def pool_parts)

lemma pooled_dir: "pool_inv P R A B ths \<Longrightarrow> P wd = Some h \<Longrightarrow> h_workDir (B ! h) = wd"
  by (simp add: pool_inv_def pooled_fresh_def new_host_def)

lemma sys_drop: "sys_inv s (th # rest) \<Longrightarrow> idle_thread th \<Longrightarrow> sys_inv s rest"
  unfolding sys_inv_def by (rule inv_drop)

lemma idle_threads [simp]:
  "idle_thread (EnsureCheck w wd)" "idle_thread (EnsureClosing w wd h)" "idle_thread (AcquireLoop w wd)"
  "idle_thread (AcquireWaitClosed w wd h)" "idle_thread (AcquireWaitCall w wd c)" "idle_thread (Configure w h)"
  "idle_thread (InvalidateEach wds)" "idle_thread (HostIdle h)" "idle_thread (StartCheck h r)"
  "idle_thread (StartTurn h r)" "idle_thread (StartRegister h r)" "idle_thread (ReplaceCheck wd)" "idle_thread (ReplaceWait wd h)"
  "idle_thread (ReplaceWanted wd)" "idle_thread (Disarm wd)"
  by (simp_all add: idle_thread_def)

lemma sys_add: "sys_inv s rest \<Longrightarrow> \<forall>x\<in>set new. idle_thread x \<Longrightarrow> sys_inv s (new @ rest)"
  unfolding sys_inv_def by (rule inv_add)

lemma idle_quiet:
  assumes "sys_inv s (th # rest)" "idle_thread th" "same_view s s'" "\<forall>x\<in>set new. idle_thread x"
  shows "sys_inv s' (new @ rest)"
proof -
  have "sys_inv s rest" using sys_drop assms(1,2) by blast
  then have "sys_inv s' rest" using assms(3) by (simp add: sys_inv_def same_view_def)
  then show ?thesis using sys_add assms(4) by blast
qed

lemma retire_section:
  assumes inv: "sys_inv s rest" and r: "hp_hosts s wd = Some ref"
  shows "sys_inv (s\<lparr>hp_hosts := (hp_hosts s)(wd := None), hp_retiring := (hp_retiring s)(wd \<mapsto> hr_host ref)\<rparr>)
    (BeginClose (hr_host ref) # rest)" "hp_retiring s wd = None"
proof -
  have "pooled s wd = Some (hr_host ref)" using r by (simp add: pooled_def)
  from inv_retire [OF inv [unfolded sys_inv_def] this]
  show "sys_inv (s\<lparr>hp_hosts := (hp_hosts s)(wd := None), hp_retiring := (hp_retiring s)(wd \<mapsto> hr_host ref)\<rparr>)
    (BeginClose (hr_host ref) # rest)" by (simp add: sys_inv_def)
  show "hp_retiring s wd = None"
    using inv \<open>pooled s wd = Some (hr_host ref)\<close> by (auto simp: sys_inv_def pool_inv_def pooled_fresh_def)
qed

lemma Invalidate_inv: "sys_inv s rest \<Longrightarrow> Invalidate wd s = (s', new) \<Longrightarrow> sys_inv s' (new @ rest)"
proof -
  assume inv: "sys_inv s rest" and r: "Invalidate wd s = (s', new)"
  show ?thesis
  proof (cases "hp_hosts s wd")
    case None
    then show ?thesis using inv r by (simp add: Invalidate_def)
  next
    case (Some ref)
    let ?s1 = "on_host (hr_host ref) (\<lambda>x. x\<lparr>h_stale := True\<rparr>) (s\<lparr>hp_hosts := (hp_hosts s)(wd \<mapsto> ref\<lparr>hr_stale := True\<rparr>)\<rparr>)"
    have v: "same_view s ?s1"
      using on_host_view [of "\<lambda>x. x\<lparr>h_stale := True\<rparr>"] pooled_same [OF Some] by (simp add: same_view_def)
    then have i1: "sys_inv ?s1 rest" using inv by (simp add: sys_inv_def same_view_def)
    have r1: "hp_hosts ?s1 wd = Some (ref\<lparr>hr_stale := True\<rparr>)" by simp
    note ret = retire_section [OF i1 r1]
    show ?thesis
      using r Some i1 ret by (auto simp: Invalidate_def Let_def trackRetiring_def split: if_splits)
  qed
qed


lemma hostIdle_inv: "sys_inv s rest \<Longrightarrow> hostIdle h s = (s', new) \<Longrightarrow> sys_inv s' (new @ rest)"
  using retire_section [of s rest "h_workDir (hp_built s ! h)"]
  by (auto simp: hostIdle_def Let_def trackRetiring_def split: option.splits if_splits)

lemma Close_inv:
  assumes inv: "sys_inv s rest" and out: "h < length (hp_built s)" "\<forall>wd. (wd, h) \<notin> set (held building rest)"
    and r: "Host_Close h s = (s', new)"
  shows "sys_inv s' (new @ rest)"
proof -
  let ?wd = "h_workDir (hp_built s ! h)"
  show ?thesis
  proof (cases "hp_hosts s ?wd")
    case None
    have "pooled s wd \<noteq> Some h" for wd
    proof
      assume p: "pooled s wd = Some h"
      then have "?wd = wd" using pooled_dir [OF inv [unfolded sys_inv_def] p] out(1) by simp
      then show False using p None by (simp add: pooled_def)
    qed
    then have "sys_inv s (BeginClose h # rest)"
      using inv_add_closer [OF inv [unfolded sys_inv_def]] out by (simp add: sys_inv_def)
    then show ?thesis using r None by (auto simp: Host_Close_def)
  next
    case (Some ref)
    show ?thesis
    proof (cases "hr_host ref = h \<and> \<not> hr_refs ref - 1 > 0")
      case True
      then show ?thesis using r Some retire_section(1) [OF inv Some] by (auto simp: Host_Close_def Let_def)
    next
      case False
      then have "new = []" "same_view s s'"
        using r Some pooled_same [OF Some] by (auto simp: Host_Close_def same_view_def Let_def split: if_splits)
      then show ?thesis using inv by (simp add: sys_inv_def same_view_def)
    qed
  qed
qed

lemma on_host_advance:
  assumes "h < length (hp_built s)" "life (f (hp_built s ! h)) = g (life (hp_built s ! h))"
  shows "map life (hp_built (on_host h f s)) = (map life (hp_built s))[h := g (map life (hp_built s) ! h)]"
  using assms by (simp add: on_host_def map_update)

lemma closer_built: "sys_inv s (th # rest) \<Longrightarrow> h \<in> set (closer th) \<Longrightarrow> h < length (hp_built s)"
  by (simp add: sys_inv_def pool_inv_def closers_retired_def)

lemma section_inv:
  assumes inv: "sys_inv s (th # rest)" and r: "host_section inp th s = (s', new)"
  shows "sys_inv s' (new @ rest)"
proof (cases th)
  case (AcquireLoop w wd)
  show ?thesis
  proof (cases "hp_hosts s wd")
    case (Some ref)
    then have "new = [Configure w (hr_host ref)]" "same_view s s'"
      using r AcquireLoop pooled_same [OF Some] by (auto simp: acquire_loop_def same_view_def)
    then show ?thesis using idle_quiet [OF inv, of s' new] AcquireLoop by simp
  next
    case None
    note free = this
    show ?thesis
    proof (cases "hp_retiring s wd = None \<and> hp_assembling s wd = None")
      case True
      have "pooled s wd = None" using free by (simp add: pooled_def)
      then show ?thesis
        using inv_lead [OF sys_drop [OF inv, unfolded sys_inv_def], of wd "length (hp_calls s)" w] True free r AcquireLoop
        by (auto simp: acquire_loop_def sys_inv_def Let_def)
    next
      case False
      then have "s' = s" "\<forall>x\<in>set new. idle_thread x"
        using r AcquireLoop free by (auto simp: acquire_loop_def split: option.splits)
      then show ?thesis using idle_quiet [OF inv, of s' new] AcquireLoop by simp
    qed
  qed
next
  case (AssembleRead w wd c)
  have "same_held (AssembleRead w wd c) [AssembleBuild w wd c (hp_doc s)]" by (simp add: same_held_def)
  then show ?thesis using r AssembleRead sys_quiet [OF same_view_refl _ inv] by (auto simp: assemble_read_def)
next
  case (AssembleBuild w wd c doc)
  show ?thesis
    using r inv AssembleBuild inv_build [of "pooled s" "hp_retiring s" "hp_assembling s" "map life (hp_built s)" w wd c doc rest]
      inv_fail [of "pooled s" "hp_retiring s" "hp_assembling s" "map life (hp_built s)" w wd c doc rest]
    by (auto simp: assemble_build_def sys_inv_def split: if_splits)
next
  case (AssemblePublish w wd c h)
  note p = inv_publish [OF inv [unfolded AssemblePublish sys_inv_def]]
  have "hp_hosts s wd = None" using p(1) by (simp add: pooled_def)
  then show ?thesis using r p(2) AssemblePublish by (auto simp: assemble_publish_def sys_inv_def)
next
  case (AssembleEnd w wd c res)
  have "\<forall>x\<in>set new. idle_thread x" "sys_inv s' rest"
    using r inv_end [OF inv [unfolded AssembleEnd sys_inv_def]] AssembleEnd idle_returned
    by (auto simp: assemble_end_def sys_inv_def split: sum.splits)
  then show ?thesis using sys_add by blast
next
  case (InvalidateEach wds)
  have i: "sys_inv s rest" using sys_drop [OF inv] InvalidateEach by simp
  show ?thesis
  proof (cases wds)
    case (Cons wd wds')
    obtain s1 n1 where n: "Invalidate wd s = (s1, n1)" by fastforce
    have "sys_inv s1 ([InvalidateEach wds'] @ (n1 @ rest))" using sys_add [OF Invalidate_inv [OF i n], of "[InvalidateEach wds']"] by simp
    moreover have "mset ([InvalidateEach wds'] @ (n1 @ rest)) = mset (new @ rest)" "s' = s1"
      using r n InvalidateEach Cons by auto
    ultimately show ?thesis using pool_inv_perm unfolding sys_inv_def by blast
  qed (use r i InvalidateEach in simp)
next
  case (BeginClose h)
  note h = closer_built [OF inv, of h, unfolded BeginClose, simplified]
  have a: "sys_inv (on_host h (\<lambda>x. x\<lparr>h_closing := True\<rparr>) s) (Drain h # rest)"
    using inv_advance(1) [OF inv [unfolded BeginClose sys_inv_def], of h "Drain h" "\<lambda>x. x\<lparr>h_closing := True\<rparr>"]
      on_host_advance [OF h, of "\<lambda>x. x\<lparr>h_closing := True\<rparr>" "\<lambda>x. x\<lparr>h_closing := True\<rparr>"]
    by (simp add: sys_inv_def)
  have "sys_inv s rest" using inv_drop_closer(1) inv BeginClose unfolding sys_inv_def by blast
  then show ?thesis using r a BeginClose by (auto simp: beginClose_def split: if_splits)
next
  case (Drain h)
  have "same_held (Drain h) [DoClose h]" by (simp add: same_held_def)
  then show ?thesis using r Drain sys_quiet [OF same_view_refl _ inv] by auto
next
  case (DoClose h)
  note h = closer_built [OF inv, of h, unfolded DoClose, simplified]
  have a: "sys_inv (on_host h (\<lambda>x. x\<lparr>h_closed := True\<rparr>) s) (TearDown h # rest)"
    using inv_advance(1) [OF inv [unfolded DoClose sys_inv_def], of h "TearDown h" "\<lambda>x. x\<lparr>h_closed := True\<rparr>"]
      on_host_advance [OF h, of "\<lambda>x. x\<lparr>h_closed := True\<rparr>" "\<lambda>x. x\<lparr>h_closed := True\<rparr>"]
    by (simp add: sys_inv_def)
  have "sys_inv s rest" using inv_drop_closer(2) inv DoClose unfolding sys_inv_def by blast
  then show ?thesis using r a inv DoClose by (auto simp: doClose_def split: if_splits)
next
  case (TearDown h)
  note h = closer_built [OF inv, of h, unfolded TearDown, simplified]
  have "sys_inv (on_host h (\<lambda>x. x\<lparr>h_closeDone := True\<rparr>) s) (HostClosed h # rest)"
    using inv_advance(1) [OF inv [unfolded TearDown sys_inv_def], of h "HostClosed h" "\<lambda>x. x\<lparr>h_closeDone := True\<rparr>"]
      on_host_advance [OF h, of "\<lambda>x. x\<lparr>h_closeDone := True\<rparr>" "\<lambda>x. x\<lparr>h_closeDone := True\<rparr>"]
    by (simp add: sys_inv_def)
  then show ?thesis using r TearDown by (auto simp: tear_down_def)
next
  case (HostClosed h)
  note h = closer_built [OF inv, of h, unfolded HostClosed, simplified]
  show ?thesis using r h inv_forget [OF inv [unfolded HostClosed sys_inv_def]] HostClosed
    by (auto simp: hostClosed_def sys_inv_def Let_def split: if_splits)
next
  case (HostIdle h)
  have "sys_inv s rest" using sys_drop [OF inv] HostIdle by simp
  then show ?thesis using hostIdle_inv r HostIdle by simp
next
  case (Configure w h)
  have "same_view s s'" "new = returned w"
    using r Configure pooled_same
    by (auto simp: configureHost_def same_view_def Let_def split: option.splits if_splits)
  then show ?thesis using idle_quiet [OF inv, of s' new] Configure idle_returned by simp
next
  case (StartRegister h rn)
  have "same_view s s'" "new = []"
    using r StartRegister on_host_view [of "\<lambda>x. x\<lparr>h_runs := insert rn (h_runs x)\<rparr>" h s]
    by (auto simp: start_register_def same_view_def split: if_splits)
  then show ?thesis using idle_quiet [OF inv, of s' new] StartRegister by simp
next
  case (Disarm wd)
  then show ?thesis using r idle_quiet [OF inv, of s' new] by (auto simp: disarmReplacement_def same_view_def)
qed (use r idle_quiet [OF inv, of s' new] idle_returned in \<open>auto simp: ensure_check_def ensure_closing_def
    acquire_wait_closed_def acquire_wait_call_def start_check_def start_turn_def replace_check_def replace_wait_def
    replace_wanted_def Let_def split: option.splits if_splits\<close>)


subsection \<open>One watcher per workspace\<close>

definition watch_inv :: "workspace set \<Rightarrow> thread list \<Rightarrow> bool" where
  "watch_inv armed ths \<longleftrightarrow> distinct (held watching ths) \<and> set (held watching ths) = armed"

lemma watching_returned [simp]: "held watching (returned w) = (case w of None \<Rightarrow> [] | Some v \<Rightarrow> [v])"
  by (simp add: returned_def split: option.split)

lemma section_watch:
  assumes "host_section inp th s = (s', new)" "\<forall>wd. th \<noteq> Disarm wd"
  shows "held watching new = watching th \<and> hp_armed s' = hp_armed s"
proof (cases th)
  case (InvalidateEach wds)
  then show ?thesis using assms
    by (cases wds) (auto simp: Invalidate_def Let_def trackRetiring_def split: option.splits if_splits)
qed (use assms in \<open>auto simp: ensure_check_def ensure_closing_def acquire_loop_def acquire_wait_closed_def
    acquire_wait_call_def assemble_read_def assemble_build_def assemble_publish_def assemble_end_def configureHost_def
    beginClose_def doClose_def tear_down_def hostClosed_def hostIdle_def trackRetiring_def start_check_def start_turn_def
    start_register_def replace_check_def replace_wait_def replace_wanted_def Let_def
    split: option.splits if_splits sum.splits\<close>)

subsection \<open>The invariant of the system\<close>

definition host_inv :: "host_sys \<Rightarrow> bool" where
  "host_inv s \<longleftrightarrow> sys_inv s (hp_threads s) \<and> watch_inv (hp_armed s) (hp_threads s)"

lemma sys_inv_threads [simp]: "sys_inv (s\<lparr>hp_threads := x\<rparr>) ths = sys_inv s ths"
  by (simp add: sys_inv_def)

lemma sys_inv_perm: "mset ths = mset ths' \<Longrightarrow> sys_inv s ths \<Longrightarrow> sys_inv s ths'"
  using pool_inv_perm unfolding sys_inv_def by blast

interpretation sections: interleaving host_section "\<lambda>inp. True" sys_inv
  by unfold_locales (fact sys_inv_perm, rule section_inv)

lemma spawn_inv:
  assumes "sys_inv s' (new @ hp_threads s)" "hp_threads s' = hp_threads s"
    "watch_inv (hp_armed s') (hp_threads s @ new)"
  shows "host_inv (spawned (s', new))"
  using assms sys_inv_perm [of "new @ hp_threads s" "hp_threads s @ new" s']
  by (simp add: host_inv_def spawned_def)

lemma quiet_watch:
  assumes "watch_inv A ths" "held watching new = []"
  shows "watch_inv A (ths @ new)"
  using assms by (simp add: watch_inv_def)

lemma building_at: "(wd, h) \<in> set (held building ths) \<Longrightarrow> list_ex (in_assembly h) ths"
proof (induction ths)
  case (Cons th ths)
  then show ?case by (cases th) auto
qed simp

lemma event_watch:
  "held watching (snd (Host_Close h s)) = []" "hp_armed (fst (Host_Close h s)) = hp_armed s"
  "hp_threads (fst (Host_Close h s)) = hp_threads s"
  "held watching (snd (dropRun h r s)) = []" "hp_armed (fst (dropRun h r s)) = hp_armed s"
  "hp_threads (fst (dropRun h r s)) = hp_threads s"
  by (auto simp: Host_Close_def dropRun_def Let_def split: option.splits)

lemma host_keeps: "host_inv s \<Longrightarrow> host_inv (host_step ev s)"
proof -
  assume "host_inv s"
  then have inv: "sys_inv s (hp_threads s)" and w: "watch_inv (hp_armed s) (hp_threads s)" by (simp_all add: host_inv_def)
  have call: "host_inv (spawned (s, [th]))" if "idle_thread th" "watching th = []" for th
    by (rule spawn_inv) (use sys_add [OF inv, of "[th]"] w that in \<open>simp_all add: watch_inv_def\<close>)
  show ?thesis
  proof (cases ev)
    case (CallSchedule wd)
    show ?thesis
    proof (cases "wd \<in> hp_armed s")
      case True
      then show ?thesis using CallSchedule inv w by (simp add: ScheduleReplacement_def spawned_def host_inv_def)
    next
      case False
      have "sys_inv (s\<lparr>hp_armed := insert wd (hp_armed s)\<rparr>) ([ReplaceCheck wd] @ hp_threads s)"
        using sys_add [OF inv, of "[ReplaceCheck wd]"] by (simp add: sys_inv_def)
      then show ?thesis using CallSchedule False w
        by (auto simp: ScheduleReplacement_def watch_inv_def intro!: spawn_inv)
    qed
  next
    case (CallStart h r)
    then show ?thesis using call [of "StartCheck h r"] inv w by (simp add: host_inv_def)
  next
    case (RunEnds h r)
    have "sys_inv (fst (dropRun h r s)) (snd (dropRun h r s) @ hp_threads s)"
    proof -
      have "same_view s (fst (dropRun h r s))"
        using on_host_view [of "\<lambda>x. x\<lparr>h_runs := h_runs x - {r}\<rparr>" h s] by (simp add: dropRun_def same_view_def Let_def)
      then have "sys_inv (fst (dropRun h r s)) (hp_threads s)" using inv by (simp add: sys_inv_def same_view_def)
      then show ?thesis by (rule sys_add) (simp add: dropRun_def Let_def)
    qed
    then have "host_inv (spawned (dropRun h r s))"
      using spawn_inv [of "fst (dropRun h r s)" "snd (dropRun h r s)" s] event_watch(4-6) [of h r s] quiet_watch [OF w] by simp
    then show ?thesis using RunEnds inv w by (simp add: host_inv_def)
  next
    case (CallClose h)
    show ?thesis
    proof (cases "handed_out s h")
      case True
      have "\<forall>wd. (wd, h) \<notin> set (held building (hp_threads s))" using True building_at by (auto simp: handed_out_def)
      then have "sys_inv (fst (Host_Close h s)) (snd (Host_Close h s) @ hp_threads s)"
        using Close_inv [OF inv _ _ prod.collapse [symmetric]] True by (simp add: handed_out_def)
      then have "host_inv (spawned (Host_Close h s))"
        using spawn_inv [of "fst (Host_Close h s)" "snd (Host_Close h s)" s] event_watch(1-3) [of h s] quiet_watch [OF w] by simp
      then show ?thesis using CallClose True by simp
    qed (use CallClose inv w in \<open>simp add: host_inv_def\<close>)
  next
    case DocumentChanges
    then show ?thesis using inv w by (simp add: host_inv_def sys_inv_def pooled_def)
  next
    case (Go j inp)
    show ?thesis
    proof (cases "j < length (hp_threads s)")
      case True
      let ?xs = "take j (hp_threads s)" and ?th = "hp_threads s ! j" and ?ys = "drop (Suc j) (hp_threads s)"
      obtain s' new where r: "host_section inp ?th s = (s', new)" by fastforce
      have t: "hp_threads s = ?xs @ ?th # ?ys" using True by (rule id_take_nth_drop)
      have "sys_inv s' (?xs @ new @ ?ys)" using TrueI inv True r by (rule sections.splice_keeps)
      moreover have "watch_inv (hp_armed s') (?xs @ new @ ?ys)"
      proof (cases "\<exists>wd. ?th = Disarm wd")
        case True
        then obtain wd where d: "?th = Disarm wd" by blast
        have "watch_inv (hp_armed s) (?xs @ Disarm wd # ?ys)" using w t d by metis
        then show ?thesis using r d by (auto simp: watch_inv_def disarmReplacement_def)
      next
        case False
        then have "held watching new = watching ?th" "hp_armed s' = hp_armed s" using section_watch [OF r] by blast+
        moreover have "watch_inv (hp_armed s) (?xs @ ?th # ?ys)" using w t by metis
        ultimately show ?thesis by (simp add: watch_inv_def)
      qed
      ultimately show ?thesis using Go True r by (simp add: host_inv_def)
    qed (use Go inv w in \<open>simp add: host_inv_def\<close>)
  qed (use call in simp_all)
qed

interpretation hosts: call_system host_step host_inv
  by unfold_locales (rule host_keeps)

lemma NewManager_inv: "host_inv NewManager"
  by (simp add: host_inv_def sys_inv_def NewManager_def pooled_def pool_inv_def pool_parts watch_inv_def)

definition host_run :: "host_event list \<Rightarrow> host_sys" where
  "host_run evs = run_calls host_step evs NewManager"

lemma host_run_inv: "host_inv (host_run evs)"
  unfolding host_run_def by (rule hosts.history_keeps [OF NewManager_inv])


subsection \<open>The properties\<close>

definition live_hosts :: "host_sys \<Rightarrow> workspace \<Rightarrow> host_id set" where
  "live_hosts s wd =
     {h. h < length (hp_built s) \<and> h_workDir (hp_built s ! h) = wd \<and> \<not> h_closeDone (hp_built s ! h)}"

lemma building_asm: "(wd, h) \<in> set (held building ths) \<Longrightarrow> wd \<in> fst ` set (held asm ths)"
proof (induction ths)
  case (Cons th ths)
  then show ?case by (cases th) auto
qed simp

lemma building_unique:
  "distinct (map fst (held asm ths)) \<Longrightarrow> (wd, h) \<in> set (held building ths) \<Longrightarrow> (wd, k) \<in> set (held building ths) \<Longrightarrow> h = k"
proof (induction ths)
  case (Cons th ths)
  then show ?case using building_asm [of wd h ths] building_asm [of wd k ths] by (cases th) auto
qed simp

lemma live_unique:
  assumes inv: "pool_inv P R A B ths" and h: "h < length B" "\<not> h_closeDone (B ! h)"
    and k: "k < length B" "\<not> h_closeDone (B ! k)" and same: "h_workDir (B ! h) = h_workDir (B ! k)"
  shows "h = k"
proof -
  let ?wd = "h_workDir (B ! k)"
  have ex: "R ?wd = None" if "P ?wd \<noteq> None" using inv that by (auto simp: pool_inv_def pooled_fresh_def)
  have none: "P ?wd = None \<and> R ?wd = None" if "(?wd, x) \<in> set (held building ths)" for x
    using building_unpublished [OF that] inv by (simp add: pool_inv_def builders_alone_def)
  have known: "\<forall>x<length B. \<not> h_closeDone (B ! x) \<longrightarrow> P (h_workDir (B ! x)) = Some x \<or>
      R (h_workDir (B ! x)) = Some x \<or> (h_workDir (B ! x), x) \<in> set (held building ths)"
    using inv by (simp add: pool_inv_def live_known_def)
  have d: "distinct (map fst (held asm ths))" using inv by (simp add: pool_inv_def one_assembly_def)
  have "P ?wd = Some h \<or> R ?wd = Some h \<or> (?wd, h) \<in> set (held building ths)"
    using known h unfolding same [symmetric] by blast
  moreover have "P ?wd = Some k \<or> R ?wd = Some k \<or> (?wd, k) \<in> set (held building ths)"
    using known k by blast
  ultimately show ?thesis
    using ex none [of h] none [of k] building_unique [OF d, of ?wd h k] by auto
qed

lemma sys_live:
  assumes "sys_inv s ths" "h \<in> live_hosts s wd" "k \<in> live_hosts s wd"
  shows "h = k"
  using live_unique [OF assms(1) [unfolded sys_inv_def], of h k] assms(2,3) by (simp add: live_hosts_def)

lemma sys_pooled:
  assumes inv: "sys_inv s ths" and r: "hp_hosts s wd = Some ref"
  shows "hr_host ref \<in> live_hosts s wd" "\<not> IsClosing s (hr_host ref)" "hp_retiring s wd = None"
proof -
  have "pooled s wd = Some (hr_host ref)" using r by (simp add: pooled_def)
  then have h: "hr_host ref < length (hp_built s)" "life (hp_built s ! hr_host ref) = new_host wd 0" "hp_retiring s wd = None"
    using inv unfolding sys_inv_def pool_inv_def pooled_fresh_def by (simp, metis length_map nth_map, simp)
  show "hp_retiring s wd = None" by (rule h(3))
  let ?x = "hp_built s ! hr_host ref"
  have "h_workDir ?x = wd" "\<not> h_closing ?x" "\<not> h_closed ?x" "\<not> h_closeDone ?x"
    using arg_cong [OF h(2), of h_workDir] arg_cong [OF h(2), of h_closing] arg_cong [OF h(2), of h_closed]
      arg_cong [OF h(2), of h_closeDone] by (simp_all add: new_host_def)
  then show "hr_host ref \<in> live_hosts s wd" "\<not> IsClosing s (hr_host ref)" using h(1) by (simp_all add: live_hosts_def IsClosing_def)
qed

text \<open>
  C40: In every interleaving of acquires, invalidations, closes, runs and deferred replacements, a
  workspace never has two runtimes that are not torn down, and no assembly is thrown away: when one
  publishes its Host the workspace has none.
\<close>

theorem one_live_host_per_workspace:
  "let s = host_run evs in
   card (live_hosts s wd) \<le> 1 \<and>
   (if AssemblePublish w wd c h \<in> set (hp_threads s) then hp_hosts s wd = None \<and> hp_retiring s wd = None else True)"
proof -
  let ?s = "host_run evs"
  have inv: "sys_inv ?s (hp_threads ?s)" using host_run_inv [of evs] by (simp add: host_inv_def)
  have "finite (live_hosts ?s wd)" by (rule finite_subset [of _ "{..<length (hp_built ?s)}"]) (auto simp: live_hosts_def)
  then have c: "card (live_hosts ?s wd) \<le> 1" using sys_live [OF inv] by (auto simp: card_le_Suc0_iff_eq)
  have "hp_hosts ?s wd = None \<and> hp_retiring ?s wd = None" if "AssemblePublish w wd c h \<in> set (hp_threads ?s)"
  proof -
    have "wd \<in> set (held unpublished (hp_threads ?s))" using that by (force simp: held_def)
    then show ?thesis using inv by (auto simp: sys_inv_def pool_inv_def builders_alone_def pooled_def)
  qed
  then show ?thesis using c by (simp add: Let_def)
qed

text \<open>
  What Acquire takes from the pool is the workspace's own Host, still serving (neither closing nor
  closed) and the only one that is not torn down.
\<close>

theorem acquire_hands_out_the_serving_host:
  assumes "hp_hosts (host_run evs) wd = Some ref"
  shows "let s = host_run evs; h = hr_host ref in
    snd (acquire_loop w wd s) = [Configure w h] \<and> h_workDir (hp_built s ! h) = wd \<and> \<not> IsClosing s h \<and>
    live_hosts s wd = {h} \<and> Current s wd = Some h"
proof -
  have inv: "sys_inv (host_run evs) (hp_threads (host_run evs))" using host_run_inv [of evs] by (simp add: host_inv_def)
  note p = sys_pooled [OF inv assms]
  have "live_hosts (host_run evs) wd = {hr_host ref}" using p(1) sys_live [OF inv] by blast
  moreover have "h_workDir (hp_built (host_run evs) ! hr_host ref) = wd" using p(1) by (simp add: live_hosts_def)
  ultimately show ?thesis using assms p(2) by (simp add: acquire_loop_def Current_def Let_def)
qed

definition go :: "nat \<Rightarrow> host_event" where
  "go j = Go j \<lparr>o_ok = True, o_cancelled = False\<rparr>"

definition acquire_trace :: "host_event list" where
  "acquire_trace = CallAcquire ''/w'' # replicate 6 (go 0)"

theorem acquire_hands_out_the_serving_host_witness:
  "snd (acquire_loop None ''/w'' (host_run acquire_trace)) = [Configure None 0] \<and>
   live_hosts (host_run acquire_trace) ''/w'' = {0}"
proof -
  have r: "hp_hosts (host_run acquire_trace) ''/w'' =
      Some \<lparr>hr_host = 0, hr_refs = 1, hr_stale = False, hr_configured = True\<rparr>" by code_simp
  show ?thesis using acquire_hands_out_the_serving_host [OF r, of None] by (simp add: Let_def)
qed

text \<open>
  A workspace has at most one deferred replacement on its way, and it is armed exactly as long as
  its watcher runs, through every wait, assembly and failure.
\<close>

theorem one_watcher_per_workspace:
  "let s = host_run evs in
   distinct (held watching (hp_threads s)) \<and> set (held watching (hp_threads s)) = hp_armed s"
  using host_run_inv [of evs] by (simp add: host_inv_def watch_inv_def Let_def)

subsection \<open>Traces\<close>

text \<open>
  A reload that comes while a workspace is assembling changes nothing: there is no pooled Host to
  invalidate, the ensure that follows waits for the assembly in flight, and the workspace is left with
  a Host built from the document before the change, not stale, with no replacement armed.
\<close>

definition reload_trace :: "host_event list" where
  "reload_trace =
     [CallAcquire ''/w'', go 0, go 0, DocumentChanges, CallInvalidateAll [], go 1, CallEnsure ''/w''] @
     [go 1, go 1] @ replicate 4 (go 0) @ replicate 3 (go 0)"

theorem reload_during_assembly_is_lost:
  "let s = host_run reload_trace in
   hp_threads s = [] \<and> hp_armed s = {} \<and> Current s ''/w'' = Some 0 \<and> \<not> IsStale s 0 \<and> \<not> IsClosing s 0 \<and>
   h_doc (hp_built s ! 0) = 0 \<and> hp_doc s = 1"
  by code_simp

text \<open>
  A wait for a Host's teardown is over when the Host is marked closed, before its runtime and its
  store are released.
\<close>

definition teardown_trace :: "host_event list" where
  "teardown_trace = acquire_trace @ [CallInvalidateAll [''/w''], go 0, go 0, go 0, go 0]"

theorem wait_is_over_before_the_teardown:
  "let s = host_run teardown_trace in
   wait_over s 0 \<and> \<not> h_closeDone (hp_built s ! 0) \<and> TearDown 0 \<in> set (hp_threads s)"
  by code_simp

text \<open>
  A run that passed the lifecycle check registers on its Host whatever happened since: after an
  invalidation in between, the torn-down Host has a live run and the workspace is free for a second
  runtime.
\<close>

definition late_run_trace :: "host_event list" where
  "late_run_trace =
     acquire_trace @ [CallStart 0 5, go 0, go 0, CallInvalidateAll [''/w'']] @ replicate 6 (go 1) @ [go 0]"

theorem late_run_registers_on_a_closed_host:
  "let s = host_run late_run_trace in
   h_closeDone (hp_built s ! 0) \<and> h_runs (hp_built s ! 0) = {5} \<and> Current s ''/w'' = None"
  by code_simp

end
