(* ===== verification/Interact.thy ===== *)
theory Interact
  imports ExecPolicy
begin

text \<open>
  Asking the user: the prompt protocol, \<open>src/internal/foundation/interact/interact.go\<close>, and the
  tools that ask through it, \<open>confirm.go\<close>, \<open>permissions.go\<close> and \<open>askuser/tool.go\<close> under
  \<open>src/internal/capabilities/tools/\<close>. A Go map of strings is a map here, read by \<open>meta_get\<close> with the
  empty string for a missing key. A message part is a text part or a part of another kind, of which
  the protocol knows nothing. The JSON codec of option lists and of string lists is the parameter
  \<open>codec\<close> (a list of strings decodes to what was read of it and an error, if any); a tool's host is a function from a prompt to an error or a reply.
\<close>

subsection \<open>The protocol\<close>

type_synonym Kind = string
type_synonym Severity = string
type_synonym metadata = "string \<rightharpoonup> string"

definition KindText :: Kind where "KindText = ''text''"
definition KindConfirm :: Kind where "KindConfirm = ''confirm''"
definition KindSelect :: Kind where "KindSelect = ''select''"

definition SeverityInfo :: Severity where "SeverityInfo = ''info''"
definition SeverityNotice :: Severity where "SeverityNotice = ''notice''"
definition SeverityDanger :: Severity where "SeverityDanger = ''danger''"

definition MetaKind :: string where "MetaKind = ''opencraft.interact.kind''"
definition MetaTitle :: string where "MetaTitle = ''opencraft.interact.title''"
definition MetaOptions :: string where "MetaOptions = ''opencraft.interact.options''"
definition MetaMulti :: string where "MetaMulti = ''opencraft.interact.multi''"
definition MetaAllowOther :: string where "MetaAllowOther = ''opencraft.interact.allow_other''"
definition MetaSeverity :: string where "MetaSeverity = ''opencraft.interact.severity''"
definition MetaChoice :: string where "MetaChoice = ''opencraft.interact.choice''"
definition MetaChoices :: string where "MetaChoices = ''opencraft.interact.choices''"
definition MetaOther :: string where "MetaOther = ''opencraft.interact.other''"
definition MetaStatus :: string where "MetaStatus = ''opencraft.interact.status''"

lemmas meta_keys = MetaKind_def MetaTitle_def MetaOptions_def MetaMulti_def MetaAllowOther_def
  MetaSeverity_def MetaChoice_def MetaChoices_def MetaOther_def MetaStatus_def

lemmas meta_values = KindText_def KindConfirm_def KindSelect_def
  SeverityInfo_def SeverityNotice_def SeverityDanger_def

definition meta_get :: "metadata \<Rightarrow> string \<Rightarrow> string" where
  "meta_get m k = (case m k of None \<Rightarrow> '''' | Some v \<Rightarrow> v)"

datatype 'x Part = TextPart string | OtherPart 'x

record PromptOption =
  op_Label :: string
  op_Value :: string

record codec =
  marshal_options :: "PromptOption list \<Rightarrow> string + string"
  unmarshal_options :: "string \<Rightarrow> PromptOption list option"
  marshal_strings :: "string list \<Rightarrow> string + string"
  unmarshal_strings :: "string \<Rightarrow> string list \<times> string option"

record 'x UserPrompt =
  up_Parts :: "'x Part list"
  up_Source :: string
  up_Metadata :: metadata

record 'x UserReply =
  ur_Parts :: "'x Part list"
  ur_Metadata :: metadata

record 'x Spec =
  sp_ID :: string
  sp_RunID :: string
  sp_TurnID :: string
  sp_Kind :: Kind
  sp_Severity :: Severity
  sp_Title :: string
  sp_Body :: "'x Part list"
  sp_Options :: "PromptOption list"
  sp_Multi :: bool
  sp_AllowOther :: bool
  sp_Source :: string
  sp_Metadata :: metadata

datatype ReplyStatus = ReplyOK | ReplyCancelled

record 'x Reply =
  rp_ID :: string
  rp_Status :: ReplyStatus
  rp_Text :: string
  rp_Option :: "string option"
  rp_Options :: "string list"
  rp_Parts :: "'x Part list"
  rp_Metadata :: metadata

fun status_string :: "ReplyStatus \<Rightarrow> string" where
  "status_string ReplyOK = ''ok''"
| "status_string ReplyCancelled = ''cancelled''"

definition parseSeverity :: "string \<Rightarrow> Kind \<Rightarrow> Severity" where
  "parseSeverity raw kind =
     (if raw = SeverityInfo \<or> raw = SeverityNotice \<or> raw = SeverityDanger then raw
      else if kind = KindConfirm \<or> kind = KindSelect then SeverityNotice
      else SeverityInfo)"

fun part_text :: "'x Part \<Rightarrow> string" where
  "part_text (TextPart t) = t"
| "part_text (OtherPart x) = ''''"

definition PartsText :: "'x Part list \<Rightarrow> string" where
  "PartsText parts = trim_space (concat (map part_text parts))"

definition PromptText :: "'x UserPrompt \<Rightarrow> string" where
  "PromptText p = PartsText (up_Parts p)"

definition FromPrompt ::
  "codec \<Rightarrow> 'x UserPrompt \<Rightarrow> string \<Rightarrow> string \<Rightarrow> string \<Rightarrow> 'x Spec" where
  "FromPrompt cd p pid runID turnID =
     (let meta = up_Metadata p;
          kind = (if meta_get meta MetaKind = KindConfirm \<or> meta_get meta MetaKind = KindSelect
                  then meta_get meta MetaKind else KindText);
          title = meta_get meta MetaTitle;
          raw = meta_get meta MetaOptions
      in \<lparr>sp_ID = pid, sp_RunID = runID, sp_TurnID = turnID, sp_Kind = kind,
          sp_Severity = parseSeverity (meta_get meta MetaSeverity) kind,
          sp_Title = (if title = '''' then PromptText p else title),
          sp_Body = up_Parts p,
          sp_Options = (if raw = '''' then []
                        else case unmarshal_options cd raw of Some opts \<Rightarrow> opts | None \<Rightarrow> []),
          sp_Multi = (kind = KindSelect \<and> meta_get meta MetaMulti = ''true''),
          sp_AllowOther = (kind = KindSelect \<and> meta_get meta MetaAllowOther \<noteq> ''false''),
          sp_Source = up_Source p, sp_Metadata = meta\<rparr>)"

text \<open>
  The reply's own metadata is copied over the status, the choices and the text are written after it.
  A list that does not encode is written as the empty string.
\<close>

definition reply_metadata :: "codec \<Rightarrow> 'x Reply \<Rightarrow> metadata" where
  "reply_metadata cd r =
     (let m0 = [MetaStatus \<mapsto> status_string (rp_Status r)] ++ rp_Metadata r;
          m1 = (case rp_Option r of Some v \<Rightarrow> m0(MetaChoice \<mapsto> v) | None \<Rightarrow> m0);
          m2 = (if rp_Options r \<noteq> []
                then m1(MetaChoices \<mapsto> (case marshal_strings cd (rp_Options r) of Inr raw \<Rightarrow> raw | Inl e \<Rightarrow> ''''))
                else m1)
      in if rp_Text r \<noteq> '''' then m2(MetaOther \<mapsto> rp_Text r) else m2)"

definition ToUserReply :: "codec \<Rightarrow> 'x Reply \<Rightarrow> 'x UserReply" where
  "ToUserReply cd r =
     \<lparr>ur_Parts =
        (if rp_Parts r \<noteq> [] then rp_Parts r
         else if rp_Text r \<noteq> '''' then [TextPart (rp_Text r)]
         else (case rp_Option r of
                 Some v \<Rightarrow> if v \<noteq> '''' \<and> rp_Options r = [] then [TextPart v] else []
               | None \<Rightarrow> [])),
      ur_Metadata = reply_metadata cd r\<rparr>"

subsection \<open>The wire form of a prompt\<close>

text \<open>
  A request envelope decodes strictly or, when that fails, with its parts left raw; a raw part that
  is neither a known part nor an object with a text is dropped.
\<close>

record 'x PromptRequested =
  rq_RunID :: string
  rq_TurnID :: string
  rq_PromptID :: string
  rq_Prompt :: "'x UserPrompt"

record 'r wirePromptRequested =
  w_RunID :: string
  w_TurnID :: string
  w_PromptID :: string
  w_Parts :: "'r list"
  w_Source :: string
  w_Metadata :: metadata

record ('env, 'r, 'x) decoder =
  decode_strict :: "'env \<Rightarrow> string + 'x PromptRequested"
  decode_wire :: "'env \<Rightarrow> string + 'r wirePromptRequested"
  unmarshal_part :: "'r \<Rightarrow> 'x Part option"
  unmarshal_text :: "'r \<Rightarrow> string option"

definition wire_part :: "('env, 'r, 'x) decoder \<Rightarrow> 'r \<Rightarrow> 'x Part list" where
  "wire_part d raw =
     (case unmarshal_part d raw of
        Some part \<Rightarrow> [part]
      | None \<Rightarrow> (case unmarshal_text d raw of Some t \<Rightarrow> [TextPart t] | None \<Rightarrow> []))"

definition decodePromptRequested ::
  "('env, 'r, 'x) decoder \<Rightarrow> 'env \<Rightarrow> string + 'x PromptRequested" where
  "decodePromptRequested d env =
     (case decode_strict d env of
        Inr req \<Rightarrow> Inr req
      | Inl _ \<Rightarrow> try_bind (decode_wire d env) (\<lambda>wire. Inr
          \<lparr>rq_RunID = w_RunID wire, rq_TurnID = w_TurnID wire, rq_PromptID = w_PromptID wire,
           rq_Prompt = \<lparr>up_Parts = concat (map (wire_part d) (w_Parts wire)),
             up_Source = w_Source wire, up_Metadata = w_Metadata wire\<rparr>\<rparr>))"

definition prompt_spec :: "codec \<Rightarrow> 'x PromptRequested \<Rightarrow> 'x Spec" where
  "prompt_spec cd req = FromPrompt cd (rq_Prompt req) (rq_PromptID req) (rq_RunID req) (rq_TurnID req)"

subsection \<open>The tools\<close>

datatype ask_error =
    BadArguments string | NoHostInContext | MarshalFailed string | AskUserFailed string
  | NoExecPolicy | PolicyFailed policy_error

type_synonym 'x user_host = "('x UserPrompt \<Rightarrow> string + 'x UserReply) option"

definition OptionYes :: string where "OptionYes = ''yes''"
definition OptionNo :: string where "OptionNo = ''no''"

definition yes_no :: "PromptOption list" where
  "yes_no = [\<lparr>op_Label = ''Yes'', op_Value = OptionYes\<rparr>, \<lparr>op_Label = ''No'', op_Value = OptionNo\<rparr>]"

definition confirm_prompt :: "string \<Rightarrow> string \<Rightarrow> string \<Rightarrow> 'x UserPrompt" where
  "confirm_prompt raw title body =
     \<lparr>up_Parts = [TextPart body], up_Source = ''opencraft.confirm'',
      up_Metadata = [MetaKind \<mapsto> KindConfirm, MetaTitle \<mapsto> title, MetaOptions \<mapsto> raw,
        MetaSeverity \<mapsto> SeverityNotice]\<rparr>"

text \<open>What the confirmation gate reads off a reply.\<close>

definition says_yes :: "'x UserReply \<Rightarrow> bool" where
  "says_yes reply \<longleftrightarrow>
     (if meta_get (ur_Metadata reply) MetaStatus = status_string ReplyCancelled then False
      else meta_get (ur_Metadata reply) MetaChoice = OptionYes)"

definition Confirm :: "codec \<Rightarrow> 'x user_host \<Rightarrow> string \<Rightarrow> string \<Rightarrow> ask_error + bool" where
  "Confirm cd host title body =
     (case host of
        None \<Rightarrow> Inl NoHostInContext
      | Some ask \<Rightarrow>
          (case marshal_options cd yes_no of
             Inl e \<Rightarrow> Inl (MarshalFailed e)
           | Inr raw \<Rightarrow>
               (case ask (confirm_prompt raw title body) of
                  Inl e \<Rightarrow> Inl (AskUserFailed e)
                | Inr reply \<Rightarrow> Inr (says_yes reply))))"

text \<open>\<open>strings.Fields\<close>: the words between runs of white space.\<close>

function fields_from :: "string \<Rightarrow> string \<Rightarrow> string list" where
  "fields_from w s =
     (case s of
        [] \<Rightarrow> if w = [] then [] else [w]
      | c # r \<Rightarrow>
          (case find (\<lambda>sp. sp \<noteq> [] \<and> has_prefix s sp) space_runes of
             Some sp \<Rightarrow> (if w = [] then [] else [w]) @ fields_from [] (drop (length sp) s)
           | None \<Rightarrow> fields_from (w @ [c]) r))"
  by pat_completeness auto
termination
  by (relation "measure (\<lambda>(w, s). length s)") (auto simp: find_Some_iff)

declare fields_from.simps [simp del]

definition str_fields :: "string \<Rightarrow> string list" where
  "str_fields s = fields_from [] s"

record PermissionsArgs =
  pa_Permissions :: "string list"
  pa_Reason :: string

record PermissionsResult =
  pe_granted :: bool
  pe_scope :: string
  pe_permissions :: "string list"
  pe_cancelled :: bool

definition clean_rules :: "string list \<Rightarrow> string list" where
  "clean_rules rules = filter (\<lambda>r. r \<noteq> '''') (map (\<lambda>r. str_join '' '' (str_fields r)) rules)"

definition bullet :: string where
  "bullet = [CHR 0x0A] @ ''  '' @ [CHR 0xE2, CHR 0x80, CHR 0xA2] @ '' ''"

definition grant_options :: "PromptOption list" where
  "grant_options = [\<lparr>op_Label = ''Grant'', op_Value = ''grant''\<rparr>, \<lparr>op_Label = ''Deny'', op_Value = ''deny''\<rparr>]"

definition permissions_prompt :: "string \<Rightarrow> string list \<Rightarrow> string \<Rightarrow> 'x UserPrompt" where
  "permissions_prompt raw rules reason =
     \<lparr>up_Parts = [TextPart (''Grant these command permissions?'' @ bullet @ str_join bullet rules @
        (if reason \<noteq> '''' then [CHR 0x0A, CHR 0x0A] @ ''Reason: '' @ reason else ''''))],
      up_Source = ''opencraft.request_permissions'',
      up_Metadata = [MetaKind \<mapsto> KindSelect, MetaTitle \<mapsto> ''Grant permissions?'', MetaOptions \<mapsto> raw,
        MetaAllowOther \<mapsto> ''false'', MetaSeverity \<mapsto> SeverityNotice]\<rparr>"

fun grant_rules ::
  "string list \<Rightarrow> string list \<Rightarrow> ('a, 'f) Manager \<Rightarrow> (policy_error + string list) \<times> ('a, 'f) Manager" where
  "grant_rules applied [] m = (Inr applied, m)"
| "grant_rules applied (rule # rules) m =
     (case AlwaysAllow rule m of
        (Some e, m') \<Rightarrow> (Inl e, m')
      | (None, m') \<Rightarrow> grant_rules (applied @ [rule]) rules m')"

definition reply_cancelled :: "'x UserReply \<Rightarrow> bool" where
  "reply_cancelled reply \<longleftrightarrow> meta_get (ur_Metadata reply) MetaStatus = status_string ReplyCancelled"

definition says_grant :: "'x UserReply \<Rightarrow> bool" where
  "says_grant reply \<longleftrightarrow>
     \<not> reply_cancelled reply \<and> meta_get (ur_Metadata reply) MetaChoice = ''grant''"

text \<open>
  \<open>permissions.execute\<close>, its arguments decoded and its result before it is encoded. Without a policy
  there is no manager to pass on.
\<close>

definition permissions_execute ::
  "codec \<Rightarrow> 'x user_host \<Rightarrow> string + PermissionsArgs \<Rightarrow> ('a, 'f) Manager option \<Rightarrow>
   (ask_error + PermissionsResult) \<times> ('a, 'f) Manager option" where
  "permissions_execute cd host args policy =
     (case args of
        Inl e \<Rightarrow> (Inl (BadArguments e), policy)
      | Inr a \<Rightarrow>
          (let rules = clean_rules (pa_Permissions a) in
           if rules = [] then (Inl (BadArguments ''at least one non-empty permission is required''), policy)
           else
             (case policy of
                None \<Rightarrow> (Inl NoExecPolicy, policy)
              | Some m \<Rightarrow>
                  (case host of
                     None \<Rightarrow> (Inl NoHostInContext, policy)
                   | Some ask \<Rightarrow>
                       (case marshal_options cd grant_options of
                          Inl e \<Rightarrow> (Inl (MarshalFailed e), policy)
                        | Inr raw \<Rightarrow>
                            (case ask (permissions_prompt raw rules (pa_Reason a)) of
                               Inl e \<Rightarrow> (Inl (AskUserFailed e), policy)
                             | Inr reply \<Rightarrow>
                                 (case (if says_grant reply then grant_rules [] rules m else (Inr [], m)) of
                                    (Inl e, m') \<Rightarrow> (Inl (PolicyFailed e), Some m')
                                  | (Inr applied, m') \<Rightarrow>
                                      (Inr \<lparr>pe_granted = says_grant reply, pe_scope = ''session'',
                                         pe_permissions = applied, pe_cancelled = reply_cancelled reply\<rparr>,
                                       Some m'))))))))"

record AskUserArgs =
  aa_Question :: string
  aa_Kind :: string
  aa_Options :: "string list"
  aa_Multiple :: "bool option"
  aa_Other :: "bool option"

record AskUserResult =
  ar_cancelled :: bool
  ar_choice :: string
  ar_choices :: "string list"
  ar_other :: string
  ar_text :: string

text \<open>The question the arguments ask for, or what is wrong with them.\<close>

record question =
  q_Kind :: Kind
  q_Options :: "PromptOption list"
  q_Multiple :: bool
  q_AllowOther :: bool

definition ask_question :: "AskUserArgs \<Rightarrow> string + question" where
  "ask_question a =
     (if aa_Question a = '''' then Inl ''ask_user: question is required''
      else if aa_Kind a \<noteq> '''' \<and> aa_Kind a \<noteq> KindText \<and> aa_Kind a \<noteq> KindConfirm \<and> aa_Kind a \<noteq> KindSelect
      then Inl ''ask_user: invalid kind''
      else
        (let kind = (if aa_Kind a = '''' then KindText else aa_Kind a);
             given = map (\<lambda>v. \<lparr>op_Label = v, op_Value = v\<rparr>) (aa_Options a);
             opts = (if kind = KindConfirm \<and> given = [] then yes_no else given);
             multiple = (aa_Multiple a = Some True);
             other = (if kind = KindSelect then aa_Other a \<noteq> Some False else False)
         in if (kind = KindConfirm \<or> kind = KindSelect) \<and> opts = []
            then Inl ''ask_user: kind requires options''
            else if multiple \<and> kind \<noteq> KindSelect then Inl ''ask_user: multiple only applies to kind=select''
            else Inr \<lparr>q_Kind = kind, q_Options = opts, q_Multiple = multiple, q_AllowOther = other\<rparr>))"

definition askuser_prompt :: "string \<Rightarrow> string \<Rightarrow> question \<Rightarrow> 'x UserPrompt" where
  "askuser_prompt raw title q =
     (let m0 = [MetaKind \<mapsto> q_Kind q, MetaTitle \<mapsto> title, MetaOptions \<mapsto> raw, MetaSeverity \<mapsto> SeverityInfo];
          m1 = (if q_Multiple q then m0(MetaMulti \<mapsto> ''true'') else m0)
      in \<lparr>up_Parts = [TextPart title], up_Source = ''opencraft.ask_user'',
          up_Metadata = (if q_AllowOther q then m1 else m1(MetaAllowOther \<mapsto> ''false''))\<rparr>)"

definition read_answer :: "codec \<Rightarrow> 'x UserReply \<Rightarrow> AskUserResult" where
  "read_answer cd reply =
     (let meta = ur_Metadata reply; raw = meta_get meta MetaChoices in
      \<lparr>ar_cancelled = reply_cancelled reply, ar_choice = meta_get meta MetaChoice,
       ar_choices = (if raw = '''' then [] else fst (unmarshal_strings cd raw)),
       ar_other = meta_get meta MetaOther, ar_text = PartsText (ur_Parts reply)\<rparr>)"

definition askuser_execute ::
  "codec \<Rightarrow> 'x user_host \<Rightarrow> string + AskUserArgs \<Rightarrow> ask_error + AskUserResult" where
  "askuser_execute cd host args =
     (case args of
        Inl e \<Rightarrow> Inl (BadArguments e)
      | Inr a \<Rightarrow>
          (case ask_question a of
             Inl e \<Rightarrow> Inl (BadArguments e)
           | Inr q \<Rightarrow>
               (case host of
                  None \<Rightarrow> Inl NoHostInContext
                | Some ask \<Rightarrow>
                    (case marshal_options cd (q_Options q) of
                       Inl e \<Rightarrow> Inl (MarshalFailed e)
                     | Inr raw \<Rightarrow>
                         (case ask (askuser_prompt raw (aa_Question a) q) of
                            Inl e \<Rightarrow> Inl (AskUserFailed e)
                          | Inr reply \<Rightarrow> Inr (read_answer cd reply))))))"

subsection \<open>The exec policy as a caller\<close>

text \<open>
  \<open>Approve\<close> and \<open>Escalate\<close> of the exec policy put their prompt to the same host and read the choice
  of the reply.
\<close>

definition policy_user_prompt :: "string \<Rightarrow> prompt \<Rightarrow> 'x UserPrompt" where
  "policy_user_prompt raw p =
     \<lparr>up_Parts = [TextPart (pr_Text p)], up_Source = pr_Source p,
      up_Metadata = [MetaKind \<mapsto> KindSelect, MetaTitle \<mapsto> pr_Title p, MetaOptions \<mapsto> raw,
        MetaAllowOther \<mapsto> (if pr_AllowOther p then ''true'' else ''false''), MetaSeverity \<mapsto> pr_Severity p]\<rparr>"

definition policy_host :: "codec \<Rightarrow> 'x user_host \<Rightarrow> asking_host" where
  "policy_host cd host = map_option (\<lambda>ask p.
     (case marshal_options cd (map (\<lambda>(l, v). \<lparr>op_Label = l, op_Value = v\<rparr>) (pr_Options p)) of
        Inl e \<Rightarrow> Inl e
      | Inr raw \<Rightarrow>
          (case ask (policy_user_prompt raw p) of
             Inl e \<Rightarrow> Inl e
           | Inr reply \<Rightarrow> Inr (meta_get (ur_Metadata reply) MetaChoice)))) host"

subsection \<open>Run streams\<close>

definition StreamRunID :: "string \<Rightarrow> string" where
  "StreamRunID subject =
     (let parts = split_on (CHR ''.'') subject in
      if 3 \<le> length parts \<and> parts ! 1 = ''run'' \<and> (parts ! 0 = ''agent'' \<or> parts ! 0 = ''engine'')
      then parts ! 2 else '''')"

end
