(* ===== verification/Agents.thy ===== *)
theory Agents
  imports Interact GoTime "HOL-Library.Char_ord" "HOL-Library.List_Lexorder"
begin

text \<open>
  Persistent subagents, \<open>lifecycle.go\<close>, \<open>assemble.go\<close> and \<open>tool.go\<close> of
  \<open>src/internal/capabilities/agents/\<close>: a declaration per directory on disk, a registration per agent in
  the runtime, and the names this process knows to be registered. The file system, the runtime's
  registrar and the JSON and YAML codecs are the fields of \<open>agent_ops\<close>; a call that may change the disk
  or the runtime returns its new state. A raw JSON or YAML text is a \<open>string\<close>, a parsed graph is of the
  type \<open>'g\<close>. Only \<open>Name\<close> and \<open>Description\<close> of the runtime's agent card are read; \<open>ca_Rest\<close> is what else it
  carries.
\<close>

subsection \<open>Declarations\<close>

datatype agent_error =
    Validation string
  | NotAvailable string
  | NotFound string
  | NotExist
  | Conflict string
  | OtherError string
  | Wrapped string agent_error

record AgentCard =
  ca_Name :: string
  ca_Description :: string
  ca_Rest :: string

record EngineRef =
  en_Kind :: string
  en_Impl :: string
  en_Deps :: "(string \<times> string) list"
  en_Settings :: string

record AgentSpec =
  as_Version :: int
  as_Card :: AgentCard
  as_Engine :: EngineRef
  as_CreatedAt :: instant

record hook =
  hk_Type :: string
  hk_Deps :: "(string \<times> string) list"
  hk_Settings :: string

record agent_definition =
  df_Card :: AgentCard
  df_Engine :: EngineRef
  df_Prepare :: "hook list"

record legacy_declaration =
  ld_Name :: string
  ld_Description :: string
  ld_Graph :: string
  ld_CreatedAt :: instant

text \<open>What the untyped decoding of a declaration file shows.\<close>

record declaration_probe =
  pr_graph_is_text :: bool
  pr_has_card :: bool
  pr_has_version :: bool

datatype read_outcome = FileMissing | FileUnreadable string | FileData string

record ('f, 'rt, 'g) agent_ops =
  enc_graph_text :: "string \<Rightarrow> string"
  dec_envelope :: "string \<Rightarrow> string + string"
  dec_json_string :: "string \<Rightarrow> string + string"
  yaml_to_json :: "string \<Rightarrow> string + string"
  dec_graph :: "string \<Rightarrow> string + 'g"
  graph_empty :: "'g \<Rightarrow> bool"
  enc_graph :: "'g \<Rightarrow> string + string"
  enc_envelope :: "string \<Rightarrow> string + string"
  enc_graph_yaml :: "'g \<Rightarrow> string + string"
  enc_engine_settings :: "string \<Rightarrow> string + string"
  enc_hook_settings :: "string \<Rightarrow> string \<Rightarrow> string"
  enc_spec :: "AgentSpec \<Rightarrow> string + string"
  dec_spec_strict :: "string \<Rightarrow> string + AgentSpec"
  yaml_probe :: "string \<Rightarrow> string + declaration_probe"
  dec_legacy_strict :: "string \<Rightarrow> string + legacy_declaration"
  fp_Join :: "string \<Rightarrow> string \<Rightarrow> string"
  fp_Base :: "string \<Rightarrow> string"
  os_ReadDir :: "'f \<Rightarrow> string \<Rightarrow> string + (string \<times> bool) list"
  os_ReadFile :: "'f \<Rightarrow> string \<Rightarrow> read_outcome"
  os_MkdirAll :: "'f \<Rightarrow> string \<Rightarrow> string option \<times> 'f"
  os_WriteAtomic :: "'f \<Rightarrow> string \<Rightarrow> string \<Rightarrow> string option \<times> 'f"
  os_RemoveAll :: "'f \<Rightarrow> string \<Rightarrow> string option \<times> 'f"
  rt_Register :: "'rt \<Rightarrow> string \<Rightarrow> agent_definition \<Rightarrow> agent_error option \<times> 'rt"
  rt_Unregister :: "'rt \<Rightarrow> string \<Rightarrow> agent_error option \<times> 'rt"

definition specVersion :: int where "specVersion = 1"
definition specFile :: string where "specFile = ''agent.yaml''"
definition engineKind :: string where "engineKind = ''agent.Engine''"
definition engineImpl :: string where "engineImpl = ''graph''"

definition graphSettings :: "('f, 'rt, 'g) agent_ops \<Rightarrow> string \<Rightarrow> string" where
  "graphSettings ops graph = enc_graph_text ops graph"

definition NewSpec :: "('f, 'rt, 'g) agent_ops \<Rightarrow> string \<Rightarrow> string \<Rightarrow> string \<Rightarrow> AgentSpec" where
  "NewSpec ops name description graph =
     \<lparr>as_Version = specVersion,
      as_Card = \<lparr>ca_Name = name, ca_Description = description, ca_Rest = ''''\<rparr>,
      as_Engine = \<lparr>en_Kind = engineKind, en_Impl = engineImpl, en_Deps = [], en_Settings = graphSettings ops graph\<rparr>,
      as_CreatedAt = zero_time\<rparr>"

text \<open>The source of a graph: the only setting a declaration may carry.\<close>

definition decodeGraphOnly :: "('f, 'rt, 'g) agent_ops \<Rightarrow> string \<Rightarrow> agent_error + string" where
  "decodeGraphOnly ops settings =
     (if trim_space settings = '''' then Inl (Validation ''engine.settings is required and may only contain graph'')
      else
        (case dec_envelope ops settings of
           Inl e \<Rightarrow> Inl (Validation e)
         | Inr graph \<Rightarrow>
             if trim_space graph = '''' then Inl (Validation ''engine.settings.graph is required'') else Inr graph))"

definition parse_source :: "('f, 'rt, 'g) agent_ops \<Rightarrow> string \<Rightarrow> agent_error + 'g" where
  "parse_source ops trimmed =
     (if hd trimmed = CHR 0x22 then
        (case dec_json_string ops trimmed of
           Inl e \<Rightarrow> Inl (OtherError e)
         | Inr src \<Rightarrow>
             (case yaml_to_json ops src of
                Inl e \<Rightarrow> Inl (OtherError e)
              | Inr data \<Rightarrow> (case dec_graph ops data of Inl e \<Rightarrow> Inl (OtherError e) | Inr g \<Rightarrow> Inr g)))
      else (case dec_graph ops trimmed of Inl e \<Rightarrow> Inl (OtherError e) | Inr g \<Rightarrow> Inr g))"

definition graphToMap :: "('f, 'rt, 'g) agent_ops \<Rightarrow> string \<Rightarrow> agent_error + 'g" where
  "graphToMap ops raw =
     (let trimmed = trim_space raw in
      if trimmed = '''' then Inl (Validation ''graph is empty'')
      else try_bind (parse_source ops trimmed) (\<lambda>g.
        if graph_empty ops g then Inl (Validation ''graph definition is empty'') else Inr g))"

definition graphText :: "('f, 'rt, 'g) agent_ops \<Rightarrow> string \<Rightarrow> agent_error + string" where
  "graphText ops raw =
     (let trimmed = trim_space raw in
      if trimmed = '''' then Inr ''''
      else if hd trimmed = CHR 0x22 then
        (case dec_json_string ops trimmed of Inl e \<Rightarrow> Inl (OtherError e) | Inr src \<Rightarrow> Inr src)
      else try_bind (graphToMap ops raw) (\<lambda>g.
        case enc_graph_yaml ops g of Inl e \<Rightarrow> Inl (OtherError e) | Inr out \<Rightarrow> Inr (trim_space out)))"

definition GraphText :: "('f, 'rt, 'g) agent_ops \<Rightarrow> AgentSpec \<Rightarrow> agent_error + string" where
  "GraphText ops spec = try_bind (decodeGraphOnly ops (en_Settings (as_Engine spec))) (graphText ops)"

definition agent_char :: "char \<Rightarrow> bool" where
  "agent_char c \<longleftrightarrow>
     (CHR ''a'' \<le> c \<and> c \<le> CHR ''z'') \<or> (CHR ''0'' \<le> c \<and> c \<le> CHR ''9'') \<or> c = CHR ''-''"

definition validateAgentName :: "string \<Rightarrow> agent_error option" where
  "validateAgentName name =
     (if name = '''' \<or> trim_space name \<noteq> name
      then Some (Validation ''name must be non-empty and must not have surrounding whitespace'')
      else if \<not> list_all agent_char name
      then Some (Validation ''name must be lowercase letters, digits, or hyphens'')
      else None)"

definition Validate :: "('f, 'rt, 'g) agent_ops \<Rightarrow> AgentSpec \<Rightarrow> agent_error option" where
  "Validate ops s =
     (if as_Version s \<noteq> 0 \<and> as_Version s \<noteq> specVersion then Some (Validation ''unsupported declaration version'')
      else
        (case validateAgentName (ca_Name (as_Card s)) of
           Some e \<Rightarrow> Some e
         | None \<Rightarrow>
             if trim_space (ca_Description (as_Card s)) = '''' then Some (Validation ''description is required'')
             else if en_Kind (as_Engine s) \<noteq> engineKind \<or> en_Impl (as_Engine s) \<noteq> engineImpl
             then Some (Validation ''engine must be agent.Engine/graph'')
             else if en_Deps (as_Engine s) \<noteq> [] then Some (Validation ''engine deps are host-owned'')
             else
               (case decodeGraphOnly ops (en_Settings (as_Engine s)) of
                  Inl e \<Rightarrow> Some (Wrapped ''agents'' e)
                | Inr graph \<Rightarrow>
                    (case graphToMap ops graph of Inl e \<Rightarrow> Some (Wrapped ''agents: graph'' e) | Inr g \<Rightarrow> None))))"

definition normalizeSpec :: "('f, 'rt, 'g) agent_ops \<Rightarrow> AgentSpec \<Rightarrow> agent_error + AgentSpec" where
  "normalizeSpec ops spec =
     try_bind (decodeGraphOnly ops (en_Settings (as_Engine spec))) (\<lambda>graph.
     try_bind (graphToMap ops graph) (\<lambda>object.
       case enc_graph ops object of
         Inl e \<Rightarrow> Inl (OtherError e)
       | Inr objectJSON \<Rightarrow>
           (case enc_envelope ops objectJSON of
              Inl e \<Rightarrow> Inl (OtherError e)
            | Inr settings \<Rightarrow>
                Inr (spec\<lparr>as_Engine := (as_Engine spec)\<lparr>en_Settings := settings\<rparr>, as_Version := specVersion\<rparr>))))"

subsection \<open>The registry's state\<close>

record ('f, 'rt) Lifecycle =
  lc_bound :: bool
  lc_known :: "string set"
  lc_dir :: string
  lc_work :: string
  lc_user :: string
  lc_fs :: 'f
  lc_rt :: 'rt

definition New ::
  "('f, 'rt, 'g) agent_ops \<Rightarrow> string \<Rightarrow> string \<Rightarrow> string \<Rightarrow> 'f \<Rightarrow> 'rt \<Rightarrow> agent_error + ('f, 'rt) Lifecycle" where
  "New ops dir workDir userDir fs rt =
     (if trim_space dir = '''' then Inl (Validation ''directory is required'')
      else
        (case os_MkdirAll ops fs dir of
           (Some e, fs') \<Rightarrow> Inl (Wrapped ''create directory'' (OtherError e))
         | (None, fs') \<Rightarrow>
             Inr \<lparr>lc_bound = False, lc_known = {}, lc_dir = dir, lc_work = workDir, lc_user = userDir,
                  lc_fs = fs', lc_rt = rt\<rparr>))"

definition Bind :: "('f, 'rt) Lifecycle \<Rightarrow> ('f, 'rt) Lifecycle" where
  "Bind l = l\<lparr>lc_bound := True\<rparr>"

definition markKnown :: "string \<Rightarrow> ('f, 'rt) Lifecycle \<Rightarrow> ('f, 'rt) Lifecycle" where
  "markKnown name l = l\<lparr>lc_known := insert name (lc_known l)\<rparr>"

definition forgetKnown :: "string \<Rightarrow> ('f, 'rt) Lifecycle \<Rightarrow> ('f, 'rt) Lifecycle" where
  "forgetKnown name l = l\<lparr>lc_known := lc_known l - {name}\<rparr>"

definition isKnown :: "string \<Rightarrow> ('f, 'rt) Lifecycle \<Rightarrow> bool" where
  "isKnown name l \<longleftrightarrow> name \<in> lc_known l"

definition AdoptKnown :: "string set \<Rightarrow> ('f, 'rt) Lifecycle \<Rightarrow> ('f, 'rt) Lifecycle" where
  "AdoptKnown from_known l = l\<lparr>lc_known := lc_known l \<union> from_known\<rparr>"

definition agentDir :: "('f, 'rt, 'g) agent_ops \<Rightarrow> ('f, 'rt) Lifecycle \<Rightarrow> string \<Rightarrow> string" where
  "agentDir ops l name = fp_Join ops (lc_dir l) name"

subsection \<open>Definitions for the runtime\<close>

definition nodeDeps :: "(string \<times> string) list" where
  "nodeDeps =
     [(''node_type.inference'', ''node.inference''), (''node_type.tool'', ''node.tool''),
      (''node_type.script'', ''node.script'')]"

definition prepareHook :: "('f, 'rt, 'g) agent_ops \<Rightarrow> string \<Rightarrow> string \<Rightarrow> hook" where
  "prepareHook ops work user =
     \<lparr>hk_Type = ''opencraft.prepare'',
      hk_Deps = [(''memory'', ''mem''), (''workspace'', ''ws''), (''execpolicy'', ''execpolicy''),
        (''sessions'', ''sessions''), (''skills'', ''skills'')],
      hk_Settings = enc_hook_settings ops work user\<rparr>"

definition agentDefinition ::
  "('f, 'rt, 'g) agent_ops \<Rightarrow> ('f, 'rt) Lifecycle \<Rightarrow> AgentSpec \<Rightarrow> agent_error + agent_definition" where
  "agentDefinition ops l spec =
     (case decodeGraphOnly ops (en_Settings (as_Engine spec)) of
        Inl e \<Rightarrow> Inl (Wrapped ''decode graph settings'' e)
      | Inr graph \<Rightarrow>
          (case enc_engine_settings ops graph of
             Inl e \<Rightarrow> Inl (OtherError e)
           | Inr settings \<Rightarrow>
               Inr \<lparr>df_Card = as_Card spec,
                    df_Engine = \<lparr>en_Kind = en_Kind (as_Engine spec), en_Impl = en_Impl (as_Engine spec),
                      en_Deps = nodeDeps, en_Settings = settings\<rparr>,
                    df_Prepare = [prepareHook ops (lc_work l) (lc_user l)]\<rparr>))"

subsection \<open>The declaration files\<close>

definition writeSpec ::
  "('f, 'rt, 'g) agent_ops \<Rightarrow> AgentSpec \<Rightarrow> ('f, 'rt) Lifecycle \<Rightarrow> agent_error option \<times> ('f, 'rt) Lifecycle" where
  "writeSpec ops spec0 l =
     (case normalizeSpec ops spec0 of
        Inl e \<Rightarrow> (Some e, l)
      | Inr spec \<Rightarrow>
          (case enc_spec ops spec of
             Inl e \<Rightarrow> (Some (OtherError e), l)
           | Inr data \<Rightarrow>
               (let dir = agentDir ops l (ca_Name (as_Card spec)) in
                case os_MkdirAll ops (lc_fs l) dir of
                  (Some e, fs') \<Rightarrow> (Some (OtherError e), l\<lparr>lc_fs := fs'\<rparr>)
                | (None, fs') \<Rightarrow>
                    (case os_WriteAtomic ops fs' (fp_Join ops dir specFile) data of
                       (Some e, fs'') \<Rightarrow> (Some (OtherError e), l\<lparr>lc_fs := fs''\<rparr>)
                     | (None, fs'') \<Rightarrow> (None, l\<lparr>lc_fs := fs''\<rparr>)))))"

definition LegacyAgentDeclaration ::
  "('f, 'rt, 'g) agent_ops \<Rightarrow> string \<Rightarrow> string + legacy_declaration option" where
  "LegacyAgentDeclaration ops data = try_bind (yaml_probe ops data) (\<lambda>probe.
     if \<not> pr_graph_is_text probe \<or> pr_has_card probe \<or> pr_has_version probe then Inr None
     else (case dec_legacy_strict ops data of Inl e \<Rightarrow> Inl e | Inr legacy \<Rightarrow> Inr (Some legacy)))"

text \<open>The text of a declaration: the shape before versions, or the current one, which is strict.\<close>

definition parse_declaration :: "('f, 'rt, 'g) agent_ops \<Rightarrow> string \<Rightarrow> agent_error + AgentSpec" where
  "parse_declaration ops data =
     (case LegacyAgentDeclaration ops data of
        Inl e \<Rightarrow> Inl (Wrapped ''parse'' (OtherError e))
      | Inr (Some legacy) \<Rightarrow>
          Inr \<lparr>as_Version = 0,
               as_Card = \<lparr>ca_Name = ld_Name legacy, ca_Description = ld_Description legacy, ca_Rest = ''''\<rparr>,
               as_Engine = \<lparr>en_Kind = engineKind, en_Impl = engineImpl, en_Deps = [],
                 en_Settings = graphSettings ops (ld_Graph legacy)\<rparr>,
               as_CreatedAt = ld_CreatedAt legacy\<rparr>
      | Inr None \<Rightarrow>
          (case dec_spec_strict ops data of
             Inl e \<Rightarrow> Inl (Wrapped ''parse'' (OtherError e))
           | Inr spec \<Rightarrow>
               if as_Version spec \<noteq> 0 \<and> as_Version spec \<noteq> specVersion
               then Inl (OtherError ''unsupported declaration version'') else Inr spec))"

definition check_declaration ::
  "('f, 'rt, 'g) agent_ops \<Rightarrow> string \<Rightarrow> AgentSpec \<Rightarrow> agent_error + AgentSpec" where
  "check_declaration ops dir spec0 =
     (case normalizeSpec ops spec0 of
        Inl e \<Rightarrow> Inl (Wrapped ''normalize'' e)
      | Inr spec \<Rightarrow>
          (case Validate ops spec of
             Some e \<Rightarrow> Inl (Wrapped ''validate'' e)
           | None \<Rightarrow>
               if ca_Name (as_Card spec) \<noteq> fp_Base ops dir
               then Inl (Validation ''the directory name is the identity'') else Inr spec))"

definition readSpec ::
  "('f, 'rt, 'g) agent_ops \<Rightarrow> 'f \<Rightarrow> string \<Rightarrow> agent_error + AgentSpec" where
  "readSpec ops fs dir =
     (case os_ReadFile ops fs (fp_Join ops dir specFile) of
        FileMissing \<Rightarrow> Inl NotExist
      | FileUnreadable e \<Rightarrow> Inl (OtherError e)
      | FileData data \<Rightarrow> try_bind (parse_declaration ops data) (check_declaration ops dir))"

definition scanDirs :: "('f, 'rt, 'g) agent_ops \<Rightarrow> ('f, 'rt) Lifecycle \<Rightarrow> string list" where
  "scanDirs ops l =
     (case os_ReadDir ops (lc_fs l) (lc_dir l) of
        Inl e \<Rightarrow> []
      | Inr entries \<Rightarrow>
          sort (map (\<lambda>(name, isDir). fp_Join ops (lc_dir l) name)
            (filter (\<lambda>(name, isDir). isDir \<and> \<not> has_prefix name ''.'') entries)))"

subsection \<open>Create, update, remove\<close>

record CreateResult =
  cr_Name :: string
  cr_Description :: string
  cr_PersistedTo :: string
  cr_CreatedAt :: instant

definition resultFor :: "string \<Rightarrow> AgentSpec \<Rightarrow> CreateResult" where
  "resultFor dir spec =
     \<lparr>cr_Name = ca_Name (as_Card spec), cr_Description = ca_Description (as_Card spec), cr_PersistedTo = dir,
      cr_CreatedAt = as_CreatedAt spec\<rparr>"

definition notReady :: agent_error where "notReady = NotAvailable ''agents: runtime not ready''"

definition register ::
  "('f, 'rt, 'g) agent_ops \<Rightarrow> string \<Rightarrow> agent_definition \<Rightarrow> ('f, 'rt) Lifecycle \<Rightarrow>
   agent_error option \<times> ('f, 'rt) Lifecycle" where
  "register ops name def l = (case rt_Register ops (lc_rt l) name def of (r, rt') \<Rightarrow> (r, l\<lparr>lc_rt := rt'\<rparr>))"

definition unregister ::
  "('f, 'rt, 'g) agent_ops \<Rightarrow> string \<Rightarrow> ('f, 'rt) Lifecycle \<Rightarrow> agent_error option \<times> ('f, 'rt) Lifecycle" where
  "unregister ops name l = (case rt_Unregister ops (lc_rt l) name of (r, rt') \<Rightarrow> (r, l\<lparr>lc_rt := rt'\<rparr>))"

definition rollback_create ::
  "('f, 'rt, 'g) agent_ops \<Rightarrow> string \<Rightarrow> ('f, 'rt) Lifecycle \<Rightarrow> ('f, 'rt) Lifecycle" where
  "rollback_create ops name l =
     (case unregister ops name l of
        (Some e, l') \<Rightarrow> l'
      | (None, l') \<Rightarrow> forgetKnown name l')"

definition Create ::
  "('f, 'rt, 'g) agent_ops \<Rightarrow> instant \<Rightarrow> AgentSpec \<Rightarrow> ('f, 'rt) Lifecycle \<Rightarrow>
   (agent_error + CreateResult) \<times> ('f, 'rt) Lifecycle" where
  "Create ops now spec0 l =
     (let stamped = (if as_CreatedAt spec0 = zero_time then spec0\<lparr>as_CreatedAt := now\<rparr> else spec0) in
      case normalizeSpec ops stamped of
        Inl e \<Rightarrow> (Inl (Wrapped ''normalize declaration'' e), l)
      | Inr spec \<Rightarrow>
          (case Validate ops spec of
             Some e \<Rightarrow> (Inl e, l)
           | None \<Rightarrow>
               if \<not> lc_bound l then (Inl notReady, l)
               else
                 (let name = ca_Name (as_Card spec) in
                  case agentDefinition ops l spec of
                    Inl e \<Rightarrow> (Inl (Wrapped ''assemble definition'' e), l)
                  | Inr def \<Rightarrow>
                      (case register ops name def l of
                         (Some e, l1) \<Rightarrow> (Inl (Wrapped ''register'' e), l1)
                       | (None, l1) \<Rightarrow>
                           (case writeSpec ops spec l1 of
                              (Some e, l2) \<Rightarrow> (Inl (Wrapped ''persist'' e), rollback_create ops name l2)
                            | (None, l2) \<Rightarrow>
                                (Inr (resultFor (agentDir ops l2 name) spec), markKnown name l2))))))"

text \<open>\<open>restoreAfterFailedUpdate\<close>: its own failures are only logged.\<close>

definition restoreAfterFailedUpdate ::
  "('f, 'rt, 'g) agent_ops \<Rightarrow> string \<Rightarrow> AgentSpec \<Rightarrow> ('f, 'rt) Lifecycle \<Rightarrow> ('f, 'rt) Lifecycle" where
  "restoreAfterFailedUpdate ops name old l =
     (case unregister ops name l of
        (Some e, l1) \<Rightarrow> l1
      | (None, l1) \<Rightarrow>
          (case agentDefinition ops l1 old of
             Inl e \<Rightarrow> l1
           | Inr def \<Rightarrow> snd (register ops (ca_Name (as_Card old)) def l1)))"

definition swap_definition ::
  "('f, 'rt, 'g) agent_ops \<Rightarrow> string \<Rightarrow> string \<Rightarrow> AgentSpec \<Rightarrow> AgentSpec \<Rightarrow> agent_definition \<Rightarrow>
   ('f, 'rt) Lifecycle \<Rightarrow> (agent_error + CreateResult) \<times> ('f, 'rt) Lifecycle" where
  "swap_definition ops dir name old updated def l =
     (case unregister ops name l of
        (Some e, l1) \<Rightarrow> (Inl (Wrapped ''unregister for update'' e), l1)
      | (None, l1) \<Rightarrow>
          (case register ops name def l1 of
             (Some e, l2) \<Rightarrow> (Inl (Wrapped ''register updated'' e), restoreAfterFailedUpdate ops name old l2)
           | (None, l2) \<Rightarrow>
               (case writeSpec ops updated l2 of
                  (Some e, l3) \<Rightarrow> (Inl (Wrapped ''persist updated'' e), restoreAfterFailedUpdate ops name old l3)
                | (None, l3) \<Rightarrow> (Inr (resultFor dir updated), l3))))"

definition apply_changes ::
  "('f, 'rt, 'g) agent_ops \<Rightarrow> string \<Rightarrow> string \<Rightarrow> AgentSpec \<Rightarrow> AgentSpec" where
  "apply_changes ops description graph old =
     (let described = (if trim_space description \<noteq> ''''
                       then old\<lparr>as_Card := (as_Card old)\<lparr>ca_Description := description\<rparr>\<rparr> else old)
      in if trim_space graph \<noteq> ''''
         then described\<lparr>as_Engine := (as_Engine described)\<lparr>en_Settings := graphSettings ops graph\<rparr>\<rparr>
         else described)"

definition Update ::
  "('f, 'rt, 'g) agent_ops \<Rightarrow> string \<Rightarrow> string \<Rightarrow> string \<Rightarrow> ('f, 'rt) Lifecycle \<Rightarrow>
   (agent_error + CreateResult) \<times> ('f, 'rt) Lifecycle" where
  "Update ops name description graph l =
     (case validateAgentName name of
        Some e \<Rightarrow> (Inl e, l)
      | None \<Rightarrow>
          if trim_space description = '''' \<and> trim_space graph = '''' then (Inl (Validation ''nothing to update''), l)
          else if \<not> lc_bound l then (Inl notReady, l)
          else
            (let dir = agentDir ops l name in
             case readSpec ops (lc_fs l) dir of
               Inl e \<Rightarrow>
                 (Inl (if e = NotExist then NotFound ''not a persisted agent'' else Wrapped ''read declaration'' e), l)
             | Inr old \<Rightarrow>
                 (case normalizeSpec ops (apply_changes ops description graph old) of
                    Inl e \<Rightarrow> (Inl (Wrapped ''normalize declaration'' e), l)
                  | Inr updated \<Rightarrow>
                      (case GraphText ops old of
                         Inl e \<Rightarrow> (Inl (Wrapped ''render current graph'' e), l)
                       | Inr oldGraph \<Rightarrow>
                           (case GraphText ops updated of
                              Inl e \<Rightarrow> (Inl (Wrapped ''render updated graph'' e), l)
                            | Inr updatedGraph \<Rightarrow>
                                if ca_Description (as_Card old) = ca_Description (as_Card updated) \<and>
                                  oldGraph = updatedGraph
                                then (Inr (resultFor dir updated), l)
                                else
                                  (case Validate ops updated of
                                     Some e \<Rightarrow> (Inl e, l)
                                   | None \<Rightarrow>
                                       (case agentDefinition ops l updated of
                                          Inl e \<Rightarrow> (Inl (Wrapped ''assemble definition'' e), l)
                                        | Inr def \<Rightarrow> swap_definition ops dir name old updated def l)))))))"

definition Detail ::
  "('f, 'rt, 'g) agent_ops \<Rightarrow> string \<Rightarrow> ('f, 'rt) Lifecycle \<Rightarrow> agent_error + AgentSpec" where
  "Detail ops name l =
     (case validateAgentName name of
        Some e \<Rightarrow> Inl e
      | None \<Rightarrow>
          (case readSpec ops (lc_fs l) (agentDir ops l name) of
             Inl e \<Rightarrow> Inl (if e = NotExist then NotFound ''not a persisted agent'' else Wrapped ''read declaration'' e)
           | Inr spec \<Rightarrow> Inr spec))"

definition Remove_agent ::
  "('f, 'rt, 'g) agent_ops \<Rightarrow> string \<Rightarrow> ('f, 'rt) Lifecycle \<Rightarrow> agent_error option \<times> ('f, 'rt) Lifecycle" where
  "Remove_agent ops name l =
     (case validateAgentName name of
        Some e \<Rightarrow> (Some e, l)
      | None \<Rightarrow>
          if \<not> lc_bound l then (Some notReady, l)
          else
            (case unregister ops name l of
               (Some e, l1) \<Rightarrow> (Some (Wrapped ''unregister'' e), l1)
             | (None, l1) \<Rightarrow>
                 (let l2 = forgetKnown name l1 in
                  case os_RemoveAll ops (lc_fs l2) (agentDir ops l2 name) of
                    (r, fs') \<Rightarrow>
                      (map_option (\<lambda>e. Wrapped ''unregistered but not removed'' (OtherError e)) r,
                       l2\<lparr>lc_fs := fs'\<rparr>))))"

subsection \<open>Loading\<close>

type_synonym LoadError = "string \<times> agent_error"

text \<open>One declaration of \<open>LoadAll\<close> and of \<open>LoadMissing\<close>.\<close>

definition load_dir ::
  "('f, 'rt, 'g) agent_ops \<Rightarrow> string \<Rightarrow> ('f, 'rt) Lifecycle \<Rightarrow> LoadError list \<times> ('f, 'rt) Lifecycle" where
  "load_dir ops dir l =
     (case readSpec ops (lc_fs l) dir of
        Inl e \<Rightarrow> ([(fp_Base ops dir, e)], l)
      | Inr spec \<Rightarrow>
          (let name = ca_Name (as_Card spec) in
           case agentDefinition ops l spec of
             Inl e \<Rightarrow> ([(name, e)], l)
           | Inr def \<Rightarrow>
               (case register ops name def l of
                  (Some e, l') \<Rightarrow> ([(name, e)], l')
                | (None, l') \<Rightarrow> ([], markKnown name l'))))"

fun isConflict :: "agent_error \<Rightarrow> bool" where
  "isConflict (Conflict s) = True"
| "isConflict (Wrapped s e) = isConflict e"
| "isConflict _ = False"

definition load_missing_dir ::
  "('f, 'rt, 'g) agent_ops \<Rightarrow> string \<Rightarrow> ('f, 'rt) Lifecycle \<Rightarrow> LoadError list \<times> ('f, 'rt) Lifecycle" where
  "load_missing_dir ops dir l =
     (case readSpec ops (lc_fs l) dir of
        Inl e \<Rightarrow> ([(fp_Base ops dir, e)], l)
      | Inr spec \<Rightarrow>
          (let name = ca_Name (as_Card spec) in
           if isKnown name l then ([], l)
           else
             (case agentDefinition ops l spec of
                Inl e \<Rightarrow> ([(name, e)], l)
              | Inr def \<Rightarrow>
                  (case register ops name def l of
                     (Some e, l') \<Rightarrow> if isConflict e then ([], markKnown name l') else ([(name, e)], l')
                   | (None, l') \<Rightarrow> ([], markKnown name l')))))"

fun load_dirs ::
  "(string \<Rightarrow> 's \<Rightarrow> LoadError list \<times> 's) \<Rightarrow> string list \<Rightarrow> 's \<Rightarrow> LoadError list \<times> 's" where
  "load_dirs f [] l = ([], l)"
| "load_dirs f (dir # dirs) l =
     (case f dir l of
        (errs, l') \<Rightarrow> (case load_dirs f dirs l' of (errs', l'') \<Rightarrow> (errs @ errs', l'')))"

definition LoadAll ::
  "('f, 'rt, 'g) agent_ops \<Rightarrow> ('f, 'rt) Lifecycle \<Rightarrow> LoadError list \<times> ('f, 'rt) Lifecycle" where
  "LoadAll ops l =
     (if \<not> lc_bound l then ([('''', notReady)], l) else load_dirs (load_dir ops) (scanDirs ops l) l)"

definition LoadMissing ::
  "('f, 'rt, 'g) agent_ops \<Rightarrow> ('f, 'rt) Lifecycle \<Rightarrow> LoadError list \<times> ('f, 'rt) Lifecycle" where
  "LoadMissing ops l =
     (if \<not> lc_bound l then ([('''', notReady)], l) else load_dirs (load_missing_dir ops) (scanDirs ops l) l)"

record Summary =
  sm_Name :: string
  sm_Description :: string
  sm_CreatedAt :: instant

definition List_agents :: "('f, 'rt, 'g) agent_ops \<Rightarrow> ('f, 'rt) Lifecycle \<Rightarrow> Summary list" where
  "List_agents ops l =
     sort_key sm_Name (concat (map (\<lambda>dir.
       case readSpec ops (lc_fs l) dir of
         Inl e \<Rightarrow> []
       | Inr spec \<Rightarrow>
           [\<lparr>sm_Name = ca_Name (as_Card spec), sm_Description = ca_Description (as_Card spec),
             sm_CreatedAt = as_CreatedAt spec\<rparr>]) (scanDirs ops l)))"

subsection \<open>The tools\<close>

datatype 'a tool_outcome = Cancelled_by_user | Performed 'a

datatype agent_tool_error = BadToolArguments string | NotConfirmed ask_error | LifecycleFailed agent_error

definition confirmed ::
  "ask_error + bool \<Rightarrow> ((agent_error + 'a) \<times> 's) \<Rightarrow> 's \<Rightarrow> (agent_tool_error + 'a tool_outcome) \<times> 's" where
  "confirmed answer act l =
     (case answer of
        Inl e \<Rightarrow> (Inl (NotConfirmed e), l)
      | Inr ok \<Rightarrow>
          if \<not> ok then (Inr Cancelled_by_user, l)
          else (case act of (Inl e, l') \<Rightarrow> (Inl (LifecycleFailed e), l') | (Inr r, l') \<Rightarrow> (Inr (Performed r), l')))"

record agent_args =
  ag_Name :: string
  ag_Description :: string
  ag_Graph :: string

text \<open>\<open>quote\<close> is \<open>fmt\<close>'s \<open>%q\<close>; the arguments are decoded strictly, or fail to be.\<close>

definition create_question :: "(string \<Rightarrow> string) \<Rightarrow> agent_args \<Rightarrow> string" where
  "create_question quote a =
     ''Create persistent subagent '' @ quote (ag_Name a) @ '' ('' @ [CHR 0x22] @ ag_Description a @ [CHR 0x22] @
     '')? Its graph definition persists under ~/.opencraft/agents and is re-registered on every startup.''"

definition createTool_execute ::
  "('f, 'rt, 'g) agent_ops \<Rightarrow> codec \<Rightarrow> (string \<Rightarrow> string) \<Rightarrow> 'x user_host \<Rightarrow> instant \<Rightarrow> string + agent_args \<Rightarrow>
   ('f, 'rt) Lifecycle \<Rightarrow> (agent_tool_error + CreateResult tool_outcome) \<times> ('f, 'rt) Lifecycle" where
  "createTool_execute ops cd quote host now args l =
     (case args of
        Inl e \<Rightarrow> (Inl (BadToolArguments e), l)
      | Inr a \<Rightarrow>
          confirmed (Confirm cd host ''Create subagent?'' (create_question quote a))
            (Create ops now (NewSpec ops (ag_Name a) (ag_Description a) (ag_Graph a)) l) l)"

definition update_question :: "(string \<Rightarrow> string) \<Rightarrow> agent_args \<Rightarrow> string" where
  "update_question quote a =
     ''Update persistent subagent '' @ quote (ag_Name a) @
     ''? Its description and/or graph definition will be replaced.''"

definition updateTool_execute ::
  "('f, 'rt, 'g) agent_ops \<Rightarrow> codec \<Rightarrow> (string \<Rightarrow> string) \<Rightarrow> 'x user_host \<Rightarrow> string + agent_args \<Rightarrow>
   ('f, 'rt) Lifecycle \<Rightarrow> (agent_tool_error + CreateResult tool_outcome) \<times> ('f, 'rt) Lifecycle" where
  "updateTool_execute ops cd quote host args l =
     (case args of
        Inl e \<Rightarrow> (Inl (BadToolArguments e), l)
      | Inr a \<Rightarrow>
          confirmed (Confirm cd host ''Update subagent?'' (update_question quote a))
            (Update ops (ag_Name a) (ag_Description a) (ag_Graph a) l) l)"

definition remove_question :: "(string \<Rightarrow> string) \<Rightarrow> agent_args \<Rightarrow> string" where
  "remove_question quote a =
     ''Remove persistent subagent '' @ quote (ag_Name a) @
     ''? In-flight delegations drain and its declaration under ~/.opencraft/agents is deleted.''"

definition removeTool_execute ::
  "('f, 'rt, 'g) agent_ops \<Rightarrow> codec \<Rightarrow> (string \<Rightarrow> string) \<Rightarrow> 'x user_host \<Rightarrow> string + agent_args \<Rightarrow>
   ('f, 'rt) Lifecycle \<Rightarrow> (agent_tool_error + string tool_outcome) \<times> ('f, 'rt) Lifecycle" where
  "removeTool_execute ops cd quote host args l =
     (case args of
        Inl e \<Rightarrow> (Inl (BadToolArguments e), l)
      | Inr a \<Rightarrow>
          confirmed (Confirm cd host ''Remove subagent?'' (remove_question quote a))
            (case Remove_agent ops (ag_Name a) l of
               (Some e, l') \<Rightarrow> (Inl e, l')
             | (None, l') \<Rightarrow> (Inr (ag_Name a), l')) l)"

end
