(* ===== verification/Prompts.thy ===== *)
theory Prompts
  imports Interact Goroutines
begin

text \<open>
  A prompt on its way to the user and back: the broker of the runtime's prompt events,
  \<open>src/internal/orchestration/interact/broker.go\<close>, with its backends, the desktop's pending registry
  (\<open>src/internal/adapters/desktop/core/prompt.go\<close>, with the auto-approver of \<open>autoapprove.go\<close>) and the
  headless one (\<open>auto.go\<close>). Goroutines interleave between the critical sections of \<open>Broker.mu\<close> and
  \<open>Prompt.mu\<close>, the channel operations and the calls out; \<open>prompt_section\<close> runs one to the next such
  point. A reply channel is a number, its buffer of one an entry of \<open>ui_chans\<close>; a turn is a number. What
  a section reads from outside (the run's conversation, what the auto-approver finds, whether the
  context is done, whether the turn takes the reply) is its \<open>prompt_in\<close> argument. \<open>rt_replies\<close> records
  every reply handed to a turn, \<open>ui_log\<close> every event sent to the frontend.
\<close>

subsection \<open>Reasons\<close>

datatype ask_failure =
    DeadlineExceeded | ContextCanceled | InterruptedAs "(string \<times> string) option" | OtherFailure string

datatype PromptStatus = PromptExpired | PromptClosed | OtherStatus string

text \<open>\<open>unknown\<close> is \<open>agent.CauseUnknown\<close>; an interruption carries its detail and cause when it unwraps.\<close>

fun promptReason :: "string \<Rightarrow> ask_failure \<Rightarrow> PromptStatus \<Rightarrow> string" where
  "promptReason unknown DeadlineExceeded st = ''timeout''"
| "promptReason unknown ContextCanceled st = (if st = PromptClosed then ''turn ended'' else ''cancelled'')"
| "promptReason unknown (InterruptedAs None) st = ''interrupted''"
| "promptReason unknown (InterruptedAs (Some (detail, cause))) st =
     (if detail \<noteq> '''' then detail
      else if cause \<noteq> '''' \<and> cause \<noteq> unknown then cause
      else ''interrupted'')"
| "promptReason unknown (OtherFailure msg) st = takeWhile (\<lambda>c. c \<noteq> CHR 0x0A) msg"

fun fallbackPromptReason :: "PromptStatus \<Rightarrow> string" where
  "fallbackPromptReason PromptExpired = ''context ended''"
| "fallbackPromptReason PromptClosed = ''turn ended''"
| "fallbackPromptReason (OtherStatus st) = ''''"

subsection \<open>Answering without the user\<close>

text \<open>What \<open>autoApproveConfirm\<close> looks up: the core's wiring, the run's workspace, its Host and store, the mode.\<close>

record yolo_env =
  ye_wired :: bool
  ye_workDir :: string
  ye_pooled :: bool
  ye_store :: bool
  ye_yolo :: "string + bool"

definition offersOption :: "PromptOption list \<Rightarrow> string \<Rightarrow> bool" where
  "offersOption options v = list_ex (\<lambda>opt. op_Value opt = v) options"

definition autoApproveConfirm :: "yolo_env \<Rightarrow> 'x Spec \<Rightarrow> string \<Rightarrow> string \<times> bool" where
  "autoApproveConfirm y spec conversationID =
     (if sp_Source spec \<noteq> ''opencraft.confirm'' \<or> conversationID = '''' then ('''', False)
      else if sp_Kind spec \<noteq> KindConfirm \<or> \<not> offersOption (sp_Options spec) OptionYes then ('''', False)
      else if \<not> ye_wired y then ('''', False)
      else if ye_workDir y = '''' then ('''', False)
      else if \<not> ye_pooled y then ('''', False)
      else if \<not> ye_store y then ('''', False)
      else (case ye_yolo y of
              Inl e \<Rightarrow> ('''', False)
            | Inr mode \<Rightarrow> if mode then (OptionYes, True) else ('''', False)))"

subsection \<open>State\<close>

datatype backend = PromptBackend | AutoBackend

record ('env, 'r, 'x) prompt_env =
  pv_codec :: codec
  pv_decoder :: "('env, 'r, 'x) decoder"
  pv_fallback :: backend
  pv_for :: "string \<Rightarrow> backend option"
  pv_unknown :: string
  pv_notify :: bool

datatype 'x ui_event =
    ShowPrompt "'x Spec" string
  | ShowResolved string PromptStatus string "string option"

datatype 'x thread =
    AskStart "'x Spec"
  | AskRegister "'x Spec" string
  | AskNotify "'x Spec" nat string
  | AskWait "'x Spec" nat
  | AskDone "'x Spec" "ask_failure + 'x Reply"
  | AskReturned "'x Spec" "ask_failure + 'x Reply"
  | Deliver "'x Spec" "'x Reply"
  | CallReply "'x Spec" nat "'x Reply"
  | DropReason string
  | SendAnswer nat "'x Reply"
  | ResolveUI string PromptStatus string
  | NotifyResolved string PromptStatus string "string option"

record prompt_in =
  i_conv :: string
  i_yolo :: "yolo_env option"
  i_done :: "ask_failure option"
  i_reply_first :: bool
  i_reply_ok :: bool

record 'x prompt_sys =
  bk_subscribed :: bool
  bk_closed :: bool
  bk_turns :: "string \<rightharpoonup> nat"
  bk_reasons :: "string \<rightharpoonup> ask_failure"
  ui_pending :: "string \<rightharpoonup> nat \<times> string"
  ui_chans :: "'x Reply option list"
  ui_log :: "'x ui_event list"
  rt_replies :: "(nat \<times> string \<times> 'x UserReply) list"
  ps_threads :: "'x thread list"

definition new_prompts :: "'x prompt_sys" where
  "new_prompts = \<lparr>bk_subscribed = False, bk_closed = False, bk_turns = Map.empty, bk_reasons = Map.empty,
     ui_pending = Map.empty, ui_chans = [], ui_log = [], rt_replies = [], ps_threads = []\<rparr>"

subsection \<open>The broker\<close>

text \<open>\<open>Attach\<close> succeeds with both subscriptions or leaves none.\<close>

definition Attach :: "bool \<Rightarrow> 'x prompt_sys \<Rightarrow> 'x prompt_sys" where
  "Attach both s = (if both then s\<lparr>bk_subscribed := True\<rparr> else s)"

definition Broker_Close :: "'x prompt_sys \<Rightarrow> 'x prompt_sys" where
  "Broker_Close s = (if bk_closed s then s else s\<lparr>bk_closed := True, bk_subscribed := False\<rparr>)"

definition BindTurn :: "string \<Rightarrow> nat \<Rightarrow> 'x prompt_sys \<Rightarrow> 'x prompt_sys" where
  "BindTurn turnID turn s = s\<lparr>bk_turns := (bk_turns s)(turnID \<mapsto> turn)\<rparr>"

definition UnbindTurn :: "string \<Rightarrow> 'x prompt_sys \<Rightarrow> 'x prompt_sys" where
  "UnbindTurn turnID s = s\<lparr>bk_turns := (bk_turns s)(turnID := None)\<rparr>"

definition onPromptRequested :: "('env, 'r, 'x) prompt_env \<Rightarrow> 'env \<Rightarrow> 'x thread list" where
  "onPromptRequested pv env =
     (case decodePromptRequested (pv_decoder pv) env of
        Inl e \<Rightarrow> []
      | Inr req \<Rightarrow> [AskStart (prompt_spec (pv_codec pv) req)])"

definition cancelled_reply :: "string \<Rightarrow> 'x Reply" where
  "cancelled_reply pid = \<lparr>rp_ID = pid, rp_Status = ReplyCancelled, rp_Text = '''', rp_Option = None,
     rp_Options = [], rp_Parts = [], rp_Metadata = Map.empty\<rparr>"

definition auto_reply :: "string \<Rightarrow> string \<Rightarrow> 'x Reply" where
  "auto_reply pid option = \<lparr>rp_ID = pid, rp_Status = ReplyOK, rp_Text = '''', rp_Option = Some option,
     rp_Options = [], rp_Parts = [], rp_Metadata = Map.empty\<rparr>"

text \<open>The choice of the backend, and its \<open>Ask\<close> up to the registration of the prompt.\<close>

definition Auto_Ask :: "ask_failure + 'x Reply" where
  "Auto_Ask = Inl (OtherFailure ''opencraft: no interactive user backend'')"

definition ask_start ::
  "('env, 'r, 'x) prompt_env \<Rightarrow> prompt_in \<Rightarrow> 'x Spec \<Rightarrow> 'x prompt_sys \<Rightarrow> 'x prompt_sys \<times> 'x thread list" where
  "ask_start pv inp spec s =
     (let backend = (case pv_for pv (sp_RunID spec) of Some alt \<Rightarrow> alt | None \<Rightarrow> pv_fallback pv) in
      case backend of
        AutoBackend \<Rightarrow> (s, [AskReturned spec Auto_Ask])
      | PromptBackend \<Rightarrow>
          (case i_yolo inp of
             None \<Rightarrow> (s, [AskRegister spec (i_conv inp)])
           | Some y \<Rightarrow>
               (case autoApproveConfirm y spec (i_conv inp) of
                  (option, ok) \<Rightarrow>
                    if ok \<and> option \<noteq> '''' then (s, [AskReturned spec (Inr (auto_reply (sp_ID spec) option))])
                    else (s, [AskRegister spec (i_conv inp)]))))"

definition ask_register ::
  "'x Spec \<Rightarrow> string \<Rightarrow> 'x prompt_sys \<Rightarrow> 'x prompt_sys \<times> 'x thread list" where
  "ask_register spec conv s =
     (s\<lparr>ui_chans := ui_chans s @ [None],
        ui_pending := (ui_pending s)(sp_ID spec \<mapsto> (length (ui_chans s), conv))\<rparr>,
      [AskNotify spec (length (ui_chans s)) conv])"

definition ask_notify ::
  "bool \<Rightarrow> 'x Spec \<Rightarrow> nat \<Rightarrow> string \<Rightarrow> 'x prompt_sys \<Rightarrow> 'x prompt_sys \<times> 'x thread list" where
  "ask_notify notify spec ch conv s =
     ((if notify then s\<lparr>ui_log := ui_log s @ [ShowPrompt spec conv]\<rparr> else s), [AskWait spec ch])"

definition ask_wait ::
  "prompt_in \<Rightarrow> 'x Spec \<Rightarrow> nat \<Rightarrow> 'x prompt_sys \<Rightarrow> 'x prompt_sys \<times> 'x thread list" where
  "ask_wait inp spec ch s =
     (case (ui_chans s ! ch, i_done inp) of
        (None, None) \<Rightarrow> (s, [AskWait spec ch])
      | (None, Some e) \<Rightarrow> (s, [AskDone spec (Inl e)])
      | (Some r, done) \<Rightarrow>
          (case done of
             Some e \<Rightarrow> if i_reply_first inp then (s\<lparr>ui_chans := (ui_chans s)[ch := None]\<rparr>, [AskDone spec (Inr r)])
                       else (s, [AskDone spec (Inl e)])
           | None \<Rightarrow> (s\<lparr>ui_chans := (ui_chans s)[ch := None]\<rparr>, [AskDone spec (Inr r)])))"

definition ask_done ::
  "'x Spec \<Rightarrow> ask_failure + 'x Reply \<Rightarrow> 'x prompt_sys \<Rightarrow> 'x prompt_sys \<times> 'x thread list" where
  "ask_done spec res s = (s\<lparr>ui_pending := (ui_pending s)(sp_ID spec := None)\<rparr>, [AskReturned spec res])"

definition ask_returned ::
  "'x Spec \<Rightarrow> ask_failure + 'x Reply \<Rightarrow> 'x prompt_sys \<Rightarrow> 'x prompt_sys \<times> 'x thread list" where
  "ask_returned spec res s =
     (case res of
        Inl e \<Rightarrow> (s\<lparr>bk_reasons := (bk_reasons s)(sp_ID spec \<mapsto> e)\<rparr>, [Deliver spec (cancelled_reply (sp_ID spec))])
      | Inr reply \<Rightarrow> (s, [Deliver spec reply]))"

text \<open>A reply for a turn that is no longer bound is dropped.\<close>

definition deliver :: "'x Spec \<Rightarrow> 'x Reply \<Rightarrow> 'x prompt_sys \<Rightarrow> 'x prompt_sys \<times> 'x thread list" where
  "deliver spec reply s =
     (case bk_turns s (sp_TurnID spec) of
        None \<Rightarrow> (s, [])
      | Some turn \<Rightarrow> (s, [CallReply spec turn (reply\<lparr>rp_ID := sp_ID spec\<rparr>)]))"

definition call_reply ::
  "('env, 'r, 'x) prompt_env \<Rightarrow> prompt_in \<Rightarrow> 'x Spec \<Rightarrow> nat \<Rightarrow> 'x Reply \<Rightarrow> 'x prompt_sys \<Rightarrow>
   'x prompt_sys \<times> 'x thread list" where
  "call_reply pv inp spec turn reply s =
     (s\<lparr>rt_replies := rt_replies s @ [(turn, sp_ID spec, ToUserReply (pv_codec pv) reply)]\<rparr>,
      if i_reply_ok inp then [DropReason (sp_ID spec)] else [])"

definition drop_reason :: "string \<Rightarrow> 'x prompt_sys \<Rightarrow> 'x prompt_sys \<times> 'x thread list" where
  "drop_reason pid s = (s\<lparr>bk_reasons := (bk_reasons s)(pid := None)\<rparr>, [])"

definition resolutionReason ::
  "string \<Rightarrow> string \<Rightarrow> PromptStatus \<Rightarrow> 'x prompt_sys \<Rightarrow> string \<times> 'x prompt_sys" where
  "resolutionReason unknown pid st s =
     ((case bk_reasons s pid of
         Some e \<Rightarrow> promptReason unknown e st
       | None \<Rightarrow> fallbackPromptReason st),
      s\<lparr>bk_reasons := (bk_reasons s)(pid := None)\<rparr>)"

text \<open>Only the fallback backend is told, and only when it resolves.\<close>

definition onPromptResolved ::
  "('env, 'r, 'x) prompt_env \<Rightarrow> string + string \<times> PromptStatus \<Rightarrow> 'x prompt_sys \<Rightarrow>
   'x prompt_sys \<times> 'x thread list" where
  "onPromptResolved pv res s =
     (case res of
        Inl e \<Rightarrow> (s, [])
      | Inr (pid, st) \<Rightarrow>
          (case resolutionReason (pv_unknown pv) pid st s of
             (reason, s') \<Rightarrow> (s', if pv_fallback pv = PromptBackend then [ResolveUI pid st reason] else [])))"

subsection \<open>The desktop's registry\<close>

definition answer_reply ::
  "string \<Rightarrow> string \<Rightarrow> string \<Rightarrow> string list \<Rightarrow> bool \<Rightarrow> 'x Reply" where
  "answer_reply pid text option options cancel =
     (if cancel then cancelled_reply pid
      else \<lparr>rp_ID = pid, rp_Status = ReplyOK, rp_Text = text,
            rp_Option = (if option \<noteq> '''' then Some option else None), rp_Options = options,
            rp_Parts = [], rp_Metadata = Map.empty\<rparr>)"

definition Answer ::
  "string \<Rightarrow> string \<Rightarrow> string \<Rightarrow> string list \<Rightarrow> bool \<Rightarrow> 'x prompt_sys \<Rightarrow>
   bool \<times> 'x prompt_sys \<times> 'x thread list" where
  "Answer pid text option options cancel s =
     (case ui_pending s pid of
        None \<Rightarrow> (False, s, [])
      | Some (ch, conv) \<Rightarrow>
          (True, s\<lparr>ui_pending := (ui_pending s)(pid := None)\<rparr>,
           [SendAnswer ch (answer_reply pid text option options cancel)]))"

text \<open>A send on a full buffer blocks.\<close>

definition send_answer :: "nat \<Rightarrow> 'x Reply \<Rightarrow> 'x prompt_sys \<Rightarrow> 'x prompt_sys \<times> 'x thread list" where
  "send_answer ch reply s =
     (if ui_chans s ! ch = None then (s\<lparr>ui_chans := (ui_chans s)[ch := Some reply]\<rparr>, [])
      else (s, [SendAnswer ch reply]))"

definition Resolve ::
  "string \<Rightarrow> PromptStatus \<Rightarrow> string \<Rightarrow> 'x prompt_sys \<Rightarrow> 'x prompt_sys \<times> 'x thread list" where
  "Resolve pid st reason s =
     (s\<lparr>ui_pending := (ui_pending s)(pid := None)\<rparr>,
      [NotifyResolved pid st reason
         (case ui_pending s pid of
            Some (ch, conv) \<Rightarrow> if conv \<noteq> '''' then Some conv else None
          | None \<Rightarrow> None)])"

definition notify_resolved ::
  "bool \<Rightarrow> string \<Rightarrow> PromptStatus \<Rightarrow> string \<Rightarrow> string option \<Rightarrow> 'x prompt_sys \<Rightarrow>
   'x prompt_sys \<times> 'x thread list" where
  "notify_resolved notify pid st reason conv s =
     ((if notify then s\<lparr>ui_log := ui_log s @ [ShowResolved pid st reason conv]\<rparr> else s), [])"

subsection \<open>Interleavings\<close>

fun prompt_section ::
  "('env, 'r, 'x) prompt_env \<Rightarrow> prompt_in \<Rightarrow> 'x thread \<Rightarrow> 'x prompt_sys \<Rightarrow> 'x prompt_sys \<times> 'x thread list" where
  "prompt_section pv inp (AskStart spec) s = ask_start pv inp spec s"
| "prompt_section pv inp (AskRegister spec conv) s = ask_register spec conv s"
| "prompt_section pv inp (AskNotify spec ch conv) s = ask_notify (pv_notify pv) spec ch conv s"
| "prompt_section pv inp (AskWait spec ch) s = ask_wait inp spec ch s"
| "prompt_section pv inp (AskDone spec res) s = ask_done spec res s"
| "prompt_section pv inp (AskReturned spec res) s = ask_returned spec res s"
| "prompt_section pv inp (Deliver spec reply) s = deliver spec reply s"
| "prompt_section pv inp (CallReply spec turn reply) s = call_reply pv inp spec turn reply s"
| "prompt_section pv inp (DropReason pid) s = drop_reason pid s"
| "prompt_section pv inp (SendAnswer ch reply) s = send_answer ch reply s"
| "prompt_section pv inp (ResolveUI pid st reason) s = Resolve pid st reason s"
| "prompt_section pv inp (NotifyResolved pid st reason conv) s = notify_resolved (pv_notify pv) pid st reason conv s"

datatype 'env prompt_event =
    CallAttach bool | CallClose
  | CallBind string nat | CallUnbind string
  | Requested 'env
  | Resolved "string + string \<times> PromptStatus"
  | UserAnswers string string string "string list" bool
  | Go nat prompt_in

definition started :: "'x prompt_sys \<times> 'x thread list \<Rightarrow> 'x prompt_sys" where
  "started x = (case x of (s, new) \<Rightarrow> s\<lparr>ps_threads := ps_threads s @ new\<rparr>)"

fun prompt_step ::
  "('env, 'r, 'x) prompt_env \<Rightarrow> 'env prompt_event \<Rightarrow> 'x prompt_sys \<Rightarrow> 'x prompt_sys" where
  "prompt_step pv (CallAttach both) s = Attach both s"
| "prompt_step pv CallClose s = Broker_Close s"
| "prompt_step pv (CallBind turnID turn) s = BindTurn turnID turn s"
| "prompt_step pv (CallUnbind turnID) s = UnbindTurn turnID s"
| "prompt_step pv (Requested env) s = (if bk_subscribed s then started (s, onPromptRequested pv env) else s)"
| "prompt_step pv (Resolved res) s = (if bk_subscribed s then started (onPromptResolved pv res s) else s)"
| "prompt_step pv (UserAnswers pid text option options cancel) s =
     started (snd (Answer pid text option options cancel s))"
| "prompt_step pv (Go j inp) s =
     (if j < length (ps_threads s) then
        (case run_thread (prompt_section pv) inp j s (ps_threads s) of (s', ths) \<Rightarrow> s'\<lparr>ps_threads := ths\<rparr>)
      else s)"

definition prompts_run :: "('env, 'r, 'x) prompt_env \<Rightarrow> 'env prompt_event list \<Rightarrow> 'x prompt_sys" where
  "prompts_run pv evs = run_calls (prompt_step pv) evs new_prompts"

end
