(* ===== verification/PromptsLaws.thy ===== *)
theory PromptsLaws
  imports Prompts ExecPolicyLaws
begin

text \<open>
  What a prompt promises. A reply that reaches a turn was given for that very prompt: it is the empty
  cancellation of a failed ask, an answer of the user to it, or the yes of the auto-approver to a
  confirmation card; so a gate that reads it opens only on a click or in YOLO mode. The answer the
  user gives never blocks, and once the contexts are done every goroutine of the broker ends. Traces
  show a reason that is never dropped and a card shown after its prompt was resolved.
\<close>

subsection \<open>Where a reply comes from\<close>

definition asked :: "('env, 'r, 'x) prompt_env \<Rightarrow> 'env prompt_event set \<Rightarrow> 'x Spec \<Rightarrow> bool" where
  "asked pv E spec \<longleftrightarrow>
     (\<exists>env req. Requested env \<in> E \<and> decodePromptRequested (pv_decoder pv) env = Inr req \<and>
        spec = prompt_spec (pv_codec pv) req)"

definition answered :: "'env prompt_event set \<Rightarrow> string \<Rightarrow> 'x Reply \<Rightarrow> bool" where
  "answered E pid reply \<longleftrightarrow>
     (\<exists>text option options cancel. UserAnswers pid text option options cancel \<in> E \<and>
        reply = answer_reply pid text option options cancel)"

definition seen :: "'env prompt_event set \<Rightarrow> prompt_in \<Rightarrow> bool" where
  "seen E inp \<longleftrightarrow> (\<exists>j. Go j inp \<in> E)"

definition approved :: "'env prompt_event set \<Rightarrow> 'x Spec \<Rightarrow> 'x Reply \<Rightarrow> bool" where
  "approved E spec reply \<longleftrightarrow>
     (\<exists>inp y option. seen E inp \<and> i_yolo inp = Some y \<and>
        autoApproveConfirm y spec (i_conv inp) = (option, True) \<and> reply = auto_reply (sp_ID spec) option)"

definition given :: "'env prompt_event set \<Rightarrow> 'x Spec \<Rightarrow> 'x Reply \<Rightarrow> bool" where
  "given E spec reply \<longleftrightarrow>
     reply = cancelled_reply (sp_ID spec) \<or> answered E (sp_ID spec) reply \<or> approved E spec reply"

text \<open>
  The channel a goroutine waits on belongs to its prompt: \<open>own\<close> names the prompt a channel was made for.
\<close>

fun thread_ok ::
  "('env, 'r, 'x) prompt_env \<Rightarrow> 'env prompt_event set \<Rightarrow> (nat \<Rightarrow> string) \<Rightarrow> nat \<Rightarrow> 'x thread \<Rightarrow> bool" where
  "thread_ok pv E own n (AskStart spec) = asked pv E spec"
| "thread_ok pv E own n (AskRegister spec conv) = asked pv E spec"
| "thread_ok pv E own n (AskNotify spec ch conv) = (asked pv E spec \<and> ch < n \<and> own ch = sp_ID spec)"
| "thread_ok pv E own n (AskWait spec ch) = (asked pv E spec \<and> ch < n \<and> own ch = sp_ID spec)"
| "thread_ok pv E own n (AskDone spec res) =
     (asked pv E spec \<and> (case res of Inl e \<Rightarrow> True | Inr reply \<Rightarrow> given E spec reply))"
| "thread_ok pv E own n (AskReturned spec res) =
     (asked pv E spec \<and> (case res of Inl e \<Rightarrow> True | Inr reply \<Rightarrow> given E spec reply))"
| "thread_ok pv E own n (Deliver spec reply) = (asked pv E spec \<and> given E spec reply)"
| "thread_ok pv E own n (CallReply spec turn reply) =
     (asked pv E spec \<and> given E spec reply \<and> CallBind (sp_TurnID spec) turn \<in> E)"
| "thread_ok pv E own n (SendAnswer ch reply) = (ch < n \<and> answered E (own ch) reply)"
| "thread_ok pv E own n _ = True"

definition delivered_ok ::
  "('env, 'r, 'x) prompt_env \<Rightarrow> 'env prompt_event set \<Rightarrow> nat \<times> string \<times> 'x UserReply \<Rightarrow> bool" where
  "delivered_ok pv E = (\<lambda>(turn, pid, ureply). \<exists>spec reply.
     asked pv E spec \<and> sp_ID spec = pid \<and> CallBind (sp_TurnID spec) turn \<in> E \<and> given E spec reply \<and>
     ureply = ToUserReply (pv_codec pv) reply)"

definition pending_ok :: "(nat \<Rightarrow> string) \<Rightarrow> nat \<Rightarrow> (string \<rightharpoonup> nat \<times> string) \<Rightarrow> bool" where
  "pending_ok own n pend \<longleftrightarrow> (\<forall>pid ch conv. pend pid = Some (ch, conv) \<longrightarrow> ch < n \<and> own ch = pid)"

definition chans_ok :: "'env prompt_event set \<Rightarrow> (nat \<Rightarrow> string) \<Rightarrow> 'x Reply option list \<Rightarrow> bool" where
  "chans_ok E own chans \<longleftrightarrow> (\<forall>ch reply. ch < length chans \<longrightarrow> chans ! ch = Some reply \<longrightarrow> answered E (own ch) reply)"

definition turns_ok :: "'env prompt_event set \<Rightarrow> (string \<rightharpoonup> nat) \<Rightarrow> bool" where
  "turns_ok E turns \<longleftrightarrow> (\<forall>turnID turn. turns turnID = Some turn \<longrightarrow> CallBind turnID turn \<in> E)"

definition store_ok ::
  "('env, 'r, 'x) prompt_env \<Rightarrow> 'env prompt_event set \<Rightarrow> (nat \<Rightarrow> string) \<Rightarrow> 'x prompt_sys \<Rightarrow> bool" where
  "store_ok pv E own s \<longleftrightarrow>
     pending_ok own (length (ui_chans s)) (ui_pending s) \<and> chans_ok E own (ui_chans s) \<and>
     turns_ok E (bk_turns s) \<and> list_all (delivered_ok pv E) (rt_replies s)"

lemma pending_ok_drop: "pending_ok own n pend \<Longrightarrow> pending_ok own n (pend(pid := None))"
  by (auto simp: pending_ok_def)

lemma chans_ok_put:
  "chans_ok E own chans \<Longrightarrow> (\<And>reply. r = Some reply \<Longrightarrow> answered E (own ch) reply) \<Longrightarrow> chans_ok E own (chans[ch := r])"
  by (cases "ch < length chans") (auto simp: chans_ok_def nth_list_update split: if_splits)

lemma pending_ok_put:
  assumes "pending_ok own n pend"
  shows "pending_ok (own(n := pid)) (Suc n) (pend(pid \<mapsto> (n, conv)))"
  unfolding pending_ok_def
proof (intro allI impI)
  fix p ch c
  assume "(pend(pid \<mapsto> (n, conv))) p = Some (ch, c)"
  then consider "p = pid" "ch = n" | "pend p = Some (ch, c)" by (auto split: if_splits)
  then show "ch < Suc n \<and> (own(n := pid)) ch = p"
  proof cases
    case 2
    then have "ch < n \<and> own ch = p" using assms unfolding pending_ok_def by blast
    then show ?thesis by auto
  qed simp
qed

definition prompts_ok ::
  "('env, 'r, 'x) prompt_env \<Rightarrow> 'env prompt_event set \<Rightarrow> 'x prompt_sys \<Rightarrow> 'x thread list \<Rightarrow> bool" where
  "prompts_ok pv E s ths \<longleftrightarrow>
     (\<exists>own. store_ok pv E own s \<and> (\<forall>th\<in>set ths. thread_ok pv E own (length (ui_chans s)) th))"

lemma prompts_okI:
  "store_ok pv E own s \<Longrightarrow> \<forall>th\<in>set ths. thread_ok pv E own (length (ui_chans s)) th \<Longrightarrow> prompts_ok pv E s ths"
  unfolding prompts_ok_def by blast

text \<open>Registering a prompt makes a channel of its own.\<close>

lemma thread_ok_grow: "thread_ok pv E own n th \<Longrightarrow> thread_ok pv E (own(n := pid)) (Suc n) th"
  by (cases th) auto

lemma register_ok:
  assumes s: "store_ok pv E own s" and ths: "\<forall>th\<in>set (AskRegister spec conv # ths). thread_ok pv E own (length (ui_chans s)) th"
    and r: "ask_register spec conv s = (s', new)"
  shows "prompts_ok pv E s' (new @ ths)"
proof (rule prompts_okI [where own = "own(length (ui_chans s) := sp_ID spec)"])
  show "store_ok pv E (own(length (ui_chans s) := sp_ID spec)) s'"
    using s r by (auto simp: store_ok_def pending_ok_put chans_ok_def ask_register_def nth_append split: if_splits)
  show "\<forall>th\<in>set (new @ ths). thread_ok pv E (own(length (ui_chans s) := sp_ID spec)) (length (ui_chans s')) th"
    using ths r thread_ok_grow by (fastforce simp: ask_register_def)
qed

lemma same_store_ok:
  assumes "store_ok pv E own s" "\<forall>th\<in>set ths. thread_ok pv E own (length (ui_chans s)) th"
    "ui_chans s' = ui_chans s" "ui_pending s' = ui_pending s \<or> (\<exists>pid. ui_pending s' = (ui_pending s)(pid := None))"
    "bk_turns s' = bk_turns s" "rt_replies s' = rt_replies s"
    "\<forall>th\<in>set new. thread_ok pv E own (length (ui_chans s)) th"
  shows "prompts_ok pv E s' (new @ ths)"
proof (rule prompts_okI)
  show "store_ok pv E own s'"
    using assms(1,3,4,5,6) by (auto simp: store_ok_def pending_ok_drop)
  show "\<forall>th\<in>set (new @ ths). thread_ok pv E own (length (ui_chans s')) th"
    using assms(2,3,7) by auto
qed

lemma given_names_prompt: "given E spec reply \<Longrightarrow> reply\<lparr>rp_ID := sp_ID spec\<rparr> = reply"
  by (auto simp: given_def cancelled_reply_def answered_def answer_reply_def approved_def auto_reply_def)

lemma wait_ok:
  assumes s: "store_ok pv E own s" and ths: "\<forall>th\<in>set (AskWait spec ch # ths). thread_ok pv E own (length (ui_chans s)) th"
    and r: "ask_wait inp spec ch s = (s', new)"
  shows "prompts_ok pv E s' (new @ ths)"
proof (rule prompts_okI)
  have t: "asked pv E spec" "ch < length (ui_chans s)" "own ch = sp_ID spec" using ths by simp_all
  have "given E spec reply" if "ui_chans s ! ch = Some reply" for reply
    using s t that unfolding store_ok_def chans_ok_def given_def by metis
  then show "\<forall>th\<in>set (new @ ths). thread_ok pv E own (length (ui_chans s')) th"
    using ths t r by (auto simp: ask_wait_def split: option.splits if_splits)
  have "s' = s \<or> s' = s\<lparr>ui_chans := (ui_chans s)[ch := None]\<rparr>"
    using r by (auto simp: ask_wait_def split: option.splits if_splits)
  then show "store_ok pv E own s'"
    using s by (auto simp: store_ok_def intro: chans_ok_put)
qed

lemma section_ok:
  assumes inp: "seen E inp" and ok: "prompts_ok pv E s (th # ths)" and r: "prompt_section pv inp th s = (s', new)"
  shows "prompts_ok pv E s' (new @ ths)"
proof -
  obtain own where s: "store_ok pv E own s"
    and ths: "\<forall>th\<in>set (th # ths). thread_ok pv E own (length (ui_chans s)) th"
    using ok unfolding prompts_ok_def by blast
  note quiet = same_store_ok [OF s, of ths]
  show ?thesis
  proof (cases th)
    case (AskStart spec)
    have "approved E spec (auto_reply (sp_ID spec) option)"
      if "i_yolo inp = Some y" "autoApproveConfirm y spec (i_conv inp) = (option, True)" for y option
      using inp that unfolding approved_def by blast
    then show ?thesis using AskStart ths r
      by (intro quiet) (auto simp: ask_start_def Let_def given_def Auto_Ask_def split: option.splits backend.splits prod.splits if_splits)
  next
    case (AskRegister spec conv)
    then show ?thesis using register_ok [OF s] ths r by simp
  next
    case (AskWait spec ch)
    then show ?thesis using wait_ok [OF s] ths r by simp
  next
    case (AskReturned spec res)
    then show ?thesis using ths r
      by (intro quiet) (auto simp: ask_returned_def given_def split: sum.splits)
  next
    case (Deliver spec reply)
    then show ?thesis using ths r s given_names_prompt [of E spec reply]
      by (intro quiet) (auto simp: deliver_def store_ok_def turns_ok_def split: option.splits)
  next
    case (CallReply spec turn reply)
    show ?thesis
    proof (rule prompts_okI)
      have "delivered_ok pv E (turn, sp_ID spec, ToUserReply (pv_codec pv) reply)"
        using ths CallReply unfolding delivered_ok_def by auto
      then show "store_ok pv E own s'"
        using s r CallReply by (auto simp: store_ok_def call_reply_def split: if_splits)
      show "\<forall>th\<in>set (new @ ths). thread_ok pv E own (length (ui_chans s')) th"
        using ths r CallReply by (auto simp: call_reply_def split: if_splits)
    qed
  next
    case (SendAnswer ch reply)
    show ?thesis
    proof (rule prompts_okI)
      show "store_ok pv E own s'"
        using s ths r SendAnswer by (auto simp: store_ok_def send_answer_def intro: chans_ok_put split: if_splits)
      show "\<forall>th\<in>set (new @ ths). thread_ok pv E own (length (ui_chans s')) th"
        using ths r SendAnswer by (auto simp: send_answer_def split: if_splits)
    qed
  next
    case (AskNotify spec ch conv)
    then show ?thesis using ths r by (intro quiet) (auto simp: ask_notify_def split: if_splits)
  next
    case (AskDone spec res)
    then show ?thesis using ths r by (intro quiet) (auto simp: ask_done_def)
  next
    case (DropReason pid)
    then show ?thesis using ths r by (intro quiet) (auto simp: drop_reason_def)
  next
    case (ResolveUI pid st reason)
    then show ?thesis using ths r by (intro quiet) (auto simp: Resolve_def)
  next
    case (NotifyResolved pid st reason conv)
    then show ?thesis using ths r by (intro quiet) (auto simp: notify_resolved_def split: if_splits)
  qed
qed

lemma prompts_ok_perm: "mset ths = mset ths' \<Longrightarrow> prompts_ok pv E s ths \<Longrightarrow> prompts_ok pv E s ths'"
  unfolding prompts_ok_def by (metis mset_eq_setD)

interpretation prompt_sections: interleaving "prompt_section pv" "seen E" "prompts_ok pv E" for pv E
  by unfold_locales (fact prompts_ok_perm, fact section_ok)

definition history_ok ::
  "('env, 'r, 'x) prompt_env \<Rightarrow> 'env prompt_event set \<Rightarrow> 'x prompt_sys \<Rightarrow> bool" where
  "history_ok pv E s \<longleftrightarrow> prompts_ok pv E s (ps_threads s)"

lemma prompts_ok_fields:
  "ui_chans s' = ui_chans s \<Longrightarrow> ui_pending s' = ui_pending s \<Longrightarrow> bk_turns s' = bk_turns s \<Longrightarrow>
   rt_replies s' = rt_replies s \<Longrightarrow> prompts_ok pv E s ths \<Longrightarrow> prompts_ok pv E s' ths"
  by (simp add: prompts_ok_def store_ok_def)

lemma prompt_step_ok:
  assumes ev: "ev \<in> E" and ok: "history_ok pv E s"
  shows "history_ok pv E (prompt_step pv ev s)"
proof -
  obtain own where s: "store_ok pv E own s"
    and ths: "\<forall>th\<in>set (ps_threads s). thread_ok pv E own (length (ui_chans s)) th"
    using ok unfolding prompts_ok_def history_ok_def by blast
  have spawn: "history_ok pv E (started (s', new))"
    if "ui_chans s' = ui_chans s" "ui_pending s' = ui_pending s \<or> (\<exists>pid. ui_pending s' = (ui_pending s)(pid := None))"
      "bk_turns s' = bk_turns s" "rt_replies s' = rt_replies s" "ps_threads s' = ps_threads s"
      "\<forall>th\<in>set new. thread_ok pv E own (length (ui_chans s)) th" for s' new
  proof -
    have "prompts_ok pv E s' (ps_threads s @ new)"
      by (rule prompts_ok_perm [OF _ same_store_ok [OF s ths that(1) that(2) that(3,4,6)]]) auto
    then show ?thesis using that(5) by (auto simp: history_ok_def started_def elim!: prompts_ok_fields [rotated 4])
  qed
  show ?thesis
  proof (cases ev)
    case (CallBind turnID turn)
    then show ?thesis using s ths ev
      by (auto simp: history_ok_def prompts_ok_def BindTurn_def store_ok_def turns_ok_def intro!: exI [of _ own])
  next
    case (CallUnbind turnID)
    then show ?thesis using s ths
      by (auto simp: history_ok_def prompts_ok_def UnbindTurn_def store_ok_def turns_ok_def intro!: exI [of _ own])
  next
    case (Requested env)
    have "\<forall>th\<in>set (onPromptRequested pv env). thread_ok pv E own (length (ui_chans s)) th"
      using ev Requested by (cases "decodePromptRequested (pv_decoder pv) env") (auto simp: onPromptRequested_def asked_def)
    then show ?thesis using Requested ok spawn [of s] by simp
  next
    case (Resolved res)
    then show ?thesis using ok
      by (auto simp: onPromptResolved_def resolutionReason_def split: sum.splits intro!: spawn)
  next
    case (UserAnswers pid reply_text opt opts cancel)
    have "answered E pid (answer_reply pid reply_text opt opts cancel)"
      using ev UserAnswers unfolding answered_def by blast
    note ans = this
    obtain ok s' new where a: "Answer pid reply_text opt opts cancel s = (ok, s', new)" by (metis prod_cases3)
    have "history_ok pv E (started (s', new))"
    proof (rule spawn)
      show "\<forall>th\<in>set new. thread_ok pv E own (length (ui_chans s)) th"
        using a s ans by (fastforce simp: Answer_def store_ok_def pending_ok_def split: option.splits)
    qed (use a in \<open>auto simp: Answer_def split: option.splits\<close>)
    then show ?thesis using UserAnswers a by simp
  next
    case (Go j inp)
    show ?thesis
    proof (cases "j < length (ps_threads s)")
      case True
      obtain s' ths' where r: "run_thread (prompt_section pv) inp j s (ps_threads s) = (s', ths')" by fastforce
      have "seen E inp" using ev Go by (auto simp: seen_def)
      then have "prompts_ok pv E s' ths'"
        using ok True r unfolding history_ok_def by (rule prompt_sections.run_keeps)
      then show ?thesis using Go True r by (auto simp: history_ok_def elim!: prompts_ok_fields [rotated 4])
    qed (use Go ok in simp)
  qed (use ok in \<open>auto simp: history_ok_def Attach_def Broker_Close_def elim!: prompts_ok_fields [rotated 4]\<close>)
qed

lemma prompt_run_ok: "set evs \<subseteq> E \<Longrightarrow> history_ok pv E s \<Longrightarrow> history_ok pv E (run_calls (prompt_step pv) evs s)"
  by (induction evs arbitrary: s) (simp_all add: prompt_step_ok)

lemma new_prompts_ok: "history_ok pv E new_prompts"
  by (simp add: history_ok_def prompts_ok_def store_ok_def pending_ok_def chans_ok_def turns_ok_def new_prompts_def)

lemma prompts_run_ok: "history_ok pv (set evs) (prompts_run pv evs)"
  unfolding prompts_run_def by (rule prompt_run_ok [OF subset_refl new_prompts_ok])

subsection \<open>A choice is a click\<close>

definition clicked :: "'env prompt_event set \<Rightarrow> string \<Rightarrow> string \<Rightarrow> bool" where
  "clicked E pid choice \<longleftrightarrow> (\<exists>reply_text options. UserAnswers pid reply_text choice options False \<in> E)"

definition yolo_seen :: "'env prompt_event set \<Rightarrow> bool" where
  "yolo_seen E \<longleftrightarrow> (\<exists>inp y. seen E inp \<and> i_yolo inp = Some y \<and> ye_yolo y = Inr True)"

definition confirm_card :: "'x Spec \<Rightarrow> bool" where
  "confirm_card spec \<longleftrightarrow>
     sp_Source spec = ''opencraft.confirm'' \<and> sp_Kind spec = KindConfirm \<and> offersOption (sp_Options spec) OptionYes"

definition reply_choice :: "'x UserReply \<Rightarrow> string" where
  "reply_choice ureply = meta_get (ur_Metadata ureply) MetaChoice"

lemma approve_shape:
  "autoApproveConfirm y spec conv = (opt, True) \<Longrightarrow> opt = OptionYes \<and> confirm_card spec \<and> ye_yolo y = Inr True"
  by (auto simp: autoApproveConfirm_def confirm_card_def split: if_splits sum.splits)

lemma choice_of_reply:
  "rp_Metadata reply = Map.empty \<Longrightarrow>
   reply_choice (ToUserReply cd reply) = (case rp_Option reply of Some v \<Rightarrow> v | None \<Rightarrow> '''')"
  by (auto simp: reply_choice_def ToUserReply_def reply_metadata_def meta_get_def meta_keys Let_def split: option.splits)

lemma given_choice:
  assumes "given E spec reply"
  shows "reply_choice (ToUserReply cd reply) = '''' \<or> clicked E (sp_ID spec) (reply_choice (ToUserReply cd reply)) \<or>
    (reply_choice (ToUserReply cd reply) = OptionYes \<and> confirm_card spec \<and> yolo_seen E)"
proof -
  consider "reply = cancelled_reply (sp_ID spec)" | "answered E (sp_ID spec) reply" | "approved E spec reply"
    using assms by (auto simp: given_def)
  then show ?thesis
  proof cases
    case 1
    then show ?thesis by (simp add: choice_of_reply cancelled_reply_def)
  next
    case 2
    then obtain rtext opt opts cancel where a: "UserAnswers (sp_ID spec) rtext opt opts cancel \<in> E"
      "reply = answer_reply (sp_ID spec) rtext opt opts cancel"
      unfolding answered_def by blast
    then show ?thesis
      by (cases cancel) (auto simp: choice_of_reply answer_reply_def cancelled_reply_def clicked_def)
  next
    case 3
    then obtain inp y opt where a: "seen E inp" "i_yolo inp = Some y" "autoApproveConfirm y spec (i_conv inp) = (opt, True)"
      "reply = auto_reply (sp_ID spec) opt"
      unfolding approved_def by blast
    have "reply_choice (ToUserReply cd reply) = opt" using a(4) by (simp add: choice_of_reply auto_reply_def)
    moreover have "opt = OptionYes" "confirm_card spec" "ye_yolo y = Inr True" using approve_shape [OF a(3)] by simp_all
    moreover have "yolo_seen E" unfolding yolo_seen_def using a(1,2) \<open>ye_yolo y = Inr True\<close> by blast
    ultimately show ?thesis by simp
  qed
qed

text \<open>Every reply handed to a turn answers a prompt of that turn, and a choice in it was made.\<close>

definition reply_explained ::
  "('env, 'r, 'x) prompt_env \<Rightarrow> 'env prompt_event set \<Rightarrow> nat \<times> string \<times> 'x UserReply \<Rightarrow> bool" where
  "reply_explained pv E = (\<lambda>(turn, pid, ureply). \<exists>spec.
     asked pv E spec \<and> sp_ID spec = pid \<and> CallBind (sp_TurnID spec) turn \<in> E \<and>
     (reply_choice ureply = '''' \<or> clicked E pid (reply_choice ureply) \<or>
      (reply_choice ureply = OptionYes \<and> confirm_card spec \<and> yolo_seen E)))"

lemma replies_explained: "list_all (reply_explained pv (set evs)) (rt_replies (prompts_run pv evs))"
proof -
  have "list_all (delivered_ok pv (set evs)) (rt_replies (prompts_run pv evs))"
    using prompts_run_ok [of pv evs] unfolding history_ok_def prompts_ok_def store_ok_def by blast
  moreover have "reply_explained pv (set evs) d" if ok: "delivered_ok pv (set evs) d" for d
  proof -
    obtain turn pid ureply where t: "d = (turn, pid, ureply)" by (cases d)
    then obtain spec reply where d: "d = (turn, sp_ID spec, ToUserReply (pv_codec pv) reply)"
      "asked pv (set evs) spec" "CallBind (sp_TurnID spec) turn \<in> set evs" "given (set evs) spec reply"
      using ok unfolding delivered_ok_def by auto
    show ?thesis
      using d(2,3) given_choice [OF d(4), of "pv_codec pv"] unfolding d(1) reply_explained_def by auto
  qed
  ultimately show ?thesis by (simp add: list_all_iff)
qed

subsection \<open>The runtime between a tool and the broker\<close>

text \<open>
  What the runtime's \<open>AskUser\<close> promises: it publishes the prompt under an id of its own and returns what
  the turn was given for that id.
\<close>

definition runtime_answers ::
  "('env, 'r, 'x) prompt_env \<Rightarrow> 'env prompt_event list \<Rightarrow> ('x UserPrompt \<Rightarrow> string + 'x UserReply) \<Rightarrow> bool" where
  "runtime_answers pv evs ask \<longleftrightarrow>
     (\<forall>p ureply. ask p = Inr ureply \<longrightarrow>
        (\<exists>env req turn. Requested env \<in> set evs \<and> decodePromptRequested (pv_decoder pv) env = Inr req \<and>
           rq_Prompt req = p \<and> (turn, rq_PromptID req, ureply) \<in> set (rt_replies (prompts_run pv evs))))"

definition own_ids :: "('env, 'r, 'x) prompt_env \<Rightarrow> 'env prompt_event list \<Rightarrow> bool" where
  "own_ids pv evs \<longleftrightarrow>
     (\<forall>env env' req req'. Requested env \<in> set evs \<longrightarrow> Requested env' \<in> set evs \<longrightarrow>
        decodePromptRequested (pv_decoder pv) env = Inr req \<longrightarrow>
        decodePromptRequested (pv_decoder pv) env' = Inr req' \<longrightarrow>
        rq_PromptID req = rq_PromptID req' \<longrightarrow> rq_Prompt req = rq_Prompt req')"

text \<open>Prompt \<open>p\<close> was put to the user, and the user chose \<open>choice\<close> on it.\<close>

definition chosen ::
  "('env, 'r, 'x) prompt_env \<Rightarrow> 'env prompt_event list \<Rightarrow> 'x UserPrompt \<Rightarrow> string \<Rightarrow> bool" where
  "chosen pv evs p choice \<longleftrightarrow>
     (\<exists>env req. Requested env \<in> set evs \<and> decodePromptRequested (pv_decoder pv) env = Inr req \<and>
        rq_Prompt req = p \<and> clicked (set evs) (rq_PromptID req) choice)"

lemma asked_choice:
  assumes ids: "own_ids pv evs" and rt: "runtime_answers pv evs ask" and a: "ask p = Inr ureply"
    and c: "reply_choice ureply \<noteq> ''''"
  shows "chosen pv evs p (reply_choice ureply) \<or>
    (reply_choice ureply = OptionYes \<and> yolo_seen (set evs) \<and> confirm_card (FromPrompt (pv_codec pv) p i r t))"
proof -
  obtain env req turn where q: "Requested env \<in> set evs" "decodePromptRequested (pv_decoder pv) env = Inr req"
    "rq_Prompt req = p" "(turn, rq_PromptID req, ureply) \<in> set (rt_replies (prompts_run pv evs))"
    using rt a unfolding runtime_answers_def by blast
  have "reply_explained pv (set evs) (turn, rq_PromptID req, ureply)"
    using replies_explained [of pv evs] q(4) by (simp add: list_all_iff)
  then obtain spec where s: "asked pv (set evs) spec" "sp_ID spec = rq_PromptID req"
    "clicked (set evs) (rq_PromptID req) (reply_choice ureply) \<or>
      (reply_choice ureply = OptionYes \<and> confirm_card spec \<and> yolo_seen (set evs))"
    using c by (auto simp: reply_explained_def)
  obtain env' req' where q': "Requested env' \<in> set evs" "decodePromptRequested (pv_decoder pv) env' = Inr req'"
    "spec = prompt_spec (pv_codec pv) req'"
    using s(1) unfolding asked_def by blast
  have "rq_PromptID req' = rq_PromptID req" using s(2) q'(3) by (simp add: prompt_spec_def FromPrompt_def Let_def)
  then have "rq_Prompt req' = p" using ids q(1-3) q'(1,2) unfolding own_ids_def by metis
  then have "confirm_card spec = confirm_card (FromPrompt (pv_codec pv) p i r t)"
    using q'(3) by (simp add: prompt_spec_def FromPrompt_def confirm_card_def Let_def)
  then show ?thesis using s(3) q(1-3) unfolding chosen_def by auto
qed

lemma policy_answer:
  assumes ids: "own_ids pv evs" and rt: "runtime_answers pv evs ask"
    and a: "policy_host cd (Some ask) = Some ask'" "ask' p = Inr choice" and c: "choice \<noteq> ''''"
  shows "\<exists>raw. chosen pv evs (policy_user_prompt raw p) choice"
proof -
  obtain raw ureply where r: "ask (policy_user_prompt raw p) = Inr ureply" "choice = reply_choice ureply"
    using a by (auto simp: policy_host_def reply_choice_def split: sum.splits)
  have "\<not> confirm_card (FromPrompt (pv_codec pv) (policy_user_prompt raw p) '''' '''' '''')"
    by (simp add: confirm_card_def FromPrompt_def policy_user_prompt_def meta_get_def meta_keys meta_values Let_def)
  then show ?thesis using asked_choice [OF ids rt r(1)] c r(2) by blast
qed

subsection \<open>A click from end to end\<close>

text \<open>One prompt, shown and answered by a click on \<open>choice\<close>, every goroutine run to its end.\<close>

definition sample_prompts :: "(unit PromptRequested, unit, unit) prompt_env" where
  "sample_prompts =
     \<lparr>pv_codec = \<lparr>marshal_options = \<lambda>opts. Inr ''[]'', unmarshal_options = \<lambda>raw. Some [],
        marshal_strings = \<lambda>xs. Inr ''[]'', unmarshal_strings = \<lambda>raw. ([], None)\<rparr>,
      pv_decoder = \<lparr>decode_strict = Inr, decode_wire = \<lambda>env. Inl '''', unmarshal_part = \<lambda>raw. None,
        unmarshal_text = \<lambda>raw. None\<rparr>,
      pv_fallback = PromptBackend, pv_for = Map.empty, pv_unknown = '''', pv_notify = True\<rparr>"

definition quiet_in :: prompt_in where
  "quiet_in = \<lparr>i_conv = ''c'', i_yolo = None, i_done = None, i_reply_first = True, i_reply_ok = True\<rparr>"

definition sample_request :: "unit UserPrompt \<Rightarrow> unit PromptRequested" where
  "sample_request p = \<lparr>rq_RunID = ''r'', rq_TurnID = ''r'', rq_PromptID = ''p'', rq_Prompt = p\<rparr>"

definition click_history :: "unit UserPrompt \<Rightarrow> string \<Rightarrow> unit PromptRequested prompt_event list" where
  "click_history p choice =
     [CallAttach True, CallBind ''r'' 7, Requested (sample_request p), Go 0 quiet_in, Go 0 quiet_in, Go 0 quiet_in,
      UserAnswers ''p'' '''' choice [] False, Go 1 quiet_in, Go 0 quiet_in, Go 0 quiet_in, Go 0 quiet_in,
      Go 0 quiet_in, Go 0 quiet_in, Go 0 quiet_in]"

definition click_reply :: "string \<Rightarrow> unit UserReply" where
  "click_reply choice = ToUserReply (pv_codec sample_prompts) (answer_reply ''p'' '''' choice [] False)"

definition click_host :: "unit UserPrompt \<Rightarrow> string \<Rightarrow> unit UserPrompt \<Rightarrow> string + unit UserReply" where
  "click_host p choice = (\<lambda>q. if q = p then Inr (click_reply choice) else Inl '''')"

lemmas run_prompts_simps = prompts_run_def new_prompts_def run_thread_def started_def Attach_def BindTurn_def
  onPromptRequested_def onPromptResolved_def resolutionReason_def ask_start_def ask_register_def ask_notify_def
  ask_wait_def ask_done_def ask_returned_def deliver_def call_reply_def drop_reason_def Answer_def send_answer_def
  Resolve_def notify_resolved_def decodePromptRequested_def prompt_spec_def

lemma click_history_end:
  "rt_replies (prompts_run sample_prompts (click_history p choice)) = [(7, ''p'', click_reply choice)] \<and>
   ps_threads (prompts_run sample_prompts (click_history p choice)) = []"
  by (simp add: click_history_def run_prompts_simps sample_prompts_def quiet_in_def sample_request_def click_reply_def
      answer_reply_def FromPrompt_def Let_def)

lemma click_ids: "own_ids sample_prompts (click_history p choice)"
  by (simp add: own_ids_def click_history_def decodePromptRequested_def sample_prompts_def)

lemma click_answers: "runtime_answers sample_prompts (click_history p choice) (click_host p choice)"
proof -
  have "Requested (sample_request p) \<in> set (click_history p choice)" by (simp add: click_history_def)
  moreover have "decodePromptRequested (pv_decoder sample_prompts) (sample_request p) = Inr (sample_request p)"
    by (simp add: decodePromptRequested_def sample_prompts_def)
  ultimately show ?thesis
    using click_history_end [of p choice]
    by (auto simp: runtime_answers_def click_host_def sample_request_def split: if_splits)
qed

subsection \<open>The properties\<close>


lemma confirm_needs_a_yes:
  assumes ids: "own_ids pv evs" and rt: "runtime_answers pv evs ask" and yes: "Confirm cd (Some ask) title body = Inr True"
  shows "(\<exists>raw. chosen pv evs (confirm_prompt raw title body) OptionYes) \<or> yolo_seen (set evs)"
proof -
  obtain raw ureply where r: "ask (confirm_prompt raw title body) = Inr ureply" "reply_choice ureply = OptionYes"
    using yes by (auto simp: Confirm_def says_yes_def reply_choice_def split: sum.splits if_splits)
  then have "reply_choice ureply \<noteq> ''''" by (simp add: OptionYes_def)
  from asked_choice [OF ids rt r(1) this] r(2) show ?thesis by auto
qed

lemma grant_rules_all: "grant_rules applied rules m = (Inr granted, m') \<Longrightarrow> granted = applied @ rules"
  by (induction applied rules m rule: grant_rules.induct) (auto split: prod.splits option.splits)


definition approve_card :: "unit UserPrompt" where
  "approve_card = policy_user_prompt ''[]'' (approve_prompt (NormaliseCommand make_request) (xr_Reason make_request))"

lemma click_choice: "meta_get (ur_Metadata (click_reply choice)) MetaChoice = choice"
  using choice_of_reply [of "answer_reply ''p'' '''' choice [] False" "pv_codec sample_prompts"]
  by (auto simp: reply_choice_def click_reply_def answer_reply_def)

lemma click_confirms:
  "Confirm (pv_codec sample_prompts) (Some (click_host (confirm_prompt ''[]'' title body) OptionYes)) title body = Inr True"
proof -
  have "marshal_options (pv_codec sample_prompts) opts = Inr ''[]''" for opts by (simp add: sample_prompts_def)
  moreover have "meta_get (ur_Metadata (click_reply OptionYes)) MetaStatus = ''ok''"
    by (simp add: click_reply_def answer_reply_def ToUserReply_def reply_metadata_def meta_get_def meta_keys OptionYes_def)
  ultimately show ?thesis by (simp add: Confirm_def click_host_def says_yes_def click_choice)
qed

lemma calm_click: "\<not> yolo_seen (set (click_history p choice))"
  by (auto simp: yolo_seen_def seen_def click_history_def quiet_in_def)



text \<open>
  C12: The auto-approver of a YOLO conversation answers the confirmation card, for the fixed pair of
  options, and nothing else that asks: not a question of the model, not a grant of rules, not a
  command's approval nor its escape from the sandbox, whatever the settings it looks up.
\<close>

theorem yolo_answers_only_confirmations:
  "snd (autoApproveConfirm y (FromPrompt cd (confirm_prompt raw title body) i r t) conv) =
     (conv \<noteq> '''' \<and> raw \<noteq> '''' \<and> (case unmarshal_options cd raw of Some opts \<Rightarrow> offersOption opts OptionYes | None \<Rightarrow> False) \<and>
      ye_wired y \<and> ye_workDir y \<noteq> '''' \<and> ye_pooled y \<and> ye_store y \<and> ye_yolo y = Inr True) \<and>
   \<not> snd (autoApproveConfirm y (FromPrompt cd (permissions_prompt raw rules reason) i r t) conv) \<and>
   \<not> snd (autoApproveConfirm y (FromPrompt cd (askuser_prompt raw title q) i r t) conv) \<and>
   \<not> snd (autoApproveConfirm y (FromPrompt cd (policy_user_prompt raw pr) i r t) conv)"
  by (auto simp: autoApproveConfirm_def offersOption_def FromPrompt_def confirm_prompt_def permissions_prompt_def
      askuser_prompt_def policy_user_prompt_def meta_get_def meta_keys meta_values Let_def split: option.splits sum.splits)

subsection \<open>Nobody waits forever\<close>

text \<open>
  A channel that an answer is on its way to is empty and no longer pending, and no other answer is on
  its way to it.
\<close>

fun sending :: "'x thread \<Rightarrow> nat list" where
  "sending (SendAnswer ch reply) = [ch]"
| "sending _ = []"

definition pend_free :: "nat set \<Rightarrow> 'x Reply option list \<Rightarrow> (string \<rightharpoonup> nat \<times> string) \<Rightarrow> bool" where
  "pend_free S chans pend \<longleftrightarrow>
     (\<forall>p ch c. pend p = Some (ch, c) \<longrightarrow> ch < length chans \<and> chans ! ch = None \<and> ch \<notin> S \<and>
        (\<forall>q d. pend q = Some (ch, d) \<longrightarrow> q = p))"

definition send_inv :: "'x prompt_sys \<Rightarrow> 'x thread list \<Rightarrow> bool" where
  "send_inv s ths \<longleftrightarrow>
     distinct (held sending ths) \<and>
     (\<forall>ch\<in>set (held sending ths). ch < length (ui_chans s) \<and> ui_chans s ! ch = None) \<and>
     pend_free (set (held sending ths)) (ui_chans s) (ui_pending s)"

lemma take_buffer: "j < length chans \<Longrightarrow> chans ! j = None \<Longrightarrow> chans[i := None] ! j = None"
  by (cases "i = j") (auto simp: nth_list_update)

lemma pend_free_drop: "pend_free S chans pend \<Longrightarrow> pend_free S chans (pend(pid := None))"
  unfolding pend_free_def by (metis fun_upd_apply option.distinct(1))

lemma pend_free_put:
  assumes "pend_free S chans pend" "length chans \<notin> S"
  shows "pend_free S (chans @ [None]) (pend(pid \<mapsto> (length chans, conv)))"
  unfolding pend_free_def
proof (intro allI impI)
  fix p ch c
  assume p: "(pend(pid \<mapsto> (length chans, conv))) p = Some (ch, c)"
  show "ch < length (chans @ [None]) \<and> (chans @ [None]) ! ch = None \<and> ch \<notin> S \<and>
    (\<forall>q d. (pend(pid \<mapsto> (length chans, conv))) q = Some (ch, d) \<longrightarrow> q = p)"
  proof (cases "p = pid")
    case True
    then have ch: "ch = length chans" using p by simp
    have "pend q \<noteq> Some (length chans, d)" for q d using assms(1) unfolding pend_free_def by blast
    then show ?thesis using ch True assms(2) by (auto simp: nth_append)
  next
    case False
    then have "pend p = Some (ch, c)" using p by simp
    then have "ch < length chans" "chans ! ch = None" "ch \<notin> S" "\<forall>q d. pend q = Some (ch, d) \<longrightarrow> q = p"
      using assms(1) unfolding pend_free_def by blast+
    then show ?thesis by (auto simp: nth_append)
  qed
qed

lemma send_quiet:
  assumes "send_inv s (th # ths)" "held sending new = sending th" "ui_chans s' = ui_chans s"
    "ui_pending s' = ui_pending s \<or> (\<exists>pid. ui_pending s' = (ui_pending s)(pid := None))"
  shows "send_inv s' (new @ ths)"
  using assms by (auto simp: send_inv_def pend_free_drop)

lemma section_sends:
  assumes inv: "send_inv s (th # ths)" and r: "prompt_section pv inp th s = (s', new)"
  shows "send_inv s' (new @ ths)"
proof -
  note quiet = send_quiet [OF inv, where new = new and s' = s']
  show ?thesis
  proof (cases th)
    case (AskRegister spec conv)
    have "length (ui_chans s) \<notin> set (held sending ths)" using inv AskRegister by (auto simp: send_inv_def)
    then show ?thesis using inv r AskRegister
      by (auto simp: send_inv_def ask_register_def nth_append pend_free_put)
  next
    case (AskWait spec ch)
    have "s' = s \<or> s' = s\<lparr>ui_chans := (ui_chans s)[ch := None]\<rparr>" "held sending new = []"
      using r AskWait by (auto simp: ask_wait_def split: option.splits if_splits)
    moreover have "pend_free S ((ui_chans s)[ch := None]) pend" if "pend_free S (ui_chans s) pend" for S pend
      using that unfolding pend_free_def by (metis length_list_update nth_list_update_eq nth_list_update_neq)
    ultimately show ?thesis using inv AskWait
      by (auto simp: send_inv_def take_buffer)
  next
    case (SendAnswer ch reply)
    then have c: "ui_chans s ! ch = None" "ch \<notin> set (held sending ths)" "ch < length (ui_chans s)"
      using inv by (auto simp: send_inv_def)
    have "pend_free S ((ui_chans s)[ch := Some reply]) pend" if "pend_free (insert ch S) (ui_chans s) pend" for S pend
      using that unfolding pend_free_def by (metis insert_iff length_list_update nth_list_update_neq)
    moreover have "(ui_chans s)[ch := Some reply] ! cha = None" if "cha \<in> set (held sending ths)" for cha
      using inv c SendAnswer that by (auto simp: send_inv_def nth_list_update)
    ultimately show ?thesis using inv c SendAnswer r
      by (auto simp: send_inv_def send_answer_def)
  next
    case (AskStart spec)
    then show ?thesis using r
      by (intro quiet) (auto simp: ask_start_def Let_def split: option.splits backend.splits prod.splits if_splits)
  next
    case (AskNotify spec ch conv)
    then show ?thesis using r by (intro quiet) (auto simp: ask_notify_def split: if_splits)
  next
    case (AskDone spec res)
    then show ?thesis using r by (intro quiet) (auto simp: ask_done_def)
  next
    case (AskReturned spec res)
    then show ?thesis using r by (intro quiet) (auto simp: ask_returned_def split: sum.splits)
  next
    case (Deliver spec reply)
    then show ?thesis using r by (intro quiet) (auto simp: deliver_def split: option.splits)
  next
    case (CallReply spec turn reply)
    then show ?thesis using r by (intro quiet) (auto simp: call_reply_def split: if_splits)
  next
    case (DropReason pid)
    then show ?thesis using r by (intro quiet) (auto simp: drop_reason_def)
  next
    case (ResolveUI pid st reason)
    then show ?thesis using r by (intro quiet) (auto simp: Resolve_def)
  next
    case (NotifyResolved pid st reason conv)
    then show ?thesis using r by (intro quiet) (auto simp: notify_resolved_def split: if_splits)
  qed
qed

lemma send_inv_perm: "mset ths = mset ths' \<Longrightarrow> send_inv s ths \<Longrightarrow> send_inv s ths'"
  using held_set [of ths ths' sending] held_distinct [of ths ths' sending] by (simp add: send_inv_def)

interpretation send_sections: interleaving "prompt_section pv" "\<lambda>inp. True" send_inv for pv
  by unfold_locales (fact send_inv_perm, rule section_sends)

lemma pend_free_take:
  assumes free: "pend_free S chans pend" and p: "pend pid = Some (ch, conv)"
  shows "pend_free (insert ch S) chans (pend(pid := None))"
  unfolding pend_free_def
proof (intro allI impI)
  fix q c d
  assume "(pend(pid := None)) q = Some (c, d)"
  then have q: "q \<noteq> pid" "pend q = Some (c, d)" by (auto split: if_splits)
  have "c \<noteq> ch"
  proof
    assume "c = ch"
    then have "q = pid" using free p q(2) unfolding pend_free_def by blast
    then show False using q(1) by simp
  qed
  moreover have "c < length chans \<and> chans ! c = None \<and> c \<notin> S \<and> (\<forall>r e. pend r = Some (c, e) \<longrightarrow> r = q)"
    using free q(2) unfolding pend_free_def by blast
  ultimately show "c < length chans \<and> chans ! c = None \<and> c \<notin> insert ch S \<and>
      (\<forall>r e. (pend(pid := None)) r = Some (c, e) \<longrightarrow> r = q)"
    by auto
qed

lemma step_sends:
  assumes inv: "send_inv s (ps_threads s)"
  shows "send_inv (prompt_step pv ev s) (ps_threads (prompt_step pv ev s))"
proof -
  show ?thesis
  proof (cases ev)
    case (Requested env)
    have "held sending (onPromptRequested pv env) = []" by (auto simp: onPromptRequested_def split: sum.splits)
    then show ?thesis using inv Requested by (auto simp: started_def send_inv_def)
  next
    case (Resolved res)
    then show ?thesis using inv
      by (auto simp: started_def onPromptResolved_def resolutionReason_def send_inv_def split: sum.splits)
  next
    case (UserAnswers pid rtext opt opts cancel)
    show ?thesis
    proof (cases "ui_pending s pid")
      case (Some x)
      obtain ch conv where x: "x = (ch, conv)" by (cases x)
      then have ch: "ch < length (ui_chans s)" "ui_chans s ! ch = None" "ch \<notin> set (held sending (ps_threads s))"
        using inv Some unfolding send_inv_def pend_free_def by blast+
      then show ?thesis using inv UserAnswers Some x pend_free_take
        by (auto simp: Answer_def started_def send_inv_def)
    qed (use inv UserAnswers in \<open>simp add: Answer_def started_def send_inv_def\<close>)
  next
    case (Go j inp)
    show ?thesis
    proof (cases "j < length (ps_threads s)")
      case True
      obtain s' ths' where r: "run_thread (prompt_section pv) inp j s (ps_threads s) = (s', ths')" by fastforce
      have "send_inv s' ths'" using TrueI inv True r by (rule send_sections.run_keeps)
      then show ?thesis using Go True r by (simp add: send_inv_def)
    qed (use Go inv in simp)
  qed (use inv in \<open>auto simp: send_inv_def Attach_def Broker_Close_def BindTurn_def UnbindTurn_def\<close>)
qed

interpretation prompt_sends: call_system "prompt_step pv" "\<lambda>s. send_inv s (ps_threads s)" for pv
  by unfold_locales (rule step_sends)

lemma prompts_run_sends: "send_inv (prompts_run pv evs) (ps_threads (prompts_run pv evs))"
  unfolding prompts_run_def
  by (rule prompt_sends.history_keeps) (simp add: send_inv_def pend_free_def new_prompts_def)

text \<open>How many sections a goroutine has left at most, once its context is done.\<close>

fun sections_left :: "'x thread \<Rightarrow> nat" where
  "sections_left (AskStart spec) = 9"
| "sections_left (AskRegister spec conv) = 8"
| "sections_left (AskNotify spec ch conv) = 7"
| "sections_left (AskWait spec ch) = 6"
| "sections_left (AskDone spec res) = 5"
| "sections_left (AskReturned spec res) = 4"
| "sections_left (Deliver spec reply) = 3"
| "sections_left (CallReply spec turn reply) = 2"
| "sections_left (DropReason pid) = 1"
| "sections_left (SendAnswer ch reply) = 1"
| "sections_left (ResolveUI pid st reason) = 2"
| "sections_left (NotifyResolved pid st reason conv) = 1"

definition all_left :: "'x thread list \<Rightarrow> nat" where
  "all_left ths = sum_list (map sections_left ths)"

lemma section_nears_end:
  assumes over: "i_done inp \<noteq> None" and inv: "send_inv s (th # ths)" and r: "prompt_section pv inp th s = (s', new)"
  shows "all_left new < sections_left th"
proof (cases th)
  case (AskStart spec)
  have "new = [AskReturned spec Auto_Ask] \<or> new = [AskRegister spec (i_conv inp)] \<or> (\<exists>res. new = [AskReturned spec res])"
    using r AskStart by (auto simp: ask_start_def Let_def split: option.splits backend.splits prod.splits if_splits)
  then show ?thesis using AskStart by (auto simp: all_left_def)
next
  case (AskWait spec ch)
  have "\<exists>res. new = [AskDone spec res]"
    using r AskWait over by (auto simp: ask_wait_def split: option.splits if_splits)
  then show ?thesis using AskWait by (auto simp: all_left_def)
next
  case (SendAnswer ch reply)
  then show ?thesis using inv r by (auto simp: all_left_def send_answer_def send_inv_def)
qed (use r in \<open>auto simp: all_left_def ask_register_def ask_notify_def ask_done_def ask_returned_def deliver_def
      call_reply_def drop_reason_def Resolve_def notify_resolved_def split: option.splits sum.splits if_splits\<close>)

lemma step_nears_end:
  assumes over: "i_done inp \<noteq> None" and inv: "send_inv s (ps_threads s)" and j: "j < length (ps_threads s)"
  shows "all_left (ps_threads (prompt_step pv (Go j inp) s)) < all_left (ps_threads s)"
proof -
  let ?xs = "take j (ps_threads s)" and ?th = "ps_threads s ! j" and ?ys = "drop (Suc j) (ps_threads s)"
  obtain s' new where r: "prompt_section pv inp ?th s = (s', new)" by fastforce
  have t: "ps_threads s = ?xs @ ?th # ?ys" using j by (rule id_take_nth_drop)
  then have "mset (ps_threads s) = mset (?th # ?xs @ ?ys)" by (metis mset.simps(2) mset_append union_mset_add_mset_right)
  then have "send_inv s (?th # ?xs @ ?ys)" using inv by (rule send_inv_perm)
  then have "all_left new < sections_left ?th" using over r by (intro section_nears_end)
  moreover have "all_left (ps_threads s) = all_left ?xs + sections_left ?th + all_left ?ys"
    by (subst t) (simp add: all_left_def)
  ultimately show ?thesis using j r by (simp add: run_thread_def all_left_def)
qed

text \<open>A schedule picks any goroutine at each step.\<close>

fun scheduled ::
  "('env, 'r, 'x) prompt_env \<Rightarrow> (nat \<times> prompt_in) list \<Rightarrow> 'x prompt_sys \<Rightarrow> 'x prompt_sys" where
  "scheduled pv [] s = s"
| "scheduled pv ((j, inp) # picks) s = scheduled pv picks (prompt_step pv (Go (j mod length (ps_threads s)) inp) s)"

lemma scheduled_ends:
  assumes "\<forall>(j, inp)\<in>set picks. i_done inp \<noteq> None" "send_inv s (ps_threads s)" "all_left (ps_threads s) \<le> length picks"
  shows "ps_threads (scheduled pv picks s) = []"
  using assms
proof (induction picks arbitrary: s)
  case Nil
  have "th = [] " if "all_left th = 0" for th :: "'x thread list"
    using that by (cases th; cases "hd th") (auto simp: all_left_def)
  then show ?case using Nil by simp
next
  case (Cons pick picks)
  obtain j inp where p: "pick = (j, inp)" by (cases pick)
  let ?s = "prompt_step pv (Go (j mod length (ps_threads s)) inp) s"
  have "all_left (ps_threads ?s) \<le> length picks"
  proof (cases "ps_threads s = []")
    case False
    then have "j mod length (ps_threads s) < length (ps_threads s)" by simp
    then show ?thesis using step_nears_end [of inp s _ pv] Cons.prems p by fastforce
  qed (simp add: all_left_def)
  then show ?case using Cons.IH [of ?s] Cons.prems p step_sends [of s pv] by (simp del: prompt_step.simps)
qed

lemma all_left_bound: "all_left ths \<le> 9 * length ths"
proof (induction ths)
  case (Cons th ths)
  have "sections_left th \<le> 9" by (cases th) simp_all
  then show ?case using Cons by (simp add: all_left_def)
qed (simp add: all_left_def)

text \<open>
  C13: No goroutine of the prompt machinery waits forever. After any history, once the contexts are
  done, every schedule of nine steps for each goroutine there is ends them all: every ask returns and
  is answered or dropped, and an accepted answer never blocks on its channel.
\<close>

theorem prompt_goroutines_end:
  assumes "list_all (\<lambda>(j, inp). i_done inp \<noteq> None) picks" "9 * length (ps_threads (prompts_run pv evs)) \<le> length picks"
  shows "ps_threads (scheduled pv picks (prompts_run pv evs)) = []"
proof (rule scheduled_ends)
  show "all_left (ps_threads (prompts_run pv evs)) \<le> length picks"
    using all_left_bound assms(2) by (rule le_trans)
qed (use assms(1) prompts_run_sends in \<open>auto simp: list_all_iff\<close>)

theorem prompt_goroutines_end_witness:
  "ps_threads (scheduled sample_prompts (replicate 9 (5, quiet_in\<lparr>i_done := Some ContextCanceled\<rparr>))
     (prompts_run sample_prompts [CallAttach True, Requested (sample_request (confirm_prompt ''[]'' ''t'' ''b''))])) = []"
proof -
  have "length (ps_threads (prompts_run sample_prompts
      [CallAttach True, Requested (sample_request (confirm_prompt ''[]'' ''t'' ''b''))])) = 1"
    by (simp add: run_prompts_simps sample_prompts_def)
  then show ?thesis
    by (intro prompt_goroutines_end) (simp_all add: list_all_iff)
qed


subsection \<open>What the broker does not promise\<close>

definition over_in :: prompt_in where
  "over_in = quiet_in\<lparr>i_done := Some DeadlineExceeded\<rparr>"

text \<open>
  The prompt expires and is resolved first; its ask fails afterwards and finds the turn gone. Every
  goroutine has ended, and the reason recorded for the prompt stays in the map.
\<close>

theorem reason_outlives_its_prompt:
  "let s = prompts_run sample_prompts
     ([CallAttach True, CallBind ''r'' 7, Requested (sample_request (confirm_prompt ''[]'' ''t'' ''b''))] @
      replicate 3 (Go 0 quiet_in) @ [Resolved (Inr (''p'', PromptExpired)), CallUnbind ''r''] @
      replicate 4 (Go 0 over_in) @ replicate 2 (Go 0 quiet_in))
   in ps_threads s = [] \<and> bk_turns s = Map.empty \<and> bk_reasons s ''p'' = Some DeadlineExceeded"
  by (simp add: run_prompts_simps sample_prompts_def quiet_in_def over_in_def sample_request_def numeral_eq_Suc
      UnbindTurn_def FromPrompt_def cancelled_reply_def Let_def)

text \<open>
  The prompt is resolved before its goroutine registers it: the frontend is told of the resolution
  first and then shown a card for it, which stays pending.
\<close>

theorem card_shown_after_its_resolution:
  "let s = prompts_run sample_prompts
     ([CallAttach True, Requested (sample_request (confirm_prompt ''[]'' ''t'' ''b'')),
       Resolved (Inr (''p'', PromptClosed)), Go 1 quiet_in, Go 1 quiet_in] @ replicate 3 (Go 0 quiet_in))
   in ui_log s = [ShowResolved ''p'' PromptClosed ''turn ended'' None,
        ShowPrompt (prompt_spec (pv_codec sample_prompts) (sample_request (confirm_prompt ''[]'' ''t'' ''b''))) ''c''] \<and>
      ui_pending s ''p'' = Some (0, ''c'')"
  by (simp add: run_prompts_simps sample_prompts_def quiet_in_def sample_request_def numeral_eq_Suc
      FromPrompt_def Let_def)


end
