(* ===== verification/AgentsLaws.thy ===== *)
theory AgentsLaws
  imports Agents PromptsLaws
begin

text \<open>
  What the registry of subagents promises: a creation and an update take effect on disk and in the
  runtime together or not at all, a name the process counts as registered is live, loading what is
  missing registers every acceptable declaration, replaces none and has nothing left to do a second
  time, and no tool changes an agent without the user's yes. What the runtime's registrar, the disk
  and the codecs are documented to do are the three predicates below.
\<close>

subsection \<open>The surroundings\<close>

text \<open>
  \<open>live\<close> reads the runtime's registry. Registering binds a free name or changes nothing, with a conflict
  exactly when the name is taken; unregistering frees the name (of no agent, too) or changes nothing.
\<close>

definition good_runtime ::
  "('f, 'rt, 'g) agent_ops \<Rightarrow> ('rt \<Rightarrow> string \<rightharpoonup> agent_definition) \<Rightarrow> bool" where
  "good_runtime ops live \<longleftrightarrow>
     (\<forall>rt n d rt'. rt_Register ops rt n d = (None, rt') \<longrightarrow> live rt n = None \<and> live rt' = (live rt)(n \<mapsto> d)) \<and>
     (\<forall>rt n d e rt'. rt_Register ops rt n d = (Some e, rt') \<longrightarrow>
        live rt' = live rt \<and> (isConflict e \<longleftrightarrow> live rt n \<noteq> None)) \<and>
     (\<forall>rt n rt'. rt_Unregister ops rt n = (None, rt') \<longrightarrow> live rt' = (live rt)(n := None)) \<and>
     (\<forall>rt n e rt'. rt_Unregister ops rt n = (Some e, rt') \<longrightarrow> live rt' = live rt)"

text \<open>A runtime that is up: it refuses only definitions that are not acceptable, and drains in time.\<close>

definition steady_runtime ::
  "('f, 'rt, 'g) agent_ops \<Rightarrow> ('rt \<Rightarrow> string \<rightharpoonup> agent_definition) \<Rightarrow> (string \<Rightarrow> agent_definition \<Rightarrow> bool) \<Rightarrow> bool" where
  "steady_runtime ops live accepts \<longleftrightarrow>
     (\<forall>rt n d. fst (rt_Register ops rt n d) = None \<longleftrightarrow> live rt n = None \<and> accepts n d) \<and>
     (\<forall>rt n. fst (rt_Unregister ops rt n) = None)"

definition valid_name :: "string \<Rightarrow> bool" where
  "valid_name n \<longleftrightarrow> validateAgentName n = None"

text \<open>
  The declaration files below a directory, and what the disk promises of them: an atomic write that
  succeeds is what is read, one that fails leaves every declaration as it was, making an agent's
  directory touches no declaration, and removing one takes at most that agent's declaration, and does
  take it when it succeeds.
\<close>

definition decl_files :: "('f, 'rt, 'g) agent_ops \<Rightarrow> string \<Rightarrow> 'f \<Rightarrow> string \<Rightarrow> read_outcome" where
  "decl_files ops dir fs n =
     (if valid_name n then os_ReadFile ops fs (fp_Join ops (fp_Join ops dir n) specFile) else FileMissing)"

definition good_disk :: "('f, 'rt, 'g) agent_ops \<Rightarrow> bool" where
  "good_disk ops \<longleftrightarrow>
     (\<forall>fs dir n data fs'. valid_name n \<longrightarrow>
        os_WriteAtomic ops fs (fp_Join ops (fp_Join ops dir n) specFile) data = (None, fs') \<longrightarrow>
        decl_files ops dir fs' = (decl_files ops dir fs)(n := FileData data)) \<and>
     (\<forall>fs dir n data e fs'. valid_name n \<longrightarrow>
        os_WriteAtomic ops fs (fp_Join ops (fp_Join ops dir n) specFile) data = (Some e, fs') \<longrightarrow>
        decl_files ops dir fs' = decl_files ops dir fs) \<and>
     (\<forall>fs dir n r fs'. valid_name n \<longrightarrow> os_MkdirAll ops fs (fp_Join ops dir n) = (r, fs') \<longrightarrow>
        decl_files ops dir fs' = decl_files ops dir fs) \<and>
     (\<forall>fs dir n fs'. valid_name n \<longrightarrow> os_RemoveAll ops fs (fp_Join ops dir n) = (None, fs') \<longrightarrow>
        decl_files ops dir fs' = (decl_files ops dir fs)(n := FileMissing)) \<and>
     (\<forall>fs dir n e fs'. valid_name n \<longrightarrow> os_RemoveAll ops fs (fp_Join ops dir n) = (Some e, fs') \<longrightarrow>
        decl_files ops dir fs' = decl_files ops dir fs \<or>
        decl_files ops dir fs' = (decl_files ops dir fs)(n := FileMissing)) \<and>
     (\<forall>dir n. valid_name n \<longrightarrow> fp_Base ops (fp_Join ops dir n) = n)"

lemma good_diskD:
  assumes "good_disk ops" "valid_name n"
  shows "os_WriteAtomic ops fs (fp_Join ops (fp_Join ops dir n) specFile) data = (None, fs') \<Longrightarrow>
      decl_files ops dir fs' = (decl_files ops dir fs)(n := FileData data)"
    and "os_WriteAtomic ops fs (fp_Join ops (fp_Join ops dir n) specFile) data = (Some e, fs') \<Longrightarrow>
      decl_files ops dir fs' = decl_files ops dir fs"
    and "os_MkdirAll ops fs (fp_Join ops dir n) = (r, fs') \<Longrightarrow> decl_files ops dir fs' = decl_files ops dir fs"
    and "os_RemoveAll ops fs (fp_Join ops dir n) = (None, fs') \<Longrightarrow>
      decl_files ops dir fs' = (decl_files ops dir fs)(n := FileMissing)"
    and "os_RemoveAll ops fs (fp_Join ops dir n) = (Some e, fs') \<Longrightarrow>
      decl_files ops dir fs' = decl_files ops dir fs \<or>
      decl_files ops dir fs' = (decl_files ops dir fs)(n := FileMissing)"
    and "fp_Base ops (fp_Join ops dir n) = n"
  using assms unfolding good_disk_def by metis+

text \<open>What is encoded decodes again; the JSON of a graph is an object without outer white space.\<close>

definition good_codecs :: "('f, 'rt, 'g) agent_ops \<Rightarrow> bool" where
  "good_codecs ops \<longleftrightarrow>
     (\<forall>g j. enc_graph ops g = Inr j \<longrightarrow>
        j \<noteq> '''' \<and> trim_space j = j \<and> hd j \<noteq> CHR 0x22 \<and> dec_graph ops j = Inr g) \<and>
     (\<forall>j st. enc_envelope ops j = Inr st \<longrightarrow> trim_space st \<noteq> '''' \<and> dec_envelope ops st = Inr j) \<and>
     (\<forall>s data. enc_spec ops s = Inr data \<longrightarrow>
        (\<exists>p. yaml_probe ops data = Inr p \<and> pr_has_card p) \<and> dec_spec_strict ops data = Inr s)"

subsection \<open>Declarations\<close>

text \<open>A normalised declaration is its own normal form.\<close>

lemma normalize_parts:
  assumes "normalizeSpec ops spec = Inr s"
  obtains g j st where "graph_empty ops g = False" "enc_graph ops g = Inr j" "enc_envelope ops j = Inr st"
    "s = spec\<lparr>as_Engine := (as_Engine spec)\<lparr>en_Settings := st\<rparr>, as_Version := specVersion\<rparr>"
  using assms unfolding normalizeSpec_def graphToMap_def Let_def result_iffs by auto

lemma normalize_again:
  assumes cod: "good_codecs ops" and n: "normalizeSpec ops spec = Inr s"
  shows "normalizeSpec ops s = Inr s"
proof -
  obtain g j st where g: "graph_empty ops g = False" "enc_graph ops g = Inr j" "enc_envelope ops j = Inr st"
    "s = spec\<lparr>as_Engine := (as_Engine spec)\<lparr>en_Settings := st\<rparr>, as_Version := specVersion\<rparr>"
    using n by (rule normalize_parts)
  have j: "j \<noteq> ''''" "trim_space j = j" "hd j \<noteq> CHR 0x22" "dec_graph ops j = Inr g"
    and st: "trim_space st \<noteq> ''''" "dec_envelope ops st = Inr j"
    using cod g(2,3) unfolding good_codecs_def by blast+
  have "decodeGraphOnly ops st = Inr j" using j st by (simp add: decodeGraphOnly_def)
  moreover have "graphToMap ops j = Inr g" using j g(1) by (simp add: graphToMap_def parse_source_def)
  ultimately show ?thesis using g by (simp add: normalizeSpec_def)
qed

lemma normalize_card: "normalizeSpec ops spec = Inr s \<Longrightarrow> as_Card s = as_Card spec \<and> as_CreatedAt s = as_CreatedAt spec"
  by (erule normalize_parts) simp

lemma Validate_name: "Validate ops s = None \<Longrightarrow> valid_name (ca_Name (as_Card s))"
  by (auto simp: Validate_def valid_name_def split: if_splits option.splits)

text \<open>What is declared of an agent: what its detail view shows.\<close>

definition declared :: "('f, 'rt, 'g) agent_ops \<Rightarrow> ('f, 'rt) Lifecycle \<Rightarrow> string \<Rightarrow> agent_error + AgentSpec" where
  "declared ops l n =
     (case validateAgentName n of
        Some e \<Rightarrow> Inl e
      | None \<Rightarrow> readSpec ops (lc_fs l) (agentDir ops l n))"

lemma declared_file:
  "decl_files ops (lc_dir l) (lc_fs l') n = decl_files ops (lc_dir l) (lc_fs l) n \<Longrightarrow>
   lc_dir l' = lc_dir l \<Longrightarrow> declared ops l' n = declared ops l n"
  by (auto simp: declared_def decl_files_def valid_name_def readSpec_def agentDir_def split: option.split)

lemma declared_files:
  "decl_files ops (lc_dir l) (lc_fs l') = decl_files ops (lc_dir l) (lc_fs l) \<Longrightarrow>
   lc_dir l' = lc_dir l \<Longrightarrow> declared ops l' = declared ops l"
  by (rule ext, rule declared_file) simp_all

lemma readSpec_valid:
  assumes "readSpec ops fs dir = Inr s"
  shows "Validate ops s = None \<and> (\<exists>s0. normalizeSpec ops s0 = Inr s) \<and> ca_Name (as_Card s) = fp_Base ops dir"
  using assms unfolding readSpec_def
  by (cases "os_ReadFile ops fs (fp_Join ops dir specFile)") (auto simp: check_declaration_def result_iffs)

lemma declared_valid:
  assumes "good_disk ops" "declared ops l n = Inr s"
  shows "valid_name n" "Validate ops s = None" "ca_Name (as_Card s) = n"
proof -
  have r: "valid_name n" "readSpec ops (lc_fs l) (agentDir ops l n) = Inr s"
    using assms(2) by (auto simp: declared_def valid_name_def split: option.split_asm)
  show "valid_name n" "Validate ops s = None" "ca_Name (as_Card s) = n"
    using r readSpec_valid [OF r(2)] good_diskD(6) [OF assms(1) r(1)] by (simp_all add: agentDir_def)
qed

text \<open>A write that succeeds is what is read back; one that fails changes no declaration.\<close>

lemma write_read:
  assumes disk: "good_disk ops" and cod: "good_codecs ops" and s: "normalizeSpec ops s0 = Inr s" "Validate ops s = None"
    and w: "writeSpec ops s l = (None, l')"
  shows "declared ops l' = (declared ops l)(ca_Name (as_Card s) := Inr s) \<and>
    lc_rt l' = lc_rt l \<and> lc_dir l' = lc_dir l \<and> lc_known l' = lc_known l \<and> lc_bound l' = lc_bound l \<and>
    lc_work l' = lc_work l \<and> lc_user l' = lc_user l"
proof -
  let ?n = "ca_Name (as_Card s)"
  have n: "normalizeSpec ops s = Inr s" and v: "valid_name ?n"
    using normalize_again [OF cod s(1)] Validate_name [OF s(2)] by simp_all
  obtain data fs1 fs2 where d: "enc_spec ops s = Inr data" "os_MkdirAll ops (lc_fs l) (agentDir ops l ?n) = (None, fs1)"
    "os_WriteAtomic ops fs1 (fp_Join ops (agentDir ops l ?n) specFile) data = (None, fs2)" "l' = l\<lparr>lc_fs := fs2\<rparr>"
    using w n by (auto simp: writeSpec_def Let_def split: sum.splits prod.splits option.splits)
  have r: "decl_files ops (lc_dir l) fs2 = (decl_files ops (lc_dir l) (lc_fs l))(?n := FileData data)"
    using good_diskD(1,3) [OF disk v] d(2,3) unfolding agentDir_def by metis
  obtain p where "yaml_probe ops data = Inr p" "pr_has_card p" and "dec_spec_strict ops data = Inr s"
    using cod d(1) unfolding good_codecs_def by blast
  then have "LegacyAgentDeclaration ops data = Inr None" "dec_spec_strict ops data = Inr s"
    by (simp_all add: LegacyAgentDeclaration_def)
  moreover have "as_Version s = specVersion" using s(1) by (rule normalize_parts) simp
  moreover have "os_ReadFile ops fs2 (fp_Join ops (agentDir ops l ?n) specFile) = FileData data"
    using fun_cong [OF r, of ?n] v by (simp add: decl_files_def agentDir_def)
  ultimately have "declared ops l' ?n = Inr s"
    using d(4) n s(2) v good_diskD(6) [OF disk v]
    by (simp add: declared_def readSpec_def agentDir_def parse_declaration_def check_declaration_def valid_name_def)
  moreover have "declared ops l' m = declared ops l m" if "m \<noteq> ?n" for m
    using r d(4) that by (intro declared_file) simp_all
  ultimately show ?thesis using d(4) by (auto simp: fun_eq_iff)
qed

lemma write_failed:
  assumes disk: "good_disk ops" and v: "valid_name (ca_Name (as_Card s))" and w: "writeSpec ops s l = (Some e, l')"
  shows "declared ops l' = declared ops l \<and> (\<exists>fs'. l' = l\<lparr>lc_fs := fs'\<rparr>)"
proof -
  have dir: "agentDir ops l (ca_Name (as_Card s')) = fp_Join ops (lc_dir l) (ca_Name (as_Card s))"
    if "normalizeSpec ops s = Inr s'" for s'
    using normalize_card [OF that] by (simp add: agentDir_def)
  have "l' = l \<or> (\<exists>fs1. l' = l\<lparr>lc_fs := fs1\<rparr> \<and> decl_files ops (lc_dir l) fs1 = decl_files ops (lc_dir l) (lc_fs l))"
    using w good_diskD(2,3) [OF disk v] dir
    by (auto simp: writeSpec_def Let_def split: sum.splits prod.splits option.splits)
  then show ?thesis
  proof
    assume "l' = l"
    then have "l' = l\<lparr>lc_fs := lc_fs l\<rparr>" by simp
    then show ?thesis using \<open>l' = l\<close> by metis
  next
    assume "\<exists>fs1. l' = l\<lparr>lc_fs := fs1\<rparr> \<and> decl_files ops (lc_dir l) fs1 = decl_files ops (lc_dir l) (lc_fs l)"
    then show ?thesis by (auto intro!: declared_files)
  qed
qed

subsection \<open>Swapping a definition\<close>

text \<open>What every operation leaves alone.\<close>

definition same_place :: "('f, 'rt) Lifecycle \<Rightarrow> ('f, 'rt) Lifecycle \<Rightarrow> bool" where
  "same_place l l' \<longleftrightarrow> lc_dir l' = lc_dir l \<and> lc_work l' = lc_work l \<and> lc_user l' = lc_user l \<and> lc_bound l' = lc_bound l"

lemma declared_same: "same_place l l' \<Longrightarrow> lc_fs l' = lc_fs l \<Longrightarrow> declared ops l' = declared ops l"
  by (rule ext, rule declared_file) (simp_all add: same_place_def)

lemma same_definition: "same_place l l' \<Longrightarrow> agentDefinition ops l' = agentDefinition ops l"
  by (rule ext) (simp add: same_place_def agentDefinition_def split: sum.splits)

lemma register_cases:
  assumes "good_runtime ops live" "register ops n d l = (r, l')"
  shows "same_place l l' \<and> lc_fs l' = lc_fs l \<and> lc_known l' = lc_known l \<and>
    (case r of None \<Rightarrow> live (lc_rt l) n = None \<and> live (lc_rt l') = (live (lc_rt l))(n \<mapsto> d)
     | Some e \<Rightarrow> live (lc_rt l') = live (lc_rt l) \<and> (isConflict e \<longleftrightarrow> live (lc_rt l) n \<noteq> None))"
  using assms unfolding good_runtime_def
  by (auto simp: register_def same_place_def split: prod.splits option.splits)

lemma unregister_cases:
  assumes "good_runtime ops live" "unregister ops n l = (r, l')"
  shows "same_place l l' \<and> lc_fs l' = lc_fs l \<and> lc_known l' = lc_known l \<and>
    live (lc_rt l') = (case r of None \<Rightarrow> (live (lc_rt l))(n := None) | Some e \<Rightarrow> live (lc_rt l))"
  using assms unfolding good_runtime_def
  by (auto simp: unregister_def same_place_def split: prod.splits option.splits)

lemma steady_register:
  "steady_runtime ops live accepts \<Longrightarrow> register ops n d l = (r, l') \<Longrightarrow>
   r = None \<longleftrightarrow> live (lc_rt l) n = None \<and> accepts n d"
  unfolding steady_runtime_def by (auto simp: register_def split: prod.splits) (metis fst_conv)+

lemma steady_unregister: "steady_runtime ops live accepts \<Longrightarrow> unregister ops n l = (r, l') \<Longrightarrow> r = None"
  unfolding steady_runtime_def by (auto simp: unregister_def split: prod.splits) (metis fst_conv)

text \<open>What a runtime that is up holds once a declaration has been registered under a free name.\<close>

definition taken :: "(string \<Rightarrow> agent_definition \<Rightarrow> bool) \<Rightarrow> string \<Rightarrow> agent_error + agent_definition \<Rightarrow> agent_definition option" where
  "taken accepts n def = (case def of Inr d \<Rightarrow> if accepts n d then Some d else None | Inl e \<Rightarrow> None)"

lemma restore_cases:
  assumes run: "good_runtime ops live" "steady_runtime ops live accepts" and name: "ca_Name (as_Card old) = n"
  shows "same_place l (restoreAfterFailedUpdate ops n old l) \<and>
    lc_fs (restoreAfterFailedUpdate ops n old l) = lc_fs l \<and>
    lc_known (restoreAfterFailedUpdate ops n old l) = lc_known l \<and>
    live (lc_rt (restoreAfterFailedUpdate ops n old l)) = (live (lc_rt l))(n := taken accepts n (agentDefinition ops l old))"
proof -
  obtain r1 l1 where u: "unregister ops n l = (r1, l1)" by fastforce
  have r1: "r1 = None" using steady_unregister [OF run(2) u] .
  have l1: "same_place l l1" "lc_fs l1 = lc_fs l" "lc_known l1 = lc_known l" "live (lc_rt l1) = (live (lc_rt l))(n := None)"
    using unregister_cases [OF run(1) u] r1 by simp_all
  have same: "agentDefinition ops l1 = agentDefinition ops l" using same_definition [OF l1(1)] .
  show ?thesis
  proof (cases "agentDefinition ops l old")
    case (Inl e)
    then have "restoreAfterFailedUpdate ops n old l = l1" using u r1 same by (simp add: restoreAfterFailedUpdate_def)
    then show ?thesis using l1 Inl by (simp add: taken_def)
  next
    case (Inr d)
    obtain r2 l2 where g: "register ops n d l1 = (r2, l2)" by fastforce
    have "r2 = None \<longleftrightarrow> accepts n d" using steady_register [OF run(2) g] l1(4) by simp
    then have "same_place l1 l2" "lc_fs l2 = lc_fs l1" "lc_known l2 = lc_known l1"
      "live (lc_rt l2) = (live (lc_rt l1))(n := taken accepts n (Inr d))"
      using register_cases [OF run(1) g] l1(4) by (auto simp: taken_def split: option.split_asm)
    moreover have "restoreAfterFailedUpdate ops n old l = l2"
      using u r1 g name Inr same by (simp add: restoreAfterFailedUpdate_def)
    ultimately show ?thesis using l1 Inr by (simp add: same_place_def)
  qed
qed

lemma swap_cases:
  assumes run: "good_runtime ops live" "steady_runtime ops live accepts" and disk: "good_disk ops" and cod: "good_codecs ops"
    and name: "ca_Name (as_Card old) = n"
    and upd: "normalizeSpec ops s0 = Inr upd" "Validate ops upd = None" "ca_Name (as_Card upd) = n"
    and s: "swap_definition ops dir n old upd d l = (r, l')"
  shows "same_place l l' \<and> lc_known l' = lc_known l \<and>
    (case r of
       Inl e \<Rightarrow> declared ops l' = declared ops l \<and>
         live (lc_rt l') = (live (lc_rt l))(n := taken accepts n (agentDefinition ops l old))
     | Inr res \<Rightarrow> accepts n d \<and> declared ops l' = (declared ops l)(n := Inr upd) \<and> live (lc_rt l') = (live (lc_rt l))(n \<mapsto> d))"
proof -
  obtain r1 l1 where u: "unregister ops n l = (r1, l1)" by fastforce
  have r1: "r1 = None" using steady_unregister [OF run(2) u] .
  have l1: "same_place l l1" "lc_fs l1 = lc_fs l" "lc_known l1 = lc_known l" "live (lc_rt l1) = (live (lc_rt l))(n := None)"
    using unregister_cases [OF run(1) u] r1 by simp_all
  obtain r2 l2 where g: "register ops n d l1 = (r2, l2)" by fastforce
  have l2: "same_place l l2" "lc_fs l2 = lc_fs l" "lc_known l2 = lc_known l"
    using register_cases [OF run(1) g] l1 by (simp_all add: same_place_def)
  have valid: "valid_name (ca_Name (as_Card upd))" using Validate_name [OF upd(2)] .
  show ?thesis
  proof (cases r2)
    case (Some e)
    have "live (lc_rt l2) = live (lc_rt l1)" using register_cases [OF run(1) g] Some by simp
    moreover have "agentDefinition ops l2 = agentDefinition ops l" using same_definition [OF l2(1)] .
    moreover have "r = Inl (Wrapped ''register updated'' e)" "l' = restoreAfterFailedUpdate ops n old l2"
      using s u r1 g Some by (auto simp: swap_definition_def)
    ultimately show ?thesis
      using restore_cases [OF run name, of l2] l1(4) l2
        declared_same [of l "restoreAfterFailedUpdate ops n old l2" ops]
      by (simp add: same_place_def)
  next
    case None
    then have acc: "accepts n d" using steady_register [OF run(2) g] by simp
    have lv: "live (lc_rt l2) = (live (lc_rt l))(n \<mapsto> d)" using register_cases [OF run(1) g] l1(4) None by simp
    obtain r3 l3 where w: "writeSpec ops upd l2 = (r3, l3)" by fastforce
    show ?thesis
    proof (cases r3)
      case (Some e)
      obtain fs' where f: "l3 = l2\<lparr>lc_fs := fs'\<rparr>" using write_failed [OF disk] valid w Some by blast
      have "declared ops l3 = declared ops l2" using write_failed [OF disk] valid w Some by simp
      moreover have "declared ops l2 = declared ops l" using l2 by (intro declared_same)
      ultimately have p: "same_place l l3" "lc_known l3 = lc_known l" "lc_rt l3 = lc_rt l2" "declared ops l3 = declared ops l"
        using l2 f by (simp_all add: same_place_def)
      then have "agentDefinition ops l3 = agentDefinition ops l" using same_definition by blast
      moreover have "r = Inl (Wrapped ''persist updated'' e)" "l' = restoreAfterFailedUpdate ops n old l3"
        using s u r1 g None w Some by (auto simp: swap_definition_def)
      moreover have "declared ops (restoreAfterFailedUpdate ops n old l3) = declared ops l3"
        if "lc_fs (restoreAfterFailedUpdate ops n old l3) = lc_fs l3" "same_place l3 (restoreAfterFailedUpdate ops n old l3)"
        using that by (intro declared_same)
      ultimately show ?thesis
        using restore_cases [OF run name, of l3] p lv by (auto simp: same_place_def)
    next
      case None
      have l3: "declared ops l3 = (declared ops l2)(n := Inr upd)" "lc_rt l3 = lc_rt l2"
        "same_place l2 l3" "lc_known l3 = lc_known l2"
        using write_read [OF disk cod upd(1,2), of l2 l3] w None upd(3) by (auto simp: same_place_def)
      moreover have "declared ops l2 = declared ops l" using l2 by (intro declared_same)
      moreover have "\<exists>res. r = Inr res" "l' = l3"
        using s u r1 g \<open>r2 = None\<close> w None by (auto simp: swap_definition_def)
      ultimately show ?thesis using lv l2 acc by (auto simp: same_place_def)
    qed
  qed
qed

lemma update_cases:
  assumes "Update ops n description graph l = (r, l')"
  obtains (refused) e where "r = Inl e" "l' = l"
    | (unchanged) old upd where "declared ops l n = Inr old" "l' = l" "valid_name n"
        "normalizeSpec ops (apply_changes ops description graph old) = Inr upd"
        "ca_Description (as_Card old) = ca_Description (as_Card upd)" "GraphText ops old = GraphText ops upd"
        "r = Inr (resultFor (agentDir ops l n) upd)"
    | (swapped) old upd d where "declared ops l n = Inr old" "valid_name n" "lc_bound l"
        "normalizeSpec ops (apply_changes ops description graph old) = Inr upd" "Validate ops upd = None"
        "agentDefinition ops l upd = Inr d"
        "swap_definition ops (agentDir ops l n) n old upd d l = (r, l')"
proof -
  have "(\<exists>e. r = Inl e \<and> l' = l) \<or>
    (\<exists>old upd. declared ops l n = Inr old \<and> l' = l \<and> valid_name n \<and>
       normalizeSpec ops (apply_changes ops description graph old) = Inr upd \<and>
       ca_Description (as_Card old) = ca_Description (as_Card upd) \<and> GraphText ops old = GraphText ops upd \<and>
       r = Inr (resultFor (agentDir ops l n) upd)) \<or>
    (\<exists>old upd d. declared ops l n = Inr old \<and> valid_name n \<and> lc_bound l \<and>
       normalizeSpec ops (apply_changes ops description graph old) = Inr upd \<and> Validate ops upd = None \<and>
       agentDefinition ops l upd = Inr d \<and> swap_definition ops (agentDir ops l n) n old upd d l = (r, l'))"
    using assms unfolding Update_def declared_def Let_def valid_name_def
    by (auto split: option.split_asm sum.split_asm if_split_asm)
  then show thesis using refused unchanged swapped by blast
qed

lemma changes_keep_name: "ca_Name (as_Card (apply_changes ops description graph old)) = ca_Name (as_Card old)"
  by (simp add: apply_changes_def Let_def)

text \<open>An agent in step: what is declared is acceptable and is what is live.\<close>

definition in_step ::
  "('f, 'rt, 'g) agent_ops \<Rightarrow> ('rt \<Rightarrow> string \<rightharpoonup> agent_definition) \<Rightarrow> (string \<Rightarrow> agent_definition \<Rightarrow> bool) \<Rightarrow>
   ('f, 'rt) Lifecycle \<Rightarrow> string \<Rightarrow> bool" where
  "in_step ops live accepts l n \<longleftrightarrow>
     (\<forall>old. declared ops l n = Inr old \<longrightarrow>
        (\<exists>d. agentDefinition ops l old = Inr d \<and> accepts n d \<and> live (lc_rt l) n = Some d))"


subsection \<open>Creating\<close>

lemma create_cases:
  assumes "Create ops now spec0 l = (r, l')"
  obtains (refused) e where "r = Inl e" "l' = l"
    | (started) s0 spec d r1 l1 where "normalizeSpec ops s0 = Inr spec" "Validate ops spec = None"
        "as_Card s0 = as_Card spec0" "agentDefinition ops l spec = Inr d"
        "register ops (ca_Name (as_Card spec)) d l = (r1, l1)"
        "(case r1 of Some e \<Rightarrow> (Inl (Wrapped ''register'' e), l1)
          | None \<Rightarrow> (case writeSpec ops spec l1 of
              (Some e, l2) \<Rightarrow> (Inl (Wrapped ''persist'' e), rollback_create ops (ca_Name (as_Card spec)) l2)
            | (None, l2) \<Rightarrow> (Inr (resultFor (agentDir ops l2 (ca_Name (as_Card spec))) spec),
                markKnown (ca_Name (as_Card spec)) l2))) = (r, l')"
proof -
  define s0 where "s0 = (if as_CreatedAt spec0 = zero_time then spec0\<lparr>as_CreatedAt := now\<rparr> else spec0)"
  have card: "as_Card s0 = as_Card spec0" by (simp add: s0_def)
  have c: "Create ops now spec0 l = (r, l')" by (fact assms)
  show thesis
  proof (cases "normalizeSpec ops s0")
    case (Inl e)
    then show thesis using c refused by (auto simp: Create_def s0_def [symmetric] Let_def)
  next
    case spec: (Inr spec)
    show thesis
    proof (cases "Validate ops spec = None \<and> lc_bound l \<and> (\<exists>d. agentDefinition ops l spec = Inr d)")
      case True
      then obtain d where d: "Validate ops spec = None" "lc_bound l" "agentDefinition ops l spec = Inr d" by blast
      obtain r1 l1 where g: "register ops (ca_Name (as_Card spec)) d l = (r1, l1)" by fastforce
      show thesis
        by (rule started [OF spec d(1) card d(3) g])
          (use c spec d g in \<open>simp add: Create_def s0_def [symmetric] Let_def\<close>)
    next
      case False
      have "(\<exists>e. r = Inl e) \<and> l' = l"
        using c spec False
        by (auto simp: Create_def s0_def [symmetric] Let_def split: option.split_asm sum.split_asm if_split_asm)
      then show thesis using refused by blast
    qed
  qed
qed

lemma create_outcome:
  assumes run: "good_runtime ops live" "steady_runtime ops live accepts" and disk: "good_disk ops" and cod: "good_codecs ops"
    and tracked: "\<forall>n\<in>lc_known l. live (lc_rt l) n \<noteq> None" and c: "Create ops now spec0 l = (r, l')"
  shows "same_place l l' \<and> (case r of
      Inl e \<Rightarrow> declared ops l' = declared ops l \<and> live (lc_rt l') = live (lc_rt l) \<and> lc_known l' = lc_known l
    | Inr res \<Rightarrow> (let n = ca_Name (as_Card spec0) in
        live (lc_rt l) n = None \<and> lc_known l' = insert n (lc_known l) \<and>
        (\<exists>spec d. declared ops l' = (declared ops l)(n := Inr spec) \<and> agentDefinition ops l spec = Inr d \<and>
           accepts n d \<and> live (lc_rt l') = (live (lc_rt l))(n \<mapsto> d))))"
  using c
proof (cases rule: create_cases)
  case (started s0 spec d r1 l1)
  let ?n = "ca_Name (as_Card spec)"
  have n: "?n = ca_Name (as_Card spec0)" using normalize_card [OF started(1)] started(3) by simp
  have valid: "valid_name ?n" using Validate_name [OF started(2)] .
  have l1: "same_place l l1" "lc_fs l1 = lc_fs l" "lc_known l1 = lc_known l"
    using register_cases [OF run(1) started(5)] by simp_all
  have dl1: "declared ops l1 = declared ops l" using l1(1,2) by (rule declared_same)
  show ?thesis
  proof (cases r1)
    case (Some e)
    then have "live (lc_rt l1) = live (lc_rt l)" using register_cases [OF run(1) started(5)] by simp
    then show ?thesis using started(6) Some l1(1,3) dl1 by auto
  next
    case None
    then have lv: "live (lc_rt l) ?n = None" "live (lc_rt l1) = (live (lc_rt l))(?n \<mapsto> d)"
      using register_cases [OF run(1) started(5)] by simp_all
    obtain r2 l2 where w: "writeSpec ops spec l1 = (r2, l2)" by fastforce
    show ?thesis
    proof (cases r2)
      case (Some e)
      obtain fs' where f: "l2 = l1\<lparr>lc_fs := fs'\<rparr>" using write_failed [OF disk] valid w Some by blast
      have dl2: "declared ops l2 = declared ops l" using write_failed [OF disk] valid w Some dl1 by simp
      obtain r3 l3 where u: "unregister ops ?n l2 = (r3, l3)" by fastforce
      have r3: "r3 = None" using steady_unregister [OF run(2) u] .
      have l3: "same_place l2 l3" "lc_fs l3 = lc_fs l2" "lc_known l3 = lc_known l2"
        "live (lc_rt l3) = (live (lc_rt l2))(?n := None)"
        using unregister_cases [OF run(1) u] r3 by simp_all
      have "declared ops (forgetKnown ?n l3) = declared ops l3"
        by (rule declared_same) (simp_all add: forgetKnown_def same_place_def)
      moreover have "declared ops l3 = declared ops l2" using l3(1,2) by (rule declared_same)
      moreover have "?n \<notin> lc_known l" using tracked lv(1) by blast
      moreover have "live (lc_rt l3) = live (lc_rt l)" using l3(4) f lv by (simp add: fun_upd_idem)
      moreover have "l' = forgetKnown ?n l3" "\<exists>e. r = Inl e"
        using started(6) None w Some u r3 by (auto simp: rollback_create_def)
      moreover have "same_place l (forgetKnown ?n l3)" using l1(1) l3(1) f by (simp add: same_place_def forgetKnown_def)
      ultimately show ?thesis using dl2 l3(3) f l1(3) by (auto simp: forgetKnown_def)
    next
      case none: None
      have l2: "declared ops l2 = (declared ops l1)(?n := Inr spec)" "lc_rt l2 = lc_rt l1" "lc_known l2 = lc_known l1"
        "same_place l1 l2"
        using write_read [OF disk cod started(1,2), of l1 l2] w none by (simp_all add: same_place_def)
      have "declared ops (markKnown ?n l2) = declared ops l2"
        by (rule declared_same) (simp_all add: markKnown_def same_place_def)
      moreover have "\<exists>res. r = Inr res" "l' = markKnown ?n l2" using started(6) None w none by auto
      moreover have "same_place l (markKnown ?n l2)" using l1(1) l2(4) by (simp add: same_place_def markKnown_def)
      moreover have "accepts ?n d" using steady_register [OF run(2) started(5)] None by simp
      ultimately show ?thesis using lv l2(1-3) dl1 l1(3) started(4) n
        by (auto simp: markKnown_def Let_def intro!: exI [of _ spec] exI [of _ d])
    qed
  qed
qed (simp add: same_place_def)


subsection \<open>Loading what is missing\<close>

text \<open>
  One declaration: what is live stays as it is; what is new is the declaration's own definition, under
  a name the process did not know; and a declaration that is acceptable ends up live and known.
\<close>

lemma load_missing_dir_cases:
  assumes run: "good_runtime ops live" "steady_runtime ops live accepts" and m: "load_missing_dir ops dir l = (errs, l')"
  shows "same_place l l' \<and> lc_fs l' = lc_fs l \<and> lc_known l \<subseteq> lc_known l' \<and>
    (live (lc_rt l') = live (lc_rt l) \<or>
     (\<exists>spec d. readSpec ops (lc_fs l) dir = Inr spec \<and> agentDefinition ops l spec = Inr d \<and>
        ca_Name (as_Card spec) \<notin> lc_known l \<and> live (lc_rt l) (ca_Name (as_Card spec)) = None \<and>
        accepts (ca_Name (as_Card spec)) d \<and> live (lc_rt l') = (live (lc_rt l))(ca_Name (as_Card spec) \<mapsto> d))) \<and>
    (\<forall>n. n \<in> lc_known l' \<longrightarrow> n \<in> lc_known l \<or> live (lc_rt l') n \<noteq> None)"
proof (cases "readSpec ops (lc_fs l) dir")
  case (Inr spec)
  let ?n = "ca_Name (as_Card spec)"
  show ?thesis
  proof (cases "isKnown ?n l \<or> (\<exists>e. agentDefinition ops l spec = Inl e)")
    case True
    then have "l' = l" using m Inr by (auto simp: load_missing_dir_def Let_def split: if_split_asm)
    then show ?thesis by (simp add: same_place_def)
  next
    case False
    then obtain d where d: "agentDefinition ops l spec = Inr d" "\<not> isKnown ?n l" by (cases "agentDefinition ops l spec") auto
    obtain r1 l1 where g: "register ops ?n d l = (r1, l1)" by fastforce
    note c = register_cases [OF run(1) g] steady_register [OF run(2) g]
    show ?thesis
    proof (cases r1)
      case None
      then have "l' = markKnown ?n l1" using m Inr d g by (simp add: load_missing_dir_def Let_def)
      then show ?thesis using c None Inr d by (simp add: markKnown_def same_place_def isKnown_def) blast
    next
      case (Some e)
      then have "l' = (if isConflict e then markKnown ?n l1 else l1)"
        using m Inr d g by (simp add: load_missing_dir_def Let_def split: if_split_asm)
      then show ?thesis using c Some by (simp add: markKnown_def same_place_def) blast
    qed
  qed
qed (use m in \<open>simp add: load_missing_dir_def same_place_def\<close>)

lemma load_missing_dir_live:
  assumes run: "good_runtime ops live" "steady_runtime ops live accepts" and m: "load_missing_dir ops dir l = (errs, l')"
    and s: "readSpec ops (lc_fs l) dir = Inr spec" "agentDefinition ops l spec = Inr d" "accepts (ca_Name (as_Card spec)) d"
  shows "ca_Name (as_Card spec) \<in> lc_known l' \<and> errs = []"
proof (cases "isKnown (ca_Name (as_Card spec)) l")
  case True
  then show ?thesis using m s(1) by (simp add: load_missing_dir_def isKnown_def)
next
  case False
  obtain r1 l1 where g: "register ops (ca_Name (as_Card spec)) d l = (r1, l1)" by fastforce
  have "case r1 of None \<Rightarrow> True | Some e \<Rightarrow> isConflict e"
    using register_cases [OF run(1) g] steady_register [OF run(2) g] s(3) by (auto split: option.split)
  then show ?thesis using m s(1,2) False g
    by (cases r1) (auto simp: load_missing_dir_def markKnown_def)
qed

text \<open>The scan.\<close>

definition declares ::
  "('f, 'rt, 'g) agent_ops \<Rightarrow> ('f, 'rt) Lifecycle \<Rightarrow> string list \<Rightarrow> string \<Rightarrow> agent_definition \<Rightarrow> bool" where
  "declares ops l dirs n d \<longleftrightarrow>
     (\<exists>dir\<in>set dirs. \<exists>spec. readSpec ops (lc_fs l) dir = Inr spec \<and> ca_Name (as_Card spec) = n \<and>
        agentDefinition ops l spec = Inr d)"

definition all_live :: "('rt \<Rightarrow> string \<rightharpoonup> agent_definition) \<Rightarrow> ('f, 'rt) Lifecycle \<Rightarrow> bool" where
  "all_live live l \<longleftrightarrow> (\<forall>n\<in>lc_known l. live (lc_rt l) n \<noteq> None)"

lemma load_missing_keeps:
  assumes run: "good_runtime ops live" "steady_runtime ops live accepts"
  shows "load_dirs (load_missing_dir ops) dirs l = (errs, l') \<Longrightarrow> all_live live l \<Longrightarrow>
    same_place l l' \<and> lc_fs l' = lc_fs l \<and> lc_known l \<subseteq> lc_known l' \<and> live (lc_rt l) \<subseteq>\<^sub>m live (lc_rt l') \<and>
    all_live live l' \<and>
    (\<forall>n d. live (lc_rt l') n = Some d \<longrightarrow> live (lc_rt l) n = Some d \<or> declares ops l dirs n d \<and> accepts n d)"
proof (induction dirs arbitrary: l errs)
  case Nil
  then show ?case by (simp add: same_place_def)
next
  case (Cons dir dirs)
  obtain e1 l1 where l1: "load_missing_dir ops dir l = (e1, l1)" by fastforce
  obtain e2 where l2: "load_dirs (load_missing_dir ops) dirs l1 = (e2, l')"
    using Cons.prems(1) l1 by (auto split: prod.splits)
  note c = load_missing_dir_cases [OF run l1]
  have grow: "live (lc_rt l) \<subseteq>\<^sub>m live (lc_rt l1)" using c by (auto simp: map_le_def)
  then have known: "all_live live l1"
    using c Cons.prems(2) unfolding all_live_def map_le_def dom_def by (metis (mono_tags) mem_Collect_eq)
  have "declares ops l1 dirs n d \<Longrightarrow> declares ops l (dir # dirs) n d" for n d
    using c same_definition [of l l1 ops] by (auto simp: declares_def)
  moreover have "live (lc_rt l) n = Some d \<or> declares ops l (dir # dirs) n d \<and> accepts n d" if "live (lc_rt l1) n = Some d" for n d
    using c that by (auto simp: declares_def split: if_split_asm)
  moreover note ih = Cons.IH [OF l2 known]
  ultimately have "live (lc_rt l) n = Some d \<or> declares ops l (dir # dirs) n d \<and> accepts n d" if "live (lc_rt l') n = Some d" for n d
    using that by blast
  moreover have "same_place l l'" "lc_fs l' = lc_fs l" using ih c by (simp_all add: same_place_def)
  moreover have "live (lc_rt l) \<subseteq>\<^sub>m live (lc_rt l')" using ih map_le_trans [OF grow] by blast
  ultimately show ?case using ih c by blast
qed

lemma load_missing_known:
  "good_runtime ops live \<Longrightarrow> steady_runtime ops live accepts \<Longrightarrow>
   load_dirs (load_missing_dir ops) dirs l = (errs, l') \<Longrightarrow> lc_known l \<subseteq> lc_known l'"
proof (induction dirs arbitrary: l errs)
  case (Cons dir dirs)
  obtain e1 l1 where l1: "load_missing_dir ops dir l = (e1, l1)" by fastforce
  then obtain e2 where "load_dirs (load_missing_dir ops) dirs l1 = (e2, l')"
    using Cons.prems(3) by (auto split: prod.splits)
  then show ?case using Cons.IH Cons.prems(1,2) load_missing_dir_cases [OF Cons.prems(1,2) l1] by blast
qed simp

lemma load_missing_covers:
  assumes run: "good_runtime ops live" "steady_runtime ops live accepts"
  shows "load_dirs (load_missing_dir ops) dirs l = (errs, l') \<Longrightarrow> dir \<in> set dirs \<Longrightarrow>
    readSpec ops (lc_fs l) dir = Inr spec \<Longrightarrow> agentDefinition ops l spec = Inr d \<Longrightarrow>
    accepts (ca_Name (as_Card spec)) d \<Longrightarrow> ca_Name (as_Card spec) \<in> lc_known l'"
proof (induction dirs arbitrary: l errs)
  case (Cons a dirs)
  obtain e1 l1 where l1: "load_missing_dir ops a l = (e1, l1)" by fastforce
  obtain e2 where l2: "load_dirs (load_missing_dir ops) dirs l1 = (e2, l')"
    using Cons.prems(1) l1 by (auto split: prod.splits)
  have same: "agentDefinition ops l1 = agentDefinition ops l" "lc_fs l1 = lc_fs l"
    using load_missing_dir_cases [OF run l1] same_definition by blast+
  show ?case
  proof (cases "dir = a")
    case True
    then have k: "ca_Name (as_Card spec) \<in> lc_known l1"
      using load_missing_dir_live [OF run l1] Cons.prems(3-5) by blast
    have "lc_known l1 \<subseteq> lc_known l'" by (rule load_missing_known [OF run l2])
    then show ?thesis using k by blast
  next
    case False
    then show ?thesis using Cons.IH [OF l2] Cons.prems(2-5) same by simp
  qed
qed simp


text \<open>
  Repairing after a reload registers every acceptable declaration that is not registered and replaces
  nothing: what was live is live as it was, what is new is the definition its declaration gives, every
  name counted as registered is live, and a second repair has nothing left to register.
\<close>

theorem load_missing_repairs:
  assumes run: "good_runtime ops live" "steady_runtime ops live accepts" and b: "lc_bound l"
    and k: "\<forall>n\<in>lc_known l. live (lc_rt l) n \<noteq> None"
    and r1: "LoadMissing ops l = (errs, l')" and r2: "LoadMissing ops l' = (errs2, l'')"
  shows "live (lc_rt l) \<subseteq>\<^sub>m live (lc_rt l') \<and> lc_fs l' = lc_fs l \<and>
    (\<forall>n d. live (lc_rt l') n = Some d \<longrightarrow> live (lc_rt l) n = Some d \<or> declares ops l (scanDirs ops l) n d \<and> accepts n d) \<and>
    (\<forall>n d. declares ops l (scanDirs ops l) n d \<longrightarrow> accepts n d \<longrightarrow> n \<in> lc_known l') \<and>
    (\<forall>n\<in>lc_known l'. live (lc_rt l') n \<noteq> None) \<and>
    live (lc_rt l'') = live (lc_rt l')"
proof -
  have d1: "load_dirs (load_missing_dir ops) (scanDirs ops l) l = (errs, l')" using r1 b by (simp add: LoadMissing_def)
  have al: "all_live live l" using k by (simp add: all_live_def)
  note s1 = load_missing_keeps [OF run d1 al]
  have sc: "scanDirs ops l' = scanDirs ops l" using s1 unfolding scanDirs_def same_place_def by metis
  have dec: "declares ops l' dirs n d = declares ops l dirs n d" for dirs n d
    using s1 same_definition [of l l' ops] by (simp add: declares_def)
  have d2: "load_dirs (load_missing_dir ops) (scanDirs ops l) l' = (errs2, l'')"
    using r2 b s1 sc by (simp add: LoadMissing_def same_place_def)
  note s2 = load_missing_keeps [OF run d2]
  have cov: "n \<in> lc_known l'" if "declares ops l (scanDirs ops l) n d" "accepts n d" for n d
    using that load_missing_covers [OF run d1] unfolding declares_def by blast
  have "live (lc_rt l') n = Some d" if a: "live (lc_rt l'') n = Some d" for n d
  proof -
    have "live (lc_rt l') n = Some d \<or> n \<in> lc_known l'" using s1 s2 a dec cov sc by metis
    moreover have "live (lc_rt l') n = Some d" if known: "n \<in> lc_known l'"
    proof -
      have "all_live live l'" using s1 by blast
      then obtain d' where d': "live (lc_rt l') n = Some d'" using known by (auto simp: all_live_def)
      then have "live (lc_rt l'') n = Some d'" using s1 s2 by (metis domI map_le_def)
      then show ?thesis using a d' by simp
    qed
    ultimately show ?thesis by blast
  qed
  then have "live (lc_rt l'') = live (lc_rt l')" using s1 s2 by (metis map_le_antisym map_le_def domD)
  then show ?thesis using s1 cov by (simp add: all_live_def)
qed

subsection \<open>Histories\<close>

text \<open>
  In sync: an acceptable declaration, and its definition live. Every name is free and not counted as
  registered, or in sync, or one of the runtime's own agents, \<open>host\<close>, that no declaration names.
\<close>

definition in_sync ::
  "('f, 'rt, 'g) agent_ops \<Rightarrow> ('rt \<Rightarrow> string \<rightharpoonup> agent_definition) \<Rightarrow> (string \<Rightarrow> agent_definition \<Rightarrow> bool) \<Rightarrow>
   ('f, 'rt) Lifecycle \<Rightarrow> string \<Rightarrow> bool" where
  "in_sync ops live accepts l n \<longleftrightarrow>
     (\<exists>spec d. declared ops l n = Inr spec \<and> agentDefinition ops l spec = Inr d \<and> accepts n d \<and> live (lc_rt l) n = Some d)"

definition own_agent ::
  "('f, 'rt, 'g) agent_ops \<Rightarrow> ('rt \<Rightarrow> string \<rightharpoonup> agent_definition) \<Rightarrow> (string \<rightharpoonup> agent_definition) \<Rightarrow>
   ('f, 'rt) Lifecycle \<Rightarrow> string \<Rightarrow> bool" where
  "own_agent ops live host l n \<longleftrightarrow>
     live (lc_rt l) n = host n \<and> host n \<noteq> None \<and> (\<forall>spec. declared ops l n \<noteq> Inr spec) \<and> n \<notin> lc_known l"

definition name_ok ::
  "('f, 'rt, 'g) agent_ops \<Rightarrow> ('rt \<Rightarrow> string \<rightharpoonup> agent_definition) \<Rightarrow> (string \<Rightarrow> agent_definition \<Rightarrow> bool) \<Rightarrow>
   (string \<rightharpoonup> agent_definition) \<Rightarrow> ('f, 'rt) Lifecycle \<Rightarrow> string \<Rightarrow> bool" where
  "name_ok ops live accepts host l n \<longleftrightarrow>
     live (lc_rt l) n = None \<and> n \<notin> lc_known l \<or> in_sync ops live accepts l n \<or> own_agent ops live host l n"

definition agents_ok ::
  "('f, 'rt, 'g) agent_ops \<Rightarrow> ('rt \<Rightarrow> string \<rightharpoonup> agent_definition) \<Rightarrow> (string \<Rightarrow> agent_definition \<Rightarrow> bool) \<Rightarrow>
   (string \<rightharpoonup> agent_definition) \<Rightarrow> ('f, 'rt) Lifecycle \<Rightarrow> bool" where
  "agents_ok ops live accepts host l \<longleftrightarrow> (\<forall>n. name_ok ops live accepts host l n)"

lemma name_ok_same:
  assumes "same_place l l'" "declared ops l' n = declared ops l n" "live (lc_rt l') n = live (lc_rt l) n"
    "n \<in> lc_known l' \<longleftrightarrow> n \<in> lc_known l"
  shows "name_ok ops live accepts host l' n = name_ok ops live accepts host l n"
  using assms same_definition [OF assms(1), of ops] by (simp add: name_ok_def in_sync_def own_agent_def)

text \<open>A change at one name.\<close>

lemma agents_ok_at:
  assumes ok: "agents_ok ops live accepts host l" and p: "same_place l l'"
    and other: "\<And>m. m \<noteq> n \<Longrightarrow> declared ops l' m = declared ops l m \<and> live (lc_rt l') m = live (lc_rt l) m \<and>
      (m \<in> lc_known l' \<longleftrightarrow> m \<in> lc_known l)"
    and here: "name_ok ops live accepts host l' n"
  shows "agents_ok ops live accepts host l'"
  unfolding agents_ok_def
proof
  fix m
  show "name_ok ops live accepts host l' m"
  proof (cases "m = n")
    case False
    then show ?thesis using name_ok_same [OF p] other [OF False] ok unfolding agents_ok_def by blast
  qed (use here in simp)
qed

lemma agents_ok_tracked: "agents_ok ops live accepts host l \<Longrightarrow> \<forall>n\<in>lc_known l. live (lc_rt l) n \<noteq> None"
  unfolding agents_ok_def name_ok_def in_sync_def own_agent_def by (metis option.distinct(1))

lemma declared_ok:
  "agents_ok ops live accepts host l \<Longrightarrow> declared ops l n = Inr spec \<Longrightarrow>
   live (lc_rt l) n = None \<and> n \<notin> lc_known l \<or> in_sync ops live accepts l n"
  unfolding agents_ok_def name_ok_def own_agent_def by blast

lemma update_ok:
  assumes run: "good_runtime ops live" "steady_runtime ops live accepts" and disk: "good_disk ops" and cod: "good_codecs ops"
    and ok: "agents_ok ops live accepts host l" and u: "Update ops n description graph l = (r, l')"
  shows "agents_ok ops live accepts host l'"
  using u
proof (cases rule: update_cases)
  case (swapped old upd d)
  have name: "ca_Name (as_Card old) = n" using declared_valid(3) [OF disk swapped(1)] .
  then have "ca_Name (as_Card upd) = n"
    using normalize_card [OF swapped(4)] changes_keep_name [of ops description graph old] by simp
  note res = swap_cases [OF run disk cod name swapped(4,5) this swapped(7)]
  have p: "same_place l l'" "lc_known l' = lc_known l" using res by simp_all
  note same = same_definition [OF p(1), of ops]
  show ?thesis
  proof (cases r)
    case (Inl e)
    then have e: "declared ops l' = declared ops l"
      "live (lc_rt l') = (live (lc_rt l))(n := taken accepts n (agentDefinition ops l old))"
      using res by simp_all
    show ?thesis
    proof (rule agents_ok_at [OF ok p(1), of n])
      have "taken accepts n (agentDefinition ops l old) = None \<Longrightarrow> \<not> in_sync ops live accepts l n"
        using swapped(1) by (auto simp: in_sync_def taken_def)
      then have "taken accepts n (agentDefinition ops l old) = None \<Longrightarrow> n \<notin> lc_known l"
        using declared_ok [OF ok swapped(1)] by blast
      moreover have "taken accepts n (agentDefinition ops l old) = Some d' \<Longrightarrow> in_sync ops live accepts l' n" for d'
        using e swapped(1) same by (auto simp: in_sync_def taken_def split: sum.split_asm if_split_asm)
      ultimately show "name_ok ops live accepts host l' n"
        using e(2) p(2) by (cases "taken accepts n (agentDefinition ops l old)") (auto simp: name_ok_def)
    qed (use e p(2) in auto)
  next
    case (Inr x)
    then have e: "accepts n d" "declared ops l' = (declared ops l)(n := Inr upd)" "live (lc_rt l') = (live (lc_rt l))(n \<mapsto> d)"
      using res by simp_all
    then have "in_sync ops live accepts l' n" using swapped(6) same by (simp add: in_sync_def)
    then show ?thesis using e p(2) by (intro agents_ok_at [OF ok p(1), of n]) (auto simp: name_ok_def)
  qed
qed (use ok in auto)

lemma create_ok:
  assumes run: "good_runtime ops live" "steady_runtime ops live accepts" and disk: "good_disk ops" and cod: "good_codecs ops"
    and ok: "agents_ok ops live accepts host l" and c: "Create ops now spec0 l = (r, l')"
  shows "agents_ok ops live accepts host l'"
proof (cases r)
  case (Inl e)
  then have "same_place l l'" "declared ops l' = declared ops l" "live (lc_rt l') = live (lc_rt l)" "lc_known l' = lc_known l"
    using create_outcome [OF run disk cod agents_ok_tracked [OF ok] c] by simp_all
  then show ?thesis using ok name_ok_same [of l l' ops _ live accepts host] by (simp add: agents_ok_def)
next
  case (Inr x)
  let ?n = "ca_Name (as_Card spec0)"
  obtain spec d where e: "same_place l l'" "lc_known l' = insert ?n (lc_known l)" "declared ops l' = (declared ops l)(?n := Inr spec)"
    "agentDefinition ops l spec = Inr d" "live (lc_rt l') = (live (lc_rt l))(?n \<mapsto> d)" "accepts ?n d"
    using create_outcome [OF run disk cod agents_ok_tracked [OF ok] c, unfolded Inr sum.case Let_def] by blast
  have "in_sync ops live accepts l' ?n" using e same_definition [OF e(1), of ops] by (simp add: in_sync_def)
  then show ?thesis using e by (intro agents_ok_at [OF ok e(1), of ?n]) (auto simp: name_ok_def)
qed

lemma remove_ok:
  assumes run: "good_runtime ops live" "steady_runtime ops live accepts" and disk: "good_disk ops"
    and ok: "agents_ok ops live accepts host l" and m: "Remove_agent ops n l = (r, l')"
  shows "agents_ok ops live accepts host l'"
proof (cases "valid_name n \<and> lc_bound l")
  case False
  then have "l' = l" using m by (auto simp: Remove_agent_def valid_name_def split: option.split_asm)
  then show ?thesis using ok by simp
next
  case True
  obtain r1 l1 where u: "unregister ops n l = (r1, l1)" by fastforce
  have r1: "r1 = None" using steady_unregister [OF run(2) u] .
  have l1: "same_place l l1" "lc_fs l1 = lc_fs l" "lc_known l1 = lc_known l" "live (lc_rt l1) = (live (lc_rt l))(n := None)"
    using unregister_cases [OF run(1) u] r1 by simp_all
  obtain r2 fs' where d: "os_RemoveAll ops (lc_fs l) (fp_Join ops (lc_dir l) n) = (r2, fs')" by fastforce
  have l': "l' = (forgetKnown n l1)\<lparr>lc_fs := fs'\<rparr>"
    using m True u r1 d l1(1,2) by (auto simp: Remove_agent_def valid_name_def forgetKnown_def agentDir_def Let_def same_place_def)
  then have p: "same_place l l'" "lc_known l' = lc_known l - {n}" "live (lc_rt l') = (live (lc_rt l))(n := None)"
    using l1 by (simp_all add: same_place_def forgetKnown_def)
  have "decl_files ops (lc_dir l) fs' m = decl_files ops (lc_dir l) (lc_fs l) m" if "m \<noteq> n" for m
    using good_diskD(4,5) [OF disk conjunct1 [OF True]] d that by (cases r2) fastforce+
  then have "declared ops l' m = declared ops l m" if "m \<noteq> n" for m
    using that l' p(1) by (intro declared_file) (auto simp: same_place_def)
  then show ?thesis using p by (intro agents_ok_at [OF ok p(1), of n]) (auto simp: name_ok_def)
qed

text \<open>The entries of a directory are names without a separator.\<close>

definition good_listing :: "('f, 'rt, 'g) agent_ops \<Rightarrow> bool" where
  "good_listing ops \<longleftrightarrow>
     (\<forall>fs dir entries n b. os_ReadDir ops fs dir = Inr entries \<longrightarrow> (n, b) \<in> set entries \<longrightarrow>
        fp_Base ops (fp_Join ops dir n) = n)"

lemma scan_declared:
  assumes g: "good_listing ops" and d: "dir \<in> set (scanDirs ops l)" and p: "same_place l l1" "lc_fs l1 = lc_fs l"
    and s: "readSpec ops (lc_fs l1) dir = Inr spec"
  shows "declared ops l1 (ca_Name (as_Card spec)) = Inr spec"
proof -
  obtain entries where r: "os_ReadDir ops (lc_fs l) (lc_dir l) = Inr entries"
    using d by (cases "os_ReadDir ops (lc_fs l) (lc_dir l)") (auto simp: scanDirs_def)
  then obtain n b where e: "(n, b) \<in> set entries" "dir = fp_Join ops (lc_dir l) n" using d by (auto simp: scanDirs_def)
  have "fp_Base ops dir = n" using g r e unfolding good_listing_def by blast
  then show ?thesis
    using readSpec_valid [OF s] s e(2) p Validate_name [of ops spec]
    by (simp add: declared_def agentDir_def same_place_def valid_name_def)
qed

lemma load_dir_ok:
  assumes run: "good_runtime ops live" "steady_runtime ops live accepts"
    and ok: "agents_ok ops live accepts host l" and f: "f = load_dir ops \<or> f = load_missing_dir ops" and m: "f dir l = (errs, l')"
    and s: "\<And>spec. readSpec ops (lc_fs l) dir = Inr spec \<Longrightarrow> declared ops l (ca_Name (as_Card spec)) = Inr spec"
  shows "agents_ok ops live accepts host l' \<and> same_place l l' \<and> lc_fs l' = lc_fs l"
proof (cases "\<exists>spec d. readSpec ops (lc_fs l) dir = Inr spec \<and> agentDefinition ops l spec = Inr d \<and> l' \<noteq> l")
  case False
  then have "l' = l"
    using m f by (auto simp: load_dir_def load_missing_dir_def Let_def split: sum.split_asm option.split_asm if_split_asm)
  then show ?thesis using ok by (simp add: same_place_def)
next
  case True
  then obtain spec d where sp: "readSpec ops (lc_fs l) dir = Inr spec" "agentDefinition ops l spec = Inr d" "l' \<noteq> l" by blast
  let ?n = "ca_Name (as_Card spec)"
  obtain r1 l1 where g: "register ops ?n d l = (r1, l1)" by fastforce
  have l': "l' = markKnown ?n l1 \<and> (r1 = None \<or> (\<exists>e. r1 = Some e \<and> isConflict e)) \<or> l' = l1 \<and> r1 \<noteq> None"
    using m f sp g by (auto simp: load_dir_def load_missing_dir_def Let_def split: option.split_asm if_split_asm)
  note c = register_cases [OF run(1) g] and acc = steady_register [OF run(2) g]
  obtain k where k: "lc_rt l' = lc_rt l1" "lc_fs l' = lc_fs l1" "same_place l1 l'"
      "lc_known l' = (if k then insert ?n (lc_known l1) else lc_known l1)"
      "k \<Longrightarrow> r1 = None \<or> (\<exists>e. r1 = Some e \<and> isConflict e)"
  proof (cases "l' = markKnown ?n l1 \<and> (r1 = None \<or> (\<exists>e. r1 = Some e \<and> isConflict e))")
    case True
    then show thesis using that [of True] True by (simp add: markKnown_def same_place_def)
  next
    case False
    then have "l' = l1" using l' by auto
    then show thesis using that [of False] False by (simp add: same_place_def)
  qed
  have l1: "same_place l l1" "lc_fs l1 = lc_fs l" "lc_known l1 = lc_known l" using c by simp_all
  have p: "same_place l l'" "lc_fs l' = lc_fs l" using k(2,3) l1 by (simp_all add: same_place_def)
  have decl: "declared ops l' = declared ops l" using declared_same [OF p] .
  have same: "agentDefinition ops l' = agentDefinition ops l" using same_definition [OF p(1)] .
  have lv: "live (lc_rt l') = (case r1 of None \<Rightarrow> (live (lc_rt l))(?n \<mapsto> d) | Some e \<Rightarrow> live (lc_rt l))"
    using c k(1) by (cases r1) simp_all
  have "name_ok ops live accepts host l' ?n"
  proof (cases "in_sync ops live accepts l ?n \<or> r1 = None")
    case True
    have "in_sync ops live accepts l' ?n"
    proof (cases r1)
      case None
      then show ?thesis using acc s [OF sp(1)] sp(2) decl same lv by (simp add: in_sync_def)
    qed (use True lv decl same in \<open>simp add: in_sync_def\<close>)
    then show ?thesis by (simp add: name_ok_def)
  next
    case False
    then obtain e where e: "r1 = Some e" by auto
    have n: "live (lc_rt l) ?n = None" "?n \<notin> lc_known l" using declared_ok [OF ok s [OF sp(1)]] False by blast+
    moreover have "\<not> k" using c e n(1) k(5) by auto
    ultimately show ?thesis using lv e k(4) l1(3) by (simp add: name_ok_def)
  qed
  moreover have "declared ops l' m = declared ops l m \<and> live (lc_rt l') m = live (lc_rt l) m \<and>
      (m \<in> lc_known l' \<longleftrightarrow> m \<in> lc_known l)" if "m \<noteq> ?n" for m
    using that lv k(4) l1(3) decl by (simp split: option.split)
  ultimately have "agents_ok ops live accepts host l'" by (intro agents_ok_at [OF ok p(1), of ?n]) blast+
  then show ?thesis using p by simp
qed

lemma load_dirs_ok:
  assumes run: "good_runtime ops live" "steady_runtime ops live accepts"
    and f: "f = load_dir ops \<or> f = load_missing_dir ops" and g: "good_listing ops"
  shows "load_dirs f dirs l = (errs, l') \<Longrightarrow> set dirs \<subseteq> set (scanDirs ops l0) \<Longrightarrow> same_place l0 l \<Longrightarrow> lc_fs l = lc_fs l0 \<Longrightarrow>
    agents_ok ops live accepts host l \<Longrightarrow> agents_ok ops live accepts host l'"
proof (induction dirs arbitrary: l errs)
  case (Cons dir dirs)
  obtain e1 l1 where l1: "f dir l = (e1, l1)" by fastforce
  then obtain e2 where l2: "load_dirs f dirs l1 = (e2, l')" using Cons.prems(1) by (auto split: prod.splits)
  have "agents_ok ops live accepts host l1 \<and> same_place l l1 \<and> lc_fs l1 = lc_fs l"
    using load_dir_ok [OF run Cons.prems(5) f l1] scan_declared [OF g _ Cons.prems(3,4)] Cons.prems(2) by auto
  then show ?case using Cons.IH [OF l2] Cons.prems(2-4) by (simp add: same_place_def)
qed simp

text \<open>A process: the calls of its tools and of its host, in any order.\<close>

datatype agent_call =
    CreateAgent instant AgentSpec
  | UpdateAgent string string string
  | RemoveAgent string
  | LoadAllAgents
  | LoadMissingAgents

fun agent_step :: "('f, 'rt, 'g) agent_ops \<Rightarrow> agent_call \<Rightarrow> ('f, 'rt) Lifecycle \<Rightarrow> ('f, 'rt) Lifecycle" where
  "agent_step ops (CreateAgent now spec) l = snd (Create ops now spec l)"
| "agent_step ops (UpdateAgent n description graph) l = snd (Update ops n description graph l)"
| "agent_step ops (RemoveAgent n) l = snd (Remove_agent ops n l)"
| "agent_step ops LoadAllAgents l = snd (LoadAll ops l)"
| "agent_step ops LoadMissingAgents l = snd (LoadMissing ops l)"

definition surroundings ::
  "('f, 'rt, 'g) agent_ops \<Rightarrow> ('rt \<Rightarrow> string \<rightharpoonup> agent_definition) \<Rightarrow> (string \<Rightarrow> agent_definition \<Rightarrow> bool) \<Rightarrow> bool" where
  "surroundings ops live accepts \<longleftrightarrow>
     good_runtime ops live \<and> steady_runtime ops live accepts \<and> good_disk ops \<and> good_codecs ops \<and> good_listing ops"

lemma agent_step_ok:
  assumes w: "surroundings ops live accepts" and ok: "agents_ok ops live accepts host l"
  shows "agents_ok ops live accepts host (agent_step ops c l)"
proof -
  have w': "good_runtime ops live" "steady_runtime ops live accepts" "good_disk ops" "good_codecs ops" "good_listing ops"
    using w by (simp_all add: surroundings_def)
  have here: "same_place l l" "lc_fs l = lc_fs l" "set (scanDirs ops l) \<subseteq> set (scanDirs ops l)" by (simp_all add: same_place_def)
  note loads = load_dirs_ok [OF w'(1,2) _ w'(5) _ here(3,1,2) ok]
  show ?thesis
  proof (cases c)
    case (CreateAgent now spec)
    then show ?thesis using create_ok [OF w'(1-4) ok] by (metis agent_step.simps(1) prod.collapse)
  next
    case (UpdateAgent n description graph)
    then show ?thesis using update_ok [OF w'(1-4) ok] by (metis agent_step.simps(2) prod.collapse)
  next
    case (RemoveAgent n)
    then show ?thesis using remove_ok [OF w'(1-3) ok] by (metis agent_step.simps(3) prod.collapse)
  next
    case LoadAllAgents
    then show ?thesis using ok loads [of "load_dir ops"] by (auto simp: LoadAll_def) (metis prod.collapse)
  next
    case LoadMissingAgents
    then show ?thesis using ok loads [of "load_missing_dir ops"] by (auto simp: LoadMissing_def) (metis prod.collapse)
  qed
qed

interpretation registry: call_system
  "\<lambda>c l. if surroundings ops live accepts then agent_step ops c l else l" "agents_ok ops live accepts host"
  for ops :: "('f, 'rt, 'g) agent_ops" and live accepts host
  by unfold_locales (simp add: agent_step_ok)


lemma confirmed_asks:
  assumes "own_ids pv evs" "runtime_answers pv evs ask" "\<not> yolo_seen (set evs)"
  shows "snd (confirmed (Confirm cd (Some ask) title body) act l) = l \<or>
    (\<exists>raw. chosen pv evs (confirm_prompt raw title body) OptionYes)"
proof (cases "Confirm cd (Some ask) title body = Inr True")
  case True
  then show ?thesis using confirm_needs_a_yes [OF assms(1,2) True] assms(3) by blast
next
  case False
  then show ?thesis by (auto simp: confirmed_def split: sum.split)
qed

text \<open>
  C17: The tools that create, update and remove subagents change nothing on disk, in the runtime or in
  the registry unless the user chose yes on exactly the question that names what is about to happen;
  the one exception is a conversation in YOLO mode.
\<close>

theorem agent_tools_need_a_yes:
  assumes ids: "own_ids pv evs" and rt: "runtime_answers pv evs ask" and calm: "\<not> yolo_seen (set evs)"
  shows "(snd (createTool_execute ops cd quote (Some ask) now (Inr a) l) = l \<or>
      (\<exists>raw. chosen pv evs (confirm_prompt raw ''Create subagent?'' (create_question quote a)) OptionYes)) \<and>
    (snd (updateTool_execute ops cd quote (Some ask) (Inr a) l) = l \<or>
      (\<exists>raw. chosen pv evs (confirm_prompt raw ''Update subagent?'' (update_question quote a)) OptionYes)) \<and>
    (snd (removeTool_execute ops cd quote (Some ask) (Inr a) l) = l \<or>
      (\<exists>raw. chosen pv evs (confirm_prompt raw ''Remove subagent?'' (remove_question quote a)) OptionYes))"
proof -
  show ?thesis
    unfolding createTool_execute_def updateTool_execute_def removeTool_execute_def sum.case
    by (intro conjI) (rule confirmed_asks [OF ids rt calm])+
qed

subsection \<open>A small runtime and disk\<close>

text \<open>
  Two graphs, two declarations; the disk keeps the first declaration and is full for the second. The
  runtime registers what is free.
\<close>

definition sample_spec :: "string \<Rightarrow> AgentSpec" where
  "sample_spec graph =
     \<lparr>as_Version = 1, as_Card = \<lparr>ca_Name = ''coder'', ca_Description = ''writes code'', ca_Rest = ''''\<rparr>,
      as_Engine = \<lparr>en_Kind = engineKind, en_Impl = engineImpl, en_Deps = [], en_Settings = graph\<rparr>,
      as_CreatedAt = 7\<rparr>"

definition sample_ops :: "(string \<rightharpoonup> string, string \<rightharpoonup> agent_definition, nat) agent_ops" where
  "sample_ops =
     \<lparr>enc_graph_text = (\<lambda>s. s),
      dec_envelope = (\<lambda>s. if s = ''A'' \<or> s = ''B'' then Inr s else Inl ''envelope''),
      dec_json_string = (\<lambda>s. Inr s),
      yaml_to_json = (\<lambda>s. Inr s),
      dec_graph = (\<lambda>s. if s = ''A'' then Inr 1 else if s = ''B'' then Inr 2 else Inl ''graph''),
      graph_empty = (\<lambda>g. g = 0),
      enc_graph = (\<lambda>g. if g = 1 then Inr ''A'' else if g = 2 then Inr ''B'' else Inl ''graph''),
      enc_envelope = (\<lambda>s. if s = ''A'' \<or> s = ''B'' then Inr s else Inl ''envelope''),
      enc_graph_yaml = (\<lambda>g. if g = 1 then Inr ''a'' else Inr ''b''),
      enc_engine_settings = (\<lambda>s. Inr s),
      enc_hook_settings = (\<lambda>w u. w),
      enc_spec = (\<lambda>s. if s = sample_spec ''A'' then Inr ''one'' else if s = sample_spec ''B'' then Inr ''two'' else Inl ''spec''),
      dec_spec_strict = (\<lambda>d. if d = ''one'' then Inr (sample_spec ''A'') else if d = ''two'' then Inr (sample_spec ''B'') else Inl ''spec''),
      yaml_probe = (\<lambda>d. Inr \<lparr>pr_graph_is_text = False, pr_has_card = True, pr_has_version = True\<rparr>),
      dec_legacy_strict = (\<lambda>d. Inl ''legacy''),
      fp_Join = (\<lambda>a b. a @ ''/'' @ b),
      fp_Base = (\<lambda>p. rev (takeWhile (\<lambda>c. c \<noteq> CHR ''/'') (rev p))),
      os_ReadDir = (\<lambda>fs d. Inr (if fs (''agents/coder/'' @ specFile) = None then [] else [(''coder'', True)])),
      os_ReadFile = (\<lambda>fs p. case fs p of None \<Rightarrow> FileMissing | Some d \<Rightarrow> FileData d),
      os_MkdirAll = (\<lambda>fs p. (None, fs)),
      os_WriteAtomic = (\<lambda>fs p d. if d = ''two'' then (Some ''no space'', fs) else (None, fs(p \<mapsto> d))),
      os_RemoveAll = (\<lambda>fs p. (None, fs(p @ ''/'' @ specFile := None))),
      rt_Register = (\<lambda>rt n d. if rt n = None then (None, rt(n \<mapsto> d)) else (Some (Conflict n), rt)),
      rt_Unregister = (\<lambda>rt n. (None, rt(n := None)))\<rparr>"

definition sample_agents :: "(string \<rightharpoonup> string, string \<rightharpoonup> agent_definition) Lifecycle" where
  "sample_agents =
     \<lparr>lc_bound = True, lc_known = {}, lc_dir = ''agents'', lc_work = ''work'', lc_user = ''user'',
      lc_fs = Map.empty, lc_rt = Map.empty\<rparr>"

definition any_definition :: "string \<Rightarrow> agent_definition \<Rightarrow> bool" where
  "any_definition n d \<longleftrightarrow> True"

lemma sample_runtime: "good_runtime sample_ops (\<lambda>rt. rt)" "steady_runtime sample_ops (\<lambda>rt. rt) any_definition"
  by (auto simp: good_runtime_def steady_runtime_def sample_ops_def any_definition_def split: if_splits)

lemma valid_chars: "valid_name n \<Longrightarrow> list_all agent_char n"
  by (auto simp: valid_name_def validateAgentName_def split: if_splits)

lemma sample_disk: "good_disk sample_ops"
proof -
  have "CHR ''/'' \<notin> set n" if "valid_name n" for n
    using valid_chars [OF that] by (auto simp: list_all_iff agent_char_def)
  then have "rev (takeWhile (\<lambda>c. c \<noteq> CHR ''/'') (rev (dir @ ''/'' @ n))) = n" if "valid_name n" for dir n
    using that by (simp add: takeWhile_append2 takeWhile_append)
  then show ?thesis
    by (auto simp: good_disk_def sample_ops_def decl_files_def intro!: ext split: if_splits)
qed

lemma sample_codecs: "good_codecs sample_ops"
proof -
  have "trim_space ''A'' = ''A''" "trim_space ''B'' = ''B''" by code_simp+
  then show ?thesis by (auto simp: good_codecs_def sample_ops_def sample_spec_def split: if_splits)
qed

definition coder_agents :: "(string \<rightharpoonup> string, string \<rightharpoonup> agent_definition) Lifecycle" where
  "coder_agents = snd (Create sample_ops 0 (sample_spec ''A'') sample_agents)"

definition coder_definition :: agent_definition where
  "coder_definition = (case agentDefinition sample_ops sample_agents (sample_spec ''A'') of Inr d \<Rightarrow> d)"

lemma coder_created: "\<not> isl (fst (Create sample_ops 0 (sample_spec ''A'') sample_agents))"
  by code_simp

lemma coder_state:
  "declared sample_ops coder_agents ''coder'' = Inr (sample_spec ''A'')"
  "agentDefinition sample_ops coder_agents (sample_spec ''A'') = Inr coder_definition"
  "lc_rt coder_agents ''coder'' = Some coder_definition"
  by code_simp+

lemma coder_update_fails: "isl (fst (Update sample_ops ''coder'' '''' ''B'' coder_agents))"
  by code_simp



text \<open>A new process over the same disk.\<close>

definition restarted_agents :: "(string \<rightharpoonup> string, string \<rightharpoonup> agent_definition) Lifecycle" where
  "restarted_agents = coder_agents\<lparr>lc_known := {}, lc_rt := Map.empty\<rparr>"

lemma restarted_state:
  "scanDirs sample_ops restarted_agents = [''agents/coder'']"
  "readSpec sample_ops (lc_fs restarted_agents) ''agents/coder'' = Inr (sample_spec ''A'')"
  "agentDefinition sample_ops restarted_agents (sample_spec ''A'') = Inr coder_definition"
  "lc_bound restarted_agents"
  by code_simp+

theorem load_missing_repairs_witness:
  "lc_rt restarted_agents = Map.empty \<and> lc_rt (snd (LoadMissing sample_ops restarted_agents)) ''coder'' \<noteq> None"
proof -
  have k: "\<forall>n\<in>lc_known restarted_agents. lc_rt restarted_agents n \<noteq> None" by (simp add: restarted_agents_def)
  have d: "declares sample_ops restarted_agents (scanDirs sample_ops restarted_agents) ''coder'' coder_definition"
    using restarted_state by (simp add: declares_def) (simp add: sample_spec_def)
  have "lc_rt restarted_agents = Map.empty" by (simp add: restarted_agents_def)
  then show ?thesis
    using load_missing_repairs [OF sample_runtime restarted_state(4) k prod.collapse [symmetric] prod.collapse [symmetric]]
      d any_definition_def by blast
qed

lemma sample_surroundings: "surroundings sample_ops (\<lambda>rt. rt) any_definition"
proof -
  have "good_listing sample_ops" by (auto simp: good_listing_def sample_ops_def split: if_splits)
  then show ?thesis using sample_runtime sample_disk sample_codecs by (simp add: surroundings_def)
qed

definition coder_history :: "agent_call list" where
  "coder_history = [CreateAgent 0 (sample_spec ''A''), UpdateAgent ''coder'' '''' ''B'', LoadAllAgents, LoadMissingAgents]"

lemma coder_history_live: "lc_rt (run_calls (agent_step sample_ops) coder_history sample_agents) ''coder'' = Some coder_definition"
  by code_simp


definition coder_args :: agent_args where
  "coder_args = \<lparr>ag_Name = ''coder'', ag_Description = ''writes code'', ag_Graph = ''A''\<rparr>"

definition coder_prompt :: "unit UserPrompt" where
  "coder_prompt = confirm_prompt ''[]'' ''Create subagent?'' (create_question (\<lambda>s. s) coder_args)"

lemma coder_spec: "NewSpec sample_ops ''coder'' ''writes code'' ''A'' = (sample_spec ''A'')\<lparr>as_CreatedAt := zero_time\<rparr>"
  by (simp add: NewSpec_def sample_spec_def specVersion_def graphSettings_def sample_ops_def)

lemma coder_tool_creates:
  "lc_known (snd (Create sample_ops 7 ((sample_spec ''A'')\<lparr>as_CreatedAt := zero_time\<rparr>) sample_agents)) = {''coder''}"
  by code_simp

theorem agent_tools_need_a_yes_witness:
  "snd (createTool_execute sample_ops (pv_codec sample_prompts) (\<lambda>s. s) (Some (click_host coder_prompt OptionYes)) 7
      (Inr coder_args) sample_agents) \<noteq> sample_agents \<and>
   (\<exists>raw. chosen sample_prompts (click_history coder_prompt OptionYes)
      (confirm_prompt raw ''Create subagent?'' (create_question (\<lambda>s. s) coder_args)) OptionYes)"
proof -
  have "Confirm (pv_codec sample_prompts) (Some (click_host coder_prompt OptionYes)) ''Create subagent?''
      (create_question (\<lambda>s. s) coder_args) = Inr True"
    unfolding coder_prompt_def by (rule click_confirms)
  then have "snd (createTool_execute sample_ops (pv_codec sample_prompts) (\<lambda>s. s) (Some (click_host coder_prompt OptionYes)) 7
      (Inr coder_args) sample_agents) = snd (Create sample_ops 7 ((sample_spec ''A'')\<lparr>as_CreatedAt := zero_time\<rparr>) sample_agents)"
    by (simp add: createTool_execute_def confirmed_def coder_args_def coder_spec split: prod.split sum.split)
  moreover have "lc_known sample_agents = {}" by (simp add: sample_agents_def)
  ultimately have a: "snd (createTool_execute sample_ops (pv_codec sample_prompts) (\<lambda>s. s)
      (Some (click_host coder_prompt OptionYes)) 7 (Inr coder_args) sample_agents) \<noteq> sample_agents"
    using coder_tool_creates by force
  show ?thesis
    using a agent_tools_need_a_yes [OF click_ids click_answers calm_click, where p1 = coder_prompt and choice1 = OptionYes
        and cd = "pv_codec sample_prompts" and ops = sample_ops and quote = "\<lambda>s. s" and now = 7 and a = coder_args
        and l = sample_agents]
    by blast
qed

subsection \<open>An update that restores nothing\<close>

text \<open>
  The declaration was edited by hand into one the runtime refuses, which the running agent does not
  show. An update that is refused, too, has by then unregistered the agent, cannot put the edited
  declaration back, and leaves the name counted as registered: once the file is repaired, no reload
  registers it again.
\<close>

definition picky_ops :: "(string \<rightharpoonup> string, string \<rightharpoonup> agent_definition, nat) agent_ops" where
  "picky_ops = sample_ops\<lparr>rt_Register := (\<lambda>rt n d.
     if en_Settings (df_Engine d) = ''B'' then (Some (Validation ''graph''), rt)
     else if rt n = None then (None, rt(n \<mapsto> d)) else (Some (Conflict n), rt))\<rparr>"

definition with_file ::
  "string \<Rightarrow> (string \<rightharpoonup> string, string \<rightharpoonup> agent_definition) Lifecycle \<Rightarrow> (string \<rightharpoonup> string, string \<rightharpoonup> agent_definition) Lifecycle" where
  "with_file data l = l\<lparr>lc_fs := [''agents/coder/agent.yaml'' \<mapsto> data]\<rparr>"

theorem refused_update_drops_the_agent:
  "(let (r, l) = Update picky_ops ''coder'' ''reviews code'' '''' (with_file ''two'' coder_agents);
        (errs, l') = LoadMissing picky_ops (with_file ''one'' l)
    in lc_rt coder_agents ''coder'' = Some coder_definition \<and> isl r \<and> lc_rt l ''coder'' = None \<and> errs = [] \<and>
       declared picky_ops l' ''coder'' = Inr (sample_spec ''A'') \<and> lc_rt l' ''coder'' = None)"
  by code_simp

end
