(* ===== verification/Plugins.thy ===== *)
theory Plugins
  imports PatchParse GoUtf8 "HOL-Library.Char_ord" "HOL-Library.List_Lexorder"
begin

text \<open>
  Plugin manifests: \<open>permissions.go\<close>, \<open>secret.go\<close>, \<open>kv.go\<close> and the manifest half of \<open>plugin.go\<close> under
  \<open>src/internal/capabilities/plugins/\<close>. The decoders of \<open>encoding/json\<close>, \<open>url.Parse\<close> and the library's
  path check are the fields of \<open>manifest_codec\<close>; a raw JSON text is a \<open>string\<close>. Where parsing logs a
  warning, it returns the key of the warning; the log itself drops the keys it has seen.
\<close>

subsection \<open>Names\<close>

definition lower_alnum :: "char \<Rightarrow> bool" where
  "lower_alnum c \<longleftrightarrow> (CHR ''a'' \<le> c \<and> c \<le> CHR ''z'') \<or> (CHR ''0'' \<le> c \<and> c \<le> CHR ''9'')"

definition upper_char :: "char \<Rightarrow> bool" where
  "upper_char c \<longleftrightarrow> CHR ''A'' \<le> c \<and> c \<le> CHR ''Z''"

text \<open>A first character and at most \<open>n\<close> more.\<close>

definition name_shape :: "(char \<Rightarrow> bool) \<Rightarrow> (char \<Rightarrow> bool) \<Rightarrow> nat \<Rightarrow> string \<Rightarrow> bool" where
  "name_shape first rest n s = (case s of [] \<Rightarrow> False | c # r \<Rightarrow> first c \<and> length r \<le> n \<and> list_all rest r)"

definition idRe :: "string \<Rightarrow> bool" where
  "idRe = name_shape lower_alnum (\<lambda>c. lower_alnum c \<or> c \<in> set ''._-'') 63"

definition toolNameRe :: "string \<Rightarrow> bool" where
  "toolNameRe = name_shape lower_alnum (\<lambda>c. lower_alnum c \<or> c \<in> set ''_-'') 63"

definition kvKeyRe :: "string \<Rightarrow> bool" where
  "kvKeyRe = name_shape (\<lambda>c. lower_alnum c \<or> upper_char c) (\<lambda>c. lower_alnum c \<or> upper_char c \<or> c \<in> set ''._-'') 127"

definition secretNameRe :: "string \<Rightarrow> bool" where
  "secretNameRe = name_shape (\<lambda>c. lower_alnum c \<or> upper_char c) (\<lambda>c. lower_alnum c \<or> upper_char c \<or> c \<in> set ''._/-'') 127"

datatype plugin_error =
    ManifestTooLarge
  | BadJSON string
  | IdMismatch string string
  | InvalidID string
  | Requires string
  | BadVersion string
  | UnknownPermission string
  | BothSpellings string string
  | BothKraftSpellings
  | BadKraft string
  | NeedsPermission string string
  | TooMany string
  | BadEntry string nat string
  | BadUpdateSource string
  | HostTooOld string string
  | NotInstalled string
  | AlreadyInstalled string
  | BuiltinPlugin string
  | NotNewer string string
  | OlderThanBuiltin string string
  | NoSnapshot string
  | DiskError string
  | BadSource string
  | MissingResource string nat
  | EscapesPlugin string
  | TooBig string
  | InvalidKey string
  | Panicked string

definition ValidateID :: "string \<Rightarrow> plugin_error option" where
  "ValidateID pid = (if \<not> idRe pid then Some (InvalidID pid) else None)"

subsection \<open>Permissions\<close>

definition AllowedPermissions :: "string list" where
  "AllowedPermissions =
     [''secrets:auth'', ''storage:kv'', ''tools:provide'', ''sessions:import'', ''skills:provide'',
      ''mcp:provide'', ''hooks:provide'', ''telemetry:export'']"

fun CheckPermissions :: "string list \<Rightarrow> plugin_error option" where
  "CheckPermissions [] = None"
| "CheckPermissions (p # perms) =
     (if p \<notin> set AllowedPermissions then Some (UnknownPermission p) else CheckPermissions perms)"

definition PermissionRenames :: "(string \<times> string) list" where
  "PermissionRenames =
     [(''skills:contribute'', ''skills:provide''), (''hooks:register'', ''hooks:provide''),
      (''mcp:contribute'', ''mcp:provide''), (''tools:expose'', ''tools:provide'')]"

definition RetiredPermissions :: "string list" where
  "RetiredPermissions = [''events:subscribe'', ''commands:register'', ''statusbar:contribute'', ''pets:contribute'']"

definition retiredPermission :: "string \<Rightarrow> bool" where
  "retiredPermission name \<longleftrightarrow> name \<in> set RetiredPermissions"

datatype manifestAudience = Installed | Authored

datatype warning =
    RetiredGrant string string
  | GrantPair string string
  | KraftPair string
  | StaleContributes string "string list"

fun check_pairs ::
  "string \<Rightarrow> string set \<Rightarrow> manifestAudience \<Rightarrow> (string \<times> string) list \<Rightarrow> warning list \<times> plugin_error option" where
  "check_pairs pid declared audience [] = ([], None)"
| "check_pairs pid declared audience ((old, new) # rs) =
     (if old \<in> declared \<and> new \<in> declared
      then if audience = Authored then ([], Some (BothSpellings old new))
           else (case check_pairs pid declared audience rs of (ws, e) \<Rightarrow> (GrantPair pid old # ws, e))
      else check_pairs pid declared audience rs)"

definition current_spelling :: "string \<Rightarrow> string" where
  "current_spelling p = (case find (\<lambda>(old, new). p = old) PermissionRenames of Some (old, new) \<Rightarrow> new | None \<Rightarrow> p)"

fun canonical_step :: "string \<Rightarrow> string list \<Rightarrow> string set \<Rightarrow> warning list \<times> string list" where
  "canonical_step pid [] seen = ([], [])"
| "canonical_step pid (p0 # perms) seen =
     (let p = current_spelling p0 in
      if retiredPermission p
      then (case canonical_step pid perms seen of (ws, out) \<Rightarrow> (RetiredGrant pid p # ws, out))
      else if p \<in> seen then canonical_step pid perms seen
      else (case canonical_step pid perms (insert p seen) of (ws, out) \<Rightarrow> (ws, p # out)))"

definition canonicalPermissions ::
  "string \<Rightarrow> string list \<Rightarrow> manifestAudience \<Rightarrow> warning list \<times> (plugin_error + string list)" where
  "canonicalPermissions pid perms audience =
     (case check_pairs pid (set perms) audience PermissionRenames of
        (ws, Some e) \<Rightarrow> (ws, Inl e)
      | (ws, None) \<Rightarrow> (case canonical_step pid perms {} of (ws', out) \<Rightarrow> (ws @ ws', Inr out)))"

text \<open>\<open>warnOnce\<close>: the keys seen and the lines logged.\<close>

definition warnOnce :: "warning \<Rightarrow> warning set \<times> warning list \<Rightarrow> warning set \<times> warning list" where
  "warnOnce w s = (case s of (seen, log) \<Rightarrow> if w \<in> seen then (seen, log) else (insert w seen, log @ [w]))"

subsection \<open>Versions\<close>

definition maxVersionLen :: nat where "maxVersionLen = 64"
definition maxVersionSegments :: nat where "maxVersionSegments = 4"
definition maxPrereleaseIDs :: nat where "maxPrereleaseIDs = 8"
definition maxVersionIdentifier :: nat where "maxVersionIdentifier = 32"

record parsedVersion =
  pv_core :: "int list"
  pv_pre :: "string list"

definition parse_segment :: "string \<Rightarrow> int option" where
  "parse_segment p = (if p = '''' \<or> (length p > 1 \<and> hd p = CHR ''0'') then None else atoi p)"

fun parse_segments :: "string list \<Rightarrow> int list option" where
  "parse_segments [] = Some []"
| "parse_segments (p # ps) =
     (case parse_segment p of
        None \<Rightarrow> None
      | Some n \<Rightarrow> (case parse_segments ps of None \<Rightarrow> None | Some ns \<Rightarrow> Some (n # ns)))"

definition parse_prerelease :: "string \<Rightarrow> string list option" where
  "parse_prerelease pre =
     (if pre = '''' then Some []
      else
        (let ids = split_on (CHR ''.'') pre in
         if length ids > maxPrereleaseIDs then None
         else if list_ex (\<lambda>i. i = '''' \<or> length i > maxVersionIdentifier) ids then None else Some ids))"

definition parseVersion :: "string \<Rightarrow> plugin_error + parsedVersion" where
  "parseVersion orig =
     (let v0 = trim_prefix (trim_space orig) ''v'' in
      if v0 = '''' \<or> length v0 > maxVersionLen then Inl (BadVersion orig)
      else
        (let v1 = takeWhile (\<lambda>c. c \<noteq> CHR ''+'') v0;
             core = takeWhile (\<lambda>c. c \<noteq> CHR ''-'') v1;
             pre = drop 1 (dropWhile (\<lambda>c. c \<noteq> CHR ''-'') v1)
         in if core = '''' then Inl (BadVersion orig)
         else
           (let parts = split_on (CHR ''.'') core in
            if length parts > maxVersionSegments then Inl (BadVersion orig)
            else
              (case parse_segments parts of
                 None \<Rightarrow> Inl (BadVersion orig)
               | Some ns \<Rightarrow>
                   (case parse_prerelease pre of
                      None \<Rightarrow> Inl (BadVersion orig)
                    | Some ids \<Rightarrow> Inr \<lparr>pv_core = ns, pv_pre = ids\<rparr>)))))"

definition validateVersion :: "string \<Rightarrow> plugin_error option" where
  "validateVersion v = (case parseVersion v of Inl e \<Rightarrow> Some e | Inr p \<Rightarrow> None)"

text \<open>The signs of the loops of \<open>compareVersions\<close>; a missing core segment is zero.\<close>

fun compare_core :: "int list \<Rightarrow> int list \<Rightarrow> int" where
  "compare_core [] [] = 0"
| "compare_core (x # xs) [] = (if x < 0 then -1 else if x > 0 then 1 else compare_core xs [])"
| "compare_core [] (y # ys) = (if 0 < y then -1 else if 0 > y then 1 else compare_core [] ys)"
| "compare_core (x # xs) (y # ys) = (if x < y then -1 else if x > y then 1 else compare_core xs ys)"

definition compare_ids :: "string \<Rightarrow> string \<Rightarrow> int" where
  "compare_ids x y =
     (case (atoi x, atoi y) of
        (Some xn, Some yn) \<Rightarrow> if xn < yn then -1 else if xn > yn then 1 else 0
      | (Some xn, None) \<Rightarrow> -1
      | (None, Some yn) \<Rightarrow> 1
      | (None, None) \<Rightarrow> if x < y then -1 else if x > y then 1 else 0)"

fun compare_pre :: "string list \<Rightarrow> string list \<Rightarrow> int" where
  "compare_pre [] [] = 0"
| "compare_pre [] (y # ys) = -1"
| "compare_pre (x # xs) [] = 1"
| "compare_pre (x # xs) (y # ys) = (let c = compare_ids x y in if c \<noteq> 0 then c else compare_pre xs ys)"

definition compare_parsed :: "parsedVersion \<Rightarrow> parsedVersion \<Rightarrow> int" where
  "compare_parsed a b =
     (let c = compare_core (pv_core a) (pv_core b) in
      if c \<noteq> 0 then c
      else if pv_pre a = [] \<and> pv_pre b = [] then 0
      else if pv_pre a = [] then 1
      else if pv_pre b = [] then -1
      else compare_pre (pv_pre a) (pv_pre b))"

definition compareVersions :: "string \<Rightarrow> string \<Rightarrow> plugin_error + int" where
  "compareVersions a b =
     try_bind (parseVersion a) (\<lambda>pa. try_bind (parseVersion b) (\<lambda>pb. Inr (compare_parsed pa pb)))"

subsection \<open>Manifests\<close>

record Kraft =
  kr_Binary :: string
  kr_Protocol :: int
  kr_Hosts :: "string list"

record PluginTool =
  pt_Name :: string
  pt_Description :: string
  pt_Method :: string
  pt_InputSchema :: string
  pt_MutatesState :: "bool option"

record PluginMCPServer =
  ms_Name :: string
  ms_Transport :: string
  ms_Command :: string
  ms_Args :: "string list"
  ms_Env :: "(string \<times> string) list"
  ms_URL :: string

record Manifest =
  mf_ID :: string
  mf_Name :: string
  mf_Version :: string
  mf_MinHostVersion :: string
  mf_Entry :: string
  mf_Permissions :: "string list"
  mf_Kraft :: "Kraft option"
  mf_Skills :: "string list"
  mf_McpServers :: "PluginMCPServer list"
  mf_Hooks :: "string list"
  mf_Tools :: "PluginTool list"
  mf_Update :: "string option"

record parsed_url =
  ul_Scheme :: string
  ul_Host :: string
  ul_HasUser :: bool
  ul_Fragment :: string

record manifest_codec =
  js_manifest :: "string \<Rightarrow> string + Manifest"
  js_legacy :: "string \<Rightarrow> string + Kraft option \<times> string"
  js_probe_id :: "string \<Rightarrow> string + string"
  js_probe_version :: "string \<Rightarrow> string option"
  js_object :: "string \<Rightarrow> (string \<rightharpoonup> string) option"
  js_valid :: "string \<Rightarrow> bool"
  url_parse :: "string \<Rightarrow> parsed_url option"
  RelRef :: "string \<Rightarrow> bool"

definition maxPluginManifestBytes :: nat where "maxPluginManifestBytes = 2 ^ 20"
definition maxPluginSkillCount :: nat where "maxPluginSkillCount = 32"
definition maxPluginHookCount :: nat where "maxPluginHookCount = 16"
definition maxPluginMCPServerCount :: nat where "maxPluginMCPServerCount = 16"
definition maxPluginToolCount :: nat where "maxPluginToolCount = 64"
definition maxPluginPathLen :: nat where "maxPluginPathLen = 256"
definition maxPluginDescriptionChars :: nat where "maxPluginDescriptionChars = 1024"
definition maxPluginInputSchemaBytes :: nat where "maxPluginInputSchemaBytes = 32 * 2 ^ 10"
definition maxPluginMethodLen :: nat where "maxPluginMethodLen = 128"
definition maxPluginCommandLen :: nat where "maxPluginCommandLen = 1024"
definition maxPluginURLLen :: nat where "maxPluginURLLen = 2048"
definition maxPluginEnvCount :: nat where "maxPluginEnvCount = 32"
definition maxPluginEnvKeyLen :: nat where "maxPluginEnvKeyLen = 128"
definition maxPluginEnvValueLen :: nat where "maxPluginEnvValueLen = 4096"

lemmas manifest_bounds = maxPluginSkillCount_def maxPluginHookCount_def maxPluginMCPServerCount_def
  maxPluginToolCount_def maxPluginPathLen_def maxPluginDescriptionChars_def maxPluginInputSchemaBytes_def
  maxPluginMethodLen_def maxPluginCommandLen_def maxPluginURLLen_def maxPluginEnvCount_def
  maxPluginEnvKeyLen_def maxPluginEnvValueLen_def

definition manifestHasPermission :: "Manifest \<Rightarrow> string \<Rightarrow> bool" where
  "manifestHasPermission m perm \<longleftrightarrow> perm \<in> set (mf_Permissions m)"

definition requirePermission :: "Manifest \<Rightarrow> string \<Rightarrow> string \<Rightarrow> plugin_error option" where
  "requirePermission m perm what =
     (if perm \<in> set (mf_Permissions m) then None else Some (NeedsPermission what perm))"

text \<open>The first error of a sequence of checks.\<close>

fun first_error :: "plugin_error option list \<Rightarrow> plugin_error option" where
  "first_error [] = None"
| "first_error (c # cs) = (case c of Some e \<Rightarrow> Some e | None \<Rightarrow> first_error cs)"

definition fail_if :: "bool \<Rightarrow> plugin_error \<Rightarrow> plugin_error option" where
  "fail_if b e = (if b then Some e else None)"

definition legacyContributeKeys :: "string list" where
  "legacyContributeKeys = [''settingsPanels'', ''sidebarEntries'', ''pets'']"

definition legacyContributeKeysWritten :: "manifest_codec \<Rightarrow> string \<Rightarrow> string list" where
  "legacyContributeKeysWritten cd raw =
     (if raw = '''' then []
      else
        (case js_object cd raw of
           None \<Rightarrow> []
         | Some declared \<Rightarrow>
             filter (\<lambda>key. case declared key of
                 None \<Rightarrow> False
               | Some v \<Rightarrow> trim_space v \<notin> {'''', ''null'', ''[]'', ''{}''}) legacyContributeKeys))"

definition validateUpdateSource :: "manifest_codec \<Rightarrow> string option \<Rightarrow> plugin_error option" where
  "validateUpdateSource cd u =
     (case u of
        None \<Rightarrow> None
      | Some l \<Rightarrow>
          if trim_space l = '''' then Some (BadUpdateSource ''required'')
          else if length l > maxPluginURLLen then Some (BadUpdateSource ''too long'')
          else
            (case url_parse cd l of
               None \<Rightarrow> Some (BadUpdateSource l)
             | Some p \<Rightarrow>
                 if (ul_Scheme p \<noteq> ''http'' \<and> ul_Scheme p \<noteq> ''https'') \<or> ul_Host p = '''' \<or> ul_HasUser p \<or>
                   ul_Fragment p \<noteq> ''''
                 then Some (BadUpdateSource l) else None))"

definition validateRelativePluginPath :: "manifest_codec \<Rightarrow> string \<Rightarrow> bool" where
  "validateRelativePluginPath cd p \<longleftrightarrow> \<not> (trim_space p = '''' \<or> \<not> RelRef cd p)"

definition validateKraft :: "manifest_codec \<Rightarrow> Kraft option \<Rightarrow> plugin_error option" where
  "validateKraft cd k =
     (case k of
        None \<Rightarrow> None
      | Some kr \<Rightarrow>
          if kr_Binary kr = '''' then Some (BadKraft ''binary is required'')
          else if \<not> RelRef cd (path_Clean (kr_Binary kr)) then Some (BadKraft ''binary escapes plugin dir'')
          else if kr_Protocol kr \<le> 0 then Some (BadKraft ''protocol must be positive'')
          else None)"

definition sameKraftSection :: "Kraft \<Rightarrow> Kraft \<Rightarrow> bool" where
  "sameKraftSection a b \<longleftrightarrow> kr_Binary a = kr_Binary b \<and> kr_Protocol a = kr_Protocol b \<and> kr_Hosts a = kr_Hosts b"

fun check_paths :: "manifest_codec \<Rightarrow> string \<Rightarrow> nat \<Rightarrow> string list \<Rightarrow> plugin_error option" where
  "check_paths cd what i [] = None"
| "check_paths cd what i (p # ps) =
     (if \<not> validateRelativePluginPath cd p then Some (BadEntry what i ''path'')
      else if length p > maxPluginPathLen then Some (BadEntry what i ''path too long'')
      else check_paths cd what (Suc i) ps)"

definition check_server :: "nat \<Rightarrow> PluginMCPServer \<Rightarrow> plugin_error option" where
  "check_server i srv =
     (let bad = BadEntry ''mcpServers'' i in
      if length (ms_Command srv) > maxPluginCommandLen then Some (bad ''command too long'')
      else if length (ms_URL srv) > maxPluginURLLen then Some (bad ''url too long'')
      else if length (ms_Env srv) > maxPluginEnvCount then Some (bad ''too many env entries'')
      else if list_ex (\<lambda>(k, v). length k > maxPluginEnvKeyLen \<or> length v > maxPluginEnvValueLen) (ms_Env srv)
      then Some (bad ''env entry too large'')
      else if ms_Transport srv = ''stdio'' then
        first_error [fail_if (trim_space (ms_Command srv) = '''') (bad ''stdio requires command''),
          fail_if (ms_URL srv \<noteq> '''') (bad ''url is an http field'')]
      else if ms_Transport srv = ''http'' then
        first_error [fail_if (trim_space (ms_URL srv) = '''') (bad ''http requires url''),
          fail_if (ms_Command srv \<noteq> '''') (bad ''command is a stdio field'')]
      else Some (bad ''unknown transport''))"

fun check_servers :: "nat \<Rightarrow> string set \<Rightarrow> PluginMCPServer list \<Rightarrow> plugin_error option" where
  "check_servers i seen [] = None"
| "check_servers i seen (srv # srvs) =
     (if \<not> toolNameRe (ms_Name srv) \<or> ms_Name srv \<in> seen then Some (BadEntry ''mcpServers'' i ''name'')
      else
        (case check_server i srv of
           Some e \<Rightarrow> Some e
         | None \<Rightarrow> check_servers (Suc i) (insert (ms_Name srv) seen) srvs))"

definition default_schema :: string where
  "default_schema = ''{'' @ [CHR 0x22] @ ''type'' @ [CHR 0x22] @ '':'' @ [CHR 0x22] @ ''object'' @ [CHR 0x22] @ ''}''"

definition with_schema :: "PluginTool \<Rightarrow> PluginTool" where
  "with_schema t = (if pt_InputSchema t = '''' then t\<lparr>pt_InputSchema := default_schema\<rparr> else t)"

definition check_tool :: "manifest_codec \<Rightarrow> nat \<Rightarrow> PluginTool \<Rightarrow> plugin_error option" where
  "check_tool cd i t =
     (let bad = BadEntry ''tools'' i in
      first_error
        [fail_if (trim_space (pt_Method t) = '''') (bad ''method is required''),
         fail_if (length (pt_Method t) > maxPluginMethodLen) (bad ''method too long''),
         fail_if (rune_count (pt_Description t) > maxPluginDescriptionChars) (bad ''description too long''),
         fail_if (length (pt_InputSchema t) > maxPluginInputSchemaBytes) (bad ''inputSchema too large''),
         fail_if (\<not> js_valid cd (pt_InputSchema t) \<or> js_object cd (pt_InputSchema t) = None) (bad ''inputSchema must be a JSON object'')])"

fun check_tools :: "manifest_codec \<Rightarrow> nat \<Rightarrow> string set \<Rightarrow> PluginTool list \<Rightarrow> plugin_error + PluginTool list" where
  "check_tools cd i seen [] = Inr []"
| "check_tools cd i seen (t0 # ts) =
     (let t = with_schema t0 in
      if \<not> toolNameRe (pt_Name t) \<or> pt_Name t \<in> seen then Inl (BadEntry ''tools'' i ''name'')
      else
        (case check_tool cd i t of
           Some e \<Rightarrow> Inl e
         | None \<Rightarrow> try_bind (check_tools cd (Suc i) (insert (pt_Name t) seen) ts) (\<lambda>ts'. Inr (t # ts'))))"

definition validateAgentCapabilities :: "manifest_codec \<Rightarrow> Manifest \<Rightarrow> plugin_error + Manifest" where
  "validateAgentCapabilities cd m =
     (case first_error
        [(if mf_Skills m = [] then None
          else first_error [requirePermission m ''skills:provide'' ''skills'',
            fail_if (length (mf_Skills m) > maxPluginSkillCount) (TooMany ''skills''),
            check_paths cd ''skills'' 0 (mf_Skills m)]),
         (if mf_Hooks m = [] then None
          else first_error [requirePermission m ''hooks:provide'' ''hooks'',
            fail_if (length (mf_Hooks m) > maxPluginHookCount) (TooMany ''hooks''),
            check_paths cd ''hooks'' 0 (mf_Hooks m)]),
         (if mf_McpServers m = [] then None
          else first_error [requirePermission m ''mcp:provide'' ''mcpServers'',
            fail_if (length (mf_McpServers m) > maxPluginMCPServerCount) (TooMany ''mcpServers''),
            check_servers 0 {} (mf_McpServers m)])] of
        Some e \<Rightarrow> Inl e
      | None \<Rightarrow>
          if mf_Tools m = [] then Inr m
          else
            (case first_error
               [fail_if (mf_Kraft m = None) (Requires ''a kraft subprocess''),
                requirePermission m ''tools:provide'' ''tools'',
                fail_if (length (mf_Tools m) > maxPluginToolCount) (TooMany ''tools'')] of
               Some e \<Rightarrow> Inl e
             | None \<Rightarrow> try_bind (check_tools cd 0 {} (mf_Tools m)) (\<lambda>ts. Inr (m\<lparr>mf_Tools := ts\<rparr>))))"

text \<open>The kraft section under its old key, \<open>capability\<close>, and what the two keys come to.\<close>

definition merge_kraft ::
  "string \<Rightarrow> manifestAudience \<Rightarrow> Kraft option \<Rightarrow> Kraft option \<Rightarrow> warning list \<times> (plugin_error + Kraft option)" where
  "merge_kraft pid audience kraft capability =
     (case capability of
        None \<Rightarrow> ([], Inr kraft)
      | Some c \<Rightarrow>
          (case kraft of
             None \<Rightarrow> ([], Inr (Some c))
           | Some k \<Rightarrow>
               if audience = Authored \<or> \<not> sameKraftSection k c then ([], Inl BothKraftSpellings)
               else ([KraftPair pid], Inr (Some k))))"

definition check_identity :: "manifest_codec \<Rightarrow> string \<Rightarrow> Manifest \<Rightarrow> plugin_error option" where
  "check_identity cd pid m = first_error
     [fail_if (mf_ID m \<noteq> pid) (IdMismatch (mf_ID m) pid),
      ValidateID (mf_ID m),
      fail_if (trim_space (mf_Name m) = '''') (Requires ''name''),
      fail_if (trim_space (mf_Version m) = '''') (Requires ''version''),
      validateVersion (mf_Version m),
      (if mf_MinHostVersion m = '''' then None else validateVersion (mf_MinHostVersion m)),
      validateUpdateSource cd (mf_Update m),
      fail_if (trim_space (mf_Entry m) = '''') (Requires ''entry'')]"

definition contribute_warnings :: "manifest_codec \<Rightarrow> string \<Rightarrow> string \<Rightarrow> warning list" where
  "contribute_warnings cd pid raw =
     (let written = legacyContributeKeysWritten cd raw in
      if written = [] then [] else [StaleContributes pid written])"

definition parseManifestAs ::
  "manifest_codec \<Rightarrow> string \<Rightarrow> string \<Rightarrow> manifestAudience \<Rightarrow> warning list \<times> (plugin_error + Manifest)" where
  "parseManifestAs cd pid raw audience =
     (if length raw > maxPluginManifestBytes then ([], Inl ManifestTooLarge)
      else
        (case js_manifest cd raw of
           Inl e \<Rightarrow> ([], Inl (BadJSON e))
         | Inr m \<Rightarrow>
             (case check_identity cd pid m of
                Some e \<Rightarrow> ([], Inl e)
              | None \<Rightarrow>
                  (case canonicalPermissions (mf_ID m) (mf_Permissions m) audience of
                     (ws, Inl e) \<Rightarrow> (ws, Inl e)
                   | (ws, Inr perms) \<Rightarrow>
                       (case CheckPermissions perms of
                          Some e \<Rightarrow> (ws, Inl e)
                        | None \<Rightarrow>
                            (case js_legacy cd raw of
                               Inl e \<Rightarrow> (ws, Inl (BadJSON e))
                             | Inr (capability, contributes) \<Rightarrow>
                                 (case merge_kraft (mf_ID m) audience (mf_Kraft m) capability of
                                    (wk, Inl e) \<Rightarrow> (ws @ wk, Inl e)
                                  | (wk, Inr k) \<Rightarrow>
                                      (let ws' = ws @ wk @ contribute_warnings cd (mf_ID m) contributes in
                                       case validateKraft cd k of
                                         Some e \<Rightarrow> (ws', Inl e)
                                       | None \<Rightarrow>
                                           (ws', validateAgentCapabilities cd
                                              (m\<lparr>mf_Permissions := perms, mf_Kraft := k\<rparr>))))))))))"

definition parseManifest :: "manifest_codec \<Rightarrow> string \<Rightarrow> string \<Rightarrow> warning list \<times> (plugin_error + Manifest)" where
  "parseManifest cd pid raw = parseManifestAs cd pid raw Installed"

definition parseManifestForAuthoring ::
  "manifest_codec \<Rightarrow> string \<Rightarrow> string \<Rightarrow> warning list \<times> (plugin_error + Manifest)" where
  "parseManifestForAuthoring cd pid raw = parseManifestAs cd pid raw Authored"

subsection \<open>Secrets\<close>

definition AllowedSecretScopes :: "string list" where
  "AllowedSecretScopes = [''inference'', ''auth'', ''websearch'']"

definition ValidateSecretRef :: "string \<Rightarrow> string \<Rightarrow> bool" where
  "ValidateSecretRef scope name \<longleftrightarrow>
     \<not> (scope \<notin> set AllowedSecretScopes) \<and> \<not> (trim_space name = '''' \<or> \<not> secretNameRe name)"

definition SecretAccount :: "string \<Rightarrow> string \<Rightarrow> string" where
  "SecretAccount scope name = scope @ ''/'' @ name"

end
