(* ===== verification/PluginsLaws.thy ===== *)
theory PluginsLaws
  imports Plugins "HOL-Library.Code_Target_Nat"
begin

text \<open>
  What manifests promise: versions are totally preordered, the permissions of a manifest are what it
  asks for in the current vocabulary, an accepted manifest is well formed, and what the authoring
  gates accept loads from the registry afterwards.
\<close>

subsection \<open>The order of versions\<close>

text \<open>A comparison by signs: swapping the arguments swaps the sign, and not-greater is transitive.\<close>

locale sign_order =
  fixes f :: "'a \<Rightarrow> 'a \<Rightarrow> int"
  assumes swap: "f y x = - f x y"
    and trans: "f x y \<le> 0 \<Longrightarrow> f y z \<le> 0 \<Longrightarrow> f x z \<le> 0"
begin

lemma self [simp]: "f x x = 0"
  using swap [of x x] by simp

lemma less_trans1: "f x y < 0 \<Longrightarrow> f y z \<le> 0 \<Longrightarrow> f x z < 0"
  using trans [of y z x] swap [of x y] swap [of x z] by linarith

lemma less_trans2: "f x y \<le> 0 \<Longrightarrow> f y z < 0 \<Longrightarrow> f x z < 0"
  using trans [of z x y] swap [of x z] swap [of y z] by linarith

lemma equal_trans: "f x y = 0 \<Longrightarrow> f y z = 0 \<Longrightarrow> f x z = 0"
  using trans [of x y z] trans [of z y x] swap [of x y] swap [of y z] swap [of x z] by linarith

text \<open>First by \<open>f\<close>, then by another comparison.\<close>

lemma then_by_trans:
  assumes "f x y = 0 \<and> gxy \<le> 0 \<and> gyz \<le> 0 \<longrightarrow> (gxz :: int) \<le> 0"
    and "(if f x y \<noteq> 0 then f x y else gxy) \<le> 0" and "(if f y z \<noteq> 0 then f y z else gyz) \<le> 0"
  shows "(if f x z \<noteq> 0 then f x z else gxz) \<le> 0"
proof (cases "f x y = 0 \<and> f y z = 0")
  case True
  then show ?thesis using assms equal_trans [of x y z] by simp
next
  case False
  then have "f x z < 0"
    using assms(2,3) less_trans1 [of x y z] less_trans2 [of x y z] by (auto split: if_split_asm)
  then show ?thesis by simp
qed

end

lemma compare_core_swap: "compare_core ys xs = - compare_core xs ys"
  by (induction xs ys rule: compare_core.induct) auto

definition num_sign :: "int \<Rightarrow> int \<Rightarrow> int" where
  "num_sign x y = (if x < y then -1 else if x > y then 1 else 0)"

interpretation num_order: sign_order num_sign
  by unfold_locales (auto simp: num_sign_def split: if_split_asm)

definition segment :: "int list \<Rightarrow> int" where
  "segment xs = (case xs of [] \<Rightarrow> 0 | x # _ \<Rightarrow> x)"

lemma compare_core_step:
  "compare_core xs ys =
   (if num_sign (segment xs) (segment ys) \<noteq> 0 then num_sign (segment xs) (segment ys) else compare_core (tl xs) (tl ys))"
  by (cases "(xs, ys)" rule: compare_core.cases) (simp_all add: num_sign_def segment_def)

lemma compare_core_trans: "compare_core xs ys \<le> 0 \<Longrightarrow> compare_core ys zs \<le> 0 \<Longrightarrow> compare_core xs zs \<le> 0"
proof (induction "length xs + length ys + length zs" arbitrary: xs ys zs rule: less_induct)
  case less
  show ?case
  proof (cases "xs = [] \<and> ys = [] \<and> zs = []")
    case False
    then have "length (tl xs) + length (tl ys) + length (tl zs) < length xs + length ys + length zs"
      by (cases xs; cases ys; cases zs) simp_all
    then have "num_sign (segment xs) (segment ys) = 0 \<and> compare_core (tl xs) (tl ys) \<le> 0 \<and>
        compare_core (tl ys) (tl zs) \<le> 0 \<longrightarrow> compare_core (tl xs) (tl zs) \<le> 0"
      using less.hyps by blast
    from num_order.then_by_trans [OF this, of "segment zs"] show ?thesis
      using less.prems unfolding compare_core_step [symmetric] by blast
  qed simp
qed

interpretation core_order: sign_order compare_core
  by unfold_locales (rule compare_core_swap, rule compare_core_trans)

interpretation id_order: sign_order compare_ids
proof
  fix x y z :: string
  show "compare_ids y x = - compare_ids x y"
    by (auto simp: compare_ids_def split: option.split)
  show "compare_ids x y \<le> 0 \<Longrightarrow> compare_ids y z \<le> 0 \<Longrightarrow> compare_ids x z \<le> 0"
    by (auto simp: compare_ids_def split: option.split_asm option.split if_split_asm)
qed

lemma compare_pre_swap: "compare_pre ys xs = - compare_pre xs ys"
proof (induction xs ys rule: compare_pre.induct)
  case (4 x xs y ys)
  then show ?case using id_order.swap [of x y] by (simp add: Let_def)
qed simp_all

lemma compare_pre_trans: "compare_pre xs ys \<le> 0 \<Longrightarrow> compare_pre ys zs \<le> 0 \<Longrightarrow> compare_pre xs zs \<le> 0"
proof (induction xs ys arbitrary: zs rule: compare_pre.induct)
  case 1
  then show ?case by simp
next
  case (2 y ys)
  then show ?case by (cases zs) simp_all
next
  case (3 x xs)
  then show ?case by simp
next
  case (4 x xs y ys)
  show ?case
  proof (cases zs)
    case Nil
    then show ?thesis using 4 by simp
  next
    case (Cons z zs')
    have "compare_ids x y = 0 \<and> compare_pre xs ys \<le> 0 \<and> compare_pre ys zs' \<le> 0 \<longrightarrow> compare_pre xs zs' \<le> 0"
      using 4(1) [OF refl] by blast
    from id_order.then_by_trans [OF this] show ?thesis using 4(2,3) Cons by (simp add: Let_def)
  qed
qed

interpretation pre_order: sign_order compare_pre
  by unfold_locales (rule compare_pre_swap, rule compare_pre_trans)

text \<open>A release is greater than its prereleases: they are ordered with the empty list on top.\<close>

definition release_sign :: "string list \<Rightarrow> string list \<Rightarrow> int" where
  "release_sign p q = (if p = [] \<and> q = [] then 0 else if p = [] then 1 else if q = [] then -1 else compare_pre p q)"

interpretation release_order: sign_order release_sign
proof
  fix x y z :: "string list"
  show "release_sign y x = - release_sign x y" using pre_order.swap [of x y] by (simp add: release_sign_def)
  show "release_sign x y \<le> 0 \<Longrightarrow> release_sign y z \<le> 0 \<Longrightarrow> release_sign x z \<le> 0"
    using pre_order.trans [of x y z] by (auto simp: release_sign_def split: if_split_asm)
qed

lemma compare_parsed_eq:
  "compare_parsed a b =
   (if compare_core (pv_core a) (pv_core b) \<noteq> 0 then compare_core (pv_core a) (pv_core b) else release_sign (pv_pre a) (pv_pre b))"
  by (simp add: compare_parsed_def release_sign_def Let_def)

interpretation version_order: sign_order compare_parsed
proof
  fix x y z :: parsedVersion
  show "compare_parsed y x = - compare_parsed x y"
    using core_order.swap [of "pv_core x" "pv_core y"] release_order.swap [of "pv_pre x" "pv_pre y"]
    by (simp add: compare_parsed_eq)
  show "compare_parsed x y \<le> 0 \<Longrightarrow> compare_parsed y z \<le> 0 \<Longrightarrow> compare_parsed x z \<le> 0"
    unfolding compare_parsed_eq
    by (rule core_order.then_by_trans [where y = "pv_core y" and gxy = "release_sign (pv_pre x) (pv_pre y)"
          and gyz = "release_sign (pv_pre y) (pv_pre z)"]) (use release_order.trans in blast)
qed

text \<open>
  C20: Version comparison is a total preorder on the strings that are versions: it fails exactly when one
  of the two is none, its answer is a sign that swaps with the arguments, and not-newer is transitive.
\<close>

theorem compareVersions_total_preorder:
  "(case compareVersions a b of
      Inl e \<Rightarrow> validateVersion a \<noteq> None \<or> validateVersion b \<noteq> None
    | Inr c \<Rightarrow> validateVersion a = None \<and> validateVersion b = None \<and> compareVersions b a = Inr (- c) \<and>
        (\<forall>d c'. compareVersions b d = Inr c' \<longrightarrow> c \<le> 0 \<longrightarrow> c' \<le> 0 \<longrightarrow>
           (\<exists>c''. compareVersions a d = Inr c'' \<and> c'' \<le> 0 \<and> (c < 0 \<or> c' < 0 \<longrightarrow> c'' < 0))))"
proof (cases "parseVersion a")
  case (Inl e)
  then show ?thesis by (simp add: compareVersions_def validateVersion_def)
next
  case a: (Inr pa)
  show ?thesis
  proof (cases "parseVersion b")
    case (Inl e)
    then show ?thesis using a by (simp add: compareVersions_def validateVersion_def)
  next
    case b: (Inr pb)
    have "compare_parsed pa pd \<le> 0 \<and> (compare_parsed pa pb < 0 \<or> compare_parsed pb pd < 0 \<longrightarrow> compare_parsed pa pd < 0)"
      if "compare_parsed pa pb \<le> 0" "compare_parsed pb pd \<le> 0" for pd
      using that version_order.trans version_order.less_trans1 version_order.less_trans2 by blast
    then show ?thesis
      using a b version_order.swap [of pb pa]
      by (auto simp: compareVersions_def validateVersion_def result_iffs split: sum.split sum.split_asm)
  qed
qed

theorem compareVersions_total_preorder_witness:
  "compareVersions ''1.0.0-rc.1'' ''1.0'' = Inr (-1) \<and> compareVersions ''1.0'' ''v1.0.1+build'' = Inr (-1) \<and>
   compareVersions ''1.0'' ''1.0.0-rc.1'' = Inr 1 \<and>
   (\<exists>c''. compareVersions ''1.0.0-rc.1'' ''v1.0.1+build'' = Inr c'' \<and> c'' < 0)"
proof -
  have ab: "compareVersions ''1.0.0-rc.1'' ''1.0'' = Inr (-1)" by code_simp
  have bd: "compareVersions ''1.0'' ''v1.0.1+build'' = Inr (-1)" by code_simp
  show ?thesis
    using compareVersions_total_preorder [of "''1.0.0-rc.1''" "''1.0''"] unfolding ab using bd by (simp add: ab) fastforce
qed

subsection \<open>Permissions\<close>

text \<open>The grants a list of names stands for: renamed to the current spelling, the retired ones dropped.\<close>

definition granted :: "string list \<Rightarrow> string set" where
  "granted perms = {q \<in> current_spelling ` set perms. \<not> retiredPermission q}"

lemma canonical_step_out:
  "canonical_step pid perms seen = (ws, out) \<Longrightarrow> distinct out \<and> set out = granted perms - seen"
  by (induction pid perms seen arbitrary: ws out rule: canonical_step.induct)
    (auto simp: Let_def granted_def split: if_split_asm prod.split_asm)

lemma current_is_current: "old \<in> fst ` set PermissionRenames \<Longrightarrow> current_spelling p \<noteq> old"
  by (auto simp: PermissionRenames_def current_spelling_def)

lemma current_spelling_again: "p \<notin> fst ` set PermissionRenames \<Longrightarrow> current_spelling p = p"
  by (auto simp: PermissionRenames_def current_spelling_def)

lemma check_pairs_none:
  "(\<And>old new. (old, new) \<in> set rs \<Longrightarrow> old \<notin> declared) \<Longrightarrow> check_pairs pid declared audience rs = ([], None)"
  by (induction pid declared audience rs rule: check_pairs.induct) auto

lemma canonical_step_distinct:
  "distinct perms \<Longrightarrow> (\<forall>p\<in>set perms. current_spelling p = p \<and> \<not> retiredPermission p \<and> p \<notin> seen) \<Longrightarrow>
   canonical_step pid perms seen = ([], perms)"
proof (induction perms arbitrary: seen)
  case (Cons p perms)
  have "canonical_step pid perms (insert p seen) = ([], perms)" by (rule Cons.IH) (use Cons.prems in auto)
  then show ?case using Cons.prems by simp
qed simp

lemma canonical_once:
  assumes "canonicalPermissions pid perms audience = (ws, Inr out)"
  shows "distinct out \<and> set out = granted perms"
  using assms canonical_step_out by (fastforce simp: canonicalPermissions_def split: prod.split_asm option.split_asm)

lemma canonical_again:
  assumes "canonicalPermissions pid perms audience = (ws, Inr out)"
  shows "canonicalPermissions pid' out audience' = ([], Inr out)"
proof -
  have o: "distinct out" "set out = granted perms" using canonical_once [OF assms] by simp_all
  then have new: "p \<notin> fst ` set PermissionRenames \<and> \<not> retiredPermission p" if "p \<in> set out" for p
    using that current_is_current by (fastforce simp: granted_def)
  have "check_pairs pid' (set out) audience' PermissionRenames = ([], None)"
    by (rule check_pairs_none) (use new in force)
  moreover have "canonical_step pid' out {} = ([], out)"
    using new current_spelling_again by (intro canonical_step_distinct [OF o(1)]) simp
  ultimately show ?thesis by (simp add: canonicalPermissions_def)
qed

lemma CheckPermissions_iff: "CheckPermissions perms = None \<longleftrightarrow> set perms \<subseteq> set AllowedPermissions"
  by (induction perms) auto

text \<open>
  C19: The permissions of a manifest come to exactly the grants it names, under their current spelling,
  each once, without the retired names; nothing is granted that is not asked for, and reading the
  result again, by either audience, changes nothing and warns of nothing.
\<close>

theorem canonicalPermissions_grants_what_is_asked:
  assumes "canonicalPermissions pid perms audience = (ws, Inr out)"
  shows "distinct out \<and> set out = {q \<in> current_spelling ` set perms. q \<notin> set RetiredPermissions} \<and>
    canonicalPermissions pid' out audience' = ([], Inr out)"
  using canonical_once [OF assms] canonical_again [OF assms] by (simp add: granted_def retiredPermission_def)

theorem canonicalPermissions_grants_what_is_asked_witness:
  "canonicalPermissions ''p'' [''tools:expose'', ''pets:contribute'', ''tools:provide'', ''storage:kv''] Installed =
     ([GrantPair ''p'' ''tools:expose'', RetiredGrant ''p'' ''pets:contribute''], Inr [''tools:provide'', ''storage:kv'']) \<and>
   canonicalPermissions ''p'' [''tools:provide'', ''storage:kv''] Authored = ([], Inr [''tools:provide'', ''storage:kv''])"
proof -
  have a: "canonicalPermissions ''p'' [''tools:expose'', ''pets:contribute'', ''tools:provide'', ''storage:kv''] Installed =
     ([GrantPair ''p'' ''tools:expose'', RetiredGrant ''p'' ''pets:contribute''], Inr [''tools:provide'', ''storage:kv''])"
    by code_simp
  show ?thesis using a canonicalPermissions_grants_what_is_asked [OF a] by blast
qed

subsection \<open>Accepted manifests\<close>

text \<open>The type of a manifest: what every later reader may rely on.\<close>

definition wf_server :: "PluginMCPServer \<Rightarrow> bool" where
  "wf_server srv \<longleftrightarrow>
     toolNameRe (ms_Name srv) \<and> length (ms_Env srv) \<le> 32 \<and>
     (ms_Transport srv = ''stdio'' \<and> trim_space (ms_Command srv) \<noteq> '''' \<and> length (ms_Command srv) \<le> 1024 \<and> ms_URL srv = '''' \<or>
      ms_Transport srv = ''http'' \<and> trim_space (ms_URL srv) \<noteq> '''' \<and> length (ms_URL srv) \<le> 2048 \<and> ms_Command srv = '''')"

definition wf_tool :: "manifest_codec \<Rightarrow> PluginTool \<Rightarrow> bool" where
  "wf_tool cd t \<longleftrightarrow>
     toolNameRe (pt_Name t) \<and> trim_space (pt_Method t) \<noteq> '''' \<and> length (pt_Method t) \<le> 128 \<and>
     rune_count (pt_Description t) \<le> 1024 \<and> length (pt_InputSchema t) \<le> 32768 \<and>
     js_valid cd (pt_InputSchema t) \<and> js_object cd (pt_InputSchema t) \<noteq> None"

definition wf_paths :: "manifest_codec \<Rightarrow> string list \<Rightarrow> nat \<Rightarrow> bool" where
  "wf_paths cd ps n \<longleftrightarrow> length ps \<le> n \<and> (\<forall>p\<in>set ps. RelRef cd p \<and> length p \<le> 256)"

definition wf_manifest :: "manifest_codec \<Rightarrow> Manifest \<Rightarrow> bool" where
  "wf_manifest cd m \<longleftrightarrow>
     idRe (mf_ID m) \<and> validateVersion (mf_Version m) = None \<and>
     distinct (mf_Permissions m) \<and> set (mf_Permissions m) \<subseteq> set AllowedPermissions \<and>
     (case mf_Kraft m of None \<Rightarrow> True | Some k \<Rightarrow> RelRef cd (path_Clean (kr_Binary k)) \<and> kr_Protocol k > 0) \<and>
     wf_paths cd (mf_Skills m) 32 \<and> (mf_Skills m = [] \<or> ''skills:provide'' \<in> set (mf_Permissions m)) \<and>
     wf_paths cd (mf_Hooks m) 16 \<and> (mf_Hooks m = [] \<or> ''hooks:provide'' \<in> set (mf_Permissions m)) \<and>
     length (mf_McpServers m) \<le> 16 \<and> distinct (map ms_Name (mf_McpServers m)) \<and> (\<forall>srv\<in>set (mf_McpServers m). wf_server srv) \<and>
     (mf_McpServers m = [] \<or> ''mcp:provide'' \<in> set (mf_Permissions m)) \<and>
     length (mf_Tools m) \<le> 64 \<and> distinct (map pt_Name (mf_Tools m)) \<and> (\<forall>t\<in>set (mf_Tools m). wf_tool cd t) \<and>
     (mf_Tools m = [] \<or> ''tools:provide'' \<in> set (mf_Permissions m) \<and> mf_Kraft m \<noteq> None)"

lemma first_error_none [simp]: "first_error cs = None \<longleftrightarrow> (\<forall>c\<in>set cs. c = None)"
  by (induction cs) (auto split: option.split)

declare first_error.simps [simp del]

lemma fail_if_none [simp]: "fail_if b e = None \<longleftrightarrow> \<not> b"
  by (simp add: fail_if_def)

lemma check_paths_ok: "check_paths cd what i ps = None \<Longrightarrow> \<forall>p\<in>set ps. RelRef cd p \<and> length p \<le> 256"
  by (induction ps arbitrary: i) (auto simp: validateRelativePluginPath_def manifest_bounds split: if_split_asm)

lemma check_server_ok: "check_server i srv = None \<Longrightarrow> toolNameRe (ms_Name srv) \<Longrightarrow> wf_server srv"
  unfolding check_server_def Let_def wf_server_def manifest_bounds
  by (simp split: if_split_asm)

lemma check_servers_ok:
  "check_servers i seen srvs = None \<Longrightarrow>
   distinct (map ms_Name srvs) \<and> (\<forall>srv\<in>set srvs. wf_server srv \<and> ms_Name srv \<notin> seen)"
proof (induction srvs arbitrary: i seen)
  case (Cons srv srvs)
  then have c: "toolNameRe (ms_Name srv)" "ms_Name srv \<notin> seen" "check_server i srv = None"
    "check_servers (Suc i) (insert (ms_Name srv) seen) srvs = None"
    by (simp_all split: if_split_asm option.split_asm)
  then show ?case using Cons.IH [OF c(4)] check_server_ok by auto
qed simp

lemma check_tool_ok: "check_tool cd i t = None \<Longrightarrow> toolNameRe (pt_Name t) \<Longrightarrow> wf_tool cd t"
  unfolding check_tool_def Let_def wf_tool_def manifest_bounds by (auto simp: not_less)

lemma check_tools_ok:
  "check_tools cd i seen ts = Inr ts' \<Longrightarrow>
   length ts' = length ts \<and> distinct (map pt_Name ts') \<and> (\<forall>t\<in>set ts'. wf_tool cd t \<and> pt_Name t \<notin> seen)"
proof (induction ts arbitrary: i seen ts')
  case (Cons t0 ts)
  let ?t = "with_schema t0"
  obtain us where c: "toolNameRe (pt_Name ?t)" "pt_Name ?t \<notin> seen" "check_tool cd i ?t = None"
    "check_tools cd (Suc i) (insert (pt_Name ?t) seen) ts = Inr us" "ts' = ?t # us"
    using Cons.prems by (auto simp: Let_def result_iffs split: if_split_asm option.split_asm)
  then show ?case using Cons.IH [OF c(4)] check_tool_ok [OF c(3,1)] by auto
qed simp

lemma validateAgentCapabilities_ok:
  assumes v: "validateAgentCapabilities cd m = Inr m'"
  shows "(\<exists>ts. m' = m\<lparr>mf_Tools := ts\<rparr>) \<and>
     wf_paths cd (mf_Skills m) 32 \<and> (mf_Skills m = [] \<or> ''skills:provide'' \<in> set (mf_Permissions m)) \<and>
     wf_paths cd (mf_Hooks m) 16 \<and> (mf_Hooks m = [] \<or> ''hooks:provide'' \<in> set (mf_Permissions m)) \<and>
     length (mf_McpServers m) \<le> 16 \<and> distinct (map ms_Name (mf_McpServers m)) \<and> (\<forall>srv\<in>set (mf_McpServers m). wf_server srv) \<and>
     (mf_McpServers m = [] \<or> ''mcp:provide'' \<in> set (mf_Permissions m)) \<and>
     length (mf_Tools m') \<le> 64 \<and> distinct (map pt_Name (mf_Tools m')) \<and> (\<forall>t\<in>set (mf_Tools m'). wf_tool cd t) \<and>
     (mf_Tools m' = [] \<or> ''tools:provide'' \<in> set (mf_Permissions m) \<and> mf_Kraft m \<noteq> None)"
proof -
  have groups: "mf_Skills m = [] \<or> ''skills:provide'' \<in> set (mf_Permissions m) \<and> length (mf_Skills m) \<le> 32 \<and>
      check_paths cd ''skills'' 0 (mf_Skills m) = None"
    "mf_Hooks m = [] \<or> ''hooks:provide'' \<in> set (mf_Permissions m) \<and> length (mf_Hooks m) \<le> 16 \<and>
      check_paths cd ''hooks'' 0 (mf_Hooks m) = None"
    "mf_McpServers m = [] \<or> ''mcp:provide'' \<in> set (mf_Permissions m) \<and> length (mf_McpServers m) \<le> 16 \<and>
      check_servers 0 {} (mf_McpServers m) = None"
    using v by (auto simp: validateAgentCapabilities_def requirePermission_def manifest_bounds split: option.split_asm if_split_asm)
  have tools: "mf_Tools m = [] \<and> m' = m \<or> mf_Kraft m \<noteq> None \<and> ''tools:provide'' \<in> set (mf_Permissions m) \<and>
      length (mf_Tools m) \<le> 64 \<and> (\<exists>ts. check_tools cd 0 {} (mf_Tools m) = Inr ts \<and> m' = m\<lparr>mf_Tools := ts\<rparr>)"
    using v by (auto simp: validateAgentCapabilities_def requirePermission_def manifest_bounds result_iffs split: option.split_asm if_split_asm)
  have "wf_paths cd (mf_Skills m) 32" "wf_paths cd (mf_Hooks m) 16"
    using groups(1,2) check_paths_ok by (fastforce simp: wf_paths_def)+
  moreover have "distinct (map ms_Name (mf_McpServers m)) \<and> (\<forall>srv\<in>set (mf_McpServers m). wf_server srv) \<and> length (mf_McpServers m) \<le> 16"
    using groups(3) check_servers_ok by fastforce
  moreover have "(\<exists>ts. m' = m\<lparr>mf_Tools := ts\<rparr>) \<and> length (mf_Tools m') \<le> 64 \<and> distinct (map pt_Name (mf_Tools m')) \<and>
      (\<forall>t\<in>set (mf_Tools m'). wf_tool cd t) \<and> (mf_Tools m' = [] \<or> ''tools:provide'' \<in> set (mf_Permissions m) \<and> mf_Kraft m \<noteq> None)"
    using tools
  proof (elim disjE conjE exE)
    assume "mf_Tools m = []" "m' = m"
    moreover have "m = m\<lparr>mf_Tools := mf_Tools m\<rparr>" by simp
    then have "\<exists>ts. m = m\<lparr>mf_Tools := ts\<rparr>" by (rule exI)
    ultimately show ?thesis by simp
  next
    fix ts
    assume a: "''tools:provide'' \<in> set (mf_Permissions m)" "mf_Kraft m \<noteq> None" "length (mf_Tools m) \<le> 64"
      "check_tools cd 0 {} (mf_Tools m) = Inr ts" "m' = m\<lparr>mf_Tools := ts\<rparr>"
    show ?thesis using a check_tools_ok [OF a(4)] by auto
  qed
  ultimately show ?thesis using groups by blast
qed

text \<open>What the parser has checked when it accepts.\<close>

lemma parseManifestAs_ok:
  assumes "snd (parseManifestAs cd pid raw audience) = Inr m'"
  obtains m perms k capability contributes ws wk where
    "length raw \<le> maxPluginManifestBytes" "js_manifest cd raw = Inr m" "check_identity cd pid m = None"
    "canonicalPermissions (mf_ID m) (mf_Permissions m) audience = (ws, Inr perms)" "CheckPermissions perms = None"
    "js_legacy cd raw = Inr (capability, contributes)"
    "merge_kraft (mf_ID m) audience (mf_Kraft m) capability = (wk, Inr k)" "validateKraft cd k = None"
    "validateAgentCapabilities cd (m\<lparr>mf_Permissions := perms, mf_Kraft := k\<rparr>) = Inr m'"
  using assms unfolding parseManifestAs_def
  by (auto simp: Let_def split: if_split_asm sum.split_asm option.split_asm prod.split_asm)

lemma accepted_wf:
  assumes "snd (parseManifestAs cd pid raw audience) = Inr m"
  shows "mf_ID m = pid \<and> wf_manifest cd m"
  using assms
proof (rule parseManifestAs_ok)
  fix m0 perms k capability contributes ws wk
  assume p: "check_identity cd pid m0 = None" "canonicalPermissions (mf_ID m0) (mf_Permissions m0) audience = (ws, Inr perms)"
    "CheckPermissions perms = None" "validateKraft cd k = None"
    "validateAgentCapabilities cd (m0\<lparr>mf_Permissions := perms, mf_Kraft := k\<rparr>) = Inr m"
  have i: "mf_ID m0 = pid" "idRe pid" "validateVersion (mf_Version m0) = None"
    using p(1) by (auto simp: check_identity_def ValidateID_def split: if_split_asm)
  have d: "distinct perms" "set perms \<subseteq> set AllowedPermissions"
    using canonical_once [OF p(2)] p(3) CheckPermissions_iff by blast+
  have k: "case k of None \<Rightarrow> True | Some kr \<Rightarrow> RelRef cd (path_Clean (kr_Binary kr)) \<and> kr_Protocol kr > 0"
    using p(4) by (auto simp: validateKraft_def split: option.split_asm option.split if_split_asm)
  note v = validateAgentCapabilities_ok [OF p(5)]
  obtain ts where m: "m = m0\<lparr>mf_Permissions := perms, mf_Kraft := k, mf_Tools := ts\<rparr>" using v by auto
  show ?thesis using v i d k unfolding wf_manifest_def m by simp
qed


lemma merge_kraft_audience:
  "merge_kraft pid Authored k c = (w, Inr k') \<Longrightarrow> merge_kraft pid Installed k c = (w, Inr k')"
  by (auto simp: merge_kraft_def split: option.split_asm)

lemma check_pairs_audience: "check_pairs pid declared Authored rs = (ws, None) \<Longrightarrow> check_pairs pid declared Installed rs = (ws, None)"
  by (induction rs arbitrary: ws) (auto split: if_split_asm)

lemma authored_loads:
  assumes "snd (parseManifestForAuthoring cd pid raw) = Inr m"
  shows "snd (parseManifest cd pid raw) = Inr m"
  using assms [unfolded parseManifestForAuthoring_def]
proof (rule parseManifestAs_ok)
  fix m0 perms k capability contributes ws wk
  assume p: "length raw \<le> maxPluginManifestBytes" "js_manifest cd raw = Inr m0" "check_identity cd pid m0 = None"
    "canonicalPermissions (mf_ID m0) (mf_Permissions m0) Authored = (ws, Inr perms)" "CheckPermissions perms = None"
    "js_legacy cd raw = Inr (capability, contributes)"
    "merge_kraft (mf_ID m0) Authored (mf_Kraft m0) capability = (wk, Inr k)" "validateKraft cd k = None"
    "validateAgentCapabilities cd (m0\<lparr>mf_Permissions := perms, mf_Kraft := k\<rparr>) = Inr m"
  have "canonicalPermissions (mf_ID m0) (mf_Permissions m0) Installed = (ws, Inr perms)"
    using p(4) check_pairs_audience [of "mf_ID m0" "set (mf_Permissions m0)" PermissionRenames]
    by (auto simp: canonicalPermissions_def split: prod.split_asm option.split_asm)
  then show ?thesis
    using p(1,2,3,5,6,8,9) merge_kraft_audience [OF p(7)] by (simp add: parseManifest_def parseManifestAs_def Let_def)
qed

text \<open>
  C21: What the authoring gates accept, the registry loads: the same manifest, under the same id, for
  every later reader. The converse fails only where the manifest writes one grant, or the subprocess
  section, under both spellings.
\<close>

theorem authored_manifest_loads:
  assumes "snd (parseManifestForAuthoring cd pid raw) = Inr m"
  shows "snd (parseManifest cd pid raw) = Inr m"
  using assms by (rule authored_loads)

subsection \<open>A sample plugin\<close>

definition sample_kraft :: Kraft where
  "sample_kraft = \<lparr>kr_Binary = ''bin/run'', kr_Protocol = 1, kr_Hosts = []\<rparr>"

definition sample_manifest :: "string \<Rightarrow> string list \<Rightarrow> Manifest" where
  "sample_manifest version perms =
     \<lparr>mf_ID = ''notes'', mf_Name = ''Notes'', mf_Version = version, mf_MinHostVersion = '''', mf_Entry = ''index.js'',
      mf_Permissions = perms, mf_Kraft = None, mf_Skills = [''skills/notes''], mf_McpServers = [], mf_Hooks = [],
      mf_Tools = [\<lparr>pt_Name = ''add_note'', pt_Description = ''adds'', pt_Method = ''notes.add'', pt_InputSchema = '''',
        pt_MutatesState = None\<rparr>], mf_Update = None\<rparr>"

text \<open>The two raw texts name the old spelling of a grant and, the second one, both.\<close>

definition sample_plugin_codec :: manifest_codec where
  "sample_plugin_codec =
     \<lparr>js_manifest = (\<lambda>raw. if raw = ''v1'' then Inr (sample_manifest ''1.0.0'' [''skills:contribute'', ''tools:provide''])
        else if raw = ''v2'' then Inr (sample_manifest ''1.1'' [''skills:contribute'', ''skills:provide'', ''tools:provide''])
        else Inl ''json''),
      js_legacy = (\<lambda>raw. Inr (Some sample_kraft, '''')), js_probe_id = (\<lambda>raw. Inr ''notes''),
      js_probe_version = (\<lambda>raw. None), js_object = (\<lambda>raw. Some Map.empty), js_valid = (\<lambda>raw. True),
      url_parse = (\<lambda>u. None), RelRef = (\<lambda>p. p \<noteq> '''' \<and> hd p \<noteq> CHR ''/'')\<rparr>"

definition loaded_sample :: Manifest where
  "loaded_sample = projr (snd (parseManifestForAuthoring sample_plugin_codec ''notes'' ''v1''))"

lemma sample_authored: "snd (parseManifestForAuthoring sample_plugin_codec ''notes'' ''v1'') = Inr loaded_sample"
  by code_simp

theorem authored_manifest_loads_witness:
  "snd (parseManifest sample_plugin_codec ''notes'' ''v1'') = Inr loaded_sample"
  by (rule authored_manifest_loads [OF sample_authored])


text \<open>The one difference between the two audiences.\<close>

lemma both_spellings_by_audience:
  "isl (snd (parseManifestForAuthoring sample_plugin_codec ''notes'' ''v2''))"
  "\<not> isl (snd (parseManifest sample_plugin_codec ''notes'' ''v2''))"
  by code_simp+

end
