(* ===== verification/PluginDisk.thy ===== *)
theory PluginDisk
  imports Plugins
begin

text \<open>
  The file system as the plugin registry of \<open>src/internal/capabilities/plugins/\<close> sees it: what it calls of
  packages \<open>os\<close> and \<open>filepath\<close>. A path is the list of its components, a disk lists the paths that exist.
  Any call may fail: a world carries the faults the coming calls meet, one for each call in turn (none
  when the list has run out), and a fault says how far the call got before it failed. An operation is a
  function of the world that returns an error or a value and leaves a world behind: \<open>andthen\<close> is
  Go's \<open>if err != nil { return err }\<close>, \<open>attempt\<close> hands the error to the code. The calculus for what an operation
  ends in is \<open>ends\<close>.
\<close>

subsection \<open>Disks\<close>

type_synonym path = "string list"

datatype node = DirNode | FileNode string bool

type_synonym disk = "(path \<times> node) list"

text \<open>How far a failing call gets: the bytes of a file it writes, the directories it makes, the paths it removes.\<close>

datatype fault = Fault (fault_why: string) (fault_upto: "nat option") (fault_gone: "path \<Rightarrow> bool")

record world =
  w_disk :: disk
  w_faults :: "fault option list"
  w_rev :: nat
  w_owed :: nat

definition disk_put :: "path \<Rightarrow> node \<Rightarrow> disk \<Rightarrow> disk" where
  "disk_put p n d = (p, n) # filter (\<lambda>(q, _). q \<noteq> p) d"

definition disk_remove :: "(path \<Rightarrow> bool) \<Rightarrow> disk \<Rightarrow> disk" where
  "disk_remove P d = filter (\<lambda>(q, _). \<not> P q) d"

definition disk_move :: "path \<Rightarrow> path \<Rightarrow> disk \<Rightarrow> disk" where
  "disk_move s t d =
     map (\<lambda>(q, n). (if prefix s q then t @ drop (length s) q else q, n)) (disk_remove (prefix t) d)"

text \<open>The tree under a path, by the paths relative to it.\<close>

definition tree_at :: "disk \<Rightarrow> path \<Rightarrow> path \<Rightarrow> node option" where
  "tree_at d p r = map_of d (p @ r)"

lemma disk_put_lookup [simp]: "map_of (disk_put p n d) q = (if q = p then Some n else map_of d q)"
proof -
  have "map_of (filter (\<lambda>(q, _). q \<noteq> p) d) q = (if q = p then None else map_of d q)"
    by (induction d) auto
  then show ?thesis by (simp add: disk_put_def)
qed

lemma disk_remove_lookup [simp]: "map_of (disk_remove P d) q = (if P q then None else map_of d q)"
  by (induction d) (auto simp: disk_remove_def)

lemma disk_move_lookup:
  assumes "\<not> prefix s t" "\<not> prefix t s"
  shows "map_of (disk_move s t d) q =
    (if prefix t q then map_of d (s @ drop (length t) q) else if prefix s q then None else map_of d q)"
proof (induction d)
  case Nil
  then show ?case by (simp add: disk_move_def disk_remove_def)
next
  case (Cons e d)
  obtain p n where e: "e = (p, n)" by (cases e)
  have "\<not> (prefix s r \<and> prefix t r)" for r using assms prefix_same_cases by blast
  then show ?case
    using Cons assms by (auto simp: disk_move_def disk_remove_def e prefix_def)
qed

text \<open>Trees next to one another.\<close>

lemma parallel_root [simp]: "parallel (root @ a) (root @ b) \<longleftrightarrow> parallel a b"
  by (simp add: parallel_def)

lemma tree_put_other [simp]: "parallel u p \<Longrightarrow> tree_at (disk_put p n d) u = tree_at d u"
  by (auto simp: tree_at_def fun_eq_iff parallel_def)

lemma prefix_parallel: "parallel u p \<Longrightarrow> \<not> prefix p (u @ r)"
  by (metis parallel_def prefixI prefix_same_cases)

lemma tree_remove_other: "(\<And>r. \<not> P (u @ r)) \<Longrightarrow> tree_at (disk_remove P d) u = tree_at d u"
  by (auto simp: tree_at_def fun_eq_iff)

lemma tree_remove_prefix [simp]:
  "parallel u p \<Longrightarrow> tree_at (disk_remove (prefix p) d) u = tree_at d u"
  "tree_at (disk_remove (prefix p) d) p = Map.empty"
  by (auto simp: tree_at_def fun_eq_iff prefix_parallel)

lemma tree_move [simp]:
  assumes "parallel s t"
  shows "tree_at (disk_move s t d) t = tree_at d s" "tree_at (disk_move s t d) s = Map.empty"
    "parallel u s \<Longrightarrow> parallel u t \<Longrightarrow> tree_at (disk_move s t d) u = tree_at d u"
  using assms by (auto simp: tree_at_def fun_eq_iff disk_move_lookup prefix_parallel parallel_def)

lemma tree_at_sub: "tree_at d (p @ q) r = tree_at d p (q @ r)"
  by (simp add: tree_at_def)

subsection \<open>Operations\<close>

type_synonym 'a io = "world \<Rightarrow> (plugin_error + 'a) \<times> world"

definition ret :: "'a \<Rightarrow> 'a io" where "ret x w = (Inr x, w)"

definition fail :: "plugin_error \<Rightarrow> 'a io" where "fail e w = (Inl e, w)"

definition andthen :: "'a io \<Rightarrow> ('a \<Rightarrow> 'b io) \<Rightarrow> 'b io" where
  "andthen m f w = (case m w of (Inl e, w') \<Rightarrow> (Inl e, w') | (Inr x, w') \<Rightarrow> f x w')"

definition attempt :: "'a io \<Rightarrow> (plugin_error + 'a) io" where
  "attempt m w = (case m w of (r, w') \<Rightarrow> (Inr r, w'))"

definition returned :: "plugin_error + 'a \<Rightarrow> 'a io" where
  "returned r w = (r, w)"

definition ensure :: "plugin_error option \<Rightarrow> unit io" where
  "ensure c w = (case c of Some e \<Rightarrow> (Inl e, w) | None \<Rightarrow> (Inr (), w))"

text \<open>\<open>telemetry.WarnErr\<close> over a call: a failure is logged and the code goes on.\<close>

definition warn_err :: "'a io \<Rightarrow> unit io" where
  "warn_err m = andthen (attempt m) (\<lambda>_. ret ())"

text \<open>\<open>defer\<close> of a clean-up whose own error is only logged.\<close>

definition with_cleanup :: "'a io \<Rightarrow> unit io \<Rightarrow> 'a io" where
  "with_cleanup m c = andthen (attempt m) (\<lambda>r. andthen (warn_err c) (\<lambda>_. returned r))"

text \<open>One call of the system, with the fault it meets.\<close>

definition syscall :: "(fault option \<Rightarrow> disk \<Rightarrow> (plugin_error + 'a) \<times> disk) \<Rightarrow> 'a io" where
  "syscall f w =
     (case w_faults w of
        [] \<Rightarrow> (case f None (w_disk w) of (r, d) \<Rightarrow> (r, w\<lparr>w_disk := d\<rparr>))
      | x # xs \<Rightarrow> (case f x (w_disk w) of (r, d) \<Rightarrow> (r, w\<lparr>w_disk := d, w_faults := xs\<rparr>)))"

text \<open>A read: the disk stays as it is.\<close>

definition sysread :: "(disk \<Rightarrow> plugin_error + 'a) \<Rightarrow> 'a io" where
  "sysread f = syscall (\<lambda>x d. (case x of Some y \<Rightarrow> (Inl (DiskError (fault_why y)), d) | None \<Rightarrow> (f d, d)))"

text \<open>\<open>Inr None\<close> is the error that \<open>os.IsNotExist\<close> tells from the others.\<close>

definition os_Stat :: "path \<Rightarrow> node option io" where
  "os_Stat p = sysread (\<lambda>d. Inr (map_of d p))"

definition os_ReadFile :: "path \<Rightarrow> string option io" where
  "os_ReadFile p = sysread (\<lambda>d.
     case map_of d p of
       None \<Rightarrow> Inr None
     | Some DirNode \<Rightarrow> Inl (DiskError ''is a directory'')
     | Some (FileNode c x) \<Rightarrow> Inr (Some c))"

definition os_ReadDir :: "path \<Rightarrow> (string \<times> node) list io" where
  "os_ReadDir p = sysread (\<lambda>d.
     if map_of d p \<noteq> Some DirNode then Inl (DiskError ''not a directory'')
     else Inr (map (\<lambda>name. (name, the (map_of d (p @ [name]))))
       (sort (remdups (map last (filter (\<lambda>q. q \<noteq> [] \<and> butlast q = p) (map fst d)))))))"

fun make_dirs :: "path list \<Rightarrow> disk \<Rightarrow> (plugin_error + unit) \<times> disk" where
  "make_dirs [] d = (Inr (), d)"
| "make_dirs (p # ps) d =
     (case map_of d p of
        None \<Rightarrow> make_dirs ps (disk_put p DirNode d)
      | Some DirNode \<Rightarrow> make_dirs ps d
      | Some (FileNode c x) \<Rightarrow> (Inl (DiskError ''not a directory''), d))"

definition os_MkdirAll :: "path \<Rightarrow> unit io" where
  "os_MkdirAll p = syscall (\<lambda>x d.
     let ps = map (\<lambda>n. take n p) [1..<length p + 1] in
     case x of
       None \<Rightarrow> make_dirs ps d
     | Some y \<Rightarrow>
         (Inl (DiskError (fault_why y)), snd (make_dirs (take (case fault_upto y of None \<Rightarrow> 0 | Some k \<Rightarrow> k) ps) d)))"

text \<open>\<open>os.MkdirTemp\<close>, with the random names it would try; a name is free when nothing is at it or below it.\<close>

definition disk_free :: "disk \<Rightarrow> path \<Rightarrow> bool" where
  "disk_free d p \<longleftrightarrow> list_all (\<lambda>(q, _). \<not> prefix p q) d"

definition os_MkdirTemp :: "path \<Rightarrow> string \<Rightarrow> string list \<Rightarrow> path io" where
  "os_MkdirTemp dir pre rnds = syscall (\<lambda>x d.
     case x of
       Some y \<Rightarrow> (Inl (DiskError (fault_why y)), d)
     | None \<Rightarrow>
         if map_of d dir \<noteq> Some DirNode then (Inl (DiskError ''no such directory''), d)
         else
           (case find (\<lambda>r. disk_free d (dir @ [pre @ r])) rnds of
              None \<Rightarrow> (Inl (DiskError ''file exists''), d)
            | Some r \<Rightarrow> (Inr (dir @ [pre @ r]), disk_put (dir @ [pre @ r]) DirNode d)))"

definition os_RemoveAll :: "path \<Rightarrow> unit io" where
  "os_RemoveAll p = syscall (\<lambda>x d.
     case x of
       None \<Rightarrow> (Inr (), disk_remove (prefix p) d)
     | Some y \<Rightarrow> (Inl (DiskError (fault_why y)), disk_remove (\<lambda>q. prefix p q \<and> fault_gone y q) d))"

text \<open>Go refuses to rename onto a directory.\<close>

definition os_Rename :: "path \<Rightarrow> path \<Rightarrow> unit io" where
  "os_Rename s t = syscall (\<lambda>x d.
     case x of
       Some y \<Rightarrow> (Inl (DiskError (fault_why y)), d)
     | None \<Rightarrow>
         if map_of d s = None then (Inl (DiskError ''no such file''), d)
         else if map_of d t = Some DirNode then (Inl (DiskError ''file exists''), d)
         else if prefix s t \<or> prefix t s then (Inl (DiskError ''invalid argument''), d)
         else if map_of d s = Some DirNode \<and> map_of d t \<noteq> None then (Inl (DiskError ''not a directory''), d)
         else if t = [] \<or> (butlast t \<noteq> [] \<and> map_of d (butlast t) \<noteq> Some DirNode)
         then (Inl (DiskError ''no such directory''), d)
         else (Inr (), disk_move s t d))"

definition file_mode :: "disk \<Rightarrow> path \<Rightarrow> bool" where
  "file_mode d p = (case map_of d p of Some (FileNode c x) \<Rightarrow> x | _ \<Rightarrow> False)"

definition os_WriteFile :: "path \<Rightarrow> string \<Rightarrow> unit io" where
  "os_WriteFile p c = syscall (\<lambda>x d.
     if map_of d p = Some DirNode then (Inl (DiskError ''is a directory''), d)
     else if p = [] \<or> (butlast p \<noteq> [] \<and> map_of d (butlast p) \<noteq> Some DirNode)
     then (Inl (DiskError ''no such directory''), d)
     else
       (case x of
          None \<Rightarrow> (Inr (), disk_put p (FileNode c (file_mode d p)) d)
        | Some y \<Rightarrow>
            (Inl (DiskError (fault_why y)),
             (case fault_upto y of None \<Rightarrow> d | Some k \<Rightarrow> disk_put p (FileNode (take k c) (file_mode d p)) d))))"

definition os_Chmod_exec :: "path \<Rightarrow> unit io" where
  "os_Chmod_exec p = syscall (\<lambda>x d.
     case x of
       Some y \<Rightarrow> (Inl (DiskError (fault_why y)), d)
     | None \<Rightarrow>
         (case map_of d p of
            None \<Rightarrow> (Inl (DiskError ''no such file''), d)
          | Some DirNode \<Rightarrow> (Inr (), d)
          | Some (FileNode c _) \<Rightarrow> (Inr (), disk_put p (FileNode c True) d)))"

text \<open>\<open>filepath.Join\<close> of an absolute path and the text of another.\<close>

definition path_Join :: "path \<Rightarrow> string \<Rightarrow> path" where
  "path_Join p rel =
     foldl (\<lambda>q c. if c = '''' \<or> c = ''.'' then q else if c = dotdot then butlast q else q @ [c]) p
       (split_on (CHR ''/'') rel)"

subsection \<open>What an operation ends in\<close>

definition ends :: "'a io \<Rightarrow> (plugin_error + 'a \<Rightarrow> world \<Rightarrow> bool) \<Rightarrow> world \<Rightarrow> bool" where
  "ends m Q w = (case m w of (r, w') \<Rightarrow> Q r w')"

lemma ends_simps [simp]:
  "ends (ret x) Q w = Q (Inr x) w"
  "ends (fail e) Q w = Q (Inl e) w"
  "ends (returned r) Q w = Q r w"
  "ends (andthen m f) Q w = ends m (\<lambda>r w'. case r of Inl e \<Rightarrow> Q (Inl e) w' | Inr x \<Rightarrow> ends (f x) Q w') w"
  by (auto simp: ends_def ret_def fail_def returned_def andthen_def split: prod.split sum.split)

lemma ends_ensure [simp]:
  "ends (ensure c) Q w = (case c of Some e \<Rightarrow> Q (Inl e) w | None \<Rightarrow> Q (Inr ()) w)"
  by (simp add: ends_def ensure_def split: option.split)

lemma ends_attempt [simp]: "ends (attempt m) Q w = ends m (\<lambda>r. Q (Inr r)) w"
  by (simp add: ends_def attempt_def split: prod.split)

lemma ends_warn_err [simp]: "ends (warn_err m) Q w = ends m (\<lambda>_. Q (Inr ())) w"
  by (simp add: warn_err_def)

lemma ends_with_cleanup [simp]: "ends (with_cleanup m c) Q w = ends m (\<lambda>r. ends c (\<lambda>_. Q r)) w"
  by (simp add: with_cleanup_def)

lemma disk_free_lookup: "disk_free d p \<Longrightarrow> map_of d (p @ r) = None"
proof (rule ccontr)
  assume f: "disk_free d p" and "map_of d (p @ r) \<noteq> None"
  then obtain n where "(p @ r, n) \<in> set d" by (auto dest: map_of_SomeD)
  then show False using f by (fastforce simp: disk_free_def list_all_iff)
qed

lemma ends_mono: "ends m P w \<Longrightarrow> (\<And>r w'. P r w' \<Longrightarrow> Q r w') \<Longrightarrow> ends m Q w"
  by (auto simp: ends_def split: prod.splits)

lemma ends_conj: "ends m P w \<Longrightarrow> ends m Q w \<Longrightarrow> ends m (\<lambda>r w'. P r w' \<and> Q r w') w"
  by (auto simp: ends_def)

lemma ends_andthen:
  assumes "ends m P w" "\<And>x w'. P (Inr x) w' \<Longrightarrow> ends (f x) Q w'" "\<And>e w'. P (Inl e) w' \<Longrightarrow> Q (Inl e) w'"
  shows "ends (andthen m f) Q w"
  unfolding ends_simps by (rule ends_mono [OF assms(1)]) (use assms(2,3) in \<open>auto split: sum.split\<close>)

text \<open>A call of the system, whatever fault it meets: what is left of the faults does not matter.\<close>

lemma ends_syscall:
  assumes "\<And>x ws. case f x (w_disk w) of (r, d) \<Rightarrow> Q r (w\<lparr>w_disk := d, w_faults := ws\<rparr>)"
  shows "ends (syscall f) Q w"
proof (cases "w_faults w")
  case Nil
  obtain r d where f: "f None (w_disk w) = (r, d)" by (cases "f None (w_disk w)")
  have e: "w\<lparr>w_disk := d, w_faults := []\<rparr> = w\<lparr>w_disk := d\<rparr>" using Nil by simp
  then show ?thesis using assms [where x = None and ws = "[]"] by (simp add: ends_def syscall_def Nil f e)
next
  case (Cons x xs)
  then show ?thesis using assms [where x = x and ws = xs] by (auto simp: ends_def syscall_def split: prod.splits)
qed

text \<open>Without faults.\<close>

definition calm :: "world \<Rightarrow> bool" where "calm w \<longleftrightarrow> list_all (\<lambda>x. x = None) (w_faults w)"

lemma ends_syscall_calm:
  assumes "calm w" "\<And>ws. list_all (\<lambda>x. x = None) ws \<Longrightarrow>
    case f None (w_disk w) of (r, d) \<Rightarrow> Q r (w\<lparr>w_disk := d, w_faults := ws\<rparr>)"
  shows "ends (syscall f) Q w"
proof (cases "w_faults w")
  case Nil
  obtain r d where f: "f None (w_disk w) = (r, d)" by (cases "f None (w_disk w)")
  have e: "w\<lparr>w_disk := d, w_faults := []\<rparr> = w\<lparr>w_disk := d\<rparr>" using Nil by simp
  then show ?thesis using assms(2) [of "[]"] by (simp add: ends_def syscall_def Nil f e)
next
  case (Cons x xs)
  then show ?thesis
    using assms(1) assms(2) [of xs] by (auto simp: ends_def syscall_def calm_def split: prod.splits)
qed

end
