(* ===== verification/PluginStore.thy ===== *)
theory PluginStore
  imports PluginDisk
begin

text \<open>
  The registry of installed plugins: the \<open>Store\<close> of \<open>plugin.go\<close>, its archives (\<open>zip.go\<close>) and the key-value
  files (\<open>kv.go\<close>) in \<open>src/internal/capabilities/plugins/\<close>. Everything it keeps is on the disk: a plugin is
  a directory of the root, its rollback snapshot one of \<open>.backups\<close>, its data one of \<open>.data\<close>, the choices of
  the user are \<open>state.json\<close>. \<open>Install\<close> and \<open>Update\<close> have two sections, the copy outside the lock and the commit
  under it, with the removal of the staging directory after both; the other operations are one section.
  The codecs and \<open>codesign\<close> are parameters.
\<close>

subsection \<open>The store\<close>

record zip_entry =
  ze_Name :: string
  ze_IsDir :: bool
  ze_Size :: nat
  ze_Open :: "string + string"
  ze_Copied :: "string option"

text \<open>
  \<open>null\<close> in a state or data file decodes to a nil map, here \<open>None\<close>. \<open>se_sign\<close> is what signing makes of a
  file, with its error.
\<close>

record store_env =
  se_codec :: manifest_codec
  se_root :: path
  se_builtin :: "path option"
  se_hostVersion :: string
  se_tmp :: path
  se_dec_state :: "string \<Rightarrow> string + (string \<times> bool) list option"
  se_enc_state :: "(string \<times> bool) list option \<Rightarrow> string"
  se_dec_kv :: "string \<Rightarrow> string + (string \<times> string) list option"
  se_enc_kv :: "(string \<times> string) list option \<Rightarrow> string"
  se_sign :: "node \<Rightarrow> string option \<times> node"
  se_unzip :: "string \<Rightarrow> string + zip_entry list"

record PluginSummary =
  ps_ID :: string
  ps_Name :: string
  ps_Version :: string
  ps_Entry :: string
  ps_Permissions :: "string list"
  ps_Enabled :: bool
  ps_Builtin :: bool
  ps_Error :: "plugin_error option"
  ps_ShadowsBuiltin :: bool
  ps_BuiltinVersion :: string
  ps_HasSkills :: bool
  ps_HasMCP :: bool
  ps_HasHooks :: bool
  ps_HasTools :: bool
  ps_HasUpdate :: bool
  ps_CanRollback :: bool
  ps_Kraft :: string

definition no_summary :: PluginSummary where
  "no_summary =
     \<lparr>ps_ID = '''', ps_Name = '''', ps_Version = '''', ps_Entry = '''', ps_Permissions = [], ps_Enabled = False,
      ps_Builtin = False, ps_Error = None, ps_ShadowsBuiltin = False, ps_BuiltinVersion = '''', ps_HasSkills = False,
      ps_HasMCP = False, ps_HasHooks = False, ps_HasTools = False, ps_HasUpdate = False, ps_CanRollback = False,
      ps_Kraft = ''''\<rparr>"

record plugin_entry =
  pe_Summary :: PluginSummary
  pe_Dir :: path
  pe_Manifest :: "Manifest option"

definition plugin_json :: string where "plugin_json = ''plugin.json''"
definition pluginStateFile :: string where "pluginStateFile = ''state.json''"
definition maxPluginAssetBytes :: nat where "maxPluginAssetBytes = 10 * 2 ^ 20"

definition user_dir :: "store_env \<Rightarrow> string \<Rightarrow> path" where
  "user_dir env pid = se_root env @ [pid]"

definition backups_dir :: "store_env \<Rightarrow> path" where
  "backups_dir env = se_root env @ [''.backups'']"

definition backup_dir :: "store_env \<Rightarrow> string \<Rightarrow> path" where
  "backup_dir env pid = se_root env @ [''.backups'', pid]"

definition dirExists :: "path \<Rightarrow> bool io" where
  "dirExists p = andthen (attempt (os_Stat p)) (\<lambda>r. ret (r = Inr (Some DirNode)))"

text \<open>A file that has to be there.\<close>

definition read_required :: "path \<Rightarrow> plugin_error \<Rightarrow> string io" where
  "read_required p e = andthen (os_ReadFile p) (\<lambda>r. case r of None \<Rightarrow> fail e | Some c \<Rightarrow> ret c)"

definition bump_revision :: "unit io" where
  "bump_revision w = (Inr (), w\<lparr>w_rev := w_rev w + 1, w_owed := w_owed w + 1\<rparr>)"

subsection \<open>The state file\<close>

definition readState :: "store_env \<Rightarrow> (string \<times> bool) list option io" where
  "readState env = andthen (os_ReadFile (se_root env @ [pluginStateFile])) (\<lambda>r.
     case r of
       None \<Rightarrow> ret (Some [])
     | Some raw \<Rightarrow> (case se_dec_state env raw of Inl e \<Rightarrow> fail (BadJSON e) | Inr st \<Rightarrow> ret st))"

definition writeState :: "store_env \<Rightarrow> (string \<times> bool) list option \<Rightarrow> unit io" where
  "writeState env st = os_WriteFile (se_root env @ [pluginStateFile]) (se_enc_state env st @ [CHR 0x0A])"

definition state_lookup :: "(string \<times> bool) list option \<Rightarrow> string \<Rightarrow> bool option" where
  "state_lookup st pid = (case st of None \<Rightarrow> None | Some kvs \<Rightarrow> map_of kvs pid)"

definition set_key :: "string \<Rightarrow> 'v \<Rightarrow> (string \<times> 'v) list \<Rightarrow> (string \<times> 'v) list" where
  "set_key k v kvs = (k, v) # filter (\<lambda>(l, _). l \<noteq> k) kvs"

definition drop_key :: "string \<Rightarrow> (string \<times> 'v) list \<Rightarrow> (string \<times> 'v) list" where
  "drop_key k kvs = filter (\<lambda>(l, _). l \<noteq> k) kvs"

subsection \<open>Reading the registry\<close>

definition pluginDir :: "store_env \<Rightarrow> string \<Rightarrow> (path \<times> bool) io" where
  "pluginDir env pid =
     andthen (ensure (ValidateID pid)) (\<lambda>_.
     andthen (attempt (os_Stat (user_dir env pid @ [plugin_json]))) (\<lambda>u.
       case u of
         Inr (Some _) \<Rightarrow> ret (user_dir env pid, False)
       | _ \<Rightarrow>
           (case se_builtin env of
              None \<Rightarrow> fail (NotInstalled pid)
            | Some b \<Rightarrow> andthen (attempt (os_Stat (b @ [pid, plugin_json]))) (\<lambda>v.
                case v of Inr (Some _) \<Rightarrow> ret (b @ [pid], True) | _ \<Rightarrow> fail (NotInstalled pid)))))"

definition readManifest :: "store_env \<Rightarrow> string \<Rightarrow> Manifest io" where
  "readManifest env pid =
     andthen (pluginDir env pid) (\<lambda>(dir, _).
     andthen (read_required (dir @ [plugin_json]) (DiskError ''read manifest'')) (\<lambda>raw.
       returned (snd (parseManifest (se_codec env) pid raw))))"

definition Permissions :: "store_env \<Rightarrow> string \<Rightarrow> string list io" where
  "Permissions env pid = andthen (readManifest env pid) (\<lambda>m. ret (mf_Permissions m))"

definition Store_Kraft :: "store_env \<Rightarrow> string \<Rightarrow> Kraft option io" where
  "Store_Kraft env pid = andthen (readManifest env pid) (\<lambda>m. ret (mf_Kraft m))"

definition builtinVersion :: "store_env \<Rightarrow> string \<Rightarrow> string io" where
  "builtinVersion env pid =
     (case se_builtin env of
        None \<Rightarrow> ret ''''
      | Some b \<Rightarrow> andthen (attempt (os_ReadFile (b @ [pid, plugin_json]))) (\<lambda>r.
          case r of
            Inr (Some raw) \<Rightarrow>
              ret (case js_probe_version (se_codec env) raw of None \<Rightarrow> '''' | Some v \<Rightarrow> v)
          | _ \<Rightarrow> ret ''''))"

definition rollbackAvailable :: "store_env \<Rightarrow> string \<Rightarrow> bool io" where
  "rollbackAvailable env pid =
     andthen (attempt (os_ReadFile (backup_dir env pid @ [plugin_json]))) (\<lambda>r.
       case r of
         Inr (Some raw) \<Rightarrow>
           ret (js_probe_id (se_codec env) raw = Inr pid \<and> is_ok (snd (parseManifest (se_codec env) pid raw)))
       | _ \<Rightarrow> ret False)"

definition has_skills :: "path \<Rightarrow> Manifest \<Rightarrow> bool io" where
  "has_skills dir m =
     (if mf_Skills m \<noteq> [] then ret True
      else if manifestHasPermission m ''skills:provide'' then dirExists (dir @ [''skills''])
      else ret False)"

definition summary_fields :: "Manifest \<Rightarrow> bool \<Rightarrow> PluginSummary \<Rightarrow> PluginSummary" where
  "summary_fields m skills sm = sm
     \<lparr>ps_Name := mf_Name m, ps_Version := mf_Version m, ps_Entry := mf_Entry m, ps_Permissions := mf_Permissions m,
      ps_HasSkills := skills, ps_HasMCP := mf_McpServers m \<noteq> [], ps_HasHooks := mf_Hooks m \<noteq> [],
      ps_HasTools := mf_Tools m \<noteq> [], ps_HasUpdate := mf_Update m \<noteq> None,
      ps_Kraft := (case mf_Kraft m of None \<Rightarrow> '''' | Some k \<Rightarrow> kr_Binary k)\<rparr>"

definition summaryFromManifest :: "Manifest \<Rightarrow> path \<Rightarrow> bool \<Rightarrow> PluginSummary io" where
  "summaryFromManifest m dir canRollback =
     andthen (has_skills dir m) (\<lambda>skills.
       ret (summary_fields m skills (no_summary\<lparr>ps_ID := mf_ID m, ps_Enabled := True, ps_CanRollback := canRollback\<rparr>)))"

definition withBuiltinInfo :: "store_env \<Rightarrow> PluginSummary \<Rightarrow> PluginSummary io" where
  "withBuiltinInfo env sm =
     (if ps_Builtin sm \<or> se_builtin env = None then ret sm
      else andthen (builtinVersion env (ps_ID sm)) (\<lambda>v.
        ret (if v \<noteq> '''' then sm\<lparr>ps_ShadowsBuiltin := True, ps_BuiltinVersion := v\<rparr> else sm)))"

text \<open>One directory of \<open>scanDirEntries\<close>: what it lists, with whether its id is recorded as seen.\<close>

definition scan_entry ::
  "store_env \<Rightarrow> path \<Rightarrow> (string \<times> bool) list option \<Rightarrow> bool \<Rightarrow> string \<Rightarrow> (plugin_entry option \<times> bool) io" where
  "scan_entry env root st builtin pid =
     (let dir = root @ [pid];
          sm = no_summary\<lparr>ps_ID := pid, ps_Builtin := builtin,
            ps_Enabled := (case state_lookup st pid of Some b \<Rightarrow> b | None \<Rightarrow> True)\<rparr>;
          broken = (\<lambda>e. ret (Some \<lparr>pe_Summary = sm\<lparr>ps_Error := Some e\<rparr>, pe_Dir = [], pe_Manifest = None\<rparr>, False))
      in andthen (attempt (os_ReadFile (dir @ [plugin_json]))) (\<lambda>r.
        case r of
          Inr None \<Rightarrow> ret (None, False)
        | Inl e \<Rightarrow> broken e
        | Inr (Some raw) \<Rightarrow>
            (case snd (parseManifest (se_codec env) pid raw) of
               Inl e \<Rightarrow> broken e
             | Inr m \<Rightarrow>
                 andthen (has_skills dir m) (\<lambda>skills.
                 andthen (if builtin then ret (summary_fields m skills sm)
                   else
                     andthen (rollbackAvailable env pid) (\<lambda>back.
                     andthen (builtinVersion env pid) (\<lambda>v.
                       let sm' = summary_fields m skills sm\<lparr>ps_CanRollback := back\<rparr> in
                       ret (if v \<noteq> '''' then sm'\<lparr>ps_ShadowsBuiltin := True, ps_BuiltinVersion := v\<rparr> else sm'))))
                 (\<lambda>sm'. ret (Some \<lparr>pe_Summary = sm', pe_Dir = dir, pe_Manifest = Some m\<rparr>, True))))))"

fun scan_names ::
  "store_env \<Rightarrow> path \<Rightarrow> (string \<times> bool) list option \<Rightarrow> bool \<Rightarrow> string list \<Rightarrow> (string \<times> node) list \<Rightarrow>
   (plugin_entry list \<times> string list) io" where
  "scan_names env root st builtin seen [] = ret ([], seen)"
| "scan_names env root st builtin seen ((name, n) # ns) =
     (if n \<noteq> DirNode \<or> has_prefix name ''.'' \<or> name \<in> set seen then scan_names env root st builtin seen ns
      else
        andthen (scan_entry env root st builtin name) (\<lambda>(e, found).
        andthen (scan_names env root st builtin (if found then name # seen else seen) ns) (\<lambda>(out, seen').
          ret ((case e of None \<Rightarrow> out | Some x \<Rightarrow> x # out), seen'))))"

definition scanDirEntries ::
  "store_env \<Rightarrow> path \<Rightarrow> (string \<times> bool) list option \<Rightarrow> bool \<Rightarrow> string list \<Rightarrow> (plugin_entry list \<times> string list) io" where
  "scanDirEntries env root st builtin seen =
     andthen (attempt (os_ReadDir root)) (\<lambda>r.
       case r of Inl e \<Rightarrow> ret ([], seen) | Inr dirs \<Rightarrow> scan_names env root st builtin seen dirs)"

definition Entries :: "store_env \<Rightarrow> plugin_entry list io" where
  "Entries env =
     andthen (os_MkdirAll (se_root env)) (\<lambda>_.
     andthen (readState env) (\<lambda>st.
     andthen (scanDirEntries env (se_root env) st False []) (\<lambda>(out, seen).
     andthen (case se_builtin env of
         None \<Rightarrow> ret out
       | Some b \<Rightarrow> andthen (scanDirEntries env b st True seen) (\<lambda>(more, _). ret (out @ more)))
     (\<lambda>all. ret (sort_key (\<lambda>e. ps_ID (pe_Summary e)) all)))))"

definition List_plugins :: "store_env \<Rightarrow> PluginSummary list io" where
  "List_plugins env = andthen (Entries env) (\<lambda>es. ret (map pe_Summary es))"

definition Bundle :: "store_env \<Rightarrow> string \<Rightarrow> string io" where
  "Bundle env pid =
     andthen (pluginDir env pid) (\<lambda>(dir, _).
     andthen (readManifest env pid) (\<lambda>m.
       let entry = path_Clean (mf_Entry m) in
       if \<not> RelRef (se_codec env) entry then fail (EscapesPlugin (mf_Entry m))
       else read_required (path_Join dir entry) (DiskError ''read bundle'')))"

definition readBoundedAsset :: "path \<Rightarrow> nat \<Rightarrow> string io" where
  "readBoundedAsset p limit =
     andthen (attempt (os_Stat p)) (\<lambda>r.
       if (case r of Inr (Some (FileNode c x)) \<Rightarrow> length c > limit | _ \<Rightarrow> False) then fail (TooBig ''asset'')
       else
         andthen (read_required p (DiskError ''read asset'')) (\<lambda>c.
           let dat = take (limit + 1) c in if length dat > limit then fail (TooBig ''asset'') else ret dat))"

definition Asset :: "store_env \<Rightarrow> string \<Rightarrow> string \<Rightarrow> string io" where
  "Asset env pid rel =
     andthen (pluginDir env pid) (\<lambda>(dir, _).
       let rel' = path_Clean rel in
       if \<not> RelRef (se_codec env) rel' then fail (EscapesPlugin rel')
       else readBoundedAsset (path_Join dir rel') maxPluginAssetBytes)"

subsection \<open>Staging a source\<close>

text \<open>
  \<open>filepath.Walk\<close> visits the tree in lexical order; what lies under a name that starts with a dot is left out.
\<close>

definition visible :: "path \<Rightarrow> bool" where
  "visible rel \<longleftrightarrow> list_all (\<lambda>c. \<not> has_prefix c ''.'') rel"

definition os_Walk :: "path \<Rightarrow> (path \<times> node) list io" where
  "os_Walk src = sysread (\<lambda>d.
     if map_of d src = None then Inl (DiskError ''no such directory'')
     else Inr (map (\<lambda>rel. (rel, the (map_of d (src @ rel))))
       (sort (remdups (filter (\<lambda>rel. rel \<noteq> [] \<and> visible rel)
         (map (\<lambda>(q, _). drop (length src) q) (filter (\<lambda>(q, _). prefix src q) d)))))))"

fun copy_entries :: "path \<Rightarrow> path \<Rightarrow> (path \<times> node) list \<Rightarrow> unit io" where
  "copy_entries src dst [] = ret ()"
| "copy_entries src dst ((rel, DirNode) # es) =
     andthen (os_MkdirAll (dst @ rel)) (\<lambda>_. copy_entries src dst es)"
| "copy_entries src dst ((rel, FileNode _ _) # es) =
     andthen (read_required (src @ rel) (DiskError ''no such file'')) (\<lambda>c.
     andthen (os_WriteFile (dst @ rel) c) (\<lambda>_. copy_entries src dst es))"

definition copyDir :: "path \<Rightarrow> path \<Rightarrow> unit io" where
  "copyDir src dst =
     andthen (os_Walk src) (\<lambda>es. andthen (os_MkdirAll dst) (\<lambda>_. copy_entries src dst es))"

fun check_skill_dirs :: "path \<Rightarrow> nat \<Rightarrow> string list \<Rightarrow> unit io" where
  "check_skill_dirs dst i [] = ret ()"
| "check_skill_dirs dst i (rel # rels) =
     andthen (dirExists (path_Join dst rel)) (\<lambda>b.
       if \<not> b then fail (MissingResource ''skills'' i) else check_skill_dirs dst (Suc i) rels)"

fun check_hook_files :: "store_env \<Rightarrow> path \<Rightarrow> nat \<Rightarrow> string list \<Rightarrow> unit io" where
  "check_hook_files env dst i [] = ret ()"
| "check_hook_files env dst i (rel # rels) =
     andthen (read_required (path_Join dst rel) (MissingResource ''hooks'' i)) (\<lambda>c.
       if \<not> js_valid (se_codec env) c then fail (MissingResource ''hooks'' i)
       else check_hook_files env dst (Suc i) rels)"

definition names_file :: "string \<Rightarrow> bool" where
  "names_file cmd \<longleftrightarrow>
     path_IsAbs cmd \<or> str_contains cmd ''/'' \<or> str_contains cmd [CHR 0x5C] \<or> has_prefix cmd ''.''"

fun check_server_commands :: "path \<Rightarrow> nat \<Rightarrow> PluginMCPServer list \<Rightarrow> unit io" where
  "check_server_commands dst i [] = ret ()"
| "check_server_commands dst i (srv # srvs) =
     (if ms_Transport srv \<noteq> ''stdio'' \<or> \<not> names_file (ms_Command srv)
      then check_server_commands dst (Suc i) srvs
      else
        andthen (attempt (os_Stat (path_Join (if path_IsAbs (ms_Command srv) then [] else dst) (ms_Command srv)))) (\<lambda>r.
          case r of
            Inr (Some (FileNode c x)) \<Rightarrow> check_server_commands dst (Suc i) srvs
          | _ \<Rightarrow> fail (MissingResource ''mcpServers'' i)))"

definition validateInstalledAgentResources :: "store_env \<Rightarrow> path \<Rightarrow> Manifest \<Rightarrow> unit io" where
  "validateInstalledAgentResources env dst m =
     andthen (check_skill_dirs dst 0 (mf_Skills m)) (\<lambda>_.
     andthen (check_hook_files env dst 0 (mf_Hooks m)) (\<lambda>_.
       check_server_commands dst 0 (mf_McpServers m)))"

definition signAdHoc :: "store_env \<Rightarrow> path \<Rightarrow> unit io" where
  "signAdHoc env p = syscall (\<lambda>x d.
     case x of
       Some y \<Rightarrow> (Inl (DiskError (fault_why y)), d)
     | None \<Rightarrow>
         (case map_of d p of
            None \<Rightarrow> (Inl (DiskError ''no such file''), d)
          | Some n \<Rightarrow>
              (case se_sign env n of
                 (Some e, n') \<Rightarrow> (Inl (DiskError e), disk_put p n' d)
               | (None, n') \<Rightarrow> (Inr (), disk_put p n' d))))"

definition preparePluginDir :: "store_env \<Rightarrow> path \<Rightarrow> Manifest \<Rightarrow> unit io" where
  "preparePluginDir env dir m =
     andthen (validateInstalledAgentResources env dir m) (\<lambda>_.
       case mf_Kraft m of
         None \<Rightarrow> ret ()
       | Some k \<Rightarrow>
           andthen (os_Chmod_exec (path_Join dir (kr_Binary k))) (\<lambda>_. signAdHoc env (path_Join dir (kr_Binary k))))"

definition stage_prefix :: "string \<Rightarrow> string" where
  "stage_prefix pid = ''.plugin-stage-'' @ pid @ ''-''"

definition stagePluginDir :: "store_env \<Rightarrow> path \<Rightarrow> Manifest \<Rightarrow> string list \<Rightarrow> path io" where
  "stagePluginDir env src m rnds =
     andthen (os_MkdirAll (se_root env)) (\<lambda>_.
     andthen (os_MkdirTemp (se_root env) (stage_prefix (mf_ID m)) rnds) (\<lambda>staged.
     andthen (attempt (andthen (copyDir src staged) (\<lambda>_. preparePluginDir env staged m))) (\<lambda>r.
       case r of
         Inl e \<Rightarrow> andthen (warn_err (os_RemoveAll staged)) (\<lambda>_. fail e)
       | Inr _ \<Rightarrow> ret staged)))"

subsection \<open>Gates\<close>

definition checkHostVersion :: "store_env \<Rightarrow> Manifest \<Rightarrow> plugin_error option" where
  "checkHostVersion env m =
     (if mf_MinHostVersion m = '''' \<or> se_hostVersion env = '''' then None
      else
        (case compareVersions (mf_MinHostVersion m) (se_hostVersion env) of
           Inl e \<Rightarrow> Some e
         | Inr cmp \<Rightarrow> if cmp > 0 then Some (HostTooOld (mf_ID m) (mf_MinHostVersion m)) else None))"

definition requireNewer :: "Manifest \<Rightarrow> Manifest \<Rightarrow> plugin_error option" where
  "requireNewer m cur =
     (case compareVersions (mf_Version m) (mf_Version cur) of
        Inl e \<Rightarrow> Some e
      | Inr cmp \<Rightarrow> if cmp \<le> 0 then Some (NotNewer (mf_Version m) (mf_Version cur)) else None)"

definition check_builtin_version :: "store_env \<Rightarrow> Manifest \<Rightarrow> unit io" where
  "check_builtin_version env m =
     andthen (builtinVersion env (mf_ID m)) (\<lambda>bv.
       if bv = '''' then ret ()
       else
         (case compareVersions (mf_Version m) bv of
            Inl e \<Rightarrow> fail e
          | Inr cmp \<Rightarrow> if cmp < 0 then fail (OlderThanBuiltin (mf_Version m) bv) else ret ()))"

definition authored_manifest :: "store_env \<Rightarrow> string \<Rightarrow> plugin_error + Manifest" where
  "authored_manifest env raw =
     (case js_probe_id (se_codec env) raw of
        Inl e \<Rightarrow> Inl (BadJSON e)
      | Inr pid \<Rightarrow> snd (parseManifestForAuthoring (se_codec env) pid raw))"

definition require_dir :: "path \<Rightarrow> unit io" where
  "require_dir src =
     andthen (os_Stat src) (\<lambda>n.
       case n of
         None \<Rightarrow> fail (BadSource ''no such directory'')
       | Some (FileNode c x) \<Rightarrow> fail (BadSource ''not a directory'')
       | Some DirNode \<Rightarrow> ret ())"

subsection \<open>Enabling\<close>

definition SetEnabled :: "store_env \<Rightarrow> string \<Rightarrow> bool \<Rightarrow> unit io" where
  "SetEnabled env pid enabled =
     andthen (readManifest env pid) (\<lambda>_.
     andthen (readState env) (\<lambda>st.
       if (case state_lookup st pid of Some v \<Rightarrow> v | None \<Rightarrow> True) = enabled then ret ()
       else
         (case st of
            None \<Rightarrow> fail (Panicked ''assignment to entry in nil map'')
          | Some kvs \<Rightarrow>
              andthen (writeState env (Some (set_key pid enabled kvs))) (\<lambda>_. bump_revision))))"

subsection \<open>Installing\<close>

definition Install_prepare :: "store_env \<Rightarrow> path \<Rightarrow> string list \<Rightarrow> (Manifest \<times> path) io" where
  "Install_prepare env src rnds =
     andthen (require_dir src) (\<lambda>_.
     andthen (read_required (src @ [plugin_json]) (DiskError ''read source manifest'')) (\<lambda>raw.
     andthen (returned (authored_manifest env raw)) (\<lambda>m.
     andthen (ensure (checkHostVersion env m)) (\<lambda>_.
     andthen (check_builtin_version env m) (\<lambda>_.
     andthen (stagePluginDir env src m rnds) (\<lambda>staged. ret (m, staged)))))))"

definition Install_commit :: "store_env \<Rightarrow> Manifest \<Rightarrow> path \<Rightarrow> PluginSummary io" where
  "Install_commit env m staged =
     (let dst = user_dir env (mf_ID m) in
      andthen (os_Stat dst) (\<lambda>n.
        case n of
          Some _ \<Rightarrow> fail (AlreadyInstalled (mf_ID m))
        | None \<Rightarrow>
            andthen (os_Rename staged dst) (\<lambda>_.
            andthen bump_revision (\<lambda>_.
            andthen (summaryFromManifest m dst False) (withBuiltinInfo env)))))"

definition Install :: "store_env \<Rightarrow> path \<Rightarrow> string list \<Rightarrow> PluginSummary io" where
  "Install env src rnds =
     andthen (Install_prepare env src rnds) (\<lambda>(m, staged).
       with_cleanup (Install_commit env m staged) (os_RemoveAll staged))"

subsection \<open>Updating\<close>

definition Update_prepare :: "store_env \<Rightarrow> string \<Rightarrow> path \<Rightarrow> string list \<Rightarrow> (Manifest \<times> path) io" where
  "Update_prepare env pid src rnds =
     andthen (ensure (ValidateID pid)) (\<lambda>_.
     andthen (pluginDir env pid) (\<lambda>(_, builtin).
       if builtin then fail (BuiltinPlugin pid)
       else
         andthen (require_dir src) (\<lambda>_.
         andthen (readManifest env pid) (\<lambda>cur.
         andthen (read_required (src @ [plugin_json]) (DiskError ''read source manifest'')) (\<lambda>raw.
         andthen (returned (authored_manifest env raw)) (\<lambda>m.
         andthen (ensure (if mf_ID m \<noteq> pid then Some (IdMismatch (mf_ID m) pid) else None)) (\<lambda>_.
         andthen (ensure (requireNewer m cur)) (\<lambda>_.
         andthen (check_builtin_version env m) (\<lambda>_.
         andthen (ensure (checkHostVersion env m)) (\<lambda>_.
         andthen (stagePluginDir env src m rnds) (\<lambda>staged. ret (m, staged))))))))))))"

text \<open>The summary an update or rollback answers with: the user's choice stays.\<close>

definition summary_with_state :: "store_env \<Rightarrow> string \<Rightarrow> PluginSummary \<Rightarrow> PluginSummary io" where
  "summary_with_state env pid sm =
     andthen (attempt (readState env)) (\<lambda>r.
       withBuiltinInfo env
         (case r of
            Inl e \<Rightarrow> sm
          | Inr st \<Rightarrow> (case state_lookup st pid of Some v \<Rightarrow> sm\<lparr>ps_Enabled := v\<rparr> | None \<Rightarrow> sm)))"

text \<open>The current version becomes the pending snapshot, the staged one becomes current.\<close>

definition swap_in :: "path \<Rightarrow> path \<Rightarrow> path \<Rightarrow> unit io" where
  "swap_in dir pending staged =
     andthen (warn_err (os_RemoveAll pending)) (\<lambda>_.
     andthen (os_Rename dir pending) (\<lambda>_.
     andthen (attempt (os_Rename staged dir)) (\<lambda>r.
       case r of
         Inl e \<Rightarrow> andthen (warn_err (os_Rename pending dir)) (\<lambda>_. fail e)
       | Inr _ \<Rightarrow> bump_revision)))"

text \<open>The pending snapshot becomes the one that \<open>Rollback\<close> restores.\<close>

definition keep_snapshot :: "path \<Rightarrow> path \<Rightarrow> path \<Rightarrow> unit io" where
  "keep_snapshot backup pending old =
     andthen (warn_err (os_RemoveAll old)) (\<lambda>_.
     andthen (os_Stat backup) (\<lambda>n.
     andthen (case n of None \<Rightarrow> ret () | Some _ \<Rightarrow> os_Rename backup old) (\<lambda>_.
     andthen (attempt (os_Rename pending backup)) (\<lambda>r.
       case r of
         Inl e \<Rightarrow> andthen (warn_err (os_Rename old backup)) (\<lambda>_. fail e)
       | Inr _ \<Rightarrow> warn_err (os_RemoveAll old)))))"

definition Update_commit :: "store_env \<Rightarrow> string \<Rightarrow> Manifest \<Rightarrow> path \<Rightarrow> PluginSummary io" where
  "Update_commit env pid m staged =
     andthen (pluginDir env pid) (\<lambda>(dir, builtin).
       if builtin then fail (BuiltinPlugin pid)
       else
         andthen (readManifest env pid) (\<lambda>cur.
         andthen (ensure (requireNewer m cur)) (\<lambda>_.
         andthen (os_MkdirAll (backups_dir env)) (\<lambda>_.
         andthen (swap_in dir (backup_dir env (pid @ ''.pending'')) staged) (\<lambda>_.
         andthen (keep_snapshot (backup_dir env pid) (backup_dir env (pid @ ''.pending''))
           (backup_dir env (pid @ ''.old''))) (\<lambda>_.
         andthen (summaryFromManifest m dir True) (summary_with_state env pid)))))))"

definition Update :: "store_env \<Rightarrow> string \<Rightarrow> path \<Rightarrow> string list \<Rightarrow> PluginSummary io" where
  "Update env pid src rnds =
     andthen (Update_prepare env pid src rnds) (\<lambda>(m, staged).
       with_cleanup (Update_commit env pid m staged) (os_RemoveAll staged))"

subsection \<open>Rolling back\<close>

definition restore_snapshot :: "path \<Rightarrow> path \<Rightarrow> path \<Rightarrow> unit io" where
  "restore_snapshot dir pending backup =
     andthen (warn_err (os_RemoveAll pending)) (\<lambda>_.
     andthen (os_Stat dir) (\<lambda>n.
     andthen (case n of None \<Rightarrow> ret () | Some _ \<Rightarrow> os_Rename dir pending) (\<lambda>_.
     andthen (attempt (os_Rename backup dir)) (\<lambda>r.
       case r of
         Inl e \<Rightarrow> andthen (warn_err (os_Rename pending dir)) (\<lambda>_. fail e)
       | Inr _ \<Rightarrow> andthen bump_revision (\<lambda>_. warn_err (os_RemoveAll pending))))))"

definition Rollback :: "store_env \<Rightarrow> string \<Rightarrow> PluginSummary io" where
  "Rollback env pid =
     andthen (ensure (ValidateID pid)) (\<lambda>_.
     andthen (attempt (os_ReadFile (backup_dir env pid @ [plugin_json]))) (\<lambda>r.
       case r of
         Inr (Some raw) \<Rightarrow>
           andthen (returned (authored_manifest env raw)) (\<lambda>m.
           andthen (ensure (if mf_ID m \<noteq> pid then Some (IdMismatch (mf_ID m) pid) else None)) (\<lambda>_.
           andthen (ensure (checkHostVersion env m)) (\<lambda>_.
           andthen (preparePluginDir env (backup_dir env pid) m) (\<lambda>_.
           andthen (restore_snapshot (user_dir env pid) (backup_dir env (pid @ ''.discard'')) (backup_dir env pid)) (\<lambda>_.
           andthen (summaryFromManifest m (user_dir env pid) False) (summary_with_state env pid))))))
       | _ \<Rightarrow> fail (NoSnapshot pid)))"

subsection \<open>Uninstalling\<close>

definition Uninstall :: "store_env \<Rightarrow> string \<Rightarrow> unit io" where
  "Uninstall env pid =
     andthen (pluginDir env pid) (\<lambda>(_, builtin).
       if builtin then fail (BuiltinPlugin pid)
       else
         andthen (os_RemoveAll (user_dir env pid)) (\<lambda>_.
         andthen (warn_err (os_RemoveAll (backup_dir env pid))) (\<lambda>_.
         andthen bump_revision (\<lambda>_.
         andthen (readState env) (\<lambda>st.
           writeState env (map_option (drop_key pid) st))))))"

subsection \<open>Archives\<close>

definition maxPluginZipFile :: nat where "maxPluginZipFile = 64 * 2 ^ 20"
definition maxPluginZipTotal :: nat where "maxPluginZipTotal = 256 * 2 ^ 20"

text \<open>\<open>filepath.Base\<close> and \<open>filepath.Dir\<close> of a cleaned path.\<close>

definition path_Base :: "string \<Rightarrow> string" where
  "path_Base p = (if p = ''/'' then p else last (split_on (CHR ''/'') p))"

definition path_Dir :: "string \<Rightarrow> string" where
  "path_Dir p =
     (let cs = butlast (split_on (CHR ''/'') p) in
      if cs = [] then ''.'' else if cs = [''''] then ''/'' else str_join ''/'' cs)"

fun extract_entries ::
  "store_env \<Rightarrow> path \<Rightarrow> nat \<Rightarrow> string option \<Rightarrow> zip_entry list \<Rightarrow> string option io" where
  "extract_entries env tmp sofar manifestDir [] = ret manifestDir"
| "extract_entries env tmp sofar manifestDir (f # fs) =
     (let name = path_Clean (ze_Name f); target = path_Join tmp name in
      if \<not> RelRef (se_codec env) name then fail (EscapesPlugin (ze_Name f))
      else if ze_IsDir f then extract_entries env tmp sofar manifestDir fs
      else if ze_Size f > maxPluginZipFile \<or> sofar + ze_Size f > maxPluginZipTotal then fail (TooBig (ze_Name f))
      else
        andthen (os_MkdirAll (butlast target)) (\<lambda>_.
        andthen (case ze_Open f of Inl e \<Rightarrow> fail (DiskError e) | Inr c \<Rightarrow> os_WriteFile target c) (\<lambda>_.
        andthen (ensure (map_option DiskError (ze_Copied f))) (\<lambda>_.
          extract_entries env tmp (sofar + ze_Size f)
            (if path_Base name = plugin_json then Some (path_Dir name) else manifestDir) fs))))"

text \<open>The directory that holds \<open>plugin.json\<close>, with the one to remove at the end.\<close>

definition extractPluginZip :: "store_env \<Rightarrow> path \<Rightarrow> string list \<Rightarrow> (path \<times> path) io" where
  "extractPluginZip env zipPath rnds =
     andthen (read_required zipPath (DiskError ''open zip'')) (\<lambda>raw.
     andthen (case se_unzip env raw of Inl e \<Rightarrow> fail (DiskError e) | Inr fs \<Rightarrow> ret fs) (\<lambda>fs.
     andthen (os_MkdirTemp (se_tmp env) ''oc-plugin-'' rnds) (\<lambda>tmp.
     andthen (attempt (extract_entries env tmp 0 None fs)) (\<lambda>r.
       case r of
         Inl e \<Rightarrow> andthen (warn_err (os_RemoveAll tmp)) (\<lambda>_. fail e)
       | Inr None \<Rightarrow> andthen (warn_err (os_RemoveAll tmp)) (\<lambda>_. fail (BadSource ''zip has no plugin.json''))
       | Inr (Some dir) \<Rightarrow> ret (path_Join tmp dir, tmp)))))"

definition InstallZip :: "store_env \<Rightarrow> path \<Rightarrow> string list \<Rightarrow> string list \<Rightarrow> PluginSummary io" where
  "InstallZip env zipPath rnds rnds' =
     andthen (extractPluginZip env zipPath rnds) (\<lambda>(dir, tmp).
       with_cleanup (Install env dir rnds') (os_RemoveAll tmp))"

definition UpdateZip :: "store_env \<Rightarrow> string \<Rightarrow> path \<Rightarrow> string list \<Rightarrow> string list \<Rightarrow> PluginSummary io" where
  "UpdateZip env pid zipPath rnds rnds' =
     andthen (extractPluginZip env zipPath rnds) (\<lambda>(dir, tmp).
       with_cleanup (Update env pid dir rnds') (os_RemoveAll tmp))"

text \<open>A source is a directory or an archive; of a directory nothing is removed.\<close>

definition sourcePluginDir :: "store_env \<Rightarrow> path \<Rightarrow> string list \<Rightarrow> (path \<times> path option) io" where
  "sourcePluginDir env src rnds =
     andthen (os_Stat src) (\<lambda>n.
       case n of
         None \<Rightarrow> fail (BadSource ''no such file'')
       | Some DirNode \<Rightarrow> ret (src, None)
       | Some (FileNode c x) \<Rightarrow> andthen (extractPluginZip env src rnds) (\<lambda>(dir, tmp). ret (dir, Some tmp)))"

definition Inspect :: "store_env \<Rightarrow> path \<Rightarrow> string list \<Rightarrow> PluginSummary io" where
  "Inspect env src rnds =
     andthen (sourcePluginDir env src rnds) (\<lambda>(dir, tmp).
       with_cleanup
         (andthen (read_required (dir @ [plugin_json]) (DiskError ''read source manifest'')) (\<lambda>raw.
          andthen (returned (authored_manifest env raw)) (\<lambda>m.
          andthen (ensure (checkHostVersion env m)) (\<lambda>_.
          andthen (summaryFromManifest m dir False) (withBuiltinInfo env)))))
         (case tmp of None \<Rightarrow> ret () | Some t \<Rightarrow> os_RemoveAll t))"

subsection \<open>Key-value files\<close>

definition MaxKVValueBytes :: nat where "MaxKVValueBytes = 64 * 2 ^ 10"
definition kvFileName :: string where "kvFileName = ''kv.json''"

definition ValidateKVKey :: "string \<Rightarrow> plugin_error option" where
  "ValidateKVKey key = (if \<not> kvKeyRe key then Some (InvalidKey key) else None)"

definition data_dir :: "store_env \<Rightarrow> string \<Rightarrow> path" where
  "data_dir env pid = se_root env @ [''.data'', pid]"

definition kv_path :: "store_env \<Rightarrow> string \<Rightarrow> path io" where
  "kv_path env pid =
     andthen (ensure (ValidateID pid)) (\<lambda>_.
     andthen (os_MkdirAll (data_dir env pid)) (\<lambda>_. ret (data_dir env pid @ [kvFileName])))"

definition kv_read :: "store_env \<Rightarrow> string \<Rightarrow> (string \<times> string) list option io" where
  "kv_read env pid =
     andthen (kv_path env pid) (\<lambda>p.
     andthen (os_ReadFile p) (\<lambda>r.
       case r of
         None \<Rightarrow> ret (Some [])
       | Some raw \<Rightarrow> (case se_dec_kv env raw of Inl e \<Rightarrow> fail (BadJSON e) | Inr kv \<Rightarrow> ret kv)))"

definition kv_write :: "store_env \<Rightarrow> string \<Rightarrow> (string \<times> string) list option \<Rightarrow> unit io" where
  "kv_write env pid kv =
     andthen (kv_path env pid) (\<lambda>p.
       let tmp = butlast p @ [last p @ ''.tmp''] in
       andthen (os_WriteFile tmp (se_enc_kv env kv @ [CHR 0x0A])) (\<lambda>_. os_Rename tmp p))"

definition kv_lookup :: "(string \<times> string) list option \<Rightarrow> string \<Rightarrow> string" where
  "kv_lookup kv key =
     (case kv of None \<Rightarrow> '''' | Some kvs \<Rightarrow> (case map_of kvs key of None \<Rightarrow> '''' | Some v \<Rightarrow> v))"

definition KV_Get :: "store_env \<Rightarrow> string \<Rightarrow> string \<Rightarrow> string io" where
  "KV_Get env pid key =
     andthen (ensure (ValidateKVKey key)) (\<lambda>_.
     andthen (kv_read env pid) (\<lambda>kv. ret (kv_lookup kv key)))"

definition KV_List :: "store_env \<Rightarrow> string \<Rightarrow> (string \<times> string) list io" where
  "KV_List env pid =
     andthen (kv_read env pid) (\<lambda>kv. ret (case kv of None \<Rightarrow> [] | Some kvs \<Rightarrow> kvs))"

definition KV_Set :: "store_env \<Rightarrow> string \<Rightarrow> string \<Rightarrow> string \<Rightarrow> unit io" where
  "KV_Set env pid key v =
     andthen (ensure (ValidateKVKey key)) (\<lambda>_.
     andthen (ensure (if length v > MaxKVValueBytes then Some (TooBig ''kv value'') else None)) (\<lambda>_.
     andthen (kv_read env pid) (\<lambda>kv.
       case kv of
         None \<Rightarrow> fail (Panicked ''assignment to entry in nil map'')
       | Some kvs \<Rightarrow> kv_write env pid (Some (set_key key v kvs)))))"

definition KV_Delete :: "store_env \<Rightarrow> string \<Rightarrow> string \<Rightarrow> unit io" where
  "KV_Delete env pid key =
     andthen (ensure (ValidateKVKey key)) (\<lambda>_.
     andthen (kv_read env pid) (\<lambda>kv. kv_write env pid (map_option (drop_key key) kv)))"

definition KV_RemoveAll :: "store_env \<Rightarrow> string \<Rightarrow> unit io" where
  "KV_RemoveAll env pid =
     (if ValidateID pid \<noteq> None then ret () else warn_err (os_RemoveAll (data_dir env pid)))"

subsection \<open>Histories\<close>

text \<open>
  A call of \<open>Install\<close> or \<open>Update\<close> between its sections, and one whose staging directory is still to be
  removed.
\<close>

datatype inflight =
    Installing Manifest path
  | Updating string Manifest path
  | Leaving path

record plugin_sys =
  rs_world :: world
  rs_calls :: "inflight list"

datatype plugin_call =
    BeginInstall path "string list"
  | BeginUpdate string path "string list"
  | Proceed nat
  | CallSetEnabled string bool
  | CallRollback string
  | CallUninstall string
  | CallEntries
  | CallKVSet string string string
  | CallKVDelete string string
  | CallKVRemoveAll string
  | Notify
  | EditSource path node

fun inflight_dir :: "inflight \<Rightarrow> path" where
  "inflight_dir (Installing m p) = p"
| "inflight_dir (Updating pid m p) = p"
| "inflight_dir (Leaving p) = p"

text \<open>A random name that a call in flight holds is not drawn again.\<close>

definition unused_names :: "store_env \<Rightarrow> inflight list \<Rightarrow> string list \<Rightarrow> string list" where
  "unused_names env calls rnds =
     filter (\<lambda>r. list_all (\<lambda>c. \<not> has_suffix (last (inflight_dir c)) r) calls) rnds"

definition begin_call ::
  "(Manifest \<times> path) io \<Rightarrow> (Manifest \<Rightarrow> path \<Rightarrow> inflight) \<Rightarrow> plugin_sys \<Rightarrow> plugin_sys" where
  "begin_call m f s =
     (case m (rs_world s) of
        (Inl e, w) \<Rightarrow> s\<lparr>rs_world := w\<rparr>
      | (Inr (mf, p), w) \<Rightarrow> s\<lparr>rs_world := w, rs_calls := rs_calls s @ [f mf p]\<rparr>)"

definition run_section :: "'a io \<Rightarrow> plugin_sys \<Rightarrow> plugin_sys" where
  "run_section m s = s\<lparr>rs_world := snd (m (rs_world s))\<rparr>"

definition proceed :: "store_env \<Rightarrow> nat \<Rightarrow> plugin_sys \<Rightarrow> plugin_sys" where
  "proceed env i s =
     (if i \<ge> length (rs_calls s) then s
      else
        (case rs_calls s ! i of
           Installing m p \<Rightarrow> (run_section (Install_commit env m p) s)\<lparr>rs_calls := (rs_calls s)[i := Leaving p]\<rparr>
         | Updating pid m p \<Rightarrow> (run_section (Update_commit env pid m p) s)\<lparr>rs_calls := (rs_calls s)[i := Leaving p]\<rparr>
         | Leaving p \<Rightarrow>
             (run_section (os_RemoveAll p) s)\<lparr>rs_calls := take i (rs_calls s) @ drop (Suc i) (rs_calls s)\<rparr>))"

text \<open>
  What the world outside may change between the sections is whatever does not lie in the registry or above it.
\<close>

definition outside :: "store_env \<Rightarrow> path \<Rightarrow> bool" where
  "outside env p \<longleftrightarrow> \<not> prefix p (se_root env) \<and> \<not> prefix (se_root env) p"

fun plugin_call_step :: "store_env \<Rightarrow> plugin_call \<Rightarrow> plugin_sys \<Rightarrow> plugin_sys" where
  "plugin_call_step env (BeginInstall src rnds) s =
     begin_call (Install_prepare env src (unused_names env (rs_calls s) rnds)) Installing s"
| "plugin_call_step env (BeginUpdate pid src rnds) s =
     begin_call (Update_prepare env pid src (unused_names env (rs_calls s) rnds)) (Updating pid) s"
| "plugin_call_step env (Proceed i) s = proceed env i s"
| "plugin_call_step env (CallSetEnabled pid b) s = run_section (SetEnabled env pid b) s"
| "plugin_call_step env (CallRollback pid) s = run_section (Rollback env pid) s"
| "plugin_call_step env (CallUninstall pid) s = run_section (Uninstall env pid) s"
| "plugin_call_step env CallEntries s = run_section (Entries env) s"
| "plugin_call_step env (CallKVSet pid k v) s = run_section (KV_Set env pid k v) s"
| "plugin_call_step env (CallKVDelete pid k) s = run_section (KV_Delete env pid k) s"
| "plugin_call_step env (CallKVRemoveAll pid) s = run_section (KV_RemoveAll env pid) s"
| "plugin_call_step env Notify s =
     s\<lparr>rs_world := (rs_world s)\<lparr>w_owed := w_owed (rs_world s) - 1\<rparr>\<rparr>"
| "plugin_call_step env (EditSource p n) s =
     (if outside env p then s\<lparr>rs_world := (rs_world s)\<lparr>w_disk := disk_put p n (w_disk (rs_world s))\<rparr>\<rparr> else s)"

text \<open>A step of a history: a call with the faults its section meets.\<close>

definition plugin_step ::
  "store_env \<Rightarrow> fault option list \<times> plugin_call \<Rightarrow> plugin_sys \<Rightarrow> plugin_sys" where
  "plugin_step env c s =
     plugin_call_step env (snd c) (s\<lparr>rs_world := (rs_world s)\<lparr>w_faults := fst c\<rparr>\<rparr>)"

end
