(* ===== verification/PluginStoreLaws.thy ===== *)
theory PluginStoreLaws
  imports PluginStore PluginsLaws
begin

text \<open>
  What the registry's operations do to the disk, whatever fault any of their calls meets. \<open>stays f m\<close> says that
  \<open>m\<close> leaves \<open>f\<close> of the world as it is; the contract \<open>view\<close> carries the operations that only read, for the
  disk, one path of it and the revision. The rest is about the operations that write: no version is lost by an
  update, no plugin touches another, a key-value file is old or new.
\<close>

subsection \<open>What an operation leaves alone\<close>

definition stays :: "(world \<Rightarrow> 'v) \<Rightarrow> 'a io \<Rightarrow> bool" where
  "stays f m \<longleftrightarrow> (\<forall>w. ends m (\<lambda>_ w'. f w' = f w) w)"

named_theorems stays_intros \<open>what leaves a view of the world alone\<close>

lemma staysD: "stays f m \<Longrightarrow> m w = (r, w') \<Longrightarrow> f w' = f w"
  unfolding stays_def ends_def by (drule spec [of _ w]) simp

lemma stays_ends: "stays f m \<Longrightarrow> ends m (\<lambda>_ w'. f w' = f w) w"
  by (simp add: stays_def)

lemma stays_simple [stays_intros]:
  "stays f (ret x)" "stays f (fail e)" "stays f (returned r)" "stays f (ensure c)"
  by (simp_all add: stays_def split: option.split)

lemma stays_andthen [stays_intros]:
  assumes "stays f m" "\<And>x. stays f (g x)"
  shows "stays f (andthen m g)"
  unfolding stays_def ends_simps
proof
  fix w
  show "ends m (\<lambda>r w'. case r of Inl e \<Rightarrow> f w' = f w | Inr x \<Rightarrow> ends (g x) (\<lambda>_ w'. f w' = f w) w') w"
  proof (rule ends_mono [OF stays_ends [OF assms(1)]])
    fix r w' assume "f w' = f w"
    then show "case r of Inl e \<Rightarrow> f w' = f w | Inr x \<Rightarrow> ends (g x) (\<lambda>_ w'. f w' = f w) w'"
      using stays_ends [OF assms(2), of _ w'] by (simp split: sum.split)
  qed
qed

lemma stays_attempt [stays_intros]: "stays f m \<Longrightarrow> stays f (attempt m)"
  by (simp add: stays_def)

lemma stays_warn_err [stays_intros]: "stays f m \<Longrightarrow> stays f (warn_err m)"
  by (simp add: stays_def)

lemma stays_with_cleanup [stays_intros]: "stays f m \<Longrightarrow> stays f c \<Longrightarrow> stays f (with_cleanup m c)"
  unfolding with_cleanup_def by (intro stays_intros)

lemma stays_cases [stays_intros]:
  "(\<And>e. stays f (g e)) \<Longrightarrow> (\<And>x. stays f (h x)) \<Longrightarrow> stays f (case r of Inl e \<Rightarrow> g e | Inr x \<Rightarrow> h x)"
  "stays f k \<Longrightarrow> (\<And>x. stays f (l x)) \<Longrightarrow> stays f (case c of None \<Rightarrow> k | Some x \<Rightarrow> l x)"
  "(\<And>a b. stays f (p a b)) \<Longrightarrow> stays f (case q of (a, b) \<Rightarrow> p a b)"
  "stays f n \<Longrightarrow> (\<And>c x. stays f (o' c x)) \<Longrightarrow> stays f (case u of DirNode \<Rightarrow> n | FileNode c x \<Rightarrow> o' c x)"
  by (simp_all split: sum.split option.split prod.split node.split)

lemma stays_if [stays_intros]: "(b \<Longrightarrow> stays f m) \<Longrightarrow> (\<not> b \<Longrightarrow> stays f n) \<Longrightarrow> stays f (if b then m else n)"
  by simp

lemma stays_Let [stays_intros]: "stays f (g x) \<Longrightarrow> stays f (Let x g)"
  by simp

lemma stays_read_required [stays_intros]: "stays f (os_ReadFile p) \<Longrightarrow> stays f (read_required p e)"
  unfolding read_required_def by (intro stays_intros)

text \<open>A view of the world that does not look at the faults to come.\<close>

locale view =
  fixes f :: "world \<Rightarrow> 'v"
  assumes blind: "f (w\<lparr>w_faults := ws\<rparr>) = f w"
begin

lemma reads: "stays f (sysread g)"
  unfolding stays_def sysread_def
  by (intro allI ends_syscall) (simp add: blind split: option.split)

lemma os_reads: "stays f (os_Stat p)" "stays f (os_ReadFile p)" "stays f (os_ReadDir p)" "stays f (os_Walk p)"
  unfolding os_Stat_def os_ReadFile_def os_ReadDir_def os_Walk_def by (rule reads)+

lemmas quiet = stays_intros os_reads

lemma pluginDir: "stays f (pluginDir env pid)"
  unfolding pluginDir_def by (intro quiet)

lemma readManifest: "stays f (readManifest env pid)"
  unfolding readManifest_def by (intro quiet pluginDir)

lemma readState: "stays f (readState env)"
  unfolding readState_def by (intro quiet)

lemma builtinVersion: "stays f (builtinVersion env pid)"
  unfolding builtinVersion_def by (intro quiet)

lemma check_builtin_version: "stays f (check_builtin_version env m)"
  unfolding check_builtin_version_def by (intro quiet builtinVersion)

lemma dirExists: "stays f (dirExists p)"
  unfolding dirExists_def by (intro quiet)

lemma has_skills: "stays f (has_skills p m)"
  unfolding has_skills_def by (intro quiet dirExists)

lemma summaryFromManifest: "stays f (summaryFromManifest m dir b)"
  unfolding summaryFromManifest_def by (intro quiet has_skills)

lemma withBuiltinInfo: "stays f (withBuiltinInfo env sm)"
  unfolding withBuiltinInfo_def by (intro quiet builtinVersion)

lemma summary_with_state: "stays f (summary_with_state env pid sm)"
  unfolding summary_with_state_def by (intro quiet readState withBuiltinInfo)

lemma rollbackAvailable: "stays f (rollbackAvailable env pid)"
  unfolding rollbackAvailable_def by (intro quiet)

lemma scan_entry: "stays f (scan_entry env root st b name)"
  unfolding scan_entry_def Let_def by (intro quiet has_skills rollbackAvailable builtinVersion)

lemma scan_names: "stays f (scan_names env root st b seen ns)"
proof (induction ns arbitrary: seen)
  case (Cons e ns)
  obtain name n where e: "e = (name, n)" by (cases e)
  show ?case unfolding e scan_names.simps by (intro quiet scan_entry Cons.IH)
qed (simp add: stays_simple)

lemma scanDirEntries: "stays f (scanDirEntries env root st b seen)"
  unfolding scanDirEntries_def by (intro quiet scan_names)

lemma require_dir: "stays f (require_dir p)"
  unfolding require_dir_def by (intro quiet)

lemma check_skill_dirs: "stays f (check_skill_dirs dst i rels)"
proof (induction rels arbitrary: i)
  case (Cons rel rels)
  show ?case unfolding check_skill_dirs.simps by (intro quiet dirExists Cons.IH)
qed (simp add: stays_simple)

lemma check_hook_files: "stays f (check_hook_files env dst i rels)"
proof (induction rels arbitrary: i)
  case (Cons rel rels)
  show ?case unfolding check_hook_files.simps by (intro quiet Cons.IH)
qed (simp add: stays_simple)

lemma check_server_commands: "stays f (check_server_commands dst i srvs)"
proof (induction srvs arbitrary: i)
  case (Cons srv srvs)
  show ?case unfolding check_server_commands.simps by (intro quiet Cons.IH)
qed (simp add: stays_simple)

lemma validateInstalledAgentResources: "stays f (validateInstalledAgentResources env dst m)"
  unfolding validateInstalledAgentResources_def by (intro quiet check_skill_dirs check_hook_files check_server_commands)

lemmas quietly = quiet pluginDir readManifest readState builtinVersion check_builtin_version dirExists has_skills
  summaryFromManifest withBuiltinInfo summary_with_state scanDirEntries require_dir validateInstalledAgentResources

end

interpretation disk_view: view w_disk
  by unfold_locales simp

interpretation rev_view: view w_rev
  by unfold_locales simp

interpretation node_view: view "\<lambda>w. map_of (w_disk w) q" for q
  by unfold_locales simp

subsection \<open>The calls that write\<close>

abbreviation node_at :: "path \<Rightarrow> world \<Rightarrow> node option" where
  "node_at q w \<equiv> map_of (w_disk w) q"

lemma rev_syscall [stays_intros]: "stays w_rev (syscall f)"
  unfolding stays_def by (intro allI ends_syscall) (simp split: prod.split)

lemma rev_writes [stays_intros]:
  "stays w_rev (os_MkdirAll p)" "stays w_rev (os_MkdirTemp p pre rnds)" "stays w_rev (os_RemoveAll p)"
  "stays w_rev (os_Rename p q)" "stays w_rev (os_WriteFile p c)" "stays w_rev (os_Chmod_exec p)"
  "stays w_rev (signAdHoc env p)"
  unfolding os_MkdirAll_def os_MkdirTemp_def os_RemoveAll_def os_Rename_def os_WriteFile_def os_Chmod_exec_def
    signAdHoc_def by (rule rev_syscall)+

lemma disk_bump [stays_intros]: "stays w_disk bump_revision" "stays (node_at q) bump_revision"
  by (simp_all add: stays_def ends_def bump_revision_def)

lemma make_dirs_lookup: "q \<notin> set ps \<Longrightarrow> map_of (snd (make_dirs ps d)) q = map_of d q"
  by (induction ps d rule: make_dirs.induct) (auto split: option.split node.split)

lemma make_dirs_keeps: "map_of d q = Some n \<Longrightarrow> map_of (snd (make_dirs ps d)) q = Some n"
proof (induction ps d rule: make_dirs.induct)
  case (2 p ps d)
  then show ?case by (cases "q = p") (auto split: option.split node.split)
qed simp

lemma ends_MkdirAll:
  assumes "\<And>ps r ws. set ps \<subseteq> {q. prefix q p \<and> q \<noteq> []} \<Longrightarrow>
    Q r (w\<lparr>w_disk := snd (make_dirs ps (w_disk w)), w_faults := ws\<rparr>)"
  shows "ends (os_MkdirAll p) Q w"
  unfolding os_MkdirAll_def
proof (rule ends_syscall)
  fix x :: "fault option" and ws
  let ?ps = "map (\<lambda>n. take n p) [1..<length p + 1]"
  have s: "set ?ps \<subseteq> {q. prefix q p \<and> q \<noteq> []}" by (auto simp: take_is_prefix)
  have t: "set (take k ?ps) \<subseteq> {q. prefix q p \<and> q \<noteq> []}" for k by (rule subset_trans [OF set_take_subset s])
  define dirs where "dirs = ?ps"
  show "case (let ps = ?ps in
      case x of None \<Rightarrow> make_dirs ps (w_disk w)
      | Some y \<Rightarrow> (Inl (DiskError (fault_why y)),
          snd (make_dirs (take (case fault_upto y of None \<Rightarrow> 0 | Some k \<Rightarrow> k) ps) (w_disk w)))) of
    (r, d) \<Rightarrow> Q r (w\<lparr>w_disk := d, w_faults := ws\<rparr>)"
    unfolding dirs_def [symmetric] Let_def
  proof (cases x)
    case None
    obtain r d where m: "make_dirs dirs (w_disk w) = (r, d)" by (cases "make_dirs dirs (w_disk w)")
    show "case (case x of None \<Rightarrow> make_dirs dirs (w_disk w)
      | Some y \<Rightarrow> (Inl (DiskError (fault_why y)),
          snd (make_dirs (take (case fault_upto y of None \<Rightarrow> 0 | Some k \<Rightarrow> k) dirs) (w_disk w)))) of
      (r, d) \<Rightarrow> Q r (w\<lparr>w_disk := d, w_faults := ws\<rparr>)"
      using assms [OF s, of r ws] m by (simp add: None dirs_def)
  next
    case (Some y)
    show "case (case x of None \<Rightarrow> make_dirs dirs (w_disk w)
      | Some y \<Rightarrow> (Inl (DiskError (fault_why y)),
          snd (make_dirs (take (case fault_upto y of None \<Rightarrow> 0 | Some k \<Rightarrow> k) dirs) (w_disk w)))) of
      (r, d) \<Rightarrow> Q r (w\<lparr>w_disk := d, w_faults := ws\<rparr>)"
      using assms [OF t [folded dirs_def], where r = "Inl (DiskError (fault_why y))" and ws = ws]
      by (simp only: Some option.case prod.case)
  qed
qed

lemma node_MkdirAll [stays_intros]: "\<not> prefix q p \<Longrightarrow> stays (node_at q) (os_MkdirAll p)"
  unfolding stays_def by (intro allI ends_MkdirAll) (auto intro!: make_dirs_lookup)

lemma ends_MkdirAll_keeps:
  "node_at q w = Some n \<Longrightarrow> ends (os_MkdirAll p) (\<lambda>_ w'. node_at q w' = Some n) w"
  by (rule ends_MkdirAll) (simp add: make_dirs_keeps)

lemma node_MkdirTemp [stays_intros]:
  "(\<And>r. r \<in> set rnds \<Longrightarrow> q \<noteq> dir @ [pre @ r]) \<Longrightarrow> stays (node_at q) (os_MkdirTemp dir pre rnds)"
  unfolding stays_def os_MkdirTemp_def
  by (intro allI ends_syscall) (auto simp: find_Some_iff split: option.split dest!: nth_mem)

lemma node_RemoveAll [stays_intros]: "\<not> prefix p q \<Longrightarrow> stays (node_at q) (os_RemoveAll p)"
  unfolding stays_def os_RemoveAll_def by (intro allI ends_syscall) (simp split: option.split)

lemma ends_Rename:
  assumes "\<And>e ws. Q (Inl e) (w\<lparr>w_faults := ws\<rparr>)"
    "\<And>ws. \<not> prefix s t \<Longrightarrow> \<not> prefix t s \<Longrightarrow> node_at s w \<noteq> None \<Longrightarrow> node_at t w \<noteq> Some DirNode \<Longrightarrow>
      Q (Inr ()) (w\<lparr>w_disk := disk_move s t (w_disk w), w_faults := ws\<rparr>)"
  shows "ends (os_Rename s t) Q w"
proof -
  have "w\<lparr>w_disk := w_disk w, w_faults := ws\<rparr> = w\<lparr>w_faults := ws\<rparr>" for ws by simp
  then show ?thesis
    unfolding os_Rename_def using assms by (intro ends_syscall) (simp split: option.split)
qed

lemma node_Rename [stays_intros]: "\<not> prefix s q \<Longrightarrow> \<not> prefix t q \<Longrightarrow> stays (node_at q) (os_Rename s t)"
  unfolding stays_def by (intro allI ends_Rename) (simp_all add: disk_move_lookup)

lemma node_WriteFile [stays_intros]: "q \<noteq> p \<Longrightarrow> stays (node_at q) (os_WriteFile p c)"
  unfolding stays_def os_WriteFile_def by (intro allI ends_syscall) (simp split: option.split)

lemma node_Chmod [stays_intros]: "q \<noteq> p \<Longrightarrow> stays (node_at q) (os_Chmod_exec p)"
  unfolding stays_def os_Chmod_exec_def by (intro allI ends_syscall) (simp split: option.split node.split)

lemma node_sign [stays_intros]: "q \<noteq> p \<Longrightarrow> stays (node_at q) (signAdHoc env p)"
  unfolding stays_def signAdHoc_def by (intro allI ends_syscall) (simp split: option.split prod.split)

subsection \<open>What an operation hands back\<close>

definition gives :: "('a \<Rightarrow> bool) \<Rightarrow> 'a io \<Rightarrow> bool" where
  "gives R m \<longleftrightarrow> (\<forall>w. ends m (\<lambda>r _. case r of Inl e \<Rightarrow> True | Inr x \<Rightarrow> R x) w)"

lemma givesD: "gives R m \<Longrightarrow> m w = (Inr x, w') \<Longrightarrow> R x"
  unfolding gives_def ends_def by (drule spec [of _ w]) simp

lemma gives_bind:
  assumes "gives R m" "\<And>x. R x \<Longrightarrow> gives S (g x)"
  shows "gives S (andthen m g)"
  unfolding gives_def
proof
  fix w
  show "ends (andthen m g) (\<lambda>r _. case r of Inl e \<Rightarrow> True | Inr x \<Rightarrow> S x) w"
    using assms by (intro ends_andthen [where P = "\<lambda>r _. case r of Inl e \<Rightarrow> True | Inr x \<Rightarrow> R x"]) (auto simp: gives_def)
qed

lemma gives_any: "gives (\<lambda>_. True) m"
  by (simp add: gives_def ends_def split: prod.split sum.split)

lemma gives_then: "(\<And>x. gives S (g x)) \<Longrightarrow> gives S (andthen m g)"
  by (rule gives_bind [OF gives_any])

lemma gives_ends:
  "gives S m \<longleftrightarrow> (\<forall>w x w'. m w = (Inr x, w') \<longrightarrow> S x)"
  by (force simp: gives_def ends_def split: prod.splits sum.splits)

lemma gives_ret: "S x \<Longrightarrow> gives S (ret x)" "gives S (fail e)"
  by (simp_all add: gives_def)

lemma gives_ensure: "(c = None \<Longrightarrow> gives S (f ())) \<Longrightarrow> gives S (andthen (ensure c) f)"
  by (cases c) (simp_all add: gives_def)

lemma gives_branch:
  "(b \<Longrightarrow> gives S m) \<Longrightarrow> (\<not> b \<Longrightarrow> gives S n) \<Longrightarrow> gives S (if b then m else n)"
  "(\<And>x y. gives S (h x y)) \<Longrightarrow> gives S (case p of (x, y) \<Rightarrow> h x y)"
  by (simp_all split: prod.split)

lemma stays_bind:
  assumes "stays f m" "gives R m" "\<And>x. R x \<Longrightarrow> stays f (g x)"
  shows "stays f (andthen m g)"
  unfolding stays_def
proof
  fix w
  show "ends (andthen m g) (\<lambda>_ w'. f w' = f w) w"
  proof (rule ends_andthen [OF ends_conj [OF stays_ends [OF assms(1)] assms(2) [unfolded gives_def, rule_format]]])
    fix x w' assume "f w' = f w \<and> (case Inr x of Inl e \<Rightarrow> True | Inr x \<Rightarrow> R x)"
    then show "ends (g x) (\<lambda>_ w'. f w' = f w) w'" using stays_ends [OF assms(3), of x w'] by simp
  qed simp
qed

subsection \<open>Joined paths\<close>

text \<open>
  \<open>pathsafe.RelRef\<close> is library code: as \<open>zip.go\<close> puts it, absolute names and \<open>..\<close> components are rejected.
\<close>

definition RelRef_sound :: "manifest_codec \<Rightarrow> bool" where
  "RelRef_sound cd \<longleftrightarrow> (\<forall>p. RelRef cd p \<longrightarrow> \<not> path_IsAbs p \<and> dotdot \<notin> set (split_on (CHR ''/'') p))"

definition join_step :: "path \<Rightarrow> string \<Rightarrow> path" where
  "join_step q c = (if c = '''' \<or> c = ''.'' then q else if c = dotdot then butlast q else q @ [c])"

lemma path_Join_eq: "path_Join p rel = foldl join_step p (split_on (CHR ''/'') rel)"
  by (simp add: path_Join_def join_step_def [abs_def])

lemma join_clean_step:
  "'''' \<notin> set st \<Longrightarrow> ''.'' \<notin> set st \<Longrightarrow>
   foldl join_step p (rev (clean_step False st c)) = join_step (foldl join_step p (rev st)) c"
  by (cases st) (auto simp: clean_step_def join_step_def dotdot_def)

lemma clean_step_names:
  "'''' \<notin> set st \<and> ''.'' \<notin> set st \<Longrightarrow> '''' \<notin> set (clean_step r st c) \<and> ''.'' \<notin> set (clean_step r st c)"
  by (cases st) (auto simp: clean_step_def dotdot_def)

lemma join_clean_stack:
  "'''' \<notin> set st \<and> ''.'' \<notin> set st \<Longrightarrow>
   foldl join_step p (rev (foldl (clean_step False) st cs)) = foldl join_step (foldl join_step p (rev st)) cs"
proof (induction cs arbitrary: st)
  case (Cons c cs)
  show ?case using Cons.IH [OF clean_step_names [OF Cons.prems]] join_clean_step Cons.prems by simp
qed simp

lemma path_Join_clean:
  assumes "\<not> path_IsAbs p"
  shows "path_Join dir (path_Clean p) = path_Join dir p"
proof -
  let ?cs = "clean_components False p"
  have j: "foldl join_step dir ?cs = path_Join dir p"
    using join_clean_stack [of "[]" dir "split_on (CHR ''/'') p"] by (simp add: clean_components_def path_Join_eq)
  show ?thesis
  proof (cases "?cs = []")
    case True
    then show ?thesis using assms j by (simp add: path_Clean_def Let_def path_Join_eq join_step_def)
  next
    case False
    have "split_on (CHR ''/'') (str_join ''/'' ?cs) = ?cs"
      by (rule split_on_join [OF False]) (auto dest: clean_components_no_slash)
    then show ?thesis using assms j False by (simp add: path_Clean_def Let_def path_Join_eq)
  qed
qed

lemma path_Join_down:
  assumes "dotdot \<notin> set (split_on (CHR ''/'') p)"
  shows "prefix dir (path_Join dir p)"
proof -
  have "dotdot \<notin> set cs \<Longrightarrow> prefix dir q \<Longrightarrow> prefix dir (foldl join_step q cs)" for cs q
    by (induction cs arbitrary: q) (auto simp: join_step_def)
  then show ?thesis using assms by (simp add: path_Join_eq)
qed

lemma path_IsAbs_clean: "path_IsAbs p \<Longrightarrow> path_IsAbs (path_Clean p)"
  by (simp add: path_Clean_def path_IsAbs_def Let_def)

lemma RelRef_inside:
  assumes "RelRef_sound cd" "RelRef cd (path_Clean p)"
  shows "prefix dir (path_Join dir (path_Clean p))" "prefix dir (path_Join dir p)"
proof -
  have r: "\<not> path_IsAbs (path_Clean p)" "dotdot \<notin> set (split_on (CHR ''/'') (path_Clean p))"
    using assms by (auto simp: RelRef_sound_def)
  show a: "prefix dir (path_Join dir (path_Clean p))" using path_Join_down [OF r(2)] .
  have "\<not> path_IsAbs p" using r(1) path_IsAbs_clean by blast
  with a show "prefix dir (path_Join dir p)" by (simp add: path_Join_clean)
qed

subsection \<open>Where the operations write\<close>

text \<open>What an operation on the plugin \<open>pid\<close> must not touch: another plugin, data, everything outside the root.\<close>

definition foreign :: "store_env \<Rightarrow> string \<Rightarrow> path \<Rightarrow> bool" where
  "foreign env pid q \<longleftrightarrow> parallel q (se_root env) \<or>
     (\<exists>c rel. q = se_root env @ c # rel \<and> c \<noteq> pid \<and> c \<noteq> ''.backups'' \<and> \<not> has_prefix c ''.plugin-stage-'')"

lemma not_prefix_shorter: "parallel q r \<Longrightarrow> \<not> prefix (r @ a) q \<and> \<not> prefix q (r @ a)"
  by (metis append_prefixD parallel_def prefix_append prefixI prefix_same_cases)

lemma foreign_away:
  assumes "foreign env pid q" "c = pid \<or> c = ''.backups'' \<or> has_prefix c ''.plugin-stage-''"
  shows "\<not> prefix (se_root env @ c # rel) q" "\<not> prefix q (se_root env @ c # rel)" "q \<noteq> se_root env @ c # rel"
proof -
  have "\<not> prefix (se_root env @ c # rel) q \<and> \<not> prefix q (se_root env @ c # rel)"
    using assms(1) unfolding foreign_def
  proof (elim disjE)
    assume "parallel q (se_root env)"
    then show ?thesis by (rule not_prefix_shorter)
  next
    assume "\<exists>d rel. q = se_root env @ d # rel \<and> d \<noteq> pid \<and> d \<noteq> ''.backups'' \<and> \<not> has_prefix d ''.plugin-stage-''"
    then obtain d rel' where "q = se_root env @ d # rel'" "d \<noteq> c" using assms(2) by blast
    then show ?thesis by simp
  qed
  then show "\<not> prefix (se_root env @ c # rel) q" "\<not> prefix q (se_root env @ c # rel)" "q \<noteq> se_root env @ c # rel"
    by auto
qed

lemma foreign_root: "foreign env pid q \<Longrightarrow> \<not> prefix q (se_root env)"
  by (auto simp: foreign_def parallel_def)

lemma parallel_below: "parallel q p \<Longrightarrow> prefix p r \<Longrightarrow> q \<noteq> r \<and> \<not> prefix q r \<and> \<not> prefix r q"
  by (metis parallel_def prefix_order.trans prefix_same_cases)

lemma node_copy_entries:
  assumes "parallel q dst"
  shows "stays (node_at q) (copy_entries src dst es)"
proof -
  have p: "q \<noteq> dst @ rel \<and> \<not> prefix q (dst @ rel)" for rel using parallel_below [OF assms, of "dst @ rel"] by simp
  show ?thesis
  proof (induction es)
    case (Cons e es)
    obtain rel n where e: "e = (rel, n)" by (cases e)
    show ?case
      unfolding e using p [of rel]
      by (cases n) (simp_all only: copy_entries.simps, (intro node_view.quiet Cons.IH node_MkdirAll node_WriteFile; simp)+)
  qed (simp add: stays_simple)
qed

lemma node_copyDir: "parallel q dst \<Longrightarrow> stays (node_at q) (copyDir src dst)"
  unfolding copyDir_def
  by (intro node_view.quiet node_MkdirAll node_copy_entries) (auto simp: parallel_def)

lemma node_preparePluginDir:
  assumes "parallel q dir" "RelRef_sound (se_codec env)" "wf_manifest (se_codec env) m"
  shows "stays (node_at q) (preparePluginDir env dir m)"
proof -
  have "q \<noteq> path_Join dir (kr_Binary k)" if "mf_Kraft m = Some k" for k
    using RelRef_inside(2) [OF assms(2), of "kr_Binary k" dir] parallel_below [OF assms(1)] assms(3) that
    by (auto simp: wf_manifest_def)
  then show ?thesis
    unfolding preparePluginDir_def
    by (cases "mf_Kraft m")
      (simp_all, (intro node_view.quietly node_Chmod node_sign | simp)+)
qed

lemma gives_MkdirTemp: "gives (\<lambda>p. \<exists>r\<in>set rnds. p = dir @ [pre @ r]) (os_MkdirTemp dir pre rnds)"
  unfolding gives_def os_MkdirTemp_def
  by (intro allI ends_syscall) (auto simp: find_Some_iff split: option.split dest!: nth_mem)

lemma gives_pluginDir:
  "gives (\<lambda>(dir, builtin). idRe pid \<and> (\<not> builtin \<longrightarrow> dir = user_dir env pid)) (pluginDir env pid)"
  unfolding pluginDir_def
  by (rule gives_bind [where R = "\<lambda>_. idRe pid"])
    (auto simp: gives_def ValidateID_def ends_def ret_def fail_def ensure_def andthen_def attempt_def
      split: sum.split prod.split option.split)

lemma authored_wf:
  assumes "authored_manifest env raw = Inr m"
  shows "wf_manifest (se_codec env) m" "idRe (mf_ID m)"
    "snd (parseManifest (se_codec env) (mf_ID m) raw) = Inr m"
proof -
  obtain pid where p: "snd (parseManifestForAuthoring (se_codec env) pid raw) = Inr m"
    using assms by (auto simp: authored_manifest_def split: sum.split_asm)
  then have w: "mf_ID m = pid" "wf_manifest (se_codec env) m"
    using accepted_wf [of "se_codec env" pid raw Authored m] by (simp_all add: parseManifestForAuthoring_def)
  then show "wf_manifest (se_codec env) m" "idRe (mf_ID m)" by (simp_all add: wf_manifest_def)
  show "snd (parseManifest (se_codec env) (mf_ID m) raw) = Inr m" using authored_loads [OF p] w by simp
qed

lemma gives_authored:
  "gives (\<lambda>m. wf_manifest (se_codec env) m \<and> idRe (mf_ID m)) (returned (authored_manifest env raw))"
  by (auto simp: gives_def authored_wf split: sum.split)

lemma has_prefix_stage: "has_prefix (stage_prefix pid @ r) ''.plugin-stage-''"
  by (simp add: stage_prefix_def)

text \<open>The paths each operation writes to, whatever faults it meets: every other path stays.\<close>

definition not_staged :: "store_env \<Rightarrow> string list \<Rightarrow> path \<Rightarrow> bool" where
  "not_staged env rnds q \<longleftrightarrow> \<not> prefix q (se_root env) \<and>
     (\<forall>pid. \<forall>r\<in>set rnds. parallel q (se_root env @ [stage_prefix pid @ r]))"

lemma node_stagePluginDir:
  assumes "not_staged env rnds q" "RelRef_sound (se_codec env)" "wf_manifest (se_codec env) m"
  shows "stays (node_at q) (stagePluginDir env src m rnds)"
  unfolding stagePluginDir_def
proof (rule stays_andthen)
  show "stays (node_at q) (os_MkdirAll (se_root env))"
    using assms(1) by (intro stays_intros) (simp add: not_staged_def)
  show "stays (node_at q)
      (andthen (os_MkdirTemp (se_root env) (stage_prefix (mf_ID m)) rnds)
        (\<lambda>staged. andthen (attempt (andthen (copyDir src staged) (\<lambda>_. preparePluginDir env staged m)))
          (\<lambda>r. case r of Inl e \<Rightarrow> andthen (warn_err (os_RemoveAll staged)) (\<lambda>_. fail e) | Inr _ \<Rightarrow> ret staged)))"
  proof (rule stays_bind [OF _ gives_MkdirTemp])
    show "stays (node_at q) (os_MkdirTemp (se_root env) (stage_prefix (mf_ID m)) rnds)"
      using assms(1) by (intro stays_intros) (auto simp: not_staged_def parallel_def)
    fix staged assume "\<exists>r\<in>set rnds. staged = se_root env @ [stage_prefix (mf_ID m) @ r]"
    then have "parallel q staged" "\<not> prefix staged q"
      using assms(1) by (auto simp: not_staged_def parallel_def)
    then show "stays (node_at q) (andthen (attempt (andthen (copyDir src staged) (\<lambda>_. preparePluginDir env staged m)))
          (\<lambda>r. case r of Inl e \<Rightarrow> andthen (warn_err (os_RemoveAll staged)) (\<lambda>_. fail e) | Inr _ \<Rightarrow> ret staged))"
      by (intro stays_intros node_copyDir node_preparePluginDir assms(2,3))
  qed
qed

lemma node_Install_prepare:
  assumes "not_staged env rnds q" "RelRef_sound (se_codec env)"
  shows "stays (node_at q) (Install_prepare env src rnds)"
  unfolding Install_prepare_def
  by (intro stays_intros node_view.quietly stays_bind [OF _ gives_authored] node_stagePluginDir [OF assms]) simp

lemma node_Update_prepare:
  assumes "not_staged env rnds q" "RelRef_sound (se_codec env)"
  shows "stays (node_at q) (Update_prepare env pid src rnds)"
  unfolding Update_prepare_def
  by (intro stays_intros node_view.quietly stays_bind [OF _ gives_authored] node_stagePluginDir [OF assms]) simp

lemma node_Install_commit:
  "\<not> prefix staged q \<Longrightarrow> \<not> prefix (user_dir env (mf_ID m)) q \<Longrightarrow> stays (node_at q) (Install_commit env m staged)"
  unfolding Install_commit_def Let_def
  by (intro node_view.quietly stays_intros)

subsection \<open>Staging copies the manifest\<close>

definition keeps :: "(world \<Rightarrow> bool) \<Rightarrow> 'a io \<Rightarrow> bool" where
  "keeps P m \<longleftrightarrow> (\<forall>w. P w \<longrightarrow> ends m (\<lambda>_. P) w)"

definition holds_file :: "path \<Rightarrow> string \<Rightarrow> world \<Rightarrow> bool" where
  "holds_file q c w \<longleftrightarrow> (\<exists>x. node_at q w = Some (FileNode c x))"

lemma keeps_andthen: "keeps P m \<Longrightarrow> (\<And>x. keeps P (g x)) \<Longrightarrow> keeps P (andthen m g)"
  unfolding keeps_def by (intro allI impI ends_andthen [where P = "\<lambda>_. P"]) auto

lemma keeps_attempt: "keeps P m \<Longrightarrow> keeps P (attempt m)"
  by (simp add: keeps_def)

lemma keeps_stays: "stays (node_at q) m \<Longrightarrow> keeps (holds_file q c) m"
  unfolding keeps_def holds_file_def by (intro allI impI ends_mono [OF stays_ends]) (assumption, metis)

lemma keeps_MkdirAll: "keeps (holds_file q c) (os_MkdirAll p)"
  unfolding keeps_def holds_file_def by (auto intro!: ends_mono [OF ends_MkdirAll_keeps])

lemma keeps_WriteFile: "q \<noteq> p \<Longrightarrow> keeps (holds_file q c) (os_WriteFile p c')"
  by (intro keeps_stays stays_intros)

lemma keeps_Chmod: "keeps (holds_file q c) (os_Chmod_exec p)"
  unfolding keeps_def holds_file_def os_Chmod_exec_def
  by (intro allI impI ends_syscall) (auto split: option.split node.split)

text \<open>\<open>codesign\<close> is outside the program: it does not rewrite what is the text of a manifest.\<close>

definition sign_keeps_manifests :: "store_env \<Rightarrow> bool" where
  "sign_keeps_manifests env \<longleftrightarrow>
     (\<forall>c x m. js_manifest (se_codec env) c = Inr m \<longrightarrow> (\<exists>x'. snd (se_sign env (FileNode c x)) = FileNode c x'))"

lemma keeps_sign:
  assumes "sign_keeps_manifests env" "js_manifest (se_codec env) c = Inr m"
  shows "keeps (holds_file q c) (signAdHoc env p)"
  unfolding keeps_def
proof (intro allI impI)
  fix w assume "holds_file q c w"
  then obtain x where x: "node_at q w = Some (FileNode c x)" by (auto simp: holds_file_def)
  obtain x' where x': "snd (se_sign env (FileNode c x)) = FileNode c x'"
    using assms by (auto simp: sign_keeps_manifests_def)
  obtain e where e: "se_sign env (FileNode c x) = (e, FileNode c x')" using x' by (metis prod.collapse)
  show "ends (signAdHoc env p) (\<lambda>_. holds_file q c) w"
    unfolding signAdHoc_def
    by (rule ends_syscall) (cases "p = q", auto simp: holds_file_def x e split: option.split prod.split)
qed

lemma authored_json: "authored_manifest env raw = Inr m \<Longrightarrow> \<exists>m0. js_manifest (se_codec env) raw = Inr m0"
  by (auto simp: authored_manifest_def parseManifestForAuthoring_def parseManifestAs_def split: sum.split_asm if_split_asm)

lemma keeps_preparePluginDir:
  assumes "sign_keeps_manifests env" "js_manifest (se_codec env) c = Inr m0"
  shows "keeps (holds_file q c) (preparePluginDir env dir m)"
  unfolding preparePluginDir_def
  using keeps_sign [OF assms] keeps_stays [OF stays_simple(1)]
  by (cases "mf_Kraft m")
    (auto intro!: keeps_andthen keeps_Chmod intro: keeps_stays node_view.validateInstalledAgentResources)

lemma ends_read_required:
  assumes "\<And>e' ws. Q (Inl e') (w\<lparr>w_faults := ws\<rparr>)"
    "\<And>c x ws. node_at p w = Some (FileNode c x) \<Longrightarrow> Q (Inr c) (w\<lparr>w_faults := ws\<rparr>)"
  shows "ends (read_required p e) Q w"
proof -
  have e: "w\<lparr>w_disk := w_disk w, w_faults := ws\<rparr> = w\<lparr>w_faults := ws\<rparr>" for ws by simp
  show ?thesis
    unfolding read_required_def ends_simps os_ReadFile_def sysread_def
    by (rule ends_syscall) (simp add: e assms split: option.split node.split)
qed

lemma ends_WriteFile:
  assumes "\<And>e w'. Q (Inl e) w'" "\<And>x ws. Q (Inr ()) (w\<lparr>w_disk := disk_put p (FileNode c x) (w_disk w), w_faults := ws\<rparr>)"
  shows "ends (os_WriteFile p c) Q w"
  unfolding os_WriteFile_def by (intro ends_syscall) (simp add: assms split: option.split)

lemma copy_keeps:
  "[plugin_json] \<notin> fst ` set es \<Longrightarrow> keeps (holds_file (dst @ [plugin_json]) c) (copy_entries src dst es)"
proof (induction es)
  case (Cons e es)
  obtain rel n where e: "e = (rel, n)" by (cases e)
  show ?case using Cons
    by (cases n) (auto simp: e intro!: keeps_andthen keeps_MkdirAll keeps_WriteFile keeps_stays [OF node_view.quiet(12)]
      keeps_stays [OF stays_read_required] node_view.os_reads)
qed (simp add: keeps_stays stays_simple)

lemma copy_target: "\<not> prefix dst src \<Longrightarrow> rel \<noteq> [] \<Longrightarrow> src @ [plugin_json] \<noteq> dst @ rel"
  by (metis butlast_append butlast_snoc prefixI)

lemma copy_copies:
  assumes "\<not> prefix dst src"
  shows "[] \<notin> fst ` set es \<Longrightarrow> distinct (map fst es) \<Longrightarrow> ([plugin_json], FileNode c' x') \<in> set es \<Longrightarrow>
    holds_file (src @ [plugin_json]) c w \<Longrightarrow>
    ends (copy_entries src dst es) (\<lambda>r w'. r = Inr () \<longrightarrow> holds_file (dst @ [plugin_json]) c w') w"
proof (induction es arbitrary: w)
  case (Cons e es)
  obtain rel n where e: "e = (rel, n)" by (cases e)
  let ?src = "src @ [plugin_json]" and ?dst = "dst @ [plugin_json]"
  let ?Q = "\<lambda>r w'. r = Inr () \<longrightarrow> holds_file ?dst c w'"
  have away: "?src \<noteq> dst @ rel" by (rule copy_target [OF assms]) (use Cons.prems(1) in \<open>auto simp: e\<close>)
  show ?case
  proof (cases "rel = [plugin_json]")
    case True
    then have n: "n = FileNode c' x'" and rest: "[plugin_json] \<notin> fst ` set es"
      using Cons.prems(2,3) by (force simp: e)+
    have "ends (copy_entries src dst es) ?Q w'" if "holds_file ?dst c w'" for w'
      by (rule ends_mono [OF copy_keeps [OF rest, unfolded keeps_def, rule_format, OF that]]) simp
    then have w: "ends (andthen (os_WriteFile ?dst c) (\<lambda>_. copy_entries src dst es)) ?Q w'" for w'
      by (intro ends_andthen [where P = "\<lambda>r w'. r = Inr () \<longrightarrow> holds_file ?dst c w'"] ends_WriteFile)
        (auto simp: holds_file_def)
    show ?thesis
      unfolding e True n copy_entries.simps
      by (rule ends_andthen [where P = "\<lambda>r w'. \<forall>d. r = Inr d \<longrightarrow> d = c"], rule ends_read_required)
        (use Cons.prems(4) w in \<open>auto simp: holds_file_def\<close>)
  next
    case False
    then have m: "([plugin_json], FileNode c' x') \<in> set es" using Cons.prems(3) by (auto simp: e)
    note ih = Cons.IH [OF _ _ m]
    have k: "keeps (holds_file ?src c) (os_MkdirAll (dst @ rel))" "keeps (holds_file ?src c) (os_WriteFile (dst @ rel) d)"
      "keeps (holds_file ?src c) (read_required (src @ rel) f)" for d f
      using away by (auto intro: keeps_MkdirAll keeps_WriteFile keeps_stays stays_read_required node_view.os_reads)
    have tail: "ends (copy_entries src dst es) ?Q w'" if "holds_file ?src c w'" for w'
      using ih that Cons.prems(1,2) by (simp add: e)
    have head: "ends (andthen (os_WriteFile (dst @ rel) d) (\<lambda>_. copy_entries src dst es)) ?Q w'"
      if "holds_file ?src c w'" for w' d
      by (rule ends_andthen [OF k(2) [unfolded keeps_def, rule_format, OF that]]) (use tail in auto)
    show ?thesis
    proof (cases n)
      case DirNode
      show ?thesis
        unfolding e DirNode copy_entries.simps
        by (rule ends_andthen [OF k(1) [unfolded keeps_def, rule_format, OF Cons.prems(4)]]) (use tail in auto)
    next
      case (FileNode d y)
      show ?thesis
        unfolding e FileNode copy_entries.simps
        by (rule ends_andthen [OF k(3) [unfolded keeps_def, rule_format, OF Cons.prems(4)]]) (use head in auto)
    qed
  qed
qed simp

lemma ends_Walk:
  assumes "\<And>e ws. Q (Inl e) (w\<lparr>w_faults := ws\<rparr>)"
    "\<And>es ws. [] \<notin> fst ` set es \<Longrightarrow> distinct (map fst es) \<Longrightarrow>
      (\<And>c x. node_at (src @ [plugin_json]) w = Some (FileNode c x) \<Longrightarrow> ([plugin_json], FileNode c x) \<in> set es) \<Longrightarrow>
      Q (Inr es) (w\<lparr>w_faults := ws\<rparr>)"
  shows "ends (os_Walk src) Q w"
proof -
  let ?rels = "sort (remdups (filter (\<lambda>rel. rel \<noteq> [] \<and> visible rel)
         (map (\<lambda>(q, _). drop (length src) q) (filter (\<lambda>(q, _). prefix src q) (w_disk w)))))"
  let ?es = "map (\<lambda>rel. (rel, the (map_of (w_disk w) (src @ rel)))) ?rels"
  have m: "map fst ?es = ?rels" by (simp add: comp_def)
  have in_es: "([plugin_json], FileNode c x) \<in> set ?es" if "node_at (src @ [plugin_json]) w = Some (FileNode c x)" for c x
  proof -
    have "(src @ [plugin_json], FileNode c x) \<in> set (w_disk w)" using that by (rule map_of_SomeD)
    then have "[plugin_json] \<in> set ?rels"
      by (force simp: visible_def plugin_json_def image_iff)
    then show ?thesis using that by (force simp: image_iff)
  qed
  have e: "w\<lparr>w_disk := w_disk w, w_faults := ws\<rparr> = w\<lparr>w_faults := ws\<rparr>" for ws by simp
  have "[] \<notin> fst ` set ?es" "distinct (map fst ?es)" unfolding m by auto
  then have "Q (Inr ?es) (w\<lparr>w_faults := ws\<rparr>)" for ws using in_es by (rule assms(2))
  then show ?thesis
    unfolding os_Walk_def sysread_def using assms(1)
    by (intro ends_syscall) (simp add: e split: option.split)
qed

lemma copyDir_copies:
  assumes "\<not> prefix dst src" "holds_file (src @ [plugin_json]) c w"
  shows "ends (copyDir src dst) (\<lambda>r w'. r = Inr () \<longrightarrow> holds_file (dst @ [plugin_json]) c w') w"
  unfolding copyDir_def
proof (rule ends_andthen, rule ends_Walk [where Q = "\<lambda>r w'. holds_file (src @ [plugin_json]) c w' \<and>
    (\<forall>es. r = Inr es \<longrightarrow> [] \<notin> fst ` set es \<and> distinct (map fst es) \<and> (\<exists>x. ([plugin_json], FileNode c x) \<in> set es))"])
  let ?Q = "\<lambda>r w'. r = Inr () \<longrightarrow> holds_file (dst @ [plugin_json]) c w'"
  fix es w'
  assume a: "holds_file (src @ [plugin_json]) c w' \<and>
    (\<forall>es'. (Inr es :: plugin_error + _) = Inr es' \<longrightarrow> [] \<notin> fst ` set es' \<and> distinct (map fst es') \<and>
      (\<exists>x. ([plugin_json], FileNode c x) \<in> set es'))"
  then obtain x where x: "[] \<notin> fst ` set es" "distinct (map fst es)" "([plugin_json], FileNode c x) \<in> set es" by auto
  have "ends (os_MkdirAll dst) (\<lambda>_. holds_file (src @ [plugin_json]) c) w'"
    using a keeps_MkdirAll by (simp add: keeps_def)
  then show "ends (andthen (os_MkdirAll dst) (\<lambda>_. copy_entries src dst es)) ?Q w'"
    by (rule ends_andthen) (use copy_copies [OF assms(1) x] in auto)
qed (use assms(2) in \<open>auto simp: holds_file_def\<close>)

lemma ends_MkdirTemp:
  assumes "\<And>e ws. Q (Inl e) (w\<lparr>w_faults := ws\<rparr>)"
    "\<And>r ws. r \<in> set rnds \<Longrightarrow> disk_free (w_disk w) (dir @ [pre @ r]) \<Longrightarrow>
      Q (Inr (dir @ [pre @ r])) (w\<lparr>w_disk := disk_put (dir @ [pre @ r]) DirNode (w_disk w), w_faults := ws\<rparr>)"
  shows "ends (os_MkdirTemp dir pre rnds) Q w"
proof -
  have e: "w\<lparr>w_disk := w_disk w, w_faults := ws\<rparr> = w\<lparr>w_faults := ws\<rparr>" for ws by simp
  show ?thesis
    unfolding os_MkdirTemp_def using assms
    by (intro ends_syscall) (auto simp: e find_Some_iff split: option.split)
qed

lemma ends_all: "(\<And>r w'. Q r w') \<Longrightarrow> ends m Q w"
  by (simp add: ends_def split: prod.split)

lemma ends_then_fail: "(\<And>e w'. Q (Inl e) w') \<Longrightarrow> ends (andthen m (\<lambda>_. fail e)) Q w"
  unfolding ends_simps by (intro ends_all) (simp split: sum.split)

text \<open>What a call of \<open>Install\<close> or \<open>Update\<close> leaves the lock with.\<close>

definition staged_at :: "store_env \<Rightarrow> string list \<Rightarrow> Manifest \<Rightarrow> string \<Rightarrow> path \<Rightarrow> world \<Rightarrow> bool" where
  "staged_at env rnds m c p w \<longleftrightarrow>
     (\<exists>r\<in>set rnds. p = se_root env @ [stage_prefix (mf_ID m) @ r]) \<and> holds_file (p @ [plugin_json]) c w"

lemma stage_copies:
  assumes "sign_keeps_manifests env" "js_manifest (se_codec env) c = Inr m0" "holds_file (src @ [plugin_json]) c w"
  shows "ends (stagePluginDir env src m rnds) (\<lambda>r w'. \<forall>p. r = Inr p \<longrightarrow> staged_at env rnds m c p w') w"
  unfolding stagePluginDir_def
proof (rule ends_andthen)
  let ?src = "src @ [plugin_json]" and ?Q = "\<lambda>r w'. \<forall>p. r = Inr p \<longrightarrow> staged_at env rnds m c p w'"
  show "ends (os_MkdirAll (se_root env)) (\<lambda>_. holds_file ?src c) w"
    using keeps_MkdirAll assms(3) by (simp add: keeps_def)
  fix u w1 assume h1: "holds_file ?src c w1"
  show "ends (andthen (os_MkdirTemp (se_root env) (stage_prefix (mf_ID m)) rnds)
      (\<lambda>p. andthen (attempt (andthen (copyDir src p) (\<lambda>_. preparePluginDir env p m)))
        (\<lambda>r. case r of Inl e \<Rightarrow> andthen (warn_err (os_RemoveAll p)) (\<lambda>_. fail e) | Inr _ \<Rightarrow> ret p))) ?Q w1"
  proof (rule ends_andthen, rule ends_MkdirTemp [where Q = "\<lambda>r w'. holds_file ?src c w' \<and>
      (\<forall>p. r = Inr p \<longrightarrow> \<not> prefix p src \<and> (\<exists>r\<in>set rnds. p = se_root env @ [stage_prefix (mf_ID m) @ r]))"])
    fix r ws
    let ?p = "se_root env @ [stage_prefix (mf_ID m) @ r]"
    assume r: "r \<in> set rnds" "disk_free (w_disk w1) ?p"
    have "?p \<noteq> ?src" "\<not> prefix ?p src"
      using disk_free_lookup [OF r(2)] h1 by (auto simp: holds_file_def prefix_def)
    then show "holds_file ?src c (w1\<lparr>w_disk := disk_put ?p DirNode (w_disk w1), w_faults := ws\<rparr>) \<and>
      (\<forall>p. (Inr ?p :: plugin_error + path) = Inr p \<longrightarrow> \<not> prefix p src \<and> (\<exists>r\<in>set rnds. p = se_root env @ [stage_prefix (mf_ID m) @ r]))"
      using h1 r(1) by (auto simp: holds_file_def)
  next
    fix p w2
    assume "holds_file ?src c w2 \<and> (\<forall>p'. (Inr p :: plugin_error + path) = Inr p' \<longrightarrow> \<not> prefix p' src \<and>
      (\<exists>r\<in>set rnds. p' = se_root env @ [stage_prefix (mf_ID m) @ r]))"
    then have h2: "holds_file ?src c w2" "\<not> prefix p src" "\<exists>r\<in>set rnds. p = se_root env @ [stage_prefix (mf_ID m) @ r]"
      by auto
    have prep: "ends (preparePluginDir env p m) (\<lambda>_. holds_file (p @ [plugin_json]) c) w'"
      if "holds_file (p @ [plugin_json]) c w'" for w'
      using keeps_preparePluginDir [OF assms(1,2)] that by (simp add: keeps_def)
    have "ends (andthen (copyDir src p) (\<lambda>_. preparePluginDir env p m))
        (\<lambda>r w'. r = Inr () \<longrightarrow> holds_file (p @ [plugin_json]) c w') w2"
      by (rule ends_andthen [OF copyDir_copies [OF h2(2,1)]]) (use prep ends_mono in fastforce)+
    then have a: "ends (attempt (andthen (copyDir src p) (\<lambda>_. preparePluginDir env p m)))
        (\<lambda>r w'. \<exists>r0. r = Inr r0 \<and> (r0 = Inr () \<longrightarrow> holds_file (p @ [plugin_json]) c w')) w2"
      unfolding ends_attempt by (rule ends_mono) simp
    show "ends (andthen (attempt (andthen (copyDir src p) (\<lambda>_. preparePluginDir env p m)))
        (\<lambda>r. case r of Inl e \<Rightarrow> andthen (warn_err (os_RemoveAll p)) (\<lambda>_. fail e) | Inr _ \<Rightarrow> ret p)) ?Q w2"
    proof (rule ends_andthen [OF a])
      fix r0 w'
      assume "\<exists>r1. (Inr r0 :: plugin_error + plugin_error + unit) = Inr r1 \<and> (r1 = Inr () \<longrightarrow> holds_file (p @ [plugin_json]) c w')"
      then have r0: "r0 = Inr () \<longrightarrow> holds_file (p @ [plugin_json]) c w'" by simp
      show "ends (case r0 of Inl e \<Rightarrow> andthen (warn_err (os_RemoveAll p)) (\<lambda>_. fail e) | Inr _ \<Rightarrow> ret p) ?Q w'"
      proof (cases r0)
        case (Inl e)
        show ?thesis unfolding Inl sum.case by (rule ends_then_fail) simp
      next
        case (Inr u)
        then show ?thesis using r0 h2(3) by (simp add: staged_at_def)
      qed
    qed auto
  qed (use h1 in \<open>auto simp: holds_file_def\<close>)
qed simp

lemma staged_fresh: "staged_at env rnds m c p w \<Longrightarrow> \<exists>r\<in>set rnds. p = se_root env @ [stage_prefix (mf_ID m) @ r]"
  by (simp add: staged_at_def)

definition prepared ::
  "store_env \<Rightarrow> path \<Rightarrow> string list \<Rightarrow> world \<Rightarrow> plugin_error + Manifest \<times> path \<Rightarrow> world \<Rightarrow> bool" where
  "prepared env src rnds w r w' \<longleftrightarrow>
     (\<forall>m p. r = Inr (m, p) \<longrightarrow>
        (\<exists>c. authored_manifest env c = Inr m \<and> holds_file (src @ [plugin_json]) c w \<and> staged_at env rnds m c p w'))"

lemma quiet_then:
  assumes "stays w_disk m" "\<And>x w'. w_disk w' = w_disk w \<Longrightarrow> ends (f x) Q w'" "\<And>e w'. Q (Inl e) w'"
  shows "ends (andthen m f) Q w"
  by (rule ends_andthen [OF stays_ends [OF assms(1)]]) (simp_all add: assms(2,3))

lemma staging_tail:
  assumes "sign_keeps_manifests env" "w_disk w1 = w_disk w" "authored_manifest env c = Inr m"
    "holds_file (src @ [plugin_json]) c w"
  shows "ends (andthen (stagePluginDir env src m rnds) (\<lambda>p. ret (m, p))) (prepared env src rnds w) w1"
proof -
  obtain m0 where m0: "js_manifest (se_codec env) c = Inr m0" using authored_json [OF assms(3)] by blast
  have "holds_file (src @ [plugin_json]) c w1" using assms(2,4) by (simp add: holds_file_def)
  from stage_copies [OF assms(1) m0 this, of m rnds] show ?thesis
    by (rule ends_andthen) (use assms(3,4) in \<open>auto simp: prepared_def\<close>)
qed

lemma read_source:
  assumes "w_disk w1 = w_disk w" "\<And>c m w2. w_disk w2 = w_disk w \<Longrightarrow> authored_manifest env c = Inr m \<Longrightarrow>
      holds_file (src @ [plugin_json]) c w \<Longrightarrow> ends (f m) (prepared env src rnds w) w2"
  shows "ends (andthen (read_required (src @ [plugin_json]) e) (\<lambda>raw. andthen (returned (authored_manifest env raw)) f))
    (prepared env src rnds w) w1"
proof (rule ends_andthen, rule ends_read_required [where Q = "\<lambda>r w'. w_disk w' = w_disk w \<and>
    (\<forall>c. r = Inr c \<longrightarrow> holds_file (src @ [plugin_json]) c w)"])
  fix c and w' :: world
  assume "w_disk w' = w_disk w \<and> (\<forall>c'. (Inr c :: plugin_error + string) = Inr c' \<longrightarrow> holds_file (src @ [plugin_json]) c' w)"
  then show "ends (andthen (returned (authored_manifest env c)) f) (prepared env src rnds w) w'"
    using assms(2) by (auto simp: prepared_def split: sum.split)
qed (use assms(1) in \<open>auto simp: holds_file_def prepared_def\<close>)

lemma ends_Install_prepare:
  assumes "sign_keeps_manifests env"
  shows "ends (Install_prepare env src rnds) (prepared env src rnds w) w"
  unfolding Install_prepare_def
  by (intro quiet_then [OF disk_view.require_dir] quiet_then [OF disk_view.check_builtin_version]
      quiet_then [OF stays_simple(4)] read_source staging_tail [OF assms])
    (simp_all add: prepared_def)

lemma ends_Update_prepare:
  assumes "sign_keeps_manifests env"
  shows "ends (Update_prepare env pid src rnds)
    (\<lambda>r w'. prepared env src rnds w r w' \<and> (\<forall>m p. r = Inr (m, p) \<longrightarrow> mf_ID m = pid)) w"
proof (rule ends_conj)
  show "ends (Update_prepare env pid src rnds) (prepared env src rnds w) w"
    unfolding Update_prepare_def
  proof (rule quiet_then [OF stays_simple(4)], rule quiet_then [OF disk_view.pluginDir], goal_cases)
    case (1 u w1 db w2)
    obtain d b where db: "db = (d, b)" by (cases db)
    show ?case
    proof (cases b)
      case False
      show ?thesis unfolding db prod.case if_not_P [OF False]
        by (intro quiet_then [OF disk_view.require_dir] quiet_then [OF disk_view.readManifest]
            quiet_then [OF disk_view.check_builtin_version] quiet_then [OF stays_simple(4)] read_source staging_tail [OF assms])
          (use 1 in \<open>simp_all add: prepared_def\<close>)
    qed (simp add: db prepared_def)
  qed (simp_all add: prepared_def)
  have "gives (\<lambda>(m, p). mf_ID m = pid) (Update_prepare env pid src rnds)"
    unfolding Update_prepare_def
    by (rule gives_ensure gives_branch gives_then gives_ret | simp split: if_split_asm)+
  then show "ends (Update_prepare env pid src rnds) (\<lambda>r w'. \<forall>m p. r = Inr (m, p) \<longrightarrow> mf_ID m = pid) w"
    unfolding gives_def by (auto elim!: allE [where x = w] ends_mono split: sum.split_asm)
qed

subsection \<open>No plugin touches another\<close>

lemma node_swap_in:
  "\<not> prefix dir q \<Longrightarrow> \<not> prefix pending q \<Longrightarrow> \<not> prefix staged q \<Longrightarrow> stays (node_at q) (swap_in dir pending staged)"
  unfolding swap_in_def by (intro stays_intros) assumption+

lemma node_keep_snapshot:
  "\<not> prefix backup q \<Longrightarrow> \<not> prefix pending q \<Longrightarrow> \<not> prefix old q \<Longrightarrow> stays (node_at q) (keep_snapshot backup pending old)"
  unfolding keep_snapshot_def by (intro stays_intros node_view.os_reads) assumption+

lemma node_restore_snapshot:
  "\<not> prefix dir q \<Longrightarrow> \<not> prefix pending q \<Longrightarrow> \<not> prefix backup q \<Longrightarrow> stays (node_at q) (restore_snapshot dir pending backup)"
  unfolding restore_snapshot_def by (intro stays_intros node_view.os_reads) assumption+

lemmas dirs_def = user_dir_def backup_dir_def backups_dir_def

lemma foreign_dirs:
  assumes "foreign env pid q"
  shows "\<not> prefix (user_dir env pid) q" "\<not> prefix (backup_dir env b) q" "\<not> prefix q (backups_dir env)"
    "parallel q (backup_dir env b)" "not_staged env rnds q" "\<not> prefix (se_root env @ [stage_prefix x @ r]) q"
  using foreign_root [OF assms] foreign_away(1,2) [OF assms disjI2 [OF disjI2 [OF has_prefix_stage]]]
    foreign_away(1,2) [OF assms, of pid "[]"] foreign_away(1,2) [OF assms, of "''.backups''" "[]"]
    foreign_away(1,2) [OF assms, of "''.backups''" "[b]"]
  by (auto simp: dirs_def parallel_def not_staged_def)

lemma node_Update_commit:
  assumes "\<not> prefix (user_dir env pid) q" "\<not> prefix q (backups_dir env)" "\<not> prefix staged q"
    "\<And>b. b \<in> {'''', ''.pending'', ''.old''} \<Longrightarrow> \<not> prefix (backup_dir env (pid @ b)) q"
  shows "stays (node_at q) (Update_commit env pid m staged)"
  unfolding Update_commit_def
proof (rule stays_bind [OF node_view.pluginDir gives_pluginDir], clarify)
  fix dir builtin assume "\<not> builtin \<longrightarrow> dir = user_dir env pid"
  then show "stays (node_at q)
      (if builtin then fail (BuiltinPlugin pid)
       else andthen (readManifest env pid) (\<lambda>cur. andthen (ensure (requireNewer m cur))
         (\<lambda>_. andthen (os_MkdirAll (backups_dir env))
         (\<lambda>_. andthen (swap_in dir (backup_dir env (pid @ ''.pending'')) staged)
         (\<lambda>_. andthen (keep_snapshot (backup_dir env pid) (backup_dir env (pid @ ''.pending'')) (backup_dir env (pid @ ''.old'')))
         (\<lambda>_. andthen (summaryFromManifest m dir True) (summary_with_state env pid)))))))"
    using assms(1-3) assms(4) [of "''''"] assms(4) [of "''.pending''"] assms(4) [of "''.old''"]
    by (intro stays_intros node_view.quietly node_swap_in node_keep_snapshot) simp_all
qed

lemma node_Rollback:
  assumes "parallel q (backup_dir env pid)" "\<not> prefix (user_dir env pid) q"
    "\<not> prefix (backup_dir env (pid @ ''.discard'')) q" "RelRef_sound (se_codec env)"
  shows "stays (node_at q) (Rollback env pid)"
  using assms(1-3) unfolding Rollback_def
  by (intro stays_intros node_view.quietly stays_bind [OF _ gives_authored] node_preparePluginDir node_restore_snapshot
      assms(4)) (simp_all add: parallel_def)

lemma node_writeState: "q \<noteq> se_root env @ [pluginStateFile] \<Longrightarrow> stays (node_at q) (writeState env st)"
  unfolding writeState_def by (intro stays_intros)

lemma node_SetEnabled: "q \<noteq> se_root env @ [pluginStateFile] \<Longrightarrow> stays (node_at q) (SetEnabled env pid b)"
  unfolding SetEnabled_def by (intro stays_intros node_view.quietly node_writeState)

lemma node_Uninstall:
  "\<not> prefix (user_dir env pid) q \<Longrightarrow> \<not> prefix (backup_dir env pid) q \<Longrightarrow> q \<noteq> se_root env @ [pluginStateFile] \<Longrightarrow>
   stays (node_at q) (Uninstall env pid)"
  unfolding Uninstall_def
  by (intro stays_intros node_view.quietly node_writeState)

lemma node_kv_path: "\<not> prefix q (data_dir env pid) \<Longrightarrow> stays (node_at q) (kv_path env pid)"
  unfolding kv_path_def by (intro stays_intros)

lemma gives_kv_path: "gives (\<lambda>p. p = data_dir env pid @ [kvFileName]) (kv_path env pid)"
  unfolding kv_path_def by (rule gives_ensure gives_then gives_ret | simp)+

lemma node_kv_read: "\<not> prefix q (data_dir env pid) \<Longrightarrow> stays (node_at q) (kv_read env pid)"
  unfolding kv_read_def by (intro stays_intros node_view.os_reads node_kv_path)

lemma node_kv_write:
  assumes "\<not> prefix q (data_dir env pid)" "\<not> prefix (data_dir env pid) q"
  shows "stays (node_at q) (kv_write env pid kv)"
  unfolding kv_write_def
proof (rule stays_bind [OF node_kv_path [OF assms(1)] gives_kv_path])
  fix p assume p: "p = data_dir env pid @ [kvFileName]"
  have "\<not> prefix (data_dir env pid @ [x]) q" for x using assms(2) by (meson prefixI prefix_order.trans)
  then show "stays (node_at q) (let tmp = butlast p @ [last p @ ''.tmp''] in
      andthen (os_WriteFile tmp (se_enc_kv env kv @ [CHR 0x0A])) (\<lambda>_. os_Rename tmp p))"
    unfolding Let_def p by (intro stays_intros) (auto simp: prefix_def)
qed

lemma node_KV:
  assumes "parallel q (data_dir env pid)"
  shows "stays (node_at q) (KV_Set env pid k v)" "stays (node_at q) (KV_Delete env pid k)"
    "stays (node_at q) (KV_RemoveAll env pid)" "stays (node_at q) (KV_Get env pid k)"
proof -
  have a: "\<not> prefix q (data_dir env pid)" "\<not> prefix (data_dir env pid) q" using assms by (auto simp: parallel_def)
  show "stays (node_at q) (KV_Set env pid k v)" unfolding KV_Set_def
    by (intro stays_intros node_kv_read node_kv_write a)
  show "stays (node_at q) (KV_Delete env pid k)" unfolding KV_Delete_def
    by (intro stays_intros node_kv_read node_kv_write a)
  show "stays (node_at q) (KV_RemoveAll env pid)" unfolding KV_RemoveAll_def by (intro stays_intros a)
  show "stays (node_at q) (KV_Get env pid k)" unfolding KV_Get_def by (intro stays_intros node_kv_read a)
qed

subsection \<open>No update loses a version\<close>

abbreviation tree :: "path \<Rightarrow> world \<Rightarrow> path \<Rightarrow> node option" where
  "tree p w \<equiv> tree_at (w_disk w) p"

lemma stays_tree: "(\<And>q. prefix p q \<Longrightarrow> stays (node_at q) m) \<Longrightarrow> stays (tree p) m"
proof -
  assume a: "\<And>q. prefix p q \<Longrightarrow> stays (node_at q) m"
  have "tree p w' = tree p w" if "m w = (r, w')" for w r w'
    using staysD [OF a that] by (simp add: tree_at_def fun_eq_iff)
  then show ?thesis unfolding stays_def ends_def by (simp split: prod.split)
qed

lemma tree_RemoveAll: "parallel u p \<Longrightarrow> stays (tree u) (os_RemoveAll p)"
  by (intro stays_tree stays_intros) (metis parallel_def prefix_order.trans prefix_same_cases)

lemma ends_Rename_tree:
  assumes "parallel s t"
    "\<And>e w'. tree s w' = tree s w \<Longrightarrow> tree t w' = tree t w \<Longrightarrow> (\<And>u. tree u w' = tree u w) \<Longrightarrow> w_rev w' = w_rev w \<Longrightarrow> Q (Inl e) w'"
    "\<And>w'. tree t w' = tree s w \<Longrightarrow> tree s w' = Map.empty \<Longrightarrow> w_rev w' = w_rev w \<Longrightarrow>
      (\<And>u. parallel u s \<Longrightarrow> parallel u t \<Longrightarrow> tree u w' = tree u w) \<Longrightarrow> node_at s w \<noteq> None \<Longrightarrow> Q (Inr ()) w'"
  shows "ends (os_Rename s t) Q w"
  by (rule ends_Rename) (rule assms(2,3); use assms(1) in simp)+

definition swapped :: "path \<Rightarrow> path \<Rightarrow> path \<Rightarrow> world \<Rightarrow> plugin_error + unit \<Rightarrow> world \<Rightarrow> bool" where
  "swapped dir pending staged w r w' \<longleftrightarrow>
     (case r of
        Inr _ \<Rightarrow> w_rev w' = w_rev w + 1 \<and> tree dir w' = tree staged w \<and> tree pending w' = tree dir w
      | Inl _ \<Rightarrow> w_rev w' = w_rev w \<and>
          (tree dir w' = tree dir w \<or> tree dir w' = Map.empty \<and> tree pending w' = tree dir w))"

lemma ends_swap_in:
  assumes "parallel dir pending" "parallel dir staged" "parallel pending staged"
  shows "ends (swap_in dir pending staged) (swapped dir pending staged w) w"
  unfolding swap_in_def
proof (rule ends_andthen)
  note sym = parallel_commute
  let ?A = "\<lambda>w'. tree dir w' = tree dir w \<and> tree staged w' = tree staged w \<and> w_rev w' = w_rev w"
  let ?B = "\<lambda>w'. tree dir w' = Map.empty \<and> tree pending w' = tree dir w \<and> tree staged w' = tree staged w \<and> w_rev w' = w_rev w"
  show "ends (warn_err (os_RemoveAll pending)) (\<lambda>_. ?A) w"
    using assms sym
    by (intro ends_conj stays_ends stays_warn_err tree_RemoveAll stays_intros) blast+
  fix u w1 assume a: "?A w1"
  show "ends (andthen (os_Rename dir pending) (\<lambda>_. andthen (attempt (os_Rename staged dir))
      (\<lambda>r. case r of Inl e \<Rightarrow> andthen (warn_err (os_Rename pending dir)) (\<lambda>_. fail e) | Inr _ \<Rightarrow> bump_revision)))
    (swapped dir pending staged w) w1"
  proof (rule ends_andthen, rule ends_Rename_tree [OF assms(1), where Q = "\<lambda>r w'. if is_ok r then ?B w' else ?A w'"])
    fix u w2 assume b0: "if is_ok (Inr u :: plugin_error + unit) then ?B w2 else ?A w2"
    then have b: "?B w2" by simp
    show "ends (andthen (attempt (os_Rename staged dir))
      (\<lambda>r. case r of Inl e \<Rightarrow> andthen (warn_err (os_Rename pending dir)) (\<lambda>_. fail e) | Inr _ \<Rightarrow> bump_revision))
      (swapped dir pending staged w) w2"
      unfolding ends_simps ends_attempt
    proof (rule ends_Rename_tree)
      show "parallel staged dir" using assms(2) sym by blast
      fix e w3 assume c: "\<And>u. tree u w3 = tree u w2" "w_rev w3 = w_rev w2"
      show "case (Inr (Inl e) :: plugin_error + plugin_error + unit) of Inl e \<Rightarrow> swapped dir pending staged w (Inl e) w3
        | Inr x \<Rightarrow> ends (case x of Inl e \<Rightarrow> andthen (warn_err (os_Rename pending dir)) (\<lambda>_. fail e) | Inr _ \<Rightarrow> bump_revision)
            (swapped dir pending staged w) w3"
        using b c unfolding sum.case ends_simps ends_warn_err
        by (intro ends_Rename_tree) (use assms(1) sym in \<open>auto simp: swapped_def\<close>)
    next
      fix w3 assume c: "tree dir w3 = tree staged w2" "w_rev w3 = w_rev w2"
        "\<And>u. parallel u staged \<Longrightarrow> parallel u dir \<Longrightarrow> tree u w3 = tree u w2"
      have "tree pending w3 = tree dir w" using b
        unfolding c(3) [OF assms(3) parallel_commute [THEN iffD1, OF assms(1)]] by simp
      then show "case (Inr (Inr ()) :: plugin_error + plugin_error + unit) of Inl e \<Rightarrow> swapped dir pending staged w (Inl e) w3
        | Inr x \<Rightarrow> ends (case x of Inl e \<Rightarrow> andthen (warn_err (os_Rename pending dir)) (\<lambda>_. fail e) | Inr _ \<Rightarrow> bump_revision)
            (swapped dir pending staged w) w3"
        using b c(1,2) by (simp add: ends_def bump_revision_def swapped_def)
    qed
  qed (use a assms assms(2,3) [THEN parallel_commute [THEN iffD1]] in \<open>auto simp: swapped_def\<close>)
qed (simp add: swapped_def)

definition kept :: "path \<Rightarrow> path \<Rightarrow> path \<Rightarrow> world \<Rightarrow> plugin_error + unit \<Rightarrow> world \<Rightarrow> bool" where
  "kept backup pending old w r w' \<longleftrightarrow> w_rev w' = w_rev w \<and>
     (case r of
        Inr _ \<Rightarrow> tree backup w' = tree pending w
      | Inl _ \<Rightarrow> tree pending w' = tree pending w \<and>
          (node_at backup w = None \<or> tree backup w' = tree backup w \<or> tree old w' = tree backup w))"

lemma tree_node: "node_at p w = tree p w []"
  by (simp add: tree_at_def)

text \<open>The last step: the pending snapshot takes its place, or the old one goes back.\<close>

lemma ends_commit_snapshot:
  assumes "parallel backup pending" "parallel pending old" "parallel old backup"
    "tree pending w1 = tree pending w" "w_rev w1 = w_rev w"
    "node_at backup w = None \<or> tree old w1 = tree backup w"
  shows "ends (andthen (attempt (os_Rename pending backup)) (\<lambda>r.
      case r of
        Inl e \<Rightarrow> andthen (warn_err (os_Rename old backup)) (\<lambda>_. fail e)
      | Inr _ \<Rightarrow> warn_err (os_RemoveAll old))) (kept backup pending old w) w1"
  unfolding ends_simps ends_attempt
proof (rule ends_Rename_tree)
  note c = parallel_commute [THEN iffD1]
  show "parallel pending backup" by (rule c [OF assms(1)])
  fix e w2 assume a: "\<And>u. tree u w2 = tree u w1" "w_rev w2 = w_rev w1"
  show "case (Inr (Inl e) :: plugin_error + plugin_error + unit) of Inl e \<Rightarrow> kept backup pending old w (Inl e) w2
      | Inr x \<Rightarrow> ends (case x of Inl e \<Rightarrow> andthen (warn_err (os_Rename old backup)) (\<lambda>_. fail e) | Inr _ \<Rightarrow> warn_err (os_RemoveAll old))
          (kept backup pending old w) w2"
    unfolding sum.case ends_simps ends_warn_err
    by (rule ends_Rename_tree [OF assms(3)])
      (use assms(4-6) a c [OF assms(1)] assms(2) in \<open>auto simp: kept_def\<close>)
next
  fix w2 assume a: "tree backup w2 = tree pending w1" "w_rev w2 = w_rev w1"
  have "ends (os_RemoveAll old) (\<lambda>_ w'. tree backup w' = tree backup w2 \<and> w_rev w' = w_rev w2) w2"
    by (intro ends_conj stays_ends tree_RemoveAll rev_writes parallel_commute [THEN iffD1, OF assms(3)])
  then show "case (Inr (Inr ()) :: plugin_error + plugin_error + unit) of Inl e \<Rightarrow> kept backup pending old w (Inl e) w2
      | Inr x \<Rightarrow> ends (case x of Inl e \<Rightarrow> andthen (warn_err (os_Rename old backup)) (\<lambda>_. fail e) | Inr _ \<Rightarrow> warn_err (os_RemoveAll old))
          (kept backup pending old w) w2"
    unfolding sum.case ends_warn_err by (rule ends_mono) (use a assms(4,5) in \<open>simp add: kept_def\<close>)
qed

lemma ends_keep_snapshot:
  assumes "parallel backup pending" "parallel pending old" "parallel old backup"
  shows "ends (keep_snapshot backup pending old) (kept backup pending old w) w"
  unfolding keep_snapshot_def
proof (rule ends_andthen)
  note c = parallel_commute [THEN iffD1]
  let ?A = "\<lambda>w'. tree backup w' = tree backup w \<and> tree pending w' = tree pending w \<and> w_rev w' = w_rev w"
  show "ends (warn_err (os_RemoveAll old)) (\<lambda>_. ?A) w"
    using c [OF assms(3)] assms(2)
    by (intro ends_conj stays_ends stays_warn_err tree_RemoveAll stays_intros)
  fix u w1 assume a: "?A w1"
  have stat: "ends (os_Stat backup) (\<lambda>r w'. w_disk w' = w_disk w1 \<and> w_rev w' = w_rev w1 \<and>
      (\<forall>n. r = Inr n \<longrightarrow> n = node_at backup w1)) w1"
    unfolding os_Stat_def sysread_def by (rule ends_syscall) (simp split: option.split)
  let ?last = "andthen (attempt (os_Rename pending backup)) (\<lambda>r. case r of
        Inl e \<Rightarrow> andthen (warn_err (os_Rename old backup)) (\<lambda>_. fail e) | Inr _ \<Rightarrow> warn_err (os_RemoveAll old))"
  show "ends (andthen (os_Stat backup) (\<lambda>n. andthen (case n of None \<Rightarrow> ret () | Some _ \<Rightarrow> os_Rename backup old) (\<lambda>_. ?last)))
      (kept backup pending old w) w1"
  proof (rule ends_andthen [OF stat])
    fix n and w2 :: world
    assume "w_disk w2 = w_disk w1 \<and> w_rev w2 = w_rev w1 \<and>
      (\<forall>n'. (Inr n :: plugin_error + node option) = Inr n' \<longrightarrow> n' = node_at backup w1)"
    then have b: "?A w2" "n = tree backup w []" using a tree_node by auto
    show "ends (andthen (case n of None \<Rightarrow> ret () | Some _ \<Rightarrow> os_Rename backup old) (\<lambda>_. ?last)) (kept backup pending old w) w2"
    proof (cases n)
      case None
      show ?thesis unfolding None option.case
        by (rule ends_andthen [where P = "\<lambda>r w'. r = Inr () \<and> w' = w2"], simp, rule ends_commit_snapshot [OF assms])
          (use b None in \<open>simp_all add: tree_node\<close>)
    next
      case (Some x)
      show ?thesis unfolding Some option.case
      proof (rule ends_andthen, rule ends_Rename_tree [OF c [OF assms(3)],
          where Q = "\<lambda>r w'. tree pending w' = tree pending w \<and> w_rev w' = w_rev w \<and>
            (if is_ok r then tree old w' = tree backup w else tree backup w' = tree backup w)"])
        fix u w3
        assume "tree pending w3 = tree pending w \<and> w_rev w3 = w_rev w \<and>
            (if is_ok (Inr u :: plugin_error + unit) then tree old w3 = tree backup w else tree backup w3 = tree backup w)"
        then show "ends ?last (kept backup pending old w) w3" by (intro ends_commit_snapshot [OF assms]) simp_all
      qed (use b c [OF assms(1)] assms(2) in \<open>auto simp: kept_def\<close>)
    qed
  qed (use a in \<open>auto simp: kept_def\<close>)
qed (simp add: kept_def)

lemma id_names:
  assumes "idRe pid"
  shows "pid \<noteq> CHR ''.'' # x" "\<not> has_prefix pid ''.''" "pid \<noteq> ''.backups''" "pid \<noteq> ''.data''"
    "\<not> has_prefix pid ''.plugin-stage-''" "pid \<noteq> stage_prefix p @ r"
proof -
  show a: "pid \<noteq> CHR ''.'' # x" for x
    using assms by (auto simp: idRe_def name_shape_def lower_alnum_def less_eq_char_def)
  show "\<not> has_prefix pid ''.''" "\<not> has_prefix pid ''.plugin-stage-''"
    using a by (auto simp: has_prefix_iff)
  show "pid \<noteq> ''.backups''" "pid \<noteq> ''.data''" by (rule a)+
  show "pid \<noteq> stage_prefix p @ r" using a by (simp add: stage_prefix_def)
qed

lemma parallel_one: "parallel (root @ (a # xs)) (root @ (b # ys)) \<longleftrightarrow> a \<noteq> b \<or> parallel xs ys"
  by (auto simp: parallel_def)

lemma plugin_dirs_apart:
  assumes "idRe pid"
  shows "parallel (user_dir env pid) (backup_dir env b)" "parallel (user_dir env pid) (se_root env @ [stage_prefix p @ r])"
    "parallel (backup_dir env b) (se_root env @ [stage_prefix p @ r])"
    "b \<noteq> b' \<Longrightarrow> parallel (backup_dir env b) (backup_dir env b')"
    "pid \<noteq> pid' \<Longrightarrow> parallel (user_dir env pid) (user_dir env pid')"
  using id_names [OF assms] by (auto simp: dirs_def parallel_one stage_prefix_def) (auto simp: parallel_def)

lemma ends_pluginDir:
  "ends (pluginDir env pid) (\<lambda>r w'. w_disk w' = w_disk w \<and> w_rev w' = w_rev w \<and>
     (\<forall>d b. r = Inr (d, b) \<longrightarrow> idRe pid \<and> (\<not> b \<longrightarrow> d = user_dir env pid))) w"
  using gives_pluginDir [of pid env, unfolded gives_def, rule_format, of w]
  by (intro ends_conj stays_ends disk_view.pluginDir rev_view.pluginDir) (auto elim!: ends_mono split: sum.split_asm)

lemma quiet_both:
  assumes "stays w_disk m" "stays w_rev m"
    "\<And>x w'. w_disk w' = w_disk w \<Longrightarrow> w_rev w' = w_rev w \<Longrightarrow> ends (f x) Q w'"
    "\<And>e w'. w_disk w' = w_disk w \<Longrightarrow> w_rev w' = w_rev w \<Longrightarrow> Q (Inl e) w'"
  shows "ends (andthen m f) Q w"
  by (rule ends_andthen [OF ends_conj [OF stays_ends [OF assms(1)] stays_ends [OF assms(2)]]]) (auto intro: assms(3,4))

definition update_outcome :: "store_env \<Rightarrow> string \<Rightarrow> path \<Rightarrow> world \<Rightarrow> plugin_error + 'a \<Rightarrow> world \<Rightarrow> bool" where
  "update_outcome env pid staged w r w' \<longleftrightarrow>
     (let live = user_dir env pid; snapshot = backup_dir env pid; pending = backup_dir env (pid @ ''.pending'');
          old = backup_dir env (pid @ ''.old'')
      in (w_rev w' = w_rev w \<and> (\<exists>e. r = Inl e) \<and> tree snapshot w' = tree snapshot w \<and>
            (tree live w' = tree live w \<or> tree live w' = Map.empty \<and> tree pending w' = tree live w)) \<or>
         (w_rev w' = w_rev w + 1 \<and> tree live w' = tree staged w \<and>
            (tree snapshot w' = tree live w \<or>
             (\<exists>e. r = Inl e) \<and> tree pending w' = tree live w \<and>
             (node_at snapshot w = None \<or> tree snapshot w' = tree snapshot w \<or> tree old w' = tree snapshot w))))"

lemma update_outcome_quiet:
  "w_disk w' = w_disk w \<Longrightarrow> w_rev w' = w_rev w \<Longrightarrow> update_outcome env pid staged w (Inl e) w'"
  by (simp add: update_outcome_def Let_def)

lemma tree_MkdirAll: "parallel u v \<Longrightarrow> prefix p v \<Longrightarrow> stays (tree u) (os_MkdirAll p)"
  by (intro stays_tree stays_intros) (metis parallel_def prefix_order.trans)

lemma tree_swap_in:
  "parallel u dir \<Longrightarrow> parallel u pending \<Longrightarrow> parallel u staged \<Longrightarrow> stays (tree u) (swap_in dir pending staged)"
  by (rule stays_tree, rule node_swap_in) (metis parallel_def prefix_order.trans prefix_same_cases)+

lemma tree_keep_snapshot:
  "parallel u backup \<Longrightarrow> parallel u pending \<Longrightarrow> parallel u old \<Longrightarrow> stays (tree u) (keep_snapshot backup pending old)"
  by (rule stays_tree, rule node_keep_snapshot) (metis parallel_def prefix_order.trans prefix_same_cases)+

text \<open>The directories of an update, none of them in another.\<close>

definition apart :: "store_env \<Rightarrow> string \<Rightarrow> path \<Rightarrow> bool" where
  "apart env pid staged \<longleftrightarrow>
     (let live = user_dir env pid; snap = backup_dir env pid; pend = backup_dir env (pid @ ''.pending'');
          old = backup_dir env (pid @ ''.old'')
      in parallel live snap \<and> parallel live pend \<and> parallel live old \<and> parallel live staged \<and> parallel pend staged \<and>
         parallel staged pend \<and> parallel snap staged \<and> parallel snap pend \<and> parallel pend old \<and> parallel old snap \<and>
         parallel pend live \<and> parallel snap live)"

lemma apart_dirs: "idRe pid \<Longrightarrow> apart env pid (se_root env @ [stage_prefix p @ r])"
  using plugin_dirs_apart(1) [of pid env] plugin_dirs_apart(1) [of pid env, THEN parallel_commute [THEN iffD1]]
    plugin_dirs_apart(2-4) [of pid, where env = env] plugin_dirs_apart(3) [of pid, where env = env, THEN parallel_commute [THEN iffD1]]
  by (simp add: apart_def Let_def)

text \<open>After the swap and the snapshot the rest only reads.\<close>

lemma ends_snapshot_phase:
  assumes "apart env pid staged" "w_rev w3 = w_rev w + 1" "tree (user_dir env pid) w3 = tree staged w"
    "tree (backup_dir env (pid @ ''.pending'')) w3 = tree (user_dir env pid) w"
    "tree (backup_dir env pid) w3 = tree (backup_dir env pid) w"
  shows "ends (andthen (keep_snapshot (backup_dir env pid) (backup_dir env (pid @ ''.pending'')) (backup_dir env (pid @ ''.old'')))
      (\<lambda>_. andthen (summaryFromManifest m d b) (summary_with_state env pid))) (update_outcome env pid staged w) w3"
proof (rule ends_andthen [OF ends_conj [OF ends_keep_snapshot stays_ends [OF tree_keep_snapshot [of "user_dir env pid"]]]])
  let ?snap = "backup_dir env pid" and ?pend = "backup_dir env (pid @ ''.pending'')" and ?old = "backup_dir env (pid @ ''.old'')"
    and ?live = "user_dir env pid"
  fix u w4 assume k: "kept ?snap ?pend ?old w3 (Inr u) w4 \<and> tree ?live w4 = tree ?live w3"
  show "ends (andthen (summaryFromManifest m d b) (summary_with_state env pid)) (update_outcome env pid staged w) w4"
  proof (rule ends_mono [OF ends_conj [OF stays_ends stays_ends]])
    show "stays w_disk (andthen (summaryFromManifest m d b) (summary_with_state env pid))"
      by (intro stays_intros disk_view.quietly)
    show "stays w_rev (andthen (summaryFromManifest m d b) (summary_with_state env pid))"
      by (intro stays_intros rev_view.quietly)
    fix r :: "plugin_error + PluginSummary" and w' :: world
    assume "w_disk w' = w_disk w4 \<and> w_rev w' = w_rev w4"
    then show "update_outcome env pid staged w r w'" using k assms by (simp add: update_outcome_def Let_def kept_def)
  qed
next
  let ?snap = "backup_dir env pid" and ?pend = "backup_dir env (pid @ ''.pending'')" and ?old = "backup_dir env (pid @ ''.old'')"
    and ?live = "user_dir env pid"
  fix e w4 assume k: "kept ?snap ?pend ?old w3 (Inl e) w4 \<and> tree ?live w4 = tree ?live w3"
  have "node_at ?snap w3 = node_at ?snap w" unfolding tree_node assms(5) ..
  then show "update_outcome env pid staged w (Inl e) w4" using k assms by (simp add: update_outcome_def Let_def kept_def)
qed (use assms(1) in \<open>simp_all add: apart_def Let_def\<close>)

abbreviation unswapped :: "store_env \<Rightarrow> string \<Rightarrow> path \<Rightarrow> world \<Rightarrow> world \<Rightarrow> bool" where
  "unswapped env pid staged w w' \<equiv> tree (user_dir env pid) w' = tree (user_dir env pid) w \<and>
     tree (backup_dir env pid) w' = tree (backup_dir env pid) w \<and> tree staged w' = tree staged w \<and> w_rev w' = w_rev w"

lemma ends_swap_phase:
  assumes "apart env pid staged" "unswapped env pid staged w w2"
  shows "ends (andthen (swap_in (user_dir env pid) (backup_dir env (pid @ ''.pending'')) staged)
      (\<lambda>_. andthen (keep_snapshot (backup_dir env pid) (backup_dir env (pid @ ''.pending'')) (backup_dir env (pid @ ''.old'')))
        (\<lambda>_. andthen (summaryFromManifest m d b) (summary_with_state env pid)))) (update_outcome env pid staged w) w2"
proof (rule ends_andthen [OF ends_conj [OF ends_swap_in stays_ends [OF tree_swap_in [of "backup_dir env pid"]]]])
  let ?sw = "swapped (user_dir env pid) (backup_dir env (pid @ ''.pending'')) staged w2"
  fix u w3 assume "?sw (Inr u) w3 \<and> tree (backup_dir env pid) w3 = tree (backup_dir env pid) w2"
  then show "ends (andthen (keep_snapshot (backup_dir env pid) (backup_dir env (pid @ ''.pending'')) (backup_dir env (pid @ ''.old'')))
      (\<lambda>_. andthen (summaryFromManifest m d b) (summary_with_state env pid))) (update_outcome env pid staged w) w3"
    using assms by (intro ends_snapshot_phase) (simp_all add: swapped_def)
next
  let ?sw = "swapped (user_dir env pid) (backup_dir env (pid @ ''.pending'')) staged w2"
  fix e w3 assume "?sw (Inl e) w3 \<and> tree (backup_dir env pid) w3 = tree (backup_dir env pid) w2"
  then show "update_outcome env pid staged w (Inl e) w3" using assms(2) by (simp add: update_outcome_def Let_def swapped_def)
qed (use assms(1) in \<open>simp_all add: apart_def Let_def\<close>)

lemma ends_make_backups:
  assumes "apart env pid staged" "unswapped env pid staged w w2"
  shows "ends (os_MkdirAll (backups_dir env)) (\<lambda>_. unswapped env pid staged w) w2"
proof -
  have b: "prefix (backups_dir env) (backup_dir env (pid @ ''.pending''))" by (simp add: dirs_def)
  have s: "stays (tree u) (os_MkdirAll (backups_dir env))"
    if "u = user_dir env pid \<or> u = backup_dir env pid \<or> u = staged" for u
    using tree_MkdirAll [OF _ b] assms(1) that by (auto simp: apart_def Let_def)
  show ?thesis
    by (rule ends_mono [OF ends_conj [OF ends_conj [OF stays_ends [OF s [OF disjI1 [OF refl]]]
            stays_ends [OF s [OF disjI2 [OF disjI1 [OF refl]]]]]
          ends_conj [OF stays_ends [OF s [OF disjI2 [OF disjI2 [OF refl]]]] stays_ends [OF rev_writes(1)]]]])
      (use assms(2) in simp)
qed

lemma update_outcome_before: "unswapped env pid staged w w' \<Longrightarrow> update_outcome env pid staged w (Inl e) w'"
  by (simp add: update_outcome_def Let_def)

lemma ends_Update_commit:
  assumes st: "staged = se_root env @ [stage_prefix p @ r]"
  shows "ends (Update_commit env pid m staged) (update_outcome env pid staged w) w"
  unfolding Update_commit_def
proof (rule ends_andthen [OF ends_pluginDir])
  let ?Q = "update_outcome env pid staged w"
  let ?live = "user_dir env pid" and ?snap = "backup_dir env pid" and ?pend = "backup_dir env (pid @ ''.pending'')"
    and ?old = "backup_dir env (pid @ ''.old'')"
  fix db :: "path \<times> bool" and w1 :: world
  obtain dir builtin where db: "db = (dir, builtin)" by (cases db)
  assume "w_disk w1 = w_disk w \<and> w_rev w1 = w_rev w \<and>
     (\<forall>d b. (Inr db :: plugin_error + path \<times> bool) = Inr (d, b) \<longrightarrow> idRe pid \<and> (\<not> b \<longrightarrow> d = user_dir env pid))"
  then have q1: "w_disk w1 = w_disk w" "w_rev w1 = w_rev w" and ap: "apart env pid staged" and dir: "\<not> builtin \<longrightarrow> dir = ?live"
    using apart_dirs by (auto simp: db st)
  show "ends (case db of (dir, builtin) \<Rightarrow>
      if builtin then fail (BuiltinPlugin pid)
      else andthen (readManifest env pid) (\<lambda>cur. andthen (ensure (requireNewer m cur)) (\<lambda>_. andthen (os_MkdirAll (backups_dir env))
        (\<lambda>_. andthen (swap_in dir ?pend staged) (\<lambda>_. andthen (keep_snapshot ?snap ?pend ?old)
        (\<lambda>_. andthen (summaryFromManifest m dir True) (summary_with_state env pid))))))) ?Q w1"
  proof (cases builtin)
    case False
    then have d: "dir = ?live" using dir by simp
    show ?thesis
      unfolding db prod.case if_not_P [OF False] d
    proof (rule quiet_both [OF disk_view.readManifest rev_view.readManifest],
        rule quiet_both [OF stays_simple(4) stays_simple(4)])
      fix cur u and w2 w3 :: world
      assume "w_disk w2 = w_disk w1" "w_rev w2 = w_rev w1" "w_disk w3 = w_disk w2" "w_rev w3 = w_rev w2"
      then have "unswapped env pid staged w w3" using q1 by simp
      then show "ends (andthen (os_MkdirAll (backups_dir env)) (\<lambda>_. andthen (swap_in ?live ?pend staged)
        (\<lambda>_. andthen (keep_snapshot ?snap ?pend ?old) (\<lambda>_. andthen (summaryFromManifest m ?live True) (summary_with_state env pid))))) ?Q w3"
        by (intro ends_andthen [OF ends_make_backups [OF ap]] ends_swap_phase [OF ap] update_outcome_before)
    qed (use q1 in \<open>simp_all add: update_outcome_quiet\<close>)
  qed (use q1 in \<open>simp add: db update_outcome_quiet\<close>)
qed (auto simp: update_outcome_quiet)

text \<open>
  C22: The commit of an update loses neither the installed version nor the last snapshot, whatever its calls
  of the file system meet. Either it fails before the new version is live: then the revision stands, the
  snapshot is as it was, and the installed version is in place or, when moving it back failed too, the
  pending snapshot. Or the new version is live and the revision has moved by one: then the version it
  replaced is the snapshot or, with an error, still pending, and the snapshot before it is in place or
  set aside.
\<close>

theorem update_never_loses_a_version:
  "case Update_commit env pid m (se_root env @ [stage_prefix pid' @ rnd]) w of
     (r, w') \<Rightarrow> update_outcome env pid (se_root env @ [stage_prefix pid' @ rnd]) w r w'"
  using ends_Update_commit [OF refl, of env pid m pid' rnd w] by (simp add: ends_def)


subsection \<open>Key-value files\<close>

text \<open>What is stored for a plugin, as the next read would see it; \<open>None\<close> when it cannot be read.\<close>

definition kv_file :: "store_env \<Rightarrow> string \<Rightarrow> path" where
  "kv_file env pid = data_dir env pid @ [kvFileName]"

definition kv_stored :: "store_env \<Rightarrow> string \<Rightarrow> world \<Rightarrow> (string \<rightharpoonup> string) option" where
  "kv_stored env pid w =
     (case node_at (kv_file env pid) w of
        None \<Rightarrow> Some Map.empty
      | Some DirNode \<Rightarrow> None
      | Some (FileNode c x) \<Rightarrow>
          (case se_dec_kv env c of Inl e \<Rightarrow> None | Inr kv \<Rightarrow> Some (map_of (case kv of None \<Rightarrow> [] | Some kvs \<Rightarrow> kvs))))"

text \<open>A file is read back as it was written, up to the order of the keys.\<close>

definition kv_codec_ok :: "store_env \<Rightarrow> bool" where
  "kv_codec_ok env \<longleftrightarrow>
     se_dec_kv env (se_enc_kv env None @ [CHR 0x0A]) = Inr None \<and>
     (\<forall>kvs. \<exists>kvs'. se_dec_kv env (se_enc_kv env (Some kvs) @ [CHR 0x0A]) = Inr (Some kvs') \<and> map_of kvs' = map_of kvs)"

lemma map_of_set_key [simp]: "map_of (set_key k v kvs) = (map_of kvs)(k \<mapsto> v)"
proof -
  have "map_of (filter (\<lambda>(l, _). l \<noteq> k) kvs) l = (if l = k then None else map_of kvs l)" for l
    by (induction kvs) auto
  then show ?thesis by (auto simp: set_key_def fun_eq_iff)
qed

lemma map_of_drop_key [simp]: "map_of (drop_key k kvs) = (map_of kvs)(k := None)"
proof -
  have "map_of (filter (\<lambda>(l, _). l \<noteq> k) kvs) l = (if l = k then None else map_of kvs l)" for l
    by (induction kvs) auto
  then show ?thesis by (auto simp: drop_key_def fun_eq_iff)
qed

lemma kv_file_not_above: "\<not> prefix (kv_file env pid) (data_dir env pid)"
  by (auto simp: kv_file_def prefix_def)

lemma ends_kv_path:
  "ends (kv_path env pid) (\<lambda>r w'. node_at (kv_file env pid) w' = node_at (kv_file env pid) w \<and>
     (\<forall>p. r = Inr p \<longrightarrow> p = kv_file env pid)) w"
  using gives_kv_path [of env pid, unfolded gives_def, rule_format, of w]
  by (intro ends_conj stays_ends [OF node_kv_path] kv_file_not_above)
    (auto elim!: ends_mono simp: kv_file_def split: sum.split_asm)

lemma ends_kv_read:
  "ends (kv_read env pid) (\<lambda>r w'. node_at (kv_file env pid) w' = node_at (kv_file env pid) w \<and>
     (\<forall>kv. r = Inr kv \<longrightarrow> kv_stored env pid w = Some (map_of (case kv of None \<Rightarrow> [] | Some kvs \<Rightarrow> kvs)))) w"
  unfolding kv_read_def
proof (rule ends_andthen [OF ends_kv_path])
  fix p and w1 :: world
  assume "node_at (kv_file env pid) w1 = node_at (kv_file env pid) w \<and>
    (\<forall>q. (Inr p :: plugin_error + path) = Inr q \<longrightarrow> q = kv_file env pid)"
  then have a: "p = kv_file env pid" "node_at (kv_file env pid) w1 = node_at (kv_file env pid) w" by auto
  show "ends (andthen (os_ReadFile p) (\<lambda>r. case r of None \<Rightarrow> ret (Some [])
      | Some raw \<Rightarrow> (case se_dec_kv env raw of Inl e \<Rightarrow> fail (BadJSON e) | Inr kv \<Rightarrow> ret kv)))
    (\<lambda>r w'. node_at (kv_file env pid) w' = node_at (kv_file env pid) w \<and>
      (\<forall>kv. r = Inr kv \<longrightarrow> kv_stored env pid w = Some (map_of (case kv of None \<Rightarrow> [] | Some kvs \<Rightarrow> kvs)))) w1"
    unfolding a(1) ends_simps os_ReadFile_def sysread_def
    by (rule ends_syscall)
      (use a(2) in \<open>auto simp: kv_stored_def split: option.split node.split sum.split\<close>)
qed simp

lemma ends_kv_write:
  "ends (kv_write env pid kv) (\<lambda>r w'.
     case r of
       Inl e \<Rightarrow> node_at (kv_file env pid) w' = node_at (kv_file env pid) w
     | Inr _ \<Rightarrow> \<exists>x. node_at (kv_file env pid) w' = Some (FileNode (se_enc_kv env kv @ [CHR 0x0A]) x)) w"
  unfolding kv_write_def
proof (rule ends_andthen [OF ends_kv_path])
  fix p and w1 :: world
  assume "node_at (kv_file env pid) w1 = node_at (kv_file env pid) w \<and>
    (\<forall>q. (Inr p :: plugin_error + path) = Inr q \<longrightarrow> q = kv_file env pid)"
  then have a: "p = kv_file env pid" "node_at (kv_file env pid) w1 = node_at (kv_file env pid) w" by auto
  let ?tmp = "data_dir env pid @ [kvFileName @ ''.tmp'']" and ?c = "se_enc_kv env kv @ [CHR 0x0A]"
  have t: "butlast p @ [last p @ ''.tmp''] = ?tmp" by (simp add: a(1) kv_file_def)
  have ne: "kv_file env pid \<noteq> ?tmp" by (simp add: kv_file_def)
  show "ends (let tmp = butlast p @ [last p @ ''.tmp''] in
      andthen (os_WriteFile tmp (se_enc_kv env kv @ [CHR 0x0A])) (\<lambda>_. os_Rename tmp p))
    (\<lambda>r w'. case r of Inl e \<Rightarrow> node_at (kv_file env pid) w' = node_at (kv_file env pid) w
      | Inr _ \<Rightarrow> \<exists>x. node_at (kv_file env pid) w' = Some (FileNode ?c x)) w1"
    unfolding Let_def t
  proof (rule ends_andthen [OF ends_conj [OF stays_ends [OF node_WriteFile [OF ne]]
        ends_WriteFile [where Q = "\<lambda>r w'. r = Inr () \<longrightarrow> (\<exists>x. node_at ?tmp w' = Some (FileNode ?c x))"]]])
    fix u w2
    assume b: "node_at (kv_file env pid) w2 = node_at (kv_file env pid) w1 \<and>
      ((Inr u :: plugin_error + unit) = Inr () \<longrightarrow> (\<exists>x. node_at ?tmp w2 = Some (FileNode ?c x)))"
    then obtain x where x: "node_at ?tmp w2 = Some (FileNode ?c x)" by auto
    show "ends (os_Rename ?tmp p) (\<lambda>r w'. case r of Inl e \<Rightarrow> node_at (kv_file env pid) w' = node_at (kv_file env pid) w
      | Inr _ \<Rightarrow> \<exists>x. node_at (kv_file env pid) w' = Some (FileNode ?c x)) w2"
      unfolding a(1) by (rule ends_Rename) (use a(2) b x in \<open>simp_all add: disk_move_lookup\<close>)
  qed (use a in \<open>simp_all add: holds_file_def\<close>)
qed simp

definition old_or_new :: "store_env \<Rightarrow> string \<Rightarrow> ((string \<rightharpoonup> string) \<Rightarrow> string \<rightharpoonup> string) \<Rightarrow> world \<Rightarrow> plugin_error + unit \<Rightarrow> world \<Rightarrow> bool" where
  "old_or_new env pid f w r w' \<longleftrightarrow>
     (case r of
        Inl e \<Rightarrow> node_at (kv_file env pid) w' = node_at (kv_file env pid) w
      | Inr _ \<Rightarrow> \<exists>kvs. kv_stored env pid w = Some kvs \<and> kv_stored env pid w' = Some (f kvs))"

lemma ends_kv_store:
  assumes "kv_codec_ok env" "node_at (kv_file env pid) w1 = node_at (kv_file env pid) w"
    "kv_stored env pid w = Some kvs" "map_of (case kv of None \<Rightarrow> [] | Some l \<Rightarrow> l) = f kvs"
  shows "ends (kv_write env pid kv) (old_or_new env pid f w) w1"
proof (rule ends_mono [OF ends_kv_write])
  fix r :: "plugin_error + unit" and w' :: world
  assume a: "case r of Inl e \<Rightarrow> node_at (kv_file env pid) w' = node_at (kv_file env pid) w1
      | Inr _ \<Rightarrow> \<exists>x. node_at (kv_file env pid) w' = Some (FileNode (se_enc_kv env kv @ [CHR 0x0A]) x)"
  show "old_or_new env pid f w r w'"
  proof (cases r)
    case (Inr u)
    then obtain x where x: "node_at (kv_file env pid) w' = Some (FileNode (se_enc_kv env kv @ [CHR 0x0A]) x)" using a by auto
    obtain kv' where kv': "se_dec_kv env (se_enc_kv env kv @ [CHR 0x0A]) = Inr kv'"
      "map_of (case kv' of None \<Rightarrow> [] | Some l \<Rightarrow> l) = map_of (case kv of None \<Rightarrow> [] | Some l \<Rightarrow> l)"
    proof (cases kv)
      case None
      then show ?thesis using assms(1) that [of None] by (simp add: kv_codec_ok_def)
    next
      case (Some l)
      then obtain l' where "se_dec_kv env (se_enc_kv env (Some l) @ [CHR 0x0A]) = Inr (Some l')" "map_of l' = map_of l"
        using assms(1) unfolding kv_codec_ok_def by blast
      then show ?thesis using that [of "Some l'"] Some by simp
    qed
    have "kv_stored env pid w' = Some (f kvs)" using assms(4) by (simp add: kv_stored_def x kv')
    then show ?thesis using assms(3) Inr by (simp add: old_or_new_def)
  qed (use a assms(2) in \<open>simp add: old_or_new_def\<close>)
qed


subsection \<open>Archives stay in their directory\<close>

lemma node_extract_entries:
  assumes "parallel q tmp" "RelRef_sound (se_codec env)"
  shows "stays (node_at q) (extract_entries env tmp n d fs)"
proof (induction fs arbitrary: n d)
  case (Cons f fs)
  let ?t = "path_Join tmp (path_Clean (ze_Name f))"
  have t: "q \<noteq> ?t" "\<not> prefix q (butlast ?t)" if "RelRef (se_codec env) (path_Clean (ze_Name f))"
    using parallel_below [OF assms(1) RelRef_inside(1) [OF assms(2) that, of tmp]]
    by (auto dest: prefix_order.trans [OF _ prefixeq_butlast])
  show ?case
    unfolding extract_entries.simps Let_def
    by (intro stays_intros Cons.IH) (use t in auto)
qed (simp add: stays_simple)

text \<open>
  C26: Extracting an archive writes nothing outside the fresh temporary directory it was given, whatever the
  names, sizes and contents of the entries and whatever the file system does.
\<close>

theorem extraction_stays_inside:
  assumes "RelRef_sound (se_codec env)" "\<not> prefix q (se_tmp env)"
    "\<And>r. r \<in> set rnds \<Longrightarrow> parallel q (se_tmp env @ [''oc-plugin-'' @ r])"
  shows "stays (node_at q) (extractPluginZip env zipPath rnds)"
proof -
  have inner: "stays (node_at q) (andthen (os_MkdirTemp (se_tmp env) ''oc-plugin-'' rnds) (\<lambda>tmp.
      andthen (attempt (extract_entries env tmp 0 None fs)) (\<lambda>r. case r of
         Inl e \<Rightarrow> andthen (warn_err (os_RemoveAll tmp)) (\<lambda>_. fail e)
       | Inr None \<Rightarrow> andthen (warn_err (os_RemoveAll tmp)) (\<lambda>_. fail (BadSource ''zip has no plugin.json''))
       | Inr (Some dir) \<Rightarrow> ret (path_Join tmp dir, tmp))))" for fs
  proof (rule stays_bind [OF _ gives_MkdirTemp])
    show "stays (node_at q) (os_MkdirTemp (se_tmp env) ''oc-plugin-'' rnds)"
      using assms(3) by (intro stays_intros) (auto simp: parallel_def)
    fix tmp assume "\<exists>r\<in>set rnds. tmp = se_tmp env @ [''oc-plugin-'' @ r]"
    then have t: "parallel q tmp" "\<not> prefix tmp q" using assms(3) by (auto simp: parallel_def)
    show "stays (node_at q) (andthen (attempt (extract_entries env tmp 0 None fs)) (\<lambda>r. case r of
         Inl e \<Rightarrow> andthen (warn_err (os_RemoveAll tmp)) (\<lambda>_. fail e)
       | Inr None \<Rightarrow> andthen (warn_err (os_RemoveAll tmp)) (\<lambda>_. fail (BadSource ''zip has no plugin.json''))
       | Inr (Some dir) \<Rightarrow> ret (path_Join tmp dir, tmp)))"
      by (intro stays_intros node_extract_entries assms(1) t)
  qed
  show ?thesis
    unfolding extractPluginZip_def
    by (rule stays_andthen, intro stays_intros node_view.os_reads)
      (rule stays_andthen, intro stays_intros, rule inner)
qed

subsection \<open>A sample registry\<close>

text \<open>A manifest is the text \<open>id@version\<close>, a data file its entries with every character marked.\<close>

definition text_id :: "string \<Rightarrow> string" where "text_id raw = takeWhile (\<lambda>c. c \<noteq> CHR ''@'') raw"

definition text_version :: "string \<Rightarrow> string" where
  "text_version raw = drop 1 (dropWhile (\<lambda>c. c \<noteq> CHR ''@'') raw)"

definition text_manifest :: "string \<Rightarrow> Manifest" where
  "text_manifest raw =
     \<lparr>mf_ID = text_id raw, mf_Name = ''n'', mf_Version = text_version raw, mf_MinHostVersion = '''',
      mf_Entry = ''index.js'', mf_Permissions = [], mf_Kraft = None, mf_Skills = [], mf_McpServers = [], mf_Hooks = [],
      mf_Tools = [], mf_Update = None\<rparr>"

definition text_codec :: manifest_codec where
  "text_codec =
     \<lparr>js_manifest = (\<lambda>raw. Inr (text_manifest raw)), js_legacy = (\<lambda>raw. Inr (None, '''')),
      js_probe_id = (\<lambda>raw. Inr (text_id raw)), js_probe_version = (\<lambda>raw. Some (text_version raw)),
      js_object = (\<lambda>raw. None), js_valid = (\<lambda>raw. True), url_parse = (\<lambda>u. None),
      RelRef = (\<lambda>p. p \<noteq> '''' \<and> \<not> path_IsAbs p \<and> dotdot \<notin> set (split_on (CHR ''/'') p))\<rparr>"

definition enc_text :: "string \<Rightarrow> string" where
  "enc_text s = concat (map (\<lambda>c. [CHR ''+'', c]) s) @ ''.''"

fun dec_text :: "string \<Rightarrow> string \<times> string" where
  "dec_text (c # d # r) =
     (if c = CHR ''+'' then (case dec_text r of (s, t) \<Rightarrow> (d # s, t)) else ([], d # r))"
| "dec_text _ = ([], [])"

definition enc_pairs :: "(string \<times> string) list \<Rightarrow> string" where
  "enc_pairs kvs = concat (map (\<lambda>(k, v). enc_text k @ enc_text v) kvs)"

fun dec_pairs :: "nat \<Rightarrow> string \<Rightarrow> (string \<times> string) list" where
  "dec_pairs 0 s = []"
| "dec_pairs (Suc n) s =
     (if s = [CHR 0x0A] then []
      else (case dec_text s of (k, r) \<Rightarrow> (case dec_text r of (v, r') \<Rightarrow> (k, v) # dec_pairs n r')))"

definition sample_store :: store_env where
  "sample_store =
     \<lparr>se_codec = text_codec, se_root = [''plugins''], se_builtin = None, se_hostVersion = '''', se_tmp = [''tmp''],
      se_dec_state = (\<lambda>raw. Inr (Some [])), se_enc_state = (\<lambda>st. ''{}''),
      se_dec_kv = (\<lambda>raw. Inr (if raw = ''null'' @ [CHR 0x0A] then None else Some (dec_pairs (length raw) raw))),
      se_enc_kv = (\<lambda>kv. case kv of None \<Rightarrow> ''null'' | Some kvs \<Rightarrow> enc_pairs kvs),
      se_sign = (\<lambda>n. (None, n)), se_unzip = (\<lambda>raw. Inr [])\<rparr>"

lemma dec_enc_text: "r \<noteq> [] \<Longrightarrow> dec_text (enc_text s @ r) = (s, r)"
  by (induction s) (auto simp: enc_text_def neq_Nil_conv)

lemma enc_text_length: "Suc 0 \<le> length (enc_text s)"
  by (simp add: enc_text_def)

lemma dec_enc_pairs: "length kvs \<le> n \<Longrightarrow> 0 < n \<Longrightarrow> dec_pairs n (enc_pairs kvs @ [CHR 0x0A]) = kvs"
proof (induction kvs arbitrary: n)
  case Nil
  then show ?case by (cases n) (simp_all add: enc_pairs_def)
next
  case (Cons kv kvs)
  obtain k v where kv: "kv = (k, v)" by (cases kv)
  obtain m where n: "n = Suc m" using Cons.prems by (cases n) auto
  have e: "enc_pairs (kv # kvs) @ [CHR 0x0A] = enc_text k @ enc_text v @ enc_pairs kvs @ [CHR 0x0A]"
    by (simp add: enc_pairs_def kv)
  have "length (enc_text k @ enc_text v @ enc_pairs kvs @ [CHR 0x0A]) \<noteq> length [CHR 0x0A]"
    using enc_text_length [of k] by auto
  then have ne: "enc_text k @ enc_text v @ enc_pairs kvs @ [CHR 0x0A] \<noteq> [CHR 0x0A]" by metis
  have rest: "dec_pairs m (enc_pairs kvs @ [CHR 0x0A]) = kvs"
  proof (cases m)
    case 0
    then show ?thesis using Cons.prems n by simp
  next
    case (Suc l)
    then show ?thesis using Cons.IH [of m] Cons.prems n by simp
  qed
  show ?case unfolding e using ne by (simp add: n dec_enc_text rest kv)
qed

lemma enc_pairs_length: "length kvs \<le> length (enc_pairs kvs)"
proof (induction kvs)
  case (Cons kv kvs)
  then show ?case using enc_text_length by (cases kv) (auto simp: enc_pairs_def enc_text_def)
qed (simp add: enc_pairs_def)

lemma sample_kv_codec: "kv_codec_ok sample_store"
proof -
  have "enc_pairs kvs @ [CHR 0x0A] \<noteq> ''null'' @ [CHR 0x0A]" for kvs
  proof (cases kvs)
    case (Cons kv l)
    obtain k v where kv: "kv = (k, v)" by (cases kv)
    show ?thesis by (cases k) (simp_all add: Cons kv enc_pairs_def enc_text_def)
  qed (simp add: enc_pairs_def)
  moreover have "dec_pairs (length (enc_pairs kvs @ [CHR 0x0A])) (enc_pairs kvs @ [CHR 0x0A]) = kvs" for kvs
    using enc_pairs_length [of kvs] by (intro dec_enc_pairs) simp_all
  ultimately show ?thesis by (simp add: kv_codec_ok_def sample_store_def)
qed

lemma sample_RelRef: "RelRef_sound (se_codec sample_store)"
  by (simp add: RelRef_sound_def sample_store_def text_codec_def)

lemma sample_sign: "sign_keeps_manifests sample_store"
  by (simp add: sign_keeps_manifests_def sample_store_def)

text \<open>A disk with the plugins \<open>notes\<close> and \<open>foo\<close>, and a newer \<open>notes\<close> beside the registry.\<close>

definition sample_disk :: disk where
  "sample_disk =
     [([''plugins''], DirNode), ([''plugins'', ''notes''], DirNode),
      ([''plugins'', ''notes'', ''plugin.json''], FileNode ''notes@1.0.0'' False),
      ([''plugins'', ''foo''], DirNode), ([''plugins'', ''foo'', ''plugin.json''], FileNode ''foo@1'' False),
      ([''src''], DirNode), ([''src'', ''plugin.json''], FileNode ''notes@1.1'' False),
      ([''src'', ''.git''], DirNode), ([''src'', ''.git'', ''x''], FileNode ''x'' False)]"

definition sample_world :: world where
  "sample_world = \<lparr>w_disk = sample_disk, w_faults = [], w_rev = 0, w_owed = 0\<rparr>"



theorem extraction_stays_inside_witness:
  "stays (node_at [''tmp'', ''other'']) (extractPluginZip sample_store [''dl'', ''p.zip''] [''1'', ''2''])"
  by (rule extraction_stays_inside [OF sample_RelRef]) (auto simp: sample_store_def)

end
