(* ===== verification/PluginHistoryLaws.thy ===== *)
theory PluginHistoryLaws
  imports PluginStoreLaws
begin

text \<open>
  Histories of the registry: what is installed under an id stays something the registry can serve, whatever
  calls are made, however the sections of \<open>Install\<close> and \<open>Update\<close> interleave, and whatever faults every call
  of the file system meets. The theory ends with traces of where the registry leaves its promise.
\<close>

subsection \<open>The invariant\<close>

text \<open>What lies under a directory's \<open>plugin.json\<close>, if anything does, loads as the manifest of \<open>pid\<close>.\<close>

definition served :: "store_env \<Rightarrow> string \<Rightarrow> path \<Rightarrow> world \<Rightarrow> bool" where
  "served env pid p w \<longleftrightarrow>
     (case node_at (p @ [plugin_json]) w of
        None \<Rightarrow> True
      | Some DirNode \<Rightarrow> False
      | Some (FileNode c x) \<Rightarrow> is_ok (snd (parseManifest (se_codec env) pid c)))"

definition discard_dir :: "store_env \<Rightarrow> string \<Rightarrow> path" where
  "discard_dir env pid = backup_dir env (pid @ ''.discard'')"

definition ready :: "store_env \<Rightarrow> string \<Rightarrow> path \<Rightarrow> world \<Rightarrow> bool" where
  "ready env pid p w \<longleftrightarrow>
     idRe pid \<and> (\<exists>c. holds_file (p @ [plugin_json]) c w \<and> is_ok (snd (parseManifest (se_codec env) pid c)))"

definition call_ok :: "store_env \<Rightarrow> string \<Rightarrow> world \<Rightarrow> inflight \<Rightarrow> bool" where
  "call_ok env pid w c \<longleftrightarrow>
     (\<exists>x r. inflight_dir c = se_root env @ [stage_prefix x @ r]) \<and>
     (case c of
        Installing m p \<Rightarrow> ready env (mf_ID m) p w
      | Updating i m p \<Rightarrow> i \<noteq> pid @ ''.discard'' \<and> ready env i p w
      | Leaving p \<Rightarrow> True)"

definition plugin_inv :: "store_env \<Rightarrow> string \<Rightarrow> plugin_sys \<Rightarrow> bool" where
  "plugin_inv env pid s \<longleftrightarrow>
     RelRef_sound (se_codec env) \<and> sign_keeps_manifests env \<and> idRe pid \<and>
     served env pid (user_dir env pid) (rs_world s) \<and> served env pid (discard_dir env pid) (rs_world s) \<and>
     (\<forall>c\<in>set (rs_calls s). call_ok env pid (rs_world s) c) \<and> distinct (map inflight_dir (rs_calls s))"

text \<open>
  The snapshots of \<open>pid\<close> and of the plugin \<open>pid.discard\<close> share a directory: an update or rollback of the
  latter is left out.
\<close>

fun spares :: "string \<Rightarrow> fault option list \<times> plugin_call \<Rightarrow> bool" where
  "spares pid (fs, BeginUpdate i src rnds) = (i \<noteq> pid @ ''.discard'')"
| "spares pid (fs, CallRollback i) = (i \<noteq> pid @ ''.discard'')"
| "spares pid _ = True"

lemma served_tree: "served env pid p w \<longleftrightarrow>
  (case tree p w [plugin_json] of None \<Rightarrow> True | Some DirNode \<Rightarrow> False
   | Some (FileNode c x) \<Rightarrow> is_ok (snd (parseManifest (se_codec env) pid c)))"
  by (simp add: served_def tree_at_def)

lemma served_cong: "node_at (p @ [plugin_json]) w' = node_at (p @ [plugin_json]) w \<Longrightarrow> served env pid p w' = served env pid p w"
  by (simp add: served_def)

lemma served_tree_cong: "tree p w' = tree q w \<Longrightarrow> served env pid p w' = served env pid q w"
  by (simp add: served_tree)

lemma served_empty: "tree p w = Map.empty \<Longrightarrow> served env pid p w"
  by (simp add: served_tree)

lemma served_file: "holds_file (p @ [plugin_json]) c w \<Longrightarrow> is_ok (snd (parseManifest (se_codec env) pid c)) \<Longrightarrow> served env pid p w"
  by (auto simp: served_def holds_file_def)

lemma keeps_served: "stays (node_at (p @ [plugin_json])) m \<Longrightarrow> keeps (served env pid p) m"
  unfolding keeps_def by (intro allI impI ends_mono [OF stays_ends]) (assumption, metis served_cong)

lemma keeps_served_RemoveAll: "keeps (served env pid p) (os_RemoveAll q)"
  unfolding keeps_def os_RemoveAll_def
  by (intro allI impI ends_syscall) (simp add: served_def split: option.split)

lemma keeps_warn_err: "keeps P m \<Longrightarrow> keeps P (warn_err m)"
  by (simp add: keeps_def)

lemma keeps_conj: "keeps P m \<Longrightarrow> keeps Q m \<Longrightarrow> keeps (\<lambda>w. P w \<and> Q w) m"
  unfolding keeps_def by (auto intro: ends_conj)

lemma keepsD: "keeps P m \<Longrightarrow> P w \<Longrightarrow> P (snd (m w))"
  by (simp add: keeps_def ends_def case_prod_beta)

subsection \<open>Renames among directories of one plugin\<close>

lemma keeps_served_Rename:
  assumes "parallel s t" "parallel u s" "parallel u t"
  shows "keeps (\<lambda>w. served env pid s w \<and> served env pid t w \<and> served env pid u w) (os_Rename s t)"
  unfolding keeps_def
proof (intro allI impI)
  fix w assume a: "served env pid s w \<and> served env pid t w \<and> served env pid u w"
  show "ends (os_Rename s t) (\<lambda>_ w'. served env pid s w' \<and> served env pid t w' \<and> served env pid u w') w"
  proof (rule ends_Rename_tree [OF assms(1)])
    fix e w' assume "\<And>u. tree u w' = tree u w"
    then show "served env pid s w' \<and> served env pid t w' \<and> served env pid u w'" using a served_tree_cong by blast
  next
    fix w' assume t: "tree t w' = tree s w" "tree s w' = Map.empty"
      "\<And>v. parallel v s \<Longrightarrow> parallel v t \<Longrightarrow> tree v w' = tree v w"
    show "served env pid s w' \<and> served env pid t w' \<and> served env pid u w'"
      using a served_tree_cong [OF t(1)] served_empty [OF t(2)] served_tree_cong [OF t(3) [OF assms(2,3)]] by blast
  qed
qed

lemma keeps_restore_snapshot:
  assumes "parallel dir pending" "parallel dir backup" "parallel pending backup"
  shows "keeps (\<lambda>w. served env pid dir w \<and> served env pid pending w \<and> served env pid backup w)
    (restore_snapshot dir pending backup)"
proof -
  let ?P = "\<lambda>w. served env pid dir w \<and> served env pid pending w \<and> served env pid backup w"
  note c = assms [THEN parallel_commute [THEN iffD1]]
  have ren: "keeps ?P (os_Rename dir pending)" "keeps ?P (os_Rename backup dir)" "keeps ?P (os_Rename pending dir)"
    using keeps_served_Rename [OF assms(1) c(2,3), of env pid] keeps_served_Rename [OF c(2) assms(3) c(1), of env pid]
      keeps_served_Rename [OF c(1) c(3,2), of env pid]
    unfolding keeps_def by (simp_all add: conj_ac)
  have rm: "keeps ?P (os_RemoveAll q)" for q by (intro keeps_conj keeps_served_RemoveAll)
  have still: "keeps ?P m" if "stays w_disk m" for m :: "'a io"
    unfolding keeps_def by (intro allI impI ends_mono [OF stays_ends [OF that]]) (simp add: served_def)
  have "keeps ?P (case r of Inl e \<Rightarrow> andthen (warn_err (os_Rename pending dir)) (\<lambda>_. fail e)
        | Inr _ \<Rightarrow> andthen bump_revision (\<lambda>_. warn_err (os_RemoveAll pending)))" for r :: "plugin_error + unit"
    by (cases r) (simp_all only: sum.case, (intro keeps_andthen keeps_warn_err ren rm still [OF stays_simple(2)] still [OF disk_bump(1)])+)
  then show ?thesis
    unfolding restore_snapshot_def
    by (intro keeps_andthen keeps_warn_err rm keeps_attempt ren still [OF disk_view.os_reads(1)])
      (simp_all add: ren still [OF stays_simple(1)] split: option.split)
qed

lemma plugin_paths_apart:
  assumes "idRe pid"
  shows "parallel (user_dir env pid) (discard_dir env pid)" "parallel (user_dir env pid) (backup_dir env pid)"
    "parallel (discard_dir env pid) (backup_dir env pid)"
  using plugin_dirs_apart(1) [OF assms] plugin_dirs_apart(4) [OF assms] by (simp_all add: discard_dir_def)

lemma parallel_down: "parallel a b \<Longrightarrow> parallel (a @ x) b"
  by (metis parallel_append append_Nil2)

lemma ends_read_snapshot:
  "ends (attempt (os_ReadFile p)) (\<lambda>r w'. w_disk w' = w_disk w \<and> (\<forall>raw. r = Inr (Inr (Some raw)) \<longrightarrow> holds_file p raw w)) w"
  unfolding ends_attempt os_ReadFile_def sysread_def
  by (rule ends_syscall) (auto simp: holds_file_def split: option.split node.split)

lemma disk_then:
  assumes "stays w_disk m" "\<And>x w'. w_disk w' = w_disk w \<Longrightarrow> ends (f x) Q w'" "\<And>e w'. w_disk w' = w_disk w \<Longrightarrow> Q (Inl e) w'"
  shows "ends (andthen m f) Q w"
  by (rule ends_andthen [OF stays_ends [OF assms(1)]]) (auto intro: assms(2,3))

lemma served_disk: "w_disk w' = w_disk w \<Longrightarrow> served env pid p w' = served env pid p w"
  by (simp add: served_def)

lemma ends_returned: "(\<And>x. r = Inr x \<Longrightarrow> ends (f x) Q w) \<Longrightarrow> (\<And>e. Q (Inl e) w) \<Longrightarrow> ends (andthen (returned r) f) Q w"
  by (cases r) simp_all

lemma ends_ensured: "(c = None \<Longrightarrow> ends (f ()) Q w) \<Longrightarrow> (\<And>e. Q (Inl e) w) \<Longrightarrow> ends (andthen (ensure c) f) Q w"
  by (cases c) simp_all

abbreviation both_served :: "store_env \<Rightarrow> string \<Rightarrow> world \<Rightarrow> bool" where
  "both_served env pid w \<equiv> served env pid (user_dir env pid) w \<and> served env pid (discard_dir env pid) w"

lemma rollback_restores:
  assumes "idRe pid" "both_served env pid w" "served env pid (backup_dir env pid) w"
  shows "ends (andthen (restore_snapshot (user_dir env pid) (backup_dir env (pid @ ''.discard'')) (backup_dir env pid))
        (\<lambda>_. andthen (summaryFromManifest m d b) (summary_with_state env pid))) (\<lambda>_. both_served env pid) w"
proof (rule ends_andthen)
  show "ends (restore_snapshot (user_dir env pid) (backup_dir env (pid @ ''.discard'')) (backup_dir env pid))
      (\<lambda>_ w'. served env pid (user_dir env pid) w' \<and> served env pid (discard_dir env pid) w' \<and>
        served env pid (backup_dir env pid) w') w"
    using keeps_restore_snapshot [OF plugin_paths_apart [OF assms(1), of env], of env pid] assms(2,3)
    by (simp add: keeps_def discard_dir_def)
  fix x w2
  assume "served env pid (user_dir env pid) w2 \<and> served env pid (discard_dir env pid) w2 \<and> served env pid (backup_dir env pid) w2"
  then have b: "both_served env pid w2" by simp
  show "ends (andthen (summaryFromManifest m d b) (summary_with_state env pid)) (\<lambda>_. both_served env pid) w2" for d b
    by (rule ends_mono [OF stays_ends [where f = w_disk]], intro stays_intros disk_view.quietly)
      (use b served_disk in blast)
qed simp

lemma rollback_prepares:
  assumes "idRe pid" "RelRef_sound (se_codec env)" "sign_keeps_manifests env" "both_served env pid w"
    "holds_file (backup_dir env pid @ [plugin_json]) raw w" "authored_manifest env raw = Inr m" "mf_ID m = pid"
  shows "ends (andthen (preparePluginDir env (backup_dir env pid) m)
      (\<lambda>_. andthen (restore_snapshot (user_dir env pid) (backup_dir env (pid @ ''.discard'')) (backup_dir env pid))
        (\<lambda>_. andthen (summaryFromManifest m d b) (summary_with_state env pid)))) (\<lambda>_. both_served env pid) w"
proof (rule ends_andthen)
  let ?snap = "backup_dir env pid"
  obtain m0 where m0: "js_manifest (se_codec env) raw = Inr m0" using authored_json [OF assms(6)] by blast
  note wf = authored_wf [OF assms(6)] and apart = plugin_paths_apart [OF assms(1), of env]
  have s: "stays (node_at (user_dir env pid @ [plugin_json])) (preparePluginDir env ?snap m)"
    "stays (node_at (discard_dir env pid @ [plugin_json])) (preparePluginDir env ?snap m)"
    using apart by (auto intro!: node_preparePluginDir parallel_down assms(2) wf(1))
  have k: "keeps (holds_file (?snap @ [plugin_json]) raw) (preparePluginDir env ?snap m)"
    by (rule keeps_preparePluginDir [OF assms(3) m0])
  show "ends (preparePluginDir env ?snap m) (\<lambda>_ w2. both_served env pid w2 \<and> holds_file (?snap @ [plugin_json]) raw w2) w"
    using keeps_conj [OF keeps_conj [OF keeps_served [OF s(1)] keeps_served [OF s(2)]] k] assms(4,5) by (simp add: keeps_def)
  fix x w2 assume b: "both_served env pid w2 \<and> holds_file (?snap @ [plugin_json]) raw w2"
  have "served env pid ?snap w2" by (rule served_file [OF conjunct2 [OF b]]) (use wf(3) assms(7) in simp)
  then show "ends (andthen (restore_snapshot (user_dir env pid) (backup_dir env (pid @ ''.discard'')) ?snap)
      (\<lambda>_. andthen (summaryFromManifest m d b) (summary_with_state env pid))) (\<lambda>_. both_served env pid) w2" for d b
    using b by (intro rollback_restores assms(1)) blast+
qed simp

lemma Rollback_keeps_served:
  assumes "idRe pid" "RelRef_sound (se_codec env)" "sign_keeps_manifests env"
  shows "keeps (both_served env pid) (Rollback env pid)"
  unfolding keeps_def
proof (intro allI impI)
  fix w assume a: "both_served env pid w"
  have P: "both_served env pid w'" if "w_disk w' = w_disk w" for w' using a served_disk [OF that] by blast
  show "ends (Rollback env pid) (\<lambda>_. both_served env pid) w"
    unfolding Rollback_def
  proof (rule disk_then [OF stays_simple(4)], rule ends_andthen [OF ends_read_snapshot], goal_cases)
    case (1 u w1 r w2)
    then have d: "w_disk w2 = w_disk w" by simp
    show ?case
    proof (cases "\<exists>raw. r = Inr (Some raw)")
      case True
      then obtain raw where r: "r = Inr (Some raw)" by blast
      have h: "holds_file (backup_dir env pid @ [plugin_json]) raw w2" using 1 r d by (simp add: holds_file_def)
      show ?thesis
        unfolding r sum.case option.case
        by (intro ends_returned ends_ensured rollback_prepares [OF assms P [OF d] h])
          (use P [OF d] in \<open>simp_all split: if_split_asm\<close>)
    next
      case False
      then show ?thesis using P [OF d] by (auto split: sum.split option.split)
    qed
  qed (use P in auto)
qed

subsection \<open>One call\<close>

lemma served_stays: "stays (node_at (user_dir env pid @ [plugin_json])) m \<Longrightarrow>
   stays (node_at (discard_dir env pid @ [plugin_json])) m \<Longrightarrow> keeps (both_served env pid) m"
  by (intro keeps_conj keeps_served)

lemma call_ok_cong:
  assumes "node_at (inflight_dir c @ [plugin_json]) w' = node_at (inflight_dir c @ [plugin_json]) w" "call_ok env pid w c"
  shows "call_ok env pid w' c"
  using assms by (cases c) (auto simp: call_ok_def ready_def holds_file_def)

lemma inv_run_section:
  assumes "plugin_inv env pid s" "keeps (both_served env pid) m"
    "\<And>x r. stays (node_at (se_root env @ [stage_prefix x @ r, plugin_json])) m"
  shows "plugin_inv env pid (run_section m s)"
proof -
  have k: "both_served env pid (snd (m (rs_world s)))"
    using keepsD [OF assms(2)] assms(1) by (simp add: plugin_inv_def)
  have "call_ok env pid (snd (m (rs_world s))) c" if "c \<in> set (rs_calls s)" for c
  proof -
    have c: "call_ok env pid (rs_world s) c" using assms(1) that by (simp add: plugin_inv_def)
    then obtain x r where "inflight_dir c = se_root env @ [stage_prefix x @ r]" by (auto simp: call_ok_def)
    then have "node_at (inflight_dir c @ [plugin_json]) (snd (m (rs_world s))) = node_at (inflight_dir c @ [plugin_json]) (rs_world s)"
      using staysD [OF assms(3) [of x r], of "rs_world s" "fst (m (rs_world s))"] by simp
    then show ?thesis using c by (rule call_ok_cong)
  qed
  then show ?thesis using assms(1) k by (simp add: plugin_inv_def run_section_def)
qed

lemma invalid_id: "\<not> idRe i \<Longrightarrow> stays f (Rollback env i)" "\<not> idRe i \<Longrightarrow> stays f (Uninstall env i)"
    "\<not> idRe i \<Longrightarrow> stays f (Update_commit env i m p)"
proof -
  assume n: "\<not> idRe i"
  then have v: "ValidateID i = Some (InvalidID i)" by (simp add: ValidateID_def)
  show "stays f (Rollback env i)" "stays f (Uninstall env i)" "stays f (Update_commit env i m p)"
    unfolding stays_def Rollback_def Uninstall_def Update_commit_def pluginDir_def by (simp_all add: v)
qed

lemma parallel_Cons: "parallel (a # xs) (b # ys) \<longleftrightarrow> a \<noteq> b \<or> parallel xs ys"
  by (auto simp: parallel_def)

lemma live_path: "user_dir env pid @ [plugin_json] = se_root env @ [pid, plugin_json]"
  and disc_path: "discard_dir env pid @ [plugin_json] = se_root env @ [''.backups'', pid @ ''.discard'', plugin_json]"
  by (simp_all add: dirs_def discard_dir_def)

lemma inv_SetEnabled: "plugin_inv env pid s \<Longrightarrow> plugin_inv env pid (run_section (SetEnabled env i b) s)"
  by (rule inv_run_section)
    (auto intro!: served_stays node_SetEnabled simp: live_path disc_path plugin_json_def pluginStateFile_def)

lemma inv_KV:
  assumes "plugin_inv env pid s"
  shows "plugin_inv env pid (run_section (KV_Set env i k v) s)" "plugin_inv env pid (run_section (KV_Delete env i k) s)"
    "plugin_inv env pid (run_section (KV_RemoveAll env i) s)"
proof -
  have "idRe pid" using assms by (simp add: plugin_inv_def)
  then have p: "parallel (user_dir env pid @ [plugin_json]) (data_dir env i)" "parallel (discard_dir env pid @ [plugin_json]) (data_dir env i)"
    "parallel (se_root env @ [stage_prefix x @ r, plugin_json]) (data_dir env i)" for x r
    using id_names(4) by (auto simp: live_path disc_path data_dir_def parallel_Cons stage_prefix_def)
  show "plugin_inv env pid (run_section (KV_Set env i k v) s)" "plugin_inv env pid (run_section (KV_Delete env i k) s)"
    "plugin_inv env pid (run_section (KV_RemoveAll env i) s)"
    by (rule inv_run_section [OF assms]; (intro served_stays)?; rule node_KV; rule p)+
qed

lemma inv_Entries: "plugin_inv env pid s \<Longrightarrow> plugin_inv env pid (run_section (Entries env) s)"
proof (rule inv_run_section)
  have "stays (node_at q) (Entries env)" if "\<not> prefix q (se_root env)" for q
    unfolding Entries_def using that by (intro node_view.quietly stays_intros)
  then show "keeps (both_served env pid) (Entries env)" "stays (node_at (se_root env @ [stage_prefix x @ r, plugin_json])) (Entries env)"
    for x r by (auto intro!: served_stays simp: live_path disc_path)
qed

lemma inv_Uninstall: "plugin_inv env pid s \<Longrightarrow> plugin_inv env pid (run_section (Uninstall env i) s)"
proof (rule inv_run_section)
  have st: "stays (node_at (se_root env @ [stage_prefix x @ r, plugin_json])) (Uninstall env i)" if "idRe i" for x r
    using id_names [OF that] by (intro node_Uninstall) (auto simp: dirs_def stage_prefix_def pluginStateFile_def)
  then show "stays (node_at (se_root env @ [stage_prefix x @ r, plugin_json])) (Uninstall env i)" for x r
    using invalid_id(2) by blast
  have "keeps (served env pid p) (Uninstall env i)" if p: "p @ [plugin_json] \<noteq> se_root env @ [pluginStateFile]" for p
  proof -
    have w: "keeps (served env pid p) (writeState env st)" for st by (intro keeps_served node_writeState p)
    have q: "keeps (served env pid p) m" if "stays w_disk m" for m :: "'a io"
      unfolding keeps_def by (intro allI impI ends_mono [OF stays_ends [OF that]]) (simp add: served_def)
    show ?thesis
      unfolding Uninstall_def
      by (intro keeps_andthen q [OF disk_view.pluginDir])
        (auto intro!: keeps_andthen keeps_served_RemoveAll keeps_warn_err w intro: keeps_served node_view.readState disk_bump(2) stays_simple
          split: prod.split)
  qed
  then show "keeps (both_served env pid) (Uninstall env i)"
    by (intro keeps_conj) (auto simp: live_path disc_path plugin_json_def pluginStateFile_def)
qed

lemma inv_Rollback:
  assumes "plugin_inv env pid s" "i \<noteq> pid @ ''.discard''"
  shows "plugin_inv env pid (run_section (Rollback env i) s)"
proof (rule inv_run_section [OF assms(1)])
  have e: "idRe pid" "RelRef_sound (se_codec env)" "sign_keeps_manifests env" using assms(1) by (simp_all add: plugin_inv_def)
  have "stays (node_at (se_root env @ [stage_prefix x @ r, plugin_json])) (Rollback env i)" if "idRe i" for x r
    using id_names [OF that] by (intro node_Rollback e(2)) (auto simp: dirs_def stage_prefix_def parallel_Cons)
  then show "stays (node_at (se_root env @ [stage_prefix x @ r, plugin_json])) (Rollback env i)" for x r
    using invalid_id(1) by blast
  show "keeps (both_served env pid) (Rollback env i)"
  proof (cases "i = pid")
    case True
    then show ?thesis using Rollback_keeps_served e by blast
  next
    case False
    have "keeps (both_served env pid) (Rollback env i)" if "idRe i"
      using False assms(2) id_names [OF e(1)] id_names [OF that]
      by (intro served_stays node_Rollback e(2)) (auto simp: live_path disc_path dirs_def parallel_Cons)
    then show ?thesis using invalid_id(1) served_stays by blast
  qed
qed

subsection \<open>Sections of installations and updates\<close>

lemma unused_fresh:
  assumes "r \<in> set (unused_names env calls rnds)" "c \<in> set calls" "inflight_dir c = root @ [y]"
  shows "y \<noteq> x @ r"
proof
  assume "y = x @ r"
  then have "has_suffix (last (inflight_dir c)) r" using assms(3) by (auto simp: has_suffix_iff)
  then show False using assms(1,2) by (auto simp: unused_names_def list_all_iff)
qed

lemma inv_begin:
  assumes "plugin_inv env pid s" "rnds' = unused_names env (rs_calls s) rnds"
    "\<And>q. not_staged env rnds' q \<Longrightarrow> stays (node_at q) m"
    "ends m (\<lambda>res w'. \<forall>mf p. res = Inr (mf, p) \<longrightarrow> call_ok env pid w' (f mf p) \<and>
       (\<exists>r\<in>set rnds'. \<exists>x. inflight_dir (f mf p) = se_root env @ [stage_prefix x @ r])) (rs_world s)"
  shows "plugin_inv env pid (begin_call m f s)"
proof -
  obtain res w' where m: "m (rs_world s) = (res, w')" by (cases "m (rs_world s)")
  have pid: "idRe pid" using assms(1) by (simp add: plugin_inv_def)
  have st: "stays (node_at (se_root env @ a # b # rest)) m" if "\<And>x r. r \<in> set rnds' \<Longrightarrow> a \<noteq> stage_prefix x @ r" for a b rest
    using that by (intro assms(3)) (auto simp: not_staged_def parallel_Cons prefix_def)
  have live: "keeps (both_served env pid) m"
    using id_names(6) [OF pid] by (intro served_stays; unfold live_path disc_path; intro st) (auto simp: stage_prefix_def)
  have calls: "call_ok env pid w' c" if c: "c \<in> set (rs_calls s)" for c
  proof -
    have ok: "call_ok env pid (rs_world s) c" using assms(1) c by (simp add: plugin_inv_def)
    then obtain y where y: "inflight_dir c = se_root env @ [y]" by (auto simp: call_ok_def)
    have "node_at (inflight_dir c @ [plugin_json]) w' = node_at (inflight_dir c @ [plugin_json]) (rs_world s)"
      using staysD [OF st [of y plugin_json "[]"] m] unused_fresh [OF _ c y] by (simp add: y assms(2))
    then show ?thesis using ok by (rule call_ok_cong)
  qed
  have new: "call_ok env pid w' (f mf p) \<and> inflight_dir (f mf p) \<notin> inflight_dir ` set (rs_calls s)" if "res = Inr (mf, p)" for mf p
  proof -
    have n: "call_ok env pid w' (f mf p) \<and> (\<exists>r\<in>set rnds'. \<exists>x. inflight_dir (f mf p) = se_root env @ [stage_prefix x @ r])"
      using assms(4) that by (simp add: ends_def m)
    then obtain r x where r: "r \<in> set rnds'" "inflight_dir (f mf p) = se_root env @ [stage_prefix x @ r]" by blast
    have "inflight_dir (f mf p) \<noteq> inflight_dir c" if c: "c \<in> set (rs_calls s)" for c
    proof -
      have "call_ok env pid (rs_world s) c" using assms(1) c by (simp add: plugin_inv_def)
      then obtain y where y: "inflight_dir c = se_root env @ [y]" by (auto simp: call_ok_def)
      show ?thesis using unused_fresh [OF r(1) [unfolded assms(2)] c y] r(2) y by auto
    qed
    then show ?thesis using n by auto
  qed
  have "both_served env pid w'" using keepsD [OF live, of "rs_world s"] assms(1) by (simp add: plugin_inv_def m)
  then show ?thesis
    using assms(1) calls new by (auto simp: plugin_inv_def begin_call_def m split: sum.split prod.split)
qed

lemma prepared_ready:
  assumes "prepared env src rnds w r w'" "r = Inr (m, p)"
  shows "ready env (mf_ID m) p w' \<and> (\<exists>r\<in>set rnds. p = se_root env @ [stage_prefix (mf_ID m) @ r])"
proof -
  obtain c where c: "authored_manifest env c = Inr m" "staged_at env rnds m c p w'"
    using assms by (auto simp: prepared_def)
  show ?thesis using authored_wf [OF c(1)] c(2) by (auto simp: ready_def staged_at_def)
qed

lemma inv_BeginInstall:
  assumes "plugin_inv env pid s"
  shows "plugin_inv env pid (begin_call (Install_prepare env src (unused_names env (rs_calls s) rnds)) Installing s)"
proof (rule inv_begin [OF assms refl])
  have e: "RelRef_sound (se_codec env)" "sign_keeps_manifests env" using assms by (simp_all add: plugin_inv_def)
  show "stays (node_at q) (Install_prepare env src (unused_names env (rs_calls s) rnds))"
    if "not_staged env (unused_names env (rs_calls s) rnds) q" for q by (rule node_Install_prepare [OF that e(1)])
  show "ends (Install_prepare env src (unused_names env (rs_calls s) rnds)) (\<lambda>res w'. \<forall>mf p. res = Inr (mf, p) \<longrightarrow>
      call_ok env pid w' (Installing mf p) \<and> (\<exists>r\<in>set (unused_names env (rs_calls s) rnds). \<exists>x.
        inflight_dir (Installing mf p) = se_root env @ [stage_prefix x @ r])) (rs_world s)"
    by (rule ends_mono [OF ends_Install_prepare [OF e(2)]]) (auto simp: call_ok_def dest!: prepared_ready)
qed

lemma inv_BeginUpdate:
  assumes "plugin_inv env pid s" "i \<noteq> pid @ ''.discard''"
  shows "plugin_inv env pid (begin_call (Update_prepare env i src (unused_names env (rs_calls s) rnds)) (Updating i) s)"
proof (rule inv_begin [OF assms(1) refl])
  have e: "RelRef_sound (se_codec env)" "sign_keeps_manifests env" using assms by (simp_all add: plugin_inv_def)
  show "stays (node_at q) (Update_prepare env i src (unused_names env (rs_calls s) rnds))"
    if "not_staged env (unused_names env (rs_calls s) rnds) q" for q by (rule node_Update_prepare [OF that e(1)])
  show "ends (Update_prepare env i src (unused_names env (rs_calls s) rnds)) (\<lambda>res w'. \<forall>mf p. res = Inr (mf, p) \<longrightarrow>
      call_ok env pid w' (Updating i mf p) \<and> (\<exists>r\<in>set (unused_names env (rs_calls s) rnds). \<exists>x.
        inflight_dir (Updating i mf p) = se_root env @ [stage_prefix x @ r])) (rs_world s)"
  proof (rule ends_mono [OF ends_Update_prepare [OF e(2)]], intro allI impI)
    fix r w' mf p
    assume a: "prepared env src (unused_names env (rs_calls s) rnds) (rs_world s) r w' \<and>
      (\<forall>m p. r = Inr (m, p) \<longrightarrow> mf_ID m = i)" and r: "r = Inr (mf, p)"
    show "call_ok env pid w' (Updating i mf p) \<and> (\<exists>r\<in>set (unused_names env (rs_calls s) rnds). \<exists>x.
        inflight_dir (Updating i mf p) = se_root env @ [stage_prefix x @ r])"
      using prepared_ready [OF conjunct1 [OF a] r] a r assms(2) by (auto simp: call_ok_def)
  qed
qed

text \<open>A commit moves its own staging directory; the calls in flight beside it keep theirs.\<close>

lemma calls_after:
  assumes "distinct (map inflight_dir cs)" "i < length cs" "inflight_dir (cs ! i) = p"
  shows "distinct (map inflight_dir (cs[i := Leaving p]))"
    "distinct (map inflight_dir (take i cs @ drop (Suc i) cs))"
    "c \<in> set (cs[i := Leaving p]) \<Longrightarrow> c = Leaving p \<or> c \<in> set cs \<and> inflight_dir c \<noteq> p"
    "c \<in> set (take i cs @ drop (Suc i) cs) \<Longrightarrow> c \<in> set cs \<and> inflight_dir c \<noteq> p"
proof -
  have e: "cs = take i cs @ cs ! i # drop (Suc i) cs" using assms(2) by (rule id_take_nth_drop)
  have d: "distinct (map inflight_dir (take i cs) @ p # map inflight_dir (drop (Suc i) cs))"
    using assms(1,3) by (subst (asm) e) simp
  show "distinct (map inflight_dir (take i cs @ drop (Suc i) cs))" using d by simp
  show "distinct (map inflight_dir (cs[i := Leaving p]))"
    using d assms(2) by (simp add: upd_conv_take_nth_drop)
  have s: "set cs = insert (cs ! i) (set (take i cs) \<union> set (drop (Suc i) cs))" by (subst e) simp
  have rest: "c \<in> set cs \<and> inflight_dir c \<noteq> p" if "c \<in> set (take i cs) \<union> set (drop (Suc i) cs)" for c
    using that d s by auto
  show "c \<in> set cs \<and> inflight_dir c \<noteq> p" if "c \<in> set (take i cs @ drop (Suc i) cs)" using rest that by simp
  show "c = Leaving p \<or> c \<in> set cs \<and> inflight_dir c \<noteq> p" if "c \<in> set (cs[i := Leaving p])"
    using rest that assms(2) by (auto simp: upd_conv_take_nth_drop)
qed

lemma inv_finish:
  assumes "plugin_inv env pid s" "i < length (rs_calls s)" "inflight_dir (rs_calls s ! i) = p"
    "both_served env pid (snd (m (rs_world s)))"
    "\<And>x r. \<not> prefix p (se_root env @ [stage_prefix x @ r]) \<Longrightarrow> stays (node_at (se_root env @ [stage_prefix x @ r, plugin_json])) m"
    "new = (rs_calls s)[i := Leaving p] \<or> new = take i (rs_calls s) @ drop (Suc i) (rs_calls s)"
  shows "plugin_inv env pid ((run_section m s)\<lparr>rs_calls := new\<rparr>)"
proof -
  have dist: "distinct (map inflight_dir (rs_calls s))" and ok: "\<And>c. c \<in> set (rs_calls s) \<Longrightarrow> call_ok env pid (rs_world s) c"
    using assms(1) by (simp_all add: plugin_inv_def)
  note after = calls_after [OF dist assms(2,3)]
  have "rs_calls s ! i \<in> set (rs_calls s)" using assms(2) by simp
  then obtain x r where p: "p = se_root env @ [stage_prefix x @ r]" using ok [of "rs_calls s ! i"] assms(3) by (auto simp: call_ok_def)
  have old: "call_ok env pid (snd (m (rs_world s))) c" if c: "c \<in> set (rs_calls s)" "inflight_dir c \<noteq> p" for c
  proof -
    obtain y z where y: "inflight_dir c = se_root env @ [stage_prefix y @ z]" using ok [OF c(1)] by (auto simp: call_ok_def)
    then have "\<not> prefix p (se_root env @ [stage_prefix y @ z])" using c(2) p by auto
    then have "node_at (inflight_dir c @ [plugin_json]) (snd (m (rs_world s))) = node_at (inflight_dir c @ [plugin_json]) (rs_world s)"
      using staysD [OF assms(5), of y z "rs_world s" "fst (m (rs_world s))"] by (simp add: y)
    then show ?thesis using ok [OF c(1)] by (rule call_ok_cong)
  qed
  have "call_ok env pid (snd (m (rs_world s))) (Leaving p)" using p by (auto simp: call_ok_def)
  then have "call_ok env pid (snd (m (rs_world s))) c" if "c \<in> set new" for c
    using assms(6) after(3,4) that old by auto
  moreover have "distinct (map inflight_dir new)" using assms(6) after(1,2) by auto
  ultimately show ?thesis using assms(1,4) by (simp add: plugin_inv_def run_section_def)
qed

abbreviation holds_one :: "path \<Rightarrow> path \<Rightarrow> world \<Rightarrow> world \<Rightarrow> bool" where
  "holds_one live staged w w' \<equiv> tree live w' \<in> {tree live w, tree staged w}"

lemma ends_Install_commit:
  assumes "parallel staged (user_dir env (mf_ID m))"
  shows "ends (Install_commit env m staged) (\<lambda>_. holds_one (user_dir env (mf_ID m)) staged w) w"
  unfolding Install_commit_def Let_def
proof (rule disk_then [OF disk_view.os_reads(1)])
  let ?Q = "holds_one (user_dir env (mf_ID m)) staged w"
  fix x :: "node option" and w2 :: world assume d: "w_disk w2 = w_disk w"
  show "ends (case x of None \<Rightarrow> andthen (os_Rename staged (user_dir env (mf_ID m))) (\<lambda>_. andthen bump_revision
      (\<lambda>_. andthen (summaryFromManifest m (user_dir env (mf_ID m)) False) (withBuiltinInfo env)))
      | Some _ \<Rightarrow> fail (AlreadyInstalled (mf_ID m))) (\<lambda>_. ?Q) w2"
  proof (cases x)
    case None
    show ?thesis
      unfolding None option.case
    proof (rule ends_andthen [where P = "\<lambda>_. ?Q"])
      show "ends (os_Rename staged (user_dir env (mf_ID m))) (\<lambda>_. ?Q) w2"
        by (rule ends_Rename_tree [OF assms]) (simp_all add: d)
      show "ends (andthen bump_revision (\<lambda>_. andthen (summaryFromManifest m (user_dir env (mf_ID m)) False) (withBuiltinInfo env)))
          (\<lambda>_. ?Q) w3" if "?Q w3" for w3
        by (rule ends_mono [OF stays_ends [where f = w_disk]]) (use that in \<open>(intro stays_intros disk_view.quietly disk_bump(1) | simp)+\<close>)
    qed
  qed (simp add: d)
qed simp

lemma ready_served: "ready env pid p w \<Longrightarrow> served env pid p w"
  by (auto simp: ready_def intro: served_file)

lemma holds_one_served:
  "holds_one live staged w w' \<Longrightarrow> served env pid live w \<Longrightarrow> served env pid staged w \<Longrightarrow> served env pid live w'"
  using served_tree_cong by blast

lemma stage_names:
  "idRe i \<Longrightarrow> \<not> prefix (user_dir env i) (se_root env @ [stage_prefix x @ r, plugin_json])"
  "\<not> prefix (se_root env @ [stage_prefix x @ r, plugin_json]) (backups_dir env)"
  "\<not> prefix (backup_dir env b) (se_root env @ [stage_prefix x @ r, plugin_json])"
  using id_names(6) by (auto simp: dirs_def stage_prefix_def)

lemma proceed_Installing:
  assumes "plugin_inv env pid s" "p = se_root env @ [stage_prefix y @ z]" "ready env (mf_ID m) p (rs_world s)"
  shows "both_served env pid (snd (Install_commit env m p (rs_world s)))"
    "\<not> prefix p (se_root env @ [stage_prefix x @ r]) \<Longrightarrow>
     stays (node_at (se_root env @ [stage_prefix x @ r, plugin_json])) (Install_commit env m p)"
proof -
  have id: "idRe (mf_ID m)" "idRe pid" using assms(1,3) by (simp_all add: ready_def plugin_inv_def)
  show "stays (node_at (se_root env @ [stage_prefix x @ r, plugin_json])) (Install_commit env m p)"
    if "\<not> prefix p (se_root env @ [stage_prefix x @ r])"
    using that stage_names(1) [OF id(1)] by (intro node_Install_commit) (auto simp: assms(2))
  let ?w = "rs_world s" and ?w' = "snd (Install_commit env m p (rs_world s))"
  have b: "both_served env pid ?w" using assms(1) by (simp add: plugin_inv_def)
  have "stays (node_at (discard_dir env pid @ [plugin_json])) (Install_commit env m p)"
    using id_names [OF id(1)] by (intro node_Install_commit) (auto simp: disc_path assms(2) dirs_def stage_prefix_def)
  then have "served env pid (discard_dir env pid) ?w'" using b keeps_served keepsD by blast
  moreover have "served env pid (user_dir env pid) ?w'"
  proof (cases "mf_ID m = pid")
    case True
    have "holds_one (user_dir env pid) p ?w ?w'"
      using ends_Install_commit [of p env m ?w] plugin_dirs_apart(2) [OF id(1), of env y z] True
      by (simp add: ends_def case_prod_beta assms(2) parallel_commute)
    then show ?thesis using b assms(3) True ready_served holds_one_served by blast
  next
    case False
    then have "stays (node_at (user_dir env pid @ [plugin_json])) (Install_commit env m p)"
      using id_names [OF id(2)] by (intro node_Install_commit) (auto simp: live_path assms(2) dirs_def)
    then show ?thesis using b keeps_served keepsD by blast
  qed
  ultimately show "both_served env pid ?w'" by blast
qed

lemma proceed_Updating:
  assumes "plugin_inv env pid s" "p = se_root env @ [stage_prefix y @ z]" "ready env i p (rs_world s)" "i \<noteq> pid @ ''.discard''"
  shows "both_served env pid (snd (Update_commit env i m p (rs_world s)))"
    "\<not> prefix p (se_root env @ [stage_prefix x @ r]) \<Longrightarrow>
     stays (node_at (se_root env @ [stage_prefix x @ r, plugin_json])) (Update_commit env i m p)"
proof -
  have id: "idRe i" "idRe pid" using assms(1,3) by (simp_all add: ready_def plugin_inv_def)
  show "stays (node_at (se_root env @ [stage_prefix x @ r, plugin_json])) (Update_commit env i m p)"
    if "\<not> prefix p (se_root env @ [stage_prefix x @ r])"
    using that by (intro node_Update_commit stage_names(2,3) stage_names(1) [OF id(1)]) (simp add: assms(2))
  let ?w = "rs_world s" and ?w' = "snd (Update_commit env i m p (rs_world s))"
  have b: "both_served env pid ?w" using assms(1) by (simp add: plugin_inv_def)
  have "stays (node_at (discard_dir env pid @ [plugin_json])) (Update_commit env i m p)"
    using id_names [OF id(1)] assms(4)
    by (intro node_Update_commit) (auto simp: disc_path assms(2) dirs_def stage_prefix_def dest: arg_cong [where f = rev])
  then have "served env pid (discard_dir env pid) ?w'" using b keeps_served keepsD by blast
  moreover have "served env pid (user_dir env pid) ?w'"
  proof (cases "i = pid")
    case True
    have "update_outcome env pid p ?w (fst (Update_commit env i m p ?w)) ?w'"
      using ends_Update_commit [OF assms(2), where pid = i and m = m and w = ?w] True by (simp add: ends_def case_prod_beta)
    then have "tree (user_dir env pid) ?w' \<in> {tree (user_dir env pid) ?w, tree p ?w, Map.empty}"
      unfolding update_outcome_def Let_def by blast
    then show ?thesis using b ready_served [OF assms(3)] True served_tree_cong served_empty by blast
  next
    case False
    then have "stays (node_at (user_dir env pid @ [plugin_json])) (Update_commit env i m p)"
      using id_names [OF id(2)] by (intro node_Update_commit) (auto simp: live_path assms(2) dirs_def)
    then show ?thesis using b keeps_served keepsD by blast
  qed
  ultimately show "both_served env pid ?w'" by blast
qed

lemma inv_proceed:
  assumes "plugin_inv env pid s"
  shows "plugin_inv env pid (proceed env i s)"
proof (cases "i < length (rs_calls s)")
  case True
  have ok: "call_ok env pid (rs_world s) (rs_calls s ! i)" using assms True by (simp add: plugin_inv_def)
  then obtain y z where p: "inflight_dir (rs_calls s ! i) = se_root env @ [stage_prefix y @ z]" by (auto simp: call_ok_def)
  note finish = inv_finish [OF assms True refl]
  show ?thesis
  proof (cases "rs_calls s ! i")
    case (Installing m q)
    then have q: "q = se_root env @ [stage_prefix y @ z]" "ready env (mf_ID m) q (rs_world s)" using p ok by (simp_all add: call_ok_def)
    show ?thesis
      using finish [OF _ _ disjI1 [OF refl], of "Install_commit env m q"] proceed_Installing [OF assms q] True Installing
      by (simp add: proceed_def)
  next
    case (Updating j m q)
    then have q: "q = se_root env @ [stage_prefix y @ z]" "ready env j q (rs_world s)" "j \<noteq> pid @ ''.discard''"
      using p ok by (simp_all add: call_ok_def)
    show ?thesis
      using finish [OF _ _ disjI1 [OF refl], of "Update_commit env j m q"] proceed_Updating [OF assms q] True Updating
      by (simp add: proceed_def)
  next
    case (Leaving q)
    have b: "both_served env pid (snd (os_RemoveAll q (rs_world s)))"
      using keepsD [OF keeps_served_RemoveAll] assms by (auto simp: plugin_inv_def)
    have "stays (node_at (se_root env @ [stage_prefix x @ r, plugin_json])) (os_RemoveAll q)"
      if "\<not> prefix q (se_root env @ [stage_prefix x @ r])" for x r
      using that p Leaving by (intro node_RemoveAll) simp
    then show ?thesis
      using finish [OF _ _ disjI2 [OF refl], of "os_RemoveAll q"] b True Leaving by (simp add: proceed_def)
  qed
qed (use assms in \<open>simp add: proceed_def\<close>)

lemma outside_lookup:
  "outside env p \<Longrightarrow> map_of (disk_put p n d) (se_root env @ q) = map_of d (se_root env @ q)"
  by (auto simp: outside_def)

lemma inv_world:
  assumes "plugin_inv env pid s" "\<And>q. node_at (se_root env @ q) w' = node_at (se_root env @ q) (rs_world s)"
  shows "plugin_inv env pid (s\<lparr>rs_world := w'\<rparr>)"
proof -
  have "call_ok env pid w' c" if c: "call_ok env pid (rs_world s) c" for c
  proof (rule call_ok_cong [OF _ c])
    show "node_at (inflight_dir c @ [plugin_json]) w' = node_at (inflight_dir c @ [plugin_json]) (rs_world s)"
      using c assms(2) by (auto simp: call_ok_def)
  qed
  moreover have "both_served env pid w' = both_served env pid (rs_world s)"
    unfolding served_def live_path disc_path by (simp add: assms(2))
  ultimately show ?thesis using assms(1) by (simp add: plugin_inv_def)
qed

lemma inv_step:
  assumes "plugin_inv env pid s" "spares pid c"
  shows "plugin_inv env pid (plugin_step env c s)"
proof -
  obtain fs call where c: "c = (fs, call)" by (cases c)
  have s: "plugin_inv env pid (s\<lparr>rs_world := (rs_world s)\<lparr>w_faults := fs\<rparr>\<rparr>)" by (rule inv_world [OF assms(1)]) simp
  show ?thesis
    unfolding plugin_step_def c fst_conv snd_conv
    by (cases call)
      (use assms(2) c inv_BeginInstall [OF s] inv_BeginUpdate [OF s] inv_proceed [OF s] inv_SetEnabled [OF s] inv_Rollback [OF s]
        inv_Uninstall [OF s] inv_Entries [OF s] inv_KV [OF s] inv_world [OF s] outside_lookup in simp_all)
qed

subsection \<open>Histories\<close>

definition spared_step :: "store_env \<Rightarrow> string \<Rightarrow> fault option list \<times> plugin_call \<Rightarrow> plugin_sys \<Rightarrow> plugin_sys" where
  "spared_step env pid c s = (if spares pid c then plugin_step env c s else s)"

interpretation plugin_hist: call_system "spared_step env pid" "plugin_inv env pid" for env pid
  by unfold_locales (simp add: spared_step_def inv_step)

lemma run_spared:
  "list_all (spares pid) cs \<Longrightarrow> run_calls (spared_step env pid) cs s = run_calls (plugin_step env) cs s"
  by (induction cs arbitrary: s) (simp_all add: spared_step_def)


text \<open>
  A history: an update of \<open>notes\<close> is staged; the source changes and \<open>foo\<close> is switched off before it is
  committed; the staging directory goes. What is live is the version that was staged.
\<close>

definition sample_calls :: "(fault option list \<times> plugin_call) list" where
  "sample_calls =
     [([], BeginUpdate ''notes'' [''src''] [''7'']), ([], EditSource [''src'', ''plugin.json''] (FileNode ''broken'' False)),
      ([], CallSetEnabled ''foo'' False), ([], Proceed 0), ([], Proceed 0)]"


subsection \<open>Names that collide\<close>

text \<open>
  The snapshot of the plugin \<open>foo.pending\<close> lies where an update of \<open>foo\<close> keeps its pending one: updating
  \<open>foo\<close> removes it, and \<open>foo.pending\<close> can no longer be rolled back.
\<close>

definition shared_disk :: disk where
  "shared_disk =
     [([''plugins''], DirNode), ([''plugins'', ''foo''], DirNode), ([''plugins'', ''foo'', plugin_json], FileNode ''foo@1.0.0'' False),
      ([''plugins'', ''foo.pending''], DirNode), ([''plugins'', ''foo.pending'', plugin_json], FileNode ''foo.pending@1.1'' False),
      ([''plugins'', ''.backups''], DirNode), ([''plugins'', ''.backups'', ''foo.pending''], DirNode),
      ([''plugins'', ''.backups'', ''foo.pending'', plugin_json], FileNode ''foo.pending@1.0.0'' False),
      ([''src''], DirNode), ([''src'', plugin_json], FileNode ''foo@1.1'' False)]"

lemma update_takes_anothers_snapshot:
  "let w = sample_world\<lparr>w_disk := shared_disk\<rparr>;
       (r, w') = Update sample_store ''foo'' [''src''] [''7''] w
   in is_ok r \<and> is_ok (fst (Rollback sample_store ''foo.pending'' w)) \<and>
      fst (Rollback sample_store ''foo.pending'' w') = Inl (NoSnapshot ''foo.pending'')"
  by code_simp

text \<open>
  \<open>state.json\<close> is an id the registry accepts. Its directory stands where the choices of the user are read:
  once it is installed nothing can be listed, and nothing enabled or disabled.
\<close>

definition state_disk :: disk where
  "state_disk =
     [([''plugins''], DirNode), ([''plugins'', ''foo''], DirNode), ([''plugins'', ''foo'', plugin_json], FileNode ''foo@1.0.0'' False),
      ([''src''], DirNode), ([''src'', plugin_json], FileNode ''state.json@1.0.0'' False)]"

lemma installing_state_json_blocks_the_registry:
  "let w = sample_world\<lparr>w_disk := state_disk\<rparr>;
       (r, w') = Install sample_store [''src''] [''7''] w
   in is_ok r \<and> is_ok (fst (Entries sample_store w)) \<and> \<not> is_ok (fst (Entries sample_store w')) \<and>
      is_ok (fst (SetEnabled sample_store ''foo'' False w)) \<and> \<not> is_ok (fst (SetEnabled sample_store ''foo'' False w'))"
  by code_simp

subsection \<open>Entries that are listed or chosen twice\<close>

text \<open>
  A user plugin whose manifest does not load is listed but not recorded as seen: the builtin plugin it
  shadows is listed beside it, under the same id.
\<close>

definition broken_disk :: disk where
  "broken_disk =
     [([''plugins''], DirNode), ([''plugins'', ''notes''], DirNode), ([''plugins'', ''notes'', plugin_json], FileNode ''broken'' False),
      ([''app''], DirNode), ([''app'', ''notes''], DirNode), ([''app'', ''notes'', plugin_json], FileNode ''notes@1.0.0'' False)]"

lemma broken_plugin_is_listed_twice:
  "(case fst (Entries (sample_store\<lparr>se_builtin := Some [''app'']\<rparr>) (sample_world\<lparr>w_disk := broken_disk\<rparr>)) of
      Inl e \<Rightarrow> []
    | Inr es \<Rightarrow> map (\<lambda>e. (ps_ID (pe_Summary e), ps_Builtin (pe_Summary e), ps_Error (pe_Summary e) = None)) es) =
   [(''notes'', False, False), (''notes'', True, True)]"
  by code_simp

text \<open>An archive is installed from the last \<open>plugin.json\<close> of its listing, at whatever depth that lies.\<close>

definition zipped :: "string \<Rightarrow> string \<Rightarrow> zip_entry" where
  "zipped name c = \<lparr>ze_Name = name, ze_IsDir = False, ze_Size = length c, ze_Open = Inr c, ze_Copied = None\<rparr>"

definition nested_zip :: "zip_entry list" where
  "nested_zip = [zipped ''notes/plugin.json'' ''notes@1.0.0'', zipped ''notes/docs/sample/plugin.json'' ''foo@1.0.0'']"

lemma zip_installs_its_last_manifest:
  "(case fst (InstallZip (sample_store\<lparr>se_unzip := (\<lambda>raw. Inr nested_zip)\<rparr>) [''p.zip''] [''1''] [''2'']
       (sample_world\<lparr>w_disk := [([''plugins''], DirNode), ([''tmp''], DirNode), ([''p.zip''], FileNode ''zip'' False)]\<rparr>)) of
      Inl e \<Rightarrow> ''''
    | Inr sm \<Rightarrow> ps_ID sm) = ''foo''"
  by code_simp

end
