(* ===== verification/Spec2Isabelle.thy ===== *)
theory Spec2Isabelle
  imports GoPrelude NetGuard PatchParse PatchUnified PatchApply PatchDiff PatchHost
    ExecPolicyLaws RecurrenceLaws AutoTasksLaws SchedulerLaws ExecPoolLaws ReplayLaws HostPoolLaws AgentsLaws PluginsLaws PluginStoreLaws
    PluginHistoryLaws
begin

text \<open>
  This library models the Go program of \<open>src/\<close>, the \<open>opencraft\<close> coding assistant, where it decides
  something: what may be connected to, patched, run, scheduled, replayed to the model, asked of the
  user and kept alive. Each component is one theory of definitions in the order of its source files
  and one of laws about them; a small component has both in one theory.

  \<^bold>\<open>The program.\<close> An adapter (\<open>internal/adapters\<close>, the desktop window or the headless command) asks the
  workspace host pool (\<open>internal/orchestration/host\<close>) for the runtime of a workspace. The runtime runs
  turns: it replays the stored conversation to a model (\<open>capabilities/worldstate\<close>) and carries out the
  tools the model calls. Tools edit files through the patch engine (\<open>foundation/utils/patch\<close>), reach the
  network through the address guard (\<open>foundation/netguard\<close>), run commands on leased children of the exec
  pool (\<open>capabilities/execd\<close>) when the exec policy (\<open>capabilities/execpolicy\<close>) lets them, and ask the
  user through the prompt broker (\<open>orchestration/interact\<close>). Subagents are declared on disk and registered in the
  runtime (\<open>capabilities/agents\<close>). The automation scheduler
  (\<open>capabilities/automations\<close>) starts turns of its own at the times its schedules name.

  \<^bold>\<open>How the code is rendered.\<close> A struct is a record, an enumeration a datatype, a map a partial function,
  a byte string a \<open>string\<close>, an error return the left of a sum or an \<open>option\<close> next to the new state.
  Stateful methods take and return the state. Code with locks is a set of goroutines, each a program
  counter with its locals, interleaved between critical sections and calls out: a history is any list
  of API calls and section runs, so what is proved of histories holds of every schedule
  (\<open>Goroutines\<close>: \<open>held\<close>, \<open>run_thread\<close>, the contract \<open>interleaving\<close>; \<open>GoPrelude\<close>: \<open>run_calls\<close>, the contract
  \<open>call_system\<close>). Libraries, files, databases, clocks and the network are arguments: a record of
  functions, or the input of a section. Integers are unbounded where the code cannot reach their
  width; where it can (\<open>wrap64\<close> in \<open>Recurrence\<close>, words in \<open>NetGuard\<close> and \<open>Replay\<close>) they wrap.

  \<^bold>\<open>The theories.\<close>

  \<^item> \<open>GoPrelude\<close>, \<open>GoUtf8\<close>, \<open>GoTime\<close>, \<open>Goroutines\<close>: the part of Go's language and library that the code uses
    (\<open>strings\<close>, \<open>strconv\<close>, \<open>utf8\<close>, \<open>time\<close>), and the two contracts above.
  \<^item> \<open>NetGuard\<close> is \<open>netguard.go\<close>: the classifier agrees with a table of CIDR blocks; no dial reaches a
    blocked address whatever the resolver answers; redirects are bounded and checked at every hop.
  \<^item> \<open>PatchParse\<close>, \<open>PatchUnified\<close>, \<open>PatchApply\<close>, \<open>PatchDiff\<close>, \<open>PatchHost\<close> are \<open>patch.go\<close>, \<open>unified.go\<close>,
    \<open>diff.go\<close> and \<open>host.go\<close>: accepted paths stay inside, printing and parsing round-trip, a hunk replaces
    the first occurrence of its lines, \<open>Apply\<close> refines a map of files and stops at the first failure, what a
    failed hunk's diagnosis says is true, the rendered line numbers are those of the files.
  \<^item> \<open>ExecPolicy\<close>, \<open>ExecPolicyLaws\<close> are \<open>execpolicy.go\<close>: the approved and the escaped commands are two
    interpretations of one contract (\<open>rule_store\<close>); both questions fail closed; over every history the
    live rules are the configured and the saved ones.
  \<^item> \<open>Recurrence\<close>, \<open>RecurrenceLaws\<close> are \<open>recurrence.go\<close>: the scans for the next trigger are loops without a
    static bound, \<open>partial_function (option)\<close> with \<open>None\<close> for one that never returns; \<open>Next\<close> returns, ahead of
    its argument, and is the earliest occurrence where the zone has one offset.
  \<^item> \<open>AutoTasks\<close>, \<open>AutoTasksLaws\<close> are \<open>model.go\<close> and \<open>store.go\<close>: the rows pass validation over every
    history, the run log keeps the newest entries. \<open>Scheduler\<close>, \<open>SchedulerLaws\<close> are \<open>manager.go\<close> and
    \<open>runner.go\<close>: the limit, one run per task, a dispatcher for queued work, the slot a run gives back.
  \<^item> \<open>ExecPool\<close>, \<open>ExecPoolLaws\<close> are \<open>pool.go\<close> and the lifecycle of \<open>runner.go\<close>: no child is lost or shared,
    shutdown stops all of them, the active count is exact, the idle list bounded.
  \<^item> \<open>Replay\<close>, \<open>ReplayLaws\<close> are \<open>fold.go\<close>, \<open>prune.go\<close>, \<open>structured_context.go\<close>, \<open>merge.go\<close>, \<open>tailblock.go\<close>
    and the fold range of \<open>compact.js\<close>: the replay answers every tool call, a fold reads as its
    specification, positions of the channel name the right rows.
  \<^item> \<open>HostPool\<close>, \<open>HostPoolLaws\<close> are \<open>pool.go\<close>, \<open>build.go\<close>, \<open>replacement.go\<close> and the lifecycle of
    \<open>handle.go\<close> and \<open>run.go\<close>: one live runtime per workspace, what \<open>Acquire\<close> hands out, one watcher.
  \<^item> \<open>Interact\<close>, \<open>Prompts\<close>, \<open>PromptsLaws\<close> are \<open>interact.go\<close>, \<open>broker.go\<close>, the desktop's \<open>prompt.go\<close> and
    \<open>autoapprove.go\<close>, and the tools that ask. They compose with \<open>ExecPolicy\<close>: a command is approved or
    leaves the sandbox only on a click of the user on exactly that prompt.
  \<^item> \<open>Agents\<close>, \<open>AgentsLaws\<close> are \<open>lifecycle.go\<close>, \<open>assemble.go\<close> and \<open>tool.go\<close> of \<open>capabilities/agents\<close>: what is
    live is what is declared over every history, creations and updates are all or nothing, and the tools
    compose with the prompts: nothing changes without the user's yes.
  \<^item> \<open>Plugins\<close>, \<open>PluginsLaws\<close> are \<open>permissions.go\<close>, \<open>secret.go\<close> and the manifest reading of \<open>plugin.go\<close> in
    \<open>capabilities/plugins\<close>: what an accepted manifest is, the grants its permission names come to, the order of
    versions (a chain of \<open>sign_order\<close> interpretations), and that what authoring accepts the registry loads.
    \<open>PluginDisk\<close> is a file system any call of which may fail, with a calculus of what an operation ends in;
    over it \<open>PluginStore\<close>, \<open>PluginStoreLaws\<close> are the registry of \<open>plugin.go\<close>, \<open>zip.go\<close> and \<open>kv.go\<close>: no update
    loses a version, no plugin touches another, a data file is old or new, an archive stays inside.
    \<open>PluginHistoryLaws\<close> lets the sections of installations and updates interleave with every other call: what
    is installed stays something the registry can serve.

  \<^bold>\<open>Loops and bounds.\<close> Structural recursion and measures carry all loops but the three recurrence scans.
  No theorem is about a bounded number of goroutines, calls or entries; the constants that appear
  (ten redirects, a hundred runs, four pending folds, eight verbatim tool results, 2000 characters, nine
  sections per ask) are the code's or counted from it.

  \<^bold>\<open>Where the code leaves its promise.\<close> Theorems that end a laws theory are traces of that: a scan that
  races with \<open>RunNow\<close>, an interval that wraps, a second fold that names stale rows, an invalidation lost
  during an assembly, a prompt shown after its resolution, plugin names that collide on the disk. The properties beside them are
  stated so that the traces do not contradict them.

  \<^bold>\<open>Not modelled.\<close> The turn itself and its message, agent and event types live in the \<open>flowcraft\<close>
  modules, outside \<open>src/\<close>: what the code needs of them is a parameter or a named hypothesis. The exec
  wire and the sandbox are protocol frames and system calls; the session, review, usage and memory
  stores are SQL statements; configuration and skills read and write documents and archives; a plugin's subprocess is a protocol; the desktop
  bindings forward to the components; the frontend is TypeScript. JSON and YAML codecs are
  parameters. Timeouts and cancelled contexts appear as inputs that may come at any time, not as a clock.
\<close>

end
